(* ===== verification/Go_Prelude.thy ===== *)
theory Go_Prelude
  imports Main "HOL-Library.AList" "HOL-Library.Char_ord" "HOL-Library.List_Lexorder"
begin

text \<open>
  The parts of the Go language and of its standard library that every component uses:
  results with errors and panics, the \<open>strings\<close> and \<open>strconv\<close> functions the sources call,
  and Go maps. A Go map is an association list with distinct keys; the position of an entry
  is its place in the (unspecified) iteration order, so a statement about every such list is
  a statement about every order in which Go may range over the map.
\<close>

named_theorems go_strings \<open>facts about the string functions\<close>
named_theorems go_maps \<open>facts about Go maps\<close>

section \<open>Results\<close>

text \<open>
  An error is identified by the message constant it is created with (the formatted arguments
  are left out); \<open>WithMessage\<close> is an error wrapped with a further message and \<open>Foreign\<close> one
  that a library returned. A Go panic is not an error: it is never caught by an
  \<open>err != nil\<close> test, so it is a constructor of its own.
\<close>

datatype goerr = Errorf string | WithMessage goerr string | Foreign string

datatype 'a res = Ok (the_ok: 'a) | Err (the_err: goerr) | Panic

fun res_bind :: "'a res \<times> 's \<Rightarrow> ('a \<Rightarrow> 's \<Rightarrow> 'b res \<times> 's) \<Rightarrow> 'b res \<times> 's" where
  "res_bind (Ok a, s) f = f a s"
| "res_bind (Err e, s) f = (Err e, s)"
| "res_bind (Panic, s) f = (Panic, s)"

fun res_wrap :: "string \<Rightarrow> 'a res \<times> 's \<Rightarrow> 'a res \<times> 's" where
  "res_wrap m (Err e, s) = (Err (WithMessage e m), s)"
| "res_wrap m (r, s) = (r, s)"

lemma res_bind_Ok_iff:
  "res_bind rs f = (Ok b, s'') \<longleftrightarrow> (\<exists>a s'. rs = (Ok a, s') \<and> f a s' = (Ok b, s''))"
  by (cases "(rs, f)" rule: res_bind.cases) auto

lemma res_wrap_Ok_iff [simp]: "res_wrap m rs = (Ok b, s') \<longleftrightarrow> rs = (Ok b, s')"
  by (cases "(m, rs)" rule: res_wrap.cases) auto

section \<open>Package strings\<close>

fun split_on :: "char \<Rightarrow> string \<Rightarrow> string list" where
  "split_on c [] = [[]]"
| "split_on c (x # xs) =
     (if x = c then [] # split_on c xs
      else (case split_on c xs of [] \<Rightarrow> [[x]] | y # ys \<Rightarrow> (x # y) # ys))"

fun join_with :: "string \<Rightarrow> string list \<Rightarrow> string" where
  "join_with sep [] = []"
| "join_with sep [x] = x"
| "join_with sep (x # y # zs) = x @ sep @ join_with sep (y # zs)"

definition TrimLeft :: "char \<Rightarrow> string \<Rightarrow> string" where
  "TrimLeft c s = dropWhile (\<lambda>x. x = c) s"

definition TrimRight :: "char \<Rightarrow> string \<Rightarrow> string" where
  "TrimRight c s = rev (dropWhile (\<lambda>x. x = c) (rev s))"

definition HasPrefix :: "string \<Rightarrow> string \<Rightarrow> bool" where
  "HasPrefix s p \<longleftrightarrow> take (length p) s = p"

definition TrimPrefix :: "string \<Rightarrow> string \<Rightarrow> string" where
  "TrimPrefix s p = (if HasPrefix s p then drop (length p) s else s)"

definition TrimSuffix :: "string \<Rightarrow> string \<Rightarrow> string" where
  "TrimSuffix s p =
     (if HasPrefix (rev s) (rev p) then take (length s - length p) s else s)"

definition ReplaceAll :: "char \<Rightarrow> char \<Rightarrow> string \<Rightarrow> string" where
  "ReplaceAll a b s = map (\<lambda>x. if x = a then b else x) s"

lemma split_on_nonempty [simp]: "split_on c s \<noteq> []"
  by (induction s) (auto split: list.splits)

lemma split_on_free [go_strings]: "c \<notin> set s \<Longrightarrow> split_on c s = [s]"
  by (induction s) auto

lemma split_on_append [go_strings]:
  "c \<notin> set s \<Longrightarrow> split_on c (s @ c # t) = s # split_on c t"
  by (induction s) auto

lemma split_on_parts_free: "p \<in> set (split_on c s) \<Longrightarrow> c \<notin> set p"
  by (induction s arbitrary: p) (auto split: if_splits list.splits)

lemma length_split_on: "length (split_on c s) = Suc (length (filter (\<lambda>x. x = c) s))"
  by (induction s) (auto split: list.splits)

lemma split_on_single_iff: "length (split_on c s) = 1 \<longleftrightarrow> c \<notin> set s"
  by (auto simp: length_split_on filter_empty_conv)

lemma join_split_on: "join_with [c] (split_on c s) = s"
proof (induction s)
  case (Cons x s)
  then show ?case
    by (cases "split_on c s"; cases "tl (split_on c s)") auto
qed simp

lemma split_on_join [go_strings]:
  "ps \<noteq> [] \<Longrightarrow> \<forall>p \<in> set ps. c \<notin> set p \<Longrightarrow> split_on c (join_with [c] ps) = ps"
  by (induction "[c]" ps rule: join_with.induct) (auto simp: go_strings)

lemma join_with_append:
  "ps \<noteq> [] \<Longrightarrow> qs \<noteq> [] \<Longrightarrow>
   join_with sep (ps @ qs) = join_with sep ps @ sep @ join_with sep qs"
proof (induction sep ps rule: join_with.induct)
  case (2 sep x)
  then show ?case by (cases qs) auto
qed auto

lemma HasPrefix_append [simp]: "HasPrefix (p @ s) p"
  by (simp add: HasPrefix_def)

lemma HasPrefix_iff: "HasPrefix s p \<longleftrightarrow> (\<exists>t. s = p @ t)"
  unfolding HasPrefix_def by (metis append_eq_conv_conj append_take_drop_id)

lemma TrimPrefix_append [simp]: "TrimPrefix (p @ s) p = s"
  by (simp add: TrimPrefix_def)

lemma TrimSuffix_append [simp]: "TrimSuffix (s @ p) p = s"
  by (simp add: TrimSuffix_def HasPrefix_def)

lemma TrimLeft_Cons_eq [simp]: "TrimLeft c (c # s) = TrimLeft c s"
  by (simp add: TrimLeft_def)

lemma TrimLeft_id: "s = [] \<or> hd s \<noteq> c \<Longrightarrow> TrimLeft c s = s"
  by (cases s) (auto simp: TrimLeft_def)

lemma TrimLeft_free [go_strings]: "c \<notin> set s \<Longrightarrow> TrimLeft c s = s"
  by (cases s) (auto simp: TrimLeft_def)

lemma TrimRight_id: "s = [] \<or> last s \<noteq> c \<Longrightarrow> TrimRight c s = s"
  by (cases s rule: rev_cases) (auto simp: TrimRight_def)

lemma ReplaceAll_back: "b \<notin> set s \<Longrightarrow> ReplaceAll b a (ReplaceAll a b s) = s"
  by (induction s) (auto simp: ReplaceAll_def)

section \<open>Package strconv\<close>

definition digit_char :: "nat \<Rightarrow> char" where
  "digit_char d = char_of (48 + d)"

definition is_digit :: "char \<Rightarrow> bool" where
  "is_digit c \<longleftrightarrow> 48 \<le> (of_char c :: nat) \<and> (of_char c :: nat) \<le> 57"

definition digit_val :: "char \<Rightarrow> nat" where
  "digit_val c = of_char c - 48"

fun FormatUint :: "nat \<Rightarrow> string" where
  "FormatUint n =
     (if n < 10 then [digit_char n] else FormatUint (n div 10) @ [digit_char (n mod 10)])"

declare FormatUint.simps [simp del]

definition dec_value :: "string \<Rightarrow> nat" where
  "dec_value s = foldl (\<lambda>acc c. 10 * acc + digit_val c) 0 s"

definition ParseUint :: "string \<Rightarrow> nat \<Rightarrow> nat option" where
  "ParseUint s bits =
     (if s \<noteq> [] \<and> list_all is_digit s \<and> dec_value s < 2 ^ bits then Some (dec_value s)
      else None)"

lemma of_char_digit_char: "d < 10 \<Longrightarrow> of_char (digit_char d) = 48 + d"
  by (simp add: digit_char_def)

lemma digit_char_props [simp]:
  "d < 10 \<Longrightarrow> is_digit (digit_char d)" "d < 10 \<Longrightarrow> digit_val (digit_char d) = d"
  by (simp_all add: is_digit_def digit_val_def of_char_digit_char)

lemma FormatUint_nonempty [simp]: "FormatUint n \<noteq> []"
  by (subst FormatUint.simps) simp

lemma FormatUint_digits: "list_all is_digit (FormatUint n)"
proof (induction n rule: FormatUint.induct)
  case (1 n)
  then show ?case by (simp add: FormatUint.simps [of n])
qed

lemma dec_value_snoc [simp]: "dec_value (s @ [c]) = 10 * dec_value s + digit_val c"
  by (simp add: dec_value_def)

lemma dec_value_FormatUint [simp]: "dec_value (FormatUint n) = n"
proof (induction n rule: FormatUint.induct)
  case (1 n)
  show ?case
  proof (cases "n < 10")
    case True
    then show ?thesis by (simp add: FormatUint.simps [of n] dec_value_def)
  next
    case False
    with 1 show ?thesis by (simp add: FormatUint.simps [of n])
  qed
qed

lemma ParseUint_FormatUint [simp]: "n < 2 ^ bits \<Longrightarrow> ParseUint (FormatUint n) bits = Some n"
  by (simp add: ParseUint_def FormatUint_digits)

lemma FormatUint_inject [simp]: "FormatUint m = FormatUint n \<longleftrightarrow> m = n"
  by (metis dec_value_FormatUint)

lemma FormatUint_free [go_strings]: "\<not> is_digit c \<Longrightarrow> c \<notin> set (FormatUint n)"
  using FormatUint_digits [of n] by (auto simp: list_all_iff)

lemma FormatUint_is_digit: "c \<in> set (FormatUint n) \<Longrightarrow> is_digit c"
  using FormatUint_digits [of n] by (auto simp: list_all_iff)

lemma not_digit_sep [simp]:
  "\<not> is_digit CHR ''.''" "\<not> is_digit CHR ''/''" "\<not> is_digit CHR '':''" "\<not> is_digit CHR ''-''"
  "\<not> is_digit CHR ''%''"
  by (simp_all add: is_digit_def)

text \<open>A number below 1000 has at most three digits, and only 0 has a leading zero.\<close>

lemma FormatUint_hd: "0 < n \<Longrightarrow> hd (FormatUint n) \<noteq> CHR ''0''"
proof (induction n rule: FormatUint.induct)
  case (1 n)
  show ?case
  proof (cases "n < 10")
    case True
    have "(of_char (digit_char n) :: nat) \<noteq> of_char CHR ''0''"
      using True 1(2) by (simp add: of_char_digit_char)
    then show ?thesis using True by (auto simp: FormatUint.simps [of n])
  next
    case False
    with 1(1) have "hd (FormatUint (n div 10)) \<noteq> CHR ''0''" by simp
    with False show ?thesis by (simp add: FormatUint.simps [of n])
  qed
qed

lemma FormatUint_length: "n < 10 ^ Suc k \<Longrightarrow> length (FormatUint n) \<le> Suc k"
proof (induction k arbitrary: n)
  case 0
  then show ?case by (simp add: FormatUint.simps [of n])
next
  case (Suc k)
  have "n div 10 < 10 ^ Suc k" using Suc.prems by (simp add: less_mult_imp_div_less mult.commute)
  then have "length (FormatUint (n div 10)) \<le> Suc k" by (rule Suc.IH)
  then show ?case by (simp add: FormatUint.simps [of n])
qed

section \<open>Package time\<close>

text \<open>
  A \<open>time.Time\<close> is an instant in nanoseconds with a mark for the monotonic reading that
  \<open>time.Now\<close> attaches and a parsed time lacks: \<open>==\<close> sees the mark, \<open>After\<close> and \<open>Before\<close>
  compare the instants. Instant 0 without the mark is the zero value.
\<close>

datatype gotime = Time (instant: int) (monotonic: bool)

definition zero_time :: gotime where
  "zero_time = Time 0 False"

definition time_After :: "gotime \<Rightarrow> gotime \<Rightarrow> bool" where
  "time_After t u \<longleftrightarrow> instant u < instant t"

definition minutes :: "int \<Rightarrow> int" where
  "minutes m = m * 60 * 1000000000"

section \<open>Go maps\<close>

type_synonym ('k, 'v) gomap = "('k \<times> 'v) list"

abbreviation gomap_set :: "('k, 'v) gomap \<Rightarrow> 'k \<Rightarrow> 'v \<Rightarrow> ('k, 'v) gomap" where
  "gomap_set m k v \<equiv> AList.update k v m"

abbreviation gomap_delete :: "('k, 'v) gomap \<Rightarrow> 'k \<Rightarrow> ('k, 'v) gomap" where
  "gomap_delete m k \<equiv> AList.delete k m"

abbreviation gomap_keys :: "('k, 'v) gomap \<Rightarrow> 'k list" where
  "gomap_keys m \<equiv> map fst m"

definition gomap_ok :: "('k, 'v) gomap \<Rightarrow> bool" where
  "gomap_ok m \<longleftrightarrow> distinct (map fst m)"

lemma gomap_ok_Nil [simp]: "gomap_ok []"
  by (simp add: gomap_ok_def)

lemma gomap_ok_set [simp]: "gomap_ok m \<Longrightarrow> gomap_ok (gomap_set m k v)"
  by (simp add: gomap_ok_def distinct_update)

lemma gomap_ok_delete [simp]: "gomap_ok m \<Longrightarrow> gomap_ok (gomap_delete m k)"
  by (simp add: gomap_ok_def distinct_delete)

lemma gomap_get_set [simp]: "map_of (gomap_set m k v) = (map_of m)(k \<mapsto> v)"
  by (rule update_conv')

lemma gomap_get_delete [simp]: "map_of (gomap_delete m k) = (map_of m)(k := None)"
  by (rule delete_conv')

lemma gomap_mem_iff: "gomap_ok m \<Longrightarrow> (k, v) \<in> set m \<longleftrightarrow> map_of m k = Some v"
  by (auto simp: gomap_ok_def)

lemma gomap_keys_dom: "set (gomap_keys m) = dom (map_of m)"
  by (simp add: dom_map_of_conv_image_fst)

text \<open>A map filled in a loop over a list, with entries that are skipped.\<close>

definition gomap_collect :: "('a \<Rightarrow> ('k \<times> 'v) option) \<Rightarrow> 'a list \<Rightarrow> ('k, 'v) gomap" where
  "gomap_collect f xs =
     foldl (\<lambda>m x. case f x of None \<Rightarrow> m | Some (k, v) \<Rightarrow> gomap_set m k v) [] xs"

lemma gomap_collect_snoc: "gomap_collect f (xs @ [x]) =
  (case f x of None \<Rightarrow> gomap_collect f xs | Some (k, v) \<Rightarrow> gomap_set (gomap_collect f xs) k v)"
  unfolding gomap_collect_def by simp

lemma gomap_collect_ok [simp]: "gomap_ok (gomap_collect f xs)"
proof (induction xs rule: rev_induct)
  case Nil
  then show ?case by (simp add: gomap_collect_def)
next
  case (snoc x xs)
  then show ?case by (auto simp: gomap_collect_snoc split: option.splits)
qed

lemma gomap_collect_iff:
  assumes "\<And>x y k v w. x \<in> set xs \<Longrightarrow> y \<in> set xs \<Longrightarrow> f x = Some (k, v) \<Longrightarrow> f y = Some (k, w) \<Longrightarrow> v = w"
  shows "map_of (gomap_collect f xs) k = Some v \<longleftrightarrow> (\<exists>x \<in> set xs. f x = Some (k, v))"
  using assms
proof (induction xs rule: rev_induct)
  case Nil
  then show ?case by (simp add: gomap_collect_def)
next
  case (snoc x xs)
  have IH: "map_of (gomap_collect f xs) k = Some v \<longleftrightarrow> (\<exists>x \<in> set xs. f x = Some (k, v))"
    by (rule snoc.IH, rule snoc.prems) auto
  show ?case
  proof (cases "f x")
    case None
    then show ?thesis using IH by (simp add: gomap_collect_snoc)
  next
    case (Some kv)
    obtain k' v' where kv: "kv = (k', v')" by force
    show ?thesis
    proof (cases "k' = k")
      case True
      then show ?thesis
        using Some kv snoc.prems [of x _ k v'] by (auto simp: gomap_collect_snoc)
    next
      case False
      then show ?thesis using Some kv IH by (simp add: gomap_collect_snoc)
    qed
  qed
qed

end
