(* ===== verification/Net_IP.thy ===== *)
theory Net_IP
  imports Go_Prelude "HOL-Library.Word"
begin

text \<open>
  What the sources use of Go's package \<open>net\<close>: addresses are byte slices (\<open>nil\<close> is the empty
  list, an IPv4 address has 4 bytes or the 16 bytes of its IPv4-in-IPv6 form), networks are an
  address with a byte mask, and both are parsed from and printed to text as \<open>net.ParseIP\<close>,
  \<open>net.ParseCIDR\<close> and the \<open>String\<close> methods do it.
\<close>

unbundle bit_operations_syntax

type_synonym byte = "8 word"
type_synonym net_ip = "byte list"

section \<open>Addresses\<close>

definition v4InV6Prefix :: "byte list" where
  "v4InV6Prefix = replicate 10 0 @ [255, 255]"

definition To4 :: "net_ip \<Rightarrow> net_ip" where
  "To4 ip =
     (if length ip = 4 then ip
      else if length ip = 16 \<and> take 12 ip = v4InV6Prefix then drop 12 ip
      else [])"

definition ip_Equal :: "net_ip \<Rightarrow> net_ip \<Rightarrow> bool" where
  "ip_Equal ip x =
     (if length ip = length x then ip = x
      else if length ip = 4 \<and> length x = 16 then take 12 x = v4InV6Prefix \<and> ip = drop 12 x
      else if length ip = 16 \<and> length x = 4 then take 12 ip = v4InV6Prefix \<and> drop 12 ip = x
      else False)"

section \<open>Printing\<close>

definition hex_digit :: "nat \<Rightarrow> char" where
  "hex_digit d = (if d < 10 then digit_char d else char_of (87 + d))"

fun hex_nat :: "nat \<Rightarrow> string" where
  "hex_nat n = (if n < 16 then [hex_digit n] else hex_nat (n div 16) @ [hex_digit (n mod 16)])"

declare hex_nat.simps [simp del]

definition hex_bytes :: "byte list \<Rightarrow> string" where
  "hex_bytes bs = concat (map (\<lambda>b. [hex_digit (unat b div 16), hex_digit (unat b mod 16)]) bs)"

definition ip4_String :: "byte list \<Rightarrow> string" where
  "ip4_String bs = join_with ''.'' (map (\<lambda>b. FormatUint (unat b)) bs)"

fun ip6_groups :: "byte list \<Rightarrow> nat list" where
  "ip6_groups (h # l # bs) = (256 * unat h + unat l) # ip6_groups bs"
| "ip6_groups _ = []"

definition zero_run :: "nat list \<Rightarrow> nat \<Rightarrow> nat" where
  "zero_run gs i = length (takeWhile (\<lambda>g. g = 0) (drop i gs))"

definition longest_zero_run :: "nat list \<Rightarrow> nat \<times> nat" where
  "longest_zero_run gs =
     foldl (\<lambda>(s, e) i. if 2 \<le> zero_run gs i \<and> e - s < zero_run gs i
                       then (i, i + zero_run gs i) else (s, e)) (255, 255) [0..<8]"

definition ip6_String :: "byte list \<Rightarrow> string" where
  "ip6_String bs =
     (let gs = ip6_groups bs; (s, e) = longest_zero_run gs
      in if s = 255 then join_with '':'' (map hex_nat gs)
         else join_with '':'' (map hex_nat (take s gs)) @ ''::'' @
              join_with '':'' (map hex_nat (drop e gs)))"

definition ip_String :: "net_ip \<Rightarrow> string" where
  "ip_String ip =
     (if ip = [] then ''<nil>''
      else if length ip \<noteq> 4 \<and> length ip \<noteq> 16 then ''?'' @ hex_bytes ip
      else if To4 ip \<noteq> [] then ip4_String (To4 ip)
      else ip6_String ip)"

section \<open>Parsing\<close>

definition ipv4_field :: "string \<Rightarrow> byte option" where
  "ipv4_field f =
     (if f \<noteq> [] \<and> list_all is_digit f \<and> (1 < length f \<longrightarrow> hd f \<noteq> CHR ''0'')
         \<and> dec_value f \<le> 255
      then Some (of_nat (dec_value f)) else None)"

definition parse_ipv4 :: "string \<Rightarrow> byte list option" where
  "parse_ipv4 s =
     (let fs = split_on CHR ''.'' s
      in if length fs = 4 then those (map ipv4_field fs) else None)"

definition is_hex :: "char \<Rightarrow> bool" where
  "is_hex c \<longleftrightarrow> is_digit c \<or> (97 \<le> (of_char c :: nat) \<and> (of_char c :: nat) \<le> 102)
     \<or> (65 \<le> (of_char c :: nat) \<and> (of_char c :: nat) \<le> 70)"

definition hex_val :: "char \<Rightarrow> nat" where
  "hex_val c = (if is_digit c then digit_val c
     else if 97 \<le> (of_char c :: nat) then of_char c - 87 else of_char c - 55)"

definition hex_value :: "string \<Rightarrow> nat" where
  "hex_value s = foldl (\<lambda>acc c. 16 * acc + hex_val c) 0 s"

text \<open>
  The loop of the IPv6 parser: \<open>k\<close> bounds the 16-bit groups still to be read, \<open>acc\<close> holds the
  bytes read so far and \<open>el\<close> the position of the ellipsis, if there was one.
\<close>

fun parse_ipv6_groups ::
  "nat \<Rightarrow> string \<Rightarrow> byte list \<Rightarrow> nat option \<Rightarrow> (string \<times> byte list \<times> nat option) option"
where
  "parse_ipv6_groups 0 s acc el = Some (s, acc, el)"
| "parse_ipv6_groups (Suc k) s acc el =
     (let hs = takeWhile is_hex s; rest = dropWhile is_hex s in
      if hs = [] \<or> 4 < length hs then None
      else if rest \<noteq> [] \<and> hd rest = CHR ''.'' then
        (if el = None \<and> length acc \<noteq> 12 then None
         else if 16 < length acc + 4 then None
         else case parse_ipv4 s of None \<Rightarrow> None | Some b \<Rightarrow> Some ([], acc @ b, el))
      else
        (let acc' = acc @ [of_nat (hex_value hs div 256), of_nat (hex_value hs)] in
         case rest of
           [] \<Rightarrow> Some ([], acc', el)
         | c # s1 \<Rightarrow>
             if c \<noteq> CHR '':'' \<or> s1 = [] then None
             else if hd s1 = CHR '':'' then
               (if el \<noteq> None then None
                else if tl s1 = [] then Some ([], acc', Some (length acc'))
                else parse_ipv6_groups k (tl s1) acc' (Some (length acc')))
             else parse_ipv6_groups k s1 acc' el))"

definition parse_ipv6 :: "string \<Rightarrow> byte list option" where
  "parse_ipv6 s =
     (if CHR ''%'' \<in> set s then None
      else let lead = HasPrefix s ''::''; s1 = (if lead then drop 2 s else s);
               el = (if lead then Some 0 else None)
           in if lead \<and> s1 = [] then Some (replicate 16 0)
              else case parse_ipv6_groups 8 s1 [] el of
                None \<Rightarrow> None
              | Some (s2, acc, el2) \<Rightarrow>
                  if s2 \<noteq> [] then None
                  else if length acc < 16 then
                    (case el2 of None \<Rightarrow> None
                     | Some e \<Rightarrow> Some (take e acc @ replicate (16 - length acc) 0 @ drop e acc))
                  else if el2 \<noteq> None then None else Some acc)"

text \<open>
  \<open>netip.ParseAddr\<close>: the first of the three separators decides between the two syntaxes. The
  result is the address with its number of bits (an IPv4 address in 16-byte form has 32).
\<close>

definition parse_addr :: "string \<Rightarrow> (net_ip \<times> nat) option" where
  "parse_addr s =
     (case dropWhile (\<lambda>c. c \<noteq> CHR ''.'' \<and> c \<noteq> CHR '':'' \<and> c \<noteq> CHR ''%'') s of
        [] \<Rightarrow> None
      | c # _ \<Rightarrow>
          if c = CHR ''.'' then map_option (\<lambda>b. (v4InV6Prefix @ b, 32)) (parse_ipv4 s)
          else if c = CHR '':'' then map_option (\<lambda>b. (b, 128)) (parse_ipv6 s)
          else None)"

definition ParseIP :: "string \<Rightarrow> net_ip" where
  "ParseIP s = (case parse_addr s of None \<Rightarrow> [] | Some (ip, _) \<Rightarrow> ip)"

section \<open>Networks\<close>

record ipnet =
  ipnet_IP :: net_ip
  ipnet_Mask :: "byte list"

definition mask_byte :: "nat \<Rightarrow> byte" where
  "mask_byte k = of_nat (256 - 2 ^ (8 - k))"

definition CIDRMask :: "nat \<Rightarrow> nat \<Rightarrow> byte list" where
  "CIDRMask ones bits = map (\<lambda>i. mask_byte (min 8 (ones - 8 * i))) [0..<bits div 8]"

fun simpleMaskLength :: "byte list \<Rightarrow> nat option" where
  "simpleMaskLength [] = Some 0"
| "simpleMaskLength (v # vs) =
     (if v = 255 then map_option (\<lambda>n. 8 + n) (simpleMaskLength vs)
      else if list_all (\<lambda>b. b = 0) vs then find (\<lambda>k. v = mask_byte k) [0..<8]
      else None)"

definition mask_Size :: "byte list \<Rightarrow> nat \<times> nat" where
  "mask_Size m = (case simpleMaskLength m of None \<Rightarrow> (0, 0) | Some n \<Rightarrow> (n, 8 * length m))"

definition ip_Mask :: "net_ip \<Rightarrow> byte list \<Rightarrow> net_ip" where
  "ip_Mask ip m =
     (let m' = (if length m = 16 \<and> length ip = 4 \<and> list_all (\<lambda>b. b = 255) (take 12 m)
                then drop 12 m else m);
          ip' = (if length m' = 4 \<and> length ip = 16 \<and> take 12 ip = v4InV6Prefix
                 then drop 12 ip else ip)
      in if length ip' \<noteq> length m' then [] else map2 (AND) ip' m')"

definition networkNumberAndMask :: "ipnet \<Rightarrow> (net_ip \<times> byte list) option" where
  "networkNumberAndMask n =
     (let ip = (if To4 (ipnet_IP n) \<noteq> [] then To4 (ipnet_IP n) else ipnet_IP n);
          m = ipnet_Mask n
      in if length ip \<noteq> 4 \<and> length ip \<noteq> 16 then None
         else if length m = 4 then (if length ip \<noteq> 4 then None else Some (ip, m))
         else if length m = 16 then Some (ip, if length ip = 4 then drop 12 m else m)
         else None)"

definition ipnet_Contains :: "ipnet \<Rightarrow> net_ip \<Rightarrow> bool" where
  "ipnet_Contains n ip =
     (let ip' = (if To4 ip \<noteq> [] then To4 ip else ip)
      in case networkNumberAndMask n of
           None \<Rightarrow> ip' = []
         | Some (nn, m) \<Rightarrow> length ip' = length nn \<and> map2 (AND) nn m = map2 (AND) ip' m)"

definition ipnet_String :: "ipnet \<Rightarrow> string" where
  "ipnet_String n =
     (case networkNumberAndMask n of
        None \<Rightarrow> ''<nil>''
      | Some (nn, m) \<Rightarrow>
          (case simpleMaskLength m of
             None \<Rightarrow> ip_String nn @ ''/'' @ hex_bytes m
           | Some l \<Rightarrow> ip_String nn @ ''/'' @ FormatUint l))"

definition ParseCIDR :: "string \<Rightarrow> (net_ip \<times> ipnet) option" where
  "ParseCIDR s =
     (let addr = takeWhile (\<lambda>c. c \<noteq> CHR ''/'') s; rest = dropWhile (\<lambda>c. c \<noteq> CHR ''/'') s
      in if rest = [] then None
         else case parse_addr addr of
           None \<Rightarrow> None
         | Some (ip, bits) \<Rightarrow>
             let ms = tl rest in
             if ms = [] \<or> \<not> list_all is_digit ms \<or> bits < dec_value ms then None
             else let m = CIDRMask (dec_value ms) bits
                  in Some (ip, \<lparr>ipnet_IP = ip_Mask ip m, ipnet_Mask = m\<rparr>))"

section \<open>IPv4 text\<close>

lemma length4_conv: "length bs = 4 \<longleftrightarrow> (\<exists>a b c d. bs = [a, b, c, d])"
  by (auto simp: length_Suc_conv numeral_eq_Suc)

lemma length_v4InV6Prefix [simp]: "length v4InV6Prefix = 12"
  by (simp add: v4InV6Prefix_def)

lemma v4InV6Prefix_nonempty [simp]: "v4InV6Prefix \<noteq> []"
  by (simp add: v4InV6Prefix_def)

lemma To4_ip4 [simp]: "length bs = 4 \<Longrightarrow> To4 bs = bs"
  and To4_mapped [simp]: "length bs = 4 \<Longrightarrow> To4 (v4InV6Prefix @ bs) = bs"
  by (simp_all add: To4_def)

lemma ip_Equal_ip4 [simp]:
  "length a = 4 \<Longrightarrow> length b = 4 \<Longrightarrow> ip_Equal a b \<longleftrightarrow> a = b"
  "length a = 4 \<Longrightarrow> length b = 4 \<Longrightarrow> ip_Equal a (v4InV6Prefix @ b) \<longleftrightarrow> a = b"
  "length a = 4 \<Longrightarrow> length b = 4 \<Longrightarrow> ip_Equal (v4InV6Prefix @ a) b \<longleftrightarrow> a = b"
  by (simp_all add: ip_Equal_def)

lemma ip_Equal_refl [simp]: "ip_Equal a a"
  by (simp add: ip_Equal_def)

lemma unat_byte_less [simp]: "unat (b :: byte) < 256"
  using unsigned_less [of b] by simp

lemma ipv4_field_FormatUint [simp]: "ipv4_field (FormatUint (unat (b :: byte))) = Some b"
proof -
  have "1 < length (FormatUint (unat b)) \<Longrightarrow> hd (FormatUint (unat b)) \<noteq> CHR ''0''"
    by (rule FormatUint_hd) (auto simp: FormatUint.simps [of 0] intro: gr0I)
  moreover have "unat b \<le> 255" using unat_byte_less [of b] by linarith
  ultimately show ?thesis by (simp add: ipv4_field_def FormatUint_digits)
qed

lemma parse_ip4_String: "length bs = 4 \<Longrightarrow> parse_ipv4 (ip4_String bs) = Some bs"
  by (auto simp: length4_conv parse_ipv4_def ip4_String_def split_on_append split_on_free
        FormatUint_free)

lemma ip_String_ip4:
  assumes "length bs = 4"
  shows "ip_String bs = ip4_String bs" "ip_String (v4InV6Prefix @ bs) = ip4_String bs"
  using assms by (auto simp: ip_String_def)

lemma dropWhile_free_append:
  "(\<And>x. x \<in> set xs \<Longrightarrow> P x) \<Longrightarrow> \<not> P y \<Longrightarrow> dropWhile P (xs @ y # ys) = y # ys"
  by (simp add: dropWhile_append3)

lemma parse_addr_ip4 [simp]:
  assumes "length bs = 4"
  shows "parse_addr (ip4_String bs) = Some (v4InV6Prefix @ bs, 32)"
proof -
  obtain a b c d where bs: "bs = [a, b, c, d]" using assms by (auto simp: length4_conv)
  have "dropWhile (\<lambda>c. c \<noteq> CHR ''.'' \<and> c \<noteq> CHR '':'' \<and> c \<noteq> CHR ''%'') (ip4_String bs) =
    CHR ''.'' # join_with ''.'' (map (\<lambda>b. FormatUint (unat b)) [b, c, d])"
    unfolding bs ip4_String_def list.map join_with.simps append_Cons append_Nil
    by (rule dropWhile_free_append) (auto dest: FormatUint_is_digit)
  then show ?thesis using assms by (simp add: parse_addr_def parse_ip4_String)
qed

lemma ParseIP_ip4 [simp]: "length bs = 4 \<Longrightarrow> ParseIP (ip4_String bs) = v4InV6Prefix @ bs"
  by (simp add: ParseIP_def)

lemma ip4_String_inject [simp]:
  "length a = 4 \<Longrightarrow> length b = 4 \<Longrightarrow> ip4_String a = ip4_String b \<longleftrightarrow> a = b"
  by (metis option.inject parse_ip4_String)

lemma join_with_free: "c \<notin> set sep \<Longrightarrow> \<forall>p \<in> set ps. c \<notin> set p \<Longrightarrow> c \<notin> set (join_with sep ps)"
  by (induction sep ps rule: join_with.induct) auto

lemma ip4_String_free:
  "\<not> is_digit c \<Longrightarrow> c \<noteq> CHR ''.'' \<Longrightarrow> c \<notin> set (ip4_String bs)"
  unfolding ip4_String_def by (rule join_with_free) (auto simp: FormatUint_free)

lemma ip4_String_nonempty [simp]: "length bs = 4 \<Longrightarrow> ip4_String bs \<noteq> []"
  by (auto simp: length4_conv ip4_String_def)

lemma hex_digit_slash: "d < 16 \<Longrightarrow> hex_digit d \<noteq> CHR ''/''"
proof -
  have "\<forall>d \<in> set [0..<16]. hex_digit d \<noteq> CHR ''/''" by code_simp
  then show "d < 16 \<Longrightarrow> ?thesis" by auto
qed

lemma hex_nat_slash: "CHR ''/'' \<notin> set (hex_nat n)"
proof (induction n rule: hex_nat.induct)
  case (1 n)
  show ?case
  proof (cases "n < 16")
    case True
    then show ?thesis using hex_digit_slash [of n] by (simp add: hex_nat.simps [of n])
  next
    case False
    then show ?thesis using 1 hex_digit_slash [of "n mod 16"] by (simp add: hex_nat.simps [of n])
  qed
qed

lemma ip_String_slash: "CHR ''/'' \<notin> set (ip_String ip)"
proof -
  have "hex_digit (unat b div 16) \<noteq> CHR ''/''" "hex_digit (unat b mod 16) \<noteq> CHR ''/''" for b :: byte
    using unat_byte_less [of b] by (auto intro!: hex_digit_slash simp: less_mult_imp_div_less)
  then have "CHR ''/'' \<notin> set (hex_bytes bs)" for bs
    by (induction bs) (simp_all add: hex_bytes_def not_sym)
  moreover have "CHR ''/'' \<notin> set (join_with '':'' (map hex_nat gs))" for gs
    by (rule join_with_free) (auto simp: hex_nat_slash)
  ultimately show ?thesis
    using ip4_String_free [of "CHR ''/''"]
    by (simp add: ip_String_def ip6_String_def Let_def split: prod.splits)
qed

section \<open>IPv4 networks\<close>

text \<open>The canonical form \<open>ParseCIDR\<close> produces for an IPv4 prefix.\<close>

definition ip4_net :: "ipnet \<Rightarrow> nat \<Rightarrow> bool" where
  "ip4_net n p \<longleftrightarrow>
     p \<le> 32 \<and> length (ipnet_IP n) = 4 \<and> ipnet_Mask n = CIDRMask p 32
     \<and> map2 (AND) (ipnet_IP n) (ipnet_Mask n) = ipnet_IP n"

lemma ip4_netD:
  assumes "ip4_net n p"
  shows "p \<le> 32" "length (ipnet_IP n) = 4" "ipnet_Mask n = CIDRMask p 32"
    "map2 (AND) (ipnet_IP n) (CIDRMask p 32) = ipnet_IP n"
  using assms by (auto simp: ip4_net_def)

lemma length_CIDRMask32 [simp]: "length (CIDRMask p 32) = 4"
  by (simp add: CIDRMask_def)

lemma CIDRMask32: "CIDRMask p 32 =
  [mask_byte (min 8 p), mask_byte (min 8 (p - 8)), mask_byte (min 8 (p - 16)),
   mask_byte (min 8 (p - 24))]"
  by (simp add: CIDRMask_def upt_rec)

lemma simpleMaskLength_CIDRMask: "p \<le> 32 \<Longrightarrow> simpleMaskLength (CIDRMask p 32) = Some p"
proof -
  have "\<forall>p \<in> set [0..<33]. simpleMaskLength (CIDRMask p 32) = Some p" by code_simp
  then show "p \<le> 32 \<Longrightarrow> ?thesis" by auto
qed

lemma mask_Size_CIDRMask [simp]: "p \<le> 32 \<Longrightarrow> mask_Size (CIDRMask p 32) = (p, 32)"
  by (simp add: mask_Size_def simpleMaskLength_CIDRMask)

lemma ipnet_String_ip4: "ip4_net n p \<Longrightarrow> ipnet_String n = ip4_String (ipnet_IP n) @ CHR ''/'' # FormatUint p"
  by (auto simp: ip4_net_def ipnet_String_def networkNumberAndMask_def simpleMaskLength_CIDRMask
        ip_String_ip4)

lemma ip_Mask_mapped:
  "length bs = 4 \<Longrightarrow> length m = 4 \<Longrightarrow> ip_Mask (v4InV6Prefix @ bs) m = map2 (AND) bs m"
  by (simp add: ip_Mask_def Let_def)

lemma takeWhile_free_append:
  "(\<And>x. x \<in> set xs \<Longrightarrow> P x) \<Longrightarrow> \<not> P y \<Longrightarrow> takeWhile P (xs @ y # ys) = xs"
  by (simp add: takeWhile_append2)

lemma ParseCIDR_ip4:
  assumes "length bs = 4" "p \<le> 32"
  shows "ParseCIDR (ip4_String bs @ CHR ''/'' # FormatUint p) =
    Some (v4InV6Prefix @ bs,
          \<lparr>ipnet_IP = map2 (AND) bs (CIDRMask p 32), ipnet_Mask = CIDRMask p 32\<rparr>)"
proof -
  let ?P = "\<lambda>c. c \<noteq> CHR ''/''"
  have free: "x \<in> set (ip4_String bs) \<Longrightarrow> ?P x" for x
    using ip4_String_free [of "CHR ''/''" bs] by auto
  have "takeWhile ?P (ip4_String bs @ CHR ''/'' # FormatUint p) = ip4_String bs"
    "dropWhile ?P (ip4_String bs @ CHR ''/'' # FormatUint p) = CHR ''/'' # FormatUint p"
    using free by (simp_all add: takeWhile_free_append dropWhile_free_append)
  then show ?thesis
    using assms by (simp add: ParseCIDR_def FormatUint_digits ip_Mask_mapped Let_def)
qed

lemma ParseCIDR_ipnet_String:
  assumes "ip4_net n p"
  shows "ParseCIDR (ipnet_String n) = Some (v4InV6Prefix @ ipnet_IP n, n)"
  using assms unfolding ipnet_String_ip4 [OF assms]
  by (subst ParseCIDR_ip4) (auto simp: ip4_net_def)

lemma ipnet_String_inject:
  "ip4_net m p \<Longrightarrow> ip4_net n q \<Longrightarrow> ipnet_String m = ipnet_String n \<longleftrightarrow> m = n"
  by (metis ParseCIDR_ipnet_String Pair_inject option.inject)

lemma map2_and_idem: "map2 (AND) (map2 (AND) xs m) m = map2 (AND) xs (m :: byte list)"
  by (induction xs m rule: list_induct2') (simp_all add: and.assoc)

lemma ParseCIDR_canonical:
  "ParseCIDR (ip4_String bs @ CHR ''/'' # FormatUint p) = Some (ip, n) \<Longrightarrow> length bs = 4 \<Longrightarrow> p \<le> 32 \<Longrightarrow>
   ip4_net n p"
  by (auto simp: ParseCIDR_ip4 ip4_net_def map2_and_idem)

end
