(* ===== verification/Ipv4_Arith.thy ===== *)
theory Ipv4_Arith
  imports Net_IP
begin

text \<open>
  IPv4 addresses as numbers: the four bytes of an address, its value, and membership in a
  network as a division by the size of the network.
\<close>

definition ip4_of_nat :: "nat \<Rightarrow> net_ip" where
  "ip4_of_nat k = map of_nat [k div 2 ^ 24, k div 2 ^ 16, k div 2 ^ 8, k]"

definition ip4_word :: "net_ip \<Rightarrow> 32 word" where
  "ip4_word bs = (case bs of
     [a, b, c, d] \<Rightarrow> push_bit 24 (ucast a) OR push_bit 16 (ucast b) OR push_bit 8 (ucast c) OR ucast d
   | _ \<Rightarrow> 0)"

definition ip4_nat :: "net_ip \<Rightarrow> nat" where
  "ip4_nat bs = unat (ip4_word bs)"

lemma length_ip4_of_nat [simp]: "length (ip4_of_nat k) = 4"
  by (simp add: ip4_of_nat_def)

lemma bit_ip4_word:
  "bit (ip4_word [a, b, c, d]) n \<longleftrightarrow>
     (if n < 8 then bit d n else if n < 16 then bit c (n - 8)
      else if n < 24 then bit b (n - 16) else n < 32 \<and> bit a (n - 24))"
proof -
  have big: "bit (x :: byte) m \<Longrightarrow> m < 8" for x m
    using bit_imp_le_length [of x m] by simp
  show ?thesis by (auto simp: ip4_word_def bit_simps dest: big)
qed

lemma ip4_word_inject:
  assumes "length xs = 4" "length ys = 4"
  shows "ip4_word xs = ip4_word ys \<longleftrightarrow> xs = ys"
proof
  assume eq: "ip4_word xs = ip4_word ys"
  obtain a b c d a' b' c' d' where xs: "xs = [a, b, c, d]" and ys: "ys = [a', b', c', d']"
    using assms by (auto simp: length4_conv)
  have bits: "bit (ip4_word [a, b, c, d]) n = bit (ip4_word [a', b', c', d']) n" for n
    using eq xs ys by simp
  have "d = d'"
  proof (rule bit_word_eqI)
    show "n < LENGTH(8) \<Longrightarrow> bit d n = bit d' n" for n using bits [of n] by (simp add: bit_ip4_word)
  qed
  moreover have "c = c'"
  proof (rule bit_word_eqI)
    show "n < LENGTH(8) \<Longrightarrow> bit c n = bit c' n" for n
      using bits [of "n + 8"] by (simp add: bit_ip4_word)
  qed
  moreover have "b = b'"
  proof (rule bit_word_eqI)
    show "n < LENGTH(8) \<Longrightarrow> bit b n = bit b' n" for n
      using bits [of "n + 16"] by (simp add: bit_ip4_word)
  qed
  moreover have "a = a'"
  proof (rule bit_word_eqI)
    show "n < LENGTH(8) \<Longrightarrow> bit a n = bit a' n" for n
      using bits [of "n + 24"] by (simp add: bit_ip4_word)
  qed
  ultimately show "xs = ys" by (simp add: xs ys)
qed simp

lemma ip4_word_and:
  assumes "length xs = 4" "length ys = 4"
  shows "ip4_word (map2 (AND) xs ys) = ip4_word xs AND ip4_word ys"
proof -
  obtain a b c d a' b' c' d' where xs: "xs = [a, b, c, d]" and ys: "ys = [a', b', c', d']"
    using assms by (auto simp: length4_conv)
  show ?thesis
    by (rule bit_word_eqI) (auto simp: xs ys bit_ip4_word bit_and_iff)
qed

lemma ip4_word_or:
  assumes "length xs = 4" "length ys = 4"
  shows "ip4_word (map2 (OR) xs ys) = ip4_word xs OR ip4_word ys"
proof -
  obtain a b c d a' b' c' d' where xs: "xs = [a, b, c, d]" and ys: "ys = [a', b', c', d']"
    using assms by (auto simp: length4_conv)
  show ?thesis
    by (rule bit_word_eqI) (auto simp: xs ys bit_ip4_word bit_or_iff)
qed

lemma ip4_word_not:
  assumes "length xs = 4"
  shows "ip4_word (map (NOT) xs) = NOT (ip4_word xs)"
proof -
  obtain a b c d where xs: "xs = [a, b, c, d]" using assms by (auto simp: length4_conv)
  show ?thesis
    by (rule bit_word_eqI) (auto simp: xs bit_ip4_word bit_not_iff)
qed

lemma ip4_word_of_nat: "ip4_word (ip4_of_nat k) = of_nat k"
proof (rule bit_word_eqI)
  fix n assume n: "n < LENGTH(32)"
  have div: "bit (k div 256) j = bit k (8 + j)" "bit (k div 65536) j = bit k (16 + j)"
    "bit (k div 16777216) j = bit k (24 + j)" for j
    using bit_drop_bit_eq [of 8 k] bit_drop_bit_eq [of 16 k] bit_drop_bit_eq [of 24 k]
    by (simp_all add: drop_bit_eq_div fun_eq_iff)
  from n show "bit (ip4_word (ip4_of_nat k)) n = bit (of_nat k :: 32 word) n"
    by (auto simp: ip4_of_nat_def bit_ip4_word bit_of_nat_iff div)
qed

lemma ip4_nat_of_nat [simp]: "k < 2 ^ 32 \<Longrightarrow> ip4_nat (ip4_of_nat k) = k"
  by (simp add: ip4_nat_def ip4_word_of_nat unsigned_of_nat take_bit_nat_eq_self)

lemma ip4_nat_less [simp]: "ip4_nat bs < 2 ^ 32"
  using unsigned_less [of "ip4_word bs"] by (simp add: ip4_nat_def)

lemma ip4_of_nat_nat [simp]: "length bs = 4 \<Longrightarrow> ip4_of_nat (ip4_nat bs) = bs"
  by (rule ip4_word_inject [THEN iffD1]) (simp_all add: ip4_word_of_nat ip4_nat_def)

lemma ip4_of_nat_inject [simp]:
  "j < 2 ^ 32 \<Longrightarrow> k < 2 ^ 32 \<Longrightarrow> ip4_of_nat j = ip4_of_nat k \<longleftrightarrow> j = k"
  by (metis ip4_nat_of_nat)

lemma ip4_nat_inject: "length a = 4 \<Longrightarrow> length b = 4 \<Longrightarrow> ip4_nat a = ip4_nat b \<longleftrightarrow> a = b"
  by (metis ip4_of_nat_nat)

section \<open>Prefixes\<close>

lemma ip4_word_CIDRMask: "p \<le> 32 \<Longrightarrow> ip4_word (CIDRMask p 32) = NOT (mask (32 - p))"
proof -
  have "\<forall>p \<in> set [0..<33]. ip4_word (CIDRMask p 32) = NOT (mask (32 - p))" by code_simp
  then show "p \<le> 32 \<Longrightarrow> ?thesis" by auto
qed

lemma and_not_mask_eq_iff:
  "x AND NOT (mask k) = y AND NOT (mask k) \<longleftrightarrow> unat x div 2 ^ k = unat y div 2 ^ k"
  for x y :: "'a :: len word"
proof -
  have "x AND NOT (mask k) = y AND NOT (mask k) \<longleftrightarrow> drop_bit k x = drop_bit k y"
  proof
    assume eq: "x AND NOT (mask k) = y AND NOT (mask k)"
    show "drop_bit k x = drop_bit k y"
    proof (rule bit_word_eqI)
      fix n
      from eq have "bit (x AND NOT (mask k)) (k + n) = bit (y AND NOT (mask k)) (k + n)" by simp
      then show "bit (drop_bit k x) n = bit (drop_bit k y) n"
        by (auto simp: bit_simps dest: bit_imp_le_length)
    qed
  next
    assume eq: "drop_bit k x = drop_bit k y"
    show "x AND NOT (mask k) = y AND NOT (mask k)"
    proof (rule bit_word_eqI)
      fix n
      from eq have "bit (drop_bit k x) (n - k) = bit (drop_bit k y) (n - k)" by simp
      then show "bit (x AND NOT (mask k)) n = bit (y AND NOT (mask k)) n"
        by (auto simp: bit_simps)
    qed
  qed
  also have "\<dots> \<longleftrightarrow> unat (drop_bit k x) = unat (drop_bit k y)"
    by (rule word_unat_eq_iff)
  finally show ?thesis unfolding unat_drop_bit_eq by (simp add: drop_bit_eq_div)
qed

lemma ipnet_Contains_ip4:
  assumes "ip4_net n p" "length ip = 4"
  shows "ipnet_Contains n ip \<longleftrightarrow> ip4_nat ip div 2 ^ (32 - p) = ip4_nat (ipnet_IP n) div 2 ^ (32 - p)"
proof -
  have len: "length (ipnet_IP n) = 4" and p: "p \<le> 32" and m: "ipnet_Mask n = CIDRMask p 32"
    using assms by (auto simp: ip4_net_def)
  have "ipnet_Contains n ip \<longleftrightarrow>
    map2 (AND) (ipnet_IP n) (CIDRMask p 32) = map2 (AND) ip (CIDRMask p 32)"
    using len assms(2) m by (auto simp: ipnet_Contains_def networkNumberAndMask_def)
  also have "\<dots> \<longleftrightarrow> ip4_word (ipnet_IP n) AND NOT (mask (32 - p)) = ip4_word ip AND NOT (mask (32 - p))"
    using len assms(2) p
    by (subst ip4_word_inject [symmetric]) (auto simp: ip4_word_and ip4_word_CIDRMask)
  finally show ?thesis by (auto simp: and_not_mask_eq_iff ip4_nat_def)
qed

lemma ipnet_Contains_mapped [simp]:
  "length ip = 4 \<Longrightarrow> ipnet_Contains n (v4InV6Prefix @ ip) = ipnet_Contains n ip"
  by (auto simp: ipnet_Contains_def)

lemma ip4_net_base_dvd:
  assumes "ip4_net n p"
  shows "2 ^ (32 - p) dvd ip4_nat (ipnet_IP n)"
proof -
  have len: "length (ipnet_IP n) = 4" and p: "p \<le> 32"
    and idem: "map2 (AND) (ipnet_IP n) (CIDRMask p 32) = ipnet_IP n"
    using assms by (auto simp: ip4_net_def)
  have "ip4_word (ipnet_IP n) = ip4_word (ipnet_IP n) AND NOT (mask (32 - p))"
    using ip4_word_and [OF len length_CIDRMask32 [of p]] p by (simp add: idem ip4_word_CIDRMask)
  then have "take_bit (32 - p) (ip4_word (ipnet_IP n)) =
    ip4_word (ipnet_IP n) AND (NOT (mask (32 - p)) AND mask (32 - p))"
    by (metis and.assoc take_bit_eq_mask)
  then have "take_bit (32 - p) (ip4_word (ipnet_IP n)) = 0" by simp
  then have "unat (take_bit (32 - p) (ip4_word (ipnet_IP n))) = 0" by simp
  then show ?thesis
    unfolding unsigned_take_bit_eq ip4_nat_def by (simp add: take_bit_eq_mod mod_eq_0_iff_dvd)
qed

lemma ip4_netI:
  assumes "p \<le> 32" "length (ipnet_IP n) = 4" "ipnet_Mask n = CIDRMask p 32"
    "2 ^ (32 - p) dvd ip4_nat (ipnet_IP n)"
  shows "ip4_net n p"
proof -
  have "take_bit (32 - p) (ip4_word (ipnet_IP n)) = 0"
    using assms(4) unfolding word_unat_eq_iff unsigned_take_bit_eq ip4_nat_def
    by (simp add: take_bit_eq_mod mod_eq_0_iff_dvd)
  then have "ip4_word (ipnet_IP n) AND NOT (mask (32 - p)) = ip4_word (ipnet_IP n)"
    by (intro bit_word_eqI) (auto simp: bit_eq_iff bit_simps)
  then have "ip4_word (map2 (AND) (ipnet_IP n) (CIDRMask p 32)) = ip4_word (ipnet_IP n)"
    using assms by (simp add: ip4_word_and ip4_word_CIDRMask)
  then show ?thesis using assms by (simp add: ip4_net_def ip4_word_inject)
qed

lemma ip4_net_top:
  assumes "ip4_net n p"
  shows "ip4_nat (ipnet_IP n) + 2 ^ (32 - p) \<le> 2 ^ 32"
proof -
  obtain q where q: "ip4_nat (ipnet_IP n) = 2 ^ (32 - p) * q"
    using ip4_net_base_dvd [OF assms] by blast
  have p: "p \<le> 32" using assms by (simp add: ip4_net_def)
  have "2 ^ (32 - p) * q < 2 ^ (32 - p) * 2 ^ p"
    using ip4_nat_less [of "ipnet_IP n"] p q by (simp flip: power_add)
  then have "Suc q \<le> 2 ^ p" by simp
  then have "2 ^ (32 - p) * Suc q \<le> 2 ^ (32 - p) * 2 ^ p" by (rule mult_le_mono2)
  then show ?thesis using p q by (simp flip: power_add)
qed

lemma ipnet_Contains_interval:
  assumes "ip4_net n p" "length ip = 4"
  shows "ipnet_Contains n ip \<longleftrightarrow>
    ip4_nat (ipnet_IP n) \<le> ip4_nat ip \<and> ip4_nat ip < ip4_nat (ipnet_IP n) + 2 ^ (32 - p)"
proof -
  obtain q where q: "ip4_nat (ipnet_IP n) = 2 ^ (32 - p) * q"
    using ip4_net_base_dvd [OF assms(1)] by blast
  have pos: "(0 :: nat) < 2 ^ (32 - p)" by simp
  have "ip4_nat ip div 2 ^ (32 - p) = q \<longleftrightarrow>
    2 ^ (32 - p) * q \<le> ip4_nat ip \<and> ip4_nat ip < 2 ^ (32 - p) * Suc q"
    using pos by (auto simp: div_nat_eqI intro: dividend_less_times_div)
  then show ?thesis
    by (simp add: ipnet_Contains_ip4 [OF assms] q algebra_simps)
qed

end
