(* ===== verification/Ipam_Util.thy ===== *)
theory Ipam_Util
  imports Ipv4_Arith
begin

text \<open>
  \<open>plugin/pkg/ipam/util.go\<close>: enumeration of subnets and of the addresses of a subnet, and the
  choice of the next address. The third-party function \<open>cidr.Subnet\<close> is the parameter
  \<open>cidr_Subnet\<close>. \<open>sort.Slice\<close> is a sort by the numeric key that its comparison function
  compares; it is used on lists without equal keys.
\<close>

section \<open>Allocations\<close>

record Allocation =
  al_ip :: net_ip
  allocationType :: string
  allocatedAt :: gotime
  dataKey :: string
  al_data :: string

definition zero_Allocation :: Allocation where
  "zero_Allocation =
     \<lparr>al_ip = [], allocationType = [], allocatedAt = zero_time, dataKey = [], al_data = []\<rparr>"

section \<open>Subnets\<close>

text \<open>The number of iterations of the loop bounded by \<open>1 << uint(d)\<close> on 64-bit integers.\<close>

definition shift_count :: "int \<Rightarrow> nat" where
  "shift_count d = (if 0 \<le> d \<and> d < 63 then 2 ^ nat d else 0)"

fun res_map :: "('a \<Rightarrow> 'b res) \<Rightarrow> 'a list \<Rightarrow> 'b list res" where
  "res_map f [] = Ok []"
| "res_map f (x # xs) =
     (case f x of
        Ok y \<Rightarrow> (case res_map f xs of Ok ys \<Rightarrow> Ok (y # ys) | Err e \<Rightarrow> Err e | Panic \<Rightarrow> Panic)
      | Err e \<Rightarrow> Err e
      | Panic \<Rightarrow> Panic)"

fun generateAllSubnets ::
  "(ipnet \<Rightarrow> int \<Rightarrow> nat \<Rightarrow> ipnet res) \<Rightarrow> ipnet list \<Rightarrow> int \<Rightarrow> ipnet list res"
where
  "generateAllSubnets cidr_Subnet [] poolSize = Ok []"
| "generateAllSubnets cidr_Subnet (availableSubnet # rest) poolSize =
     (let ones = fst (mask_Size (ipnet_Mask availableSubnet));
          numSubnets = shift_count (poolSize - int ones)
      in case res_map (cidr_Subnet availableSubnet (poolSize - int ones)) [0..<numSubnets] of
           Err e \<Rightarrow> Err e
         | Panic \<Rightarrow> Panic
         | Ok subnets \<Rightarrow>
             (case generateAllSubnets cidr_Subnet rest poolSize of
                Ok allSubnets \<Rightarrow> Ok (subnets @ allSubnets)
              | Err e \<Rightarrow> Err e
              | Panic \<Rightarrow> Panic))"

text \<open>\<open>countPoolSizeSubnets\<close> of the driver announces the same number, on 64-bit integers.\<close>

definition countPoolSizeSubnets :: "ipnet list \<Rightarrow> int \<Rightarrow> 64 word" where
  "countPoolSizeSubnets completeSpace poolSize =
     foldl (\<lambda>total subnet.
              case mask_Size (ipnet_Mask subnet) of (maskSize, bits) \<Rightarrow>
                if poolSize < int maskSize \<or> bits \<noteq> 32 then total
                else total + push_bit (nat (poolSize - int maskSize)) 1)
       0 completeSpace"

section \<open>Addresses of a subnet\<close>

definition getBroadcastIP :: "ipnet \<Rightarrow> net_ip res" where
  "getBroadcastIP subnet =
     (if length (ipnet_Mask subnet) < length (ipnet_IP subnet) then Panic
      else Ok (map2 (\<lambda>b m. b OR NOT m) (ipnet_IP subnet) (ipnet_Mask subnet)))"

fun inc_bytes :: "byte list \<Rightarrow> byte list" where
  "inc_bytes [] = []"
| "inc_bytes (b # bs) = (if b + 1 \<noteq> 0 then (b + 1) # bs else (b + 1) # inc_bytes bs)"

definition nextIP :: "net_ip \<Rightarrow> net_ip" where
  "nextIP ip = rev (inc_bytes (rev ip))"

text \<open>
  The loop of \<open>ipsInSubnet\<close>; it has no bound of its own, so it takes fuel and returns \<open>None\<close>
  when the fuel is used up.
\<close>

fun ipsInSubnet_loop ::
  "nat \<Rightarrow> ipnet \<Rightarrow> bool \<Rightarrow> bool \<Rightarrow> net_ip \<Rightarrow> net_ip \<Rightarrow> net_ip \<Rightarrow> net_ip list option"
where
  "ipsInSubnet_loop 0 subnet exG exB gatewayIP broadcastIP ip = None"
| "ipsInSubnet_loop (Suc fuel) subnet exG exB gatewayIP broadcastIP ip =
     (let ip' = nextIP ip
      in if \<not> ipnet_Contains subnet ip' then Some []
         else let continue = (ip_Equal ip' (ipnet_IP subnet) \<or> (exG \<and> ip_Equal ip' gatewayIP)
                  \<or> (exB \<and> ip_Equal ip' broadcastIP))
              in map_option (\<lambda>ips. if continue then ips else ip' # ips)
                   (ipsInSubnet_loop fuel subnet exG exB gatewayIP broadcastIP ip'))"

definition ipsInSubnet :: "nat \<Rightarrow> ipnet \<Rightarrow> bool \<Rightarrow> bool \<Rightarrow> net_ip list res option" where
  "ipsInSubnet fuel subnet excludeGateway excludeBroadcast =
     (let gatewayIP = nextIP (ipnet_IP subnet)
      in case getBroadcastIP subnet of
           Ok broadcastIP \<Rightarrow>
             map_option Ok (ipsInSubnet_loop fuel subnet excludeGateway excludeBroadcast
               gatewayIP broadcastIP (ip_Mask (ipnet_IP subnet) (ipnet_Mask subnet)))
         | Err e \<Rightarrow> Some (Err e)
         | Panic \<Rightarrow> Some Panic)"

section \<open>The next address\<close>

definition ipToInt :: "net_ip \<Rightarrow> 32 word res" where
  "ipToInt ip =
     (case To4 ip of
        [a, b, c, d] \<Rightarrow>
          Ok (push_bit 24 (ucast a) OR push_bit 16 (ucast b) OR push_bit 8 (ucast c) OR ucast d)
      | _ \<Rightarrow> Err (Errorf ''invalid IPv4 address''))"

definition getLastReservedIP :: "(string, Allocation) gomap \<Rightarrow> net_ip res" where
  "getLastReservedIP reservations =
     (case foldl (\<lambda>last res. case last of
                    None \<Rightarrow> Some res
                  | Some l \<Rightarrow> if time_After (allocatedAt res) (allocatedAt l) then Some res else Some l)
             None (map snd reservations) of
        None \<Rightarrow> Err (Errorf ''no reservations found'')
      | Some lastReserved \<Rightarrow> Ok (al_ip lastReserved))"

definition ip_sort_key :: "net_ip \<Rightarrow> nat" where
  "ip_sort_key ip = (case ipToInt ip of Ok i \<Rightarrow> unat i | _ \<Rightarrow> 2 ^ 32)"

definition sortIPs :: "net_ip list \<Rightarrow> net_ip list" where
  "sortIPs ips = sort_key ip_sort_key ips"

definition getNextAvailableIP :: "net_ip list \<Rightarrow> (string, Allocation) gomap \<Rightarrow> net_ip res" where
  "getNextAvailableIP availableUnusedIPs reservedIPs =
     (if availableUnusedIPs = [] then Err (Errorf ''no available unused IPs'')
      else case getLastReservedIP reservedIPs of
        Ok lastReservedIP \<Rightarrow>
          (case ipToInt lastReservedIP of
             Ok lastReservedInt \<Rightarrow>
               (case find (\<lambda>ip. ip \<noteq> [] \<and> (case ipToInt ip of Ok c \<Rightarrow> lastReservedInt < c | _ \<Rightarrow> False))
                       (sortIPs availableUnusedIPs) of
                  Some ip \<Rightarrow> Ok ip
                | None \<Rightarrow> Ok (hd (sortIPs availableUnusedIPs)))
           | Err e \<Rightarrow> Err e
           | Panic \<Rightarrow> Panic)
      | _ \<Rightarrow> Ok (hd (sortIPs availableUnusedIPs)))"

section \<open>Enumeration of the addresses\<close>

lemma nextIP_of_nat: "nextIP (ip4_of_nat k) = ip4_of_nat (k + 1)"
proof -
  have byte: "of_nat j + 1 = (0 :: byte) \<longleftrightarrow> (j + 1) mod 256 = 0" for j
    using word_of_nat_eq_0_iff [where 'a = 8, of "Suc j"] by (simp add: dvd_eq_mod_eq_0 add.commute)
  have carry: "(j + 1) div 256 = (if (j + 1) mod 256 = 0 then j div 256 + 1 else j div 256)" for j :: nat
    by (simp add: div_Suc mod_Suc)
  have d2: "j div 65536 = j div 256 div 256" "j div 16777216 = j div 256 div 256 div 256" for j :: nat
    by (simp_all flip: div_mult2_eq)
  show ?thesis
    using byte [of k] byte [of "k div 256"] byte [of "k div 256 div 256"] carry [of k]
      carry [of "k div 256"] carry [of "k div 256 div 256"]
    by (simp add: nextIP_def ip4_of_nat_def d2 add.commute)
qed

lemma ip4_of_nat_mod: "ip4_of_nat (k mod 2 ^ 32) = ip4_of_nat k"
  by (rule ip4_word_inject [THEN iffD1]) (simp_all add: ip4_word_of_nat word_unat_eq_iff unat_of_nat)

lemma nextIP_ip4: "length ip = 4 \<Longrightarrow> nextIP ip = ip4_of_nat (ip4_nat ip + 1)"
  using nextIP_of_nat [of "ip4_nat ip"] by simp

lemma getBroadcastIP_ip4:
  assumes "ip4_net n p"
  shows "getBroadcastIP n = Ok (ip4_of_nat (ip4_nat (ipnet_IP n) + 2 ^ (32 - p) - 1))"
proof -
  let ?N = "ip4_nat (ipnet_IP n)" and ?w = "ip4_word (ipnet_IP n)"
  have len: "length (ipnet_IP n) = 4" and p: "p \<le> 32" and m: "ipnet_Mask n = CIDRMask p 32"
    using assms by (auto simp: ip4_net_def)
  have "ip4_word (map2 (\<lambda>b m. b OR NOT m) (ipnet_IP n) (CIDRMask p 32)) =
      ip4_word (map2 (OR) (ipnet_IP n) (map (NOT) (CIDRMask p 32)))"
    by (simp add: zip_map2 split_def o_def)
  also have "\<dots> = ?w OR mask (32 - p)"
    using len p by (simp add: ip4_word_or ip4_word_not ip4_word_CIDRMask)
  also have "\<dots> = ?w + mask (32 - p)"
  proof -
    have "?w AND NOT (mask (32 - p)) = ?w"
      using ip4_word_and [OF len length_CIDRMask32 [of p]]
      by (simp add: ip4_netD [OF assms] ip4_word_CIDRMask)
    then have "?w AND mask (32 - p) = 0" by (metis and.assoc and.right_neutral bit.conj_cancel_left
        bit.conj_zero_right)
    then show ?thesis by (simp add: disjunctive_add_eq_or)
  qed
  also have "\<dots> = of_nat (?N + (2 ^ (32 - p) - 1))"
    unfolding of_nat_add by (simp add: ip4_nat_def mask_eq_exp_minus_1 of_nat_diff)
  also have "\<dots> = ip4_word (ip4_of_nat (?N + 2 ^ (32 - p) - 1))"
    by (simp add: ip4_word_of_nat)
  finally have "map2 (\<lambda>b m. b OR NOT m) (ipnet_IP n) (CIDRMask p 32) =
      ip4_of_nat (?N + 2 ^ (32 - p) - 1)"
    by (subst (asm) ip4_word_inject) (simp_all add: len)
  then show ?thesis using len m by (simp add: getBroadcastIP_def)
qed

definition ip_kept :: "bool \<Rightarrow> bool \<Rightarrow> nat \<Rightarrow> nat \<Rightarrow> nat \<Rightarrow> bool" where
  "ip_kept exG exB base lim j \<longleftrightarrow>
     j \<noteq> base \<and> (exG \<longrightarrow> j \<noteq> base + 1) \<and> (exB \<longrightarrow> j \<noteq> lim - 1)"

lemma ipsInSubnet_loop_ip4:
  assumes net: "ip4_net n p" and p: "1 \<le> p" and N: "N = ip4_nat (ipnet_IP n)"
    and T: "T = N + 2 ^ (32 - p)" and k: "N \<le> k" "k < T" and fuel: "T - k \<le> fuel"
  shows "ipsInSubnet_loop fuel n exG exB (ip4_of_nat (N + 1)) (ip4_of_nat (T - 1)) (ip4_of_nat k) =
    Some (map ip4_of_nat (filter (ip_kept exG exB N T) [k + 1..<T]))"
  using k fuel
proof (induction fuel arbitrary: k)
  case (Suc fuel)
  have T32: "T \<le> 2 ^ 32" using ip4_net_top [OF net] by (simp add: N T)
  have base: "ipnet_IP n = ip4_of_nat N" using net by (simp add: N ip4_net_def)
  have step: "nextIP (ip4_of_nat k) = ip4_of_nat (k + 1)" by (rule nextIP_of_nat)
  show ?case
  proof (cases "k + 1 < T")
    case True
    have "ip4_nat (ip4_of_nat (k + 1)) = k + 1" using True T32 by (intro ip4_nat_of_nat) simp
    then have "ipnet_Contains n (ip4_of_nat (k + 1))"
      using True Suc.prems(1) ipnet_Contains_interval [OF net, of "ip4_of_nat (k + 1)"]
      by (simp add: N T)
    moreover have "(ip_Equal (ip4_of_nat (k + 1)) (ipnet_IP n)
        \<or> exG \<and> ip_Equal (ip4_of_nat (k + 1)) (ip4_of_nat (N + 1))
        \<or> exB \<and> ip_Equal (ip4_of_nat (k + 1)) (ip4_of_nat (T - 1))) \<longleftrightarrow>
        \<not> ip_kept exG exB N T (k + 1)"
      using True T32 Suc.prems(1) by (auto simp: base ip_kept_def)
    moreover have "ipsInSubnet_loop fuel n exG exB (ip4_of_nat (N + 1)) (ip4_of_nat (T - 1))
        (ip4_of_nat (k + 1)) = Some (map ip4_of_nat (filter (ip_kept exG exB N T) [k + 1 + 1..<T]))"
      using True Suc.prems by (intro Suc.IH) auto
    ultimately show ?thesis
      using True by (simp add: step upt_conv_Cons [of "Suc k"] del: upt_Suc)
  next
    case False
    then have kT: "k + 1 = T" using Suc.prems by simp
    have "\<not> ipnet_Contains n (ip4_of_nat (k + 1))"
    proof (cases "T = 2 ^ 32")
      case True
      have "0 < N"
      proof (rule ccontr)
        assume "\<not> 0 < N"
        then have "2 ^ (32 - p) = (2 :: nat) ^ 32" using True by (simp add: T)
        then have "32 - p = 32" by (simp only: power_inject_exp)
        then show False using p net by (simp add: ip4_net_def)
      qed
      moreover have "ip4_of_nat (k + 1) = ip4_of_nat 0"
        using ip4_of_nat_mod [of "k + 1"] kT True by simp
      ultimately show ?thesis
        using ipnet_Contains_interval [OF net, of "ip4_of_nat 0"] by (simp add: N)
    next
      case False
      then show ?thesis
        using T32 kT ipnet_Contains_interval [OF net, of "ip4_of_nat T"] by (simp add: N T)
    qed
    then show ?thesis using kT by (simp add: step)
  qed
qed simp

lemma ip_Mask_net: "ip4_net n p \<Longrightarrow> ip_Mask (ipnet_IP n) (ipnet_Mask n) = ipnet_IP n"
  by (simp add: ip4_netD ip_Mask_def)

lemma ipsInSubnet_ip4:
  assumes net: "ip4_net n p" and p: "1 \<le> p" and fuel: "2 ^ (32 - p) \<le> fuel"
    and N: "N = ip4_nat (ipnet_IP n)"
  shows "ipsInSubnet fuel n exG exB =
    Some (Ok (map ip4_of_nat (filter (ip_kept exG exB N (N + 2 ^ (32 - p))) [N + 1..<N + 2 ^ (32 - p)])))"
proof -
  have base: "ipnet_IP n = ip4_of_nat N" using net by (simp add: N ip4_net_def)
  have "ipsInSubnet_loop fuel n exG exB (nextIP (ipnet_IP n))
      (ip4_of_nat (N + 2 ^ (32 - p) - 1)) (ipnet_IP n) =
    Some (map ip4_of_nat (filter (ip_kept exG exB N (N + 2 ^ (32 - p))) [N + 1..<N + 2 ^ (32 - p)]))"
    using ipsInSubnet_loop_ip4 [OF net p N refl, of N fuel exG exB] fuel
    by (simp add: base nextIP_of_nat)
  then show ?thesis
    by (simp add: ipsInSubnet_def getBroadcastIP_ip4 [OF net] ip_Mask_net [OF net] N [symmetric])
qed

lemma filter_ip_kept: "filter (ip_kept True True N T) [N + 1..<T] = [N + 2..<T - 1]"
proof (cases "N + 2 \<le> T")
  case True
  have "[N + 1..<T] = (N + 1) # [N + 2..<T]" using True by (simp add: upt_conv_Cons)
  moreover have "filter (ip_kept True True N T) [N + 2..<T] = [N + 2..<T - 1]"
  proof (cases "N + 2 = T")
    case False
    then have "[N + 2..<T] = [N + 2..<T - 1] @ [T - 1]"
      using True upt_Suc_append [of "N + 2" "T - 1"] by simp
    moreover have "filter (ip_kept True True N T) [N + 2..<T - 1] = [N + 2..<T - 1]"
      by (rule filter_True) (auto simp: ip_kept_def)
    ultimately show ?thesis by (simp add: ip_kept_def)
  qed simp
  ultimately show ?thesis by (simp add: ip_kept_def)
qed simp

text \<open>A subnet with prefix length 0 contains every address: the loop never ends.\<close>

lemma ipsInSubnet_prefix0: "ip4_net n 0 \<Longrightarrow> length ip = 4 \<Longrightarrow> length gw = 4 \<Longrightarrow> length bc = 4 \<Longrightarrow>
  ipsInSubnet_loop fuel n exG exB gw bc ip = None"
proof (induction fuel arbitrary: ip)
  case (Suc fuel)
  have "ipnet_Contains n (nextIP ip)"
    using Suc.prems ip4_nat_less [of "nextIP ip"] ip4_nat_less [of "ipnet_IP n"]
    by (subst ipnet_Contains_ip4) (auto simp: nextIP_ip4)
  then show ?case using Suc by (simp add: nextIP_ip4 Let_def)
qed simp

section \<open>Enumeration of the subnets\<close>

text \<open>
  What the code relies on of \<open>cidr.Subnet\<close>: subnet number \<open>i\<close> of a prefix extended by \<open>d\<close> bits
  is the \<open>i\<close>-th of the equal parts the prefix is cut into.
\<close>

definition cidr_Subnet_law :: "(ipnet \<Rightarrow> int \<Rightarrow> nat \<Rightarrow> ipnet res) \<Rightarrow> bool" where
  "cidr_Subnet_law cidr_Subnet \<longleftrightarrow>
     (\<forall>n p d i. ip4_net n p \<and> 0 \<le> d \<and> int p + d \<le> 32 \<and> i < 2 ^ nat d \<longrightarrow>
        (\<exists>m. cidr_Subnet n d i = Ok m \<and> ip4_net m (p + nat d)
           \<and> ip4_nat (ipnet_IP m) = ip4_nat (ipnet_IP n) + i * 2 ^ (32 - (p + nat d))))"

lemma res_map_Ok:
  "(\<And>x. x \<in> set xs \<Longrightarrow> \<exists>y. f x = Ok y) \<Longrightarrow> res_map f xs = Ok (map (\<lambda>x. the_ok (f x)) xs)"
  by (induction xs) fastforce+

text \<open>The list of subnets, described without the library function.\<close>

definition parts_of :: "nat \<Rightarrow> ipnet \<Rightarrow> ipnet list \<Rightarrow> bool" where
  "parts_of q a ms \<longleftrightarrow>
     (\<exists>p. ip4_net a p \<and> p \<le> q \<and> length ms = 2 ^ (q - p)
        \<and> (\<forall>i < length ms. ip4_net (ms ! i) q
             \<and> ip4_nat (ipnet_IP (ms ! i)) = ip4_nat (ipnet_IP a) + i * 2 ^ (32 - q)))"

lemma res_map_subnets:
  assumes law: "cidr_Subnet_law cidr_Subnet" and net: "ip4_net a p" and q: "p \<le> q" "q \<le> 32"
  shows "\<exists>ms. res_map (cidr_Subnet a (int q - int p)) [0..<2 ^ (q - p)] = Ok ms \<and> parts_of q a ms"
proof -
  let ?f = "cidr_Subnet a (int q - int p)"
  have d: "0 \<le> int q - int p" "int p + (int q - int p) \<le> 32" "nat (int q - int p) = q - p"
    using q by auto
  have f: "\<exists>m. ?f i = Ok m \<and> ip4_net m q
      \<and> ip4_nat (ipnet_IP m) = ip4_nat (ipnet_IP a) + i * 2 ^ (32 - q)" if "i < 2 ^ (q - p)" for i
    using law [unfolded cidr_Subnet_law_def, rule_format, of a p "int q - int p" i] net d q that
    by simp
  let ?ms = "map (\<lambda>i. the_ok (?f i)) [0..<2 ^ (q - p)]"
  have "res_map ?f [0..<2 ^ (q - p)] = Ok ?ms" by (rule res_map_Ok) (use f in force)
  moreover have "ip4_net (?ms ! i) q \<and>
      ip4_nat (ipnet_IP (?ms ! i)) = ip4_nat (ipnet_IP a) + i * 2 ^ (32 - q)" if "i < length ?ms" for i
    using f [of i] that by auto
  ultimately show ?thesis using net q by (auto simp: parts_of_def simp del: upt_conv_Nil)
qed

lemma generateAllSubnets_parts:
  assumes "cidr_Subnet_law cidr_Subnet" "q \<le> 32"
    "\<forall>a \<in> set as. \<exists>p \<le> q. ip4_net a p"
  shows "\<exists>mss. generateAllSubnets cidr_Subnet as (int q) = Ok (concat mss)
    \<and> list_all2 (parts_of q) as mss"
  using assms(3)
proof (induction as)
  case (Cons a as)
  then obtain mss where mss: "generateAllSubnets cidr_Subnet as (int q) = Ok (concat mss)"
    "list_all2 (parts_of q) as mss" by auto
  obtain p where p: "p \<le> q" "ip4_net a p" using Cons.prems by auto
  obtain ms where ms: "res_map (cidr_Subnet a (int q - int p)) [0..<2 ^ (q - p)] = Ok ms"
    "parts_of q a ms" using res_map_subnets [OF assms(1) p(2,1) assms(2)] by blast
  have "shift_count (int q - int p) = 2 ^ (q - p)"
    using p assms(2) by (simp add: shift_count_def nat_diff_distrib)
  then have "generateAllSubnets cidr_Subnet (a # as) (int q) = Ok (concat (ms # mss))"
    using ms mss p by (simp add: ip4_netD)
  then show ?case using ms mss by blast
qed auto

lemma count_step:
  assumes "ip4_net a p" "p \<le> q" "q \<le> 32"
  shows "(case mask_Size (ipnet_Mask a) of (maskSize, bits) \<Rightarrow>
      if int q < int maskSize \<or> bits \<noteq> 32 then t
      else t + push_bit (nat (int q - int maskSize)) 1) = t + of_nat (2 ^ (q - p))"
  using assms by (simp add: ip4_netD nat_diff_distrib push_bit_eq_mult)

lemma countPoolSizeSubnets_parts:
  assumes "list_all2 (parts_of q) as mss" "q \<le> 32"
  shows "countPoolSizeSubnets as (int q) = of_nat (length (concat mss))"
proof -
  have "foldl (\<lambda>total subnet. case mask_Size (ipnet_Mask subnet) of (maskSize, bits) \<Rightarrow>
      if int q < int maskSize \<or> bits \<noteq> 32 then total
      else total + push_bit (nat (int q - int maskSize)) 1) t as = t + of_nat (length (concat mss))"
    for t :: "64 word"
    using assms
  proof (induction as mss arbitrary: t rule: list_all2_induct)
    case (Cons a as ms mss)
    then obtain p where "ip4_net a p" "p \<le> q" "length ms = 2 ^ (q - p)" by (auto simp: parts_of_def)
    then show ?case using Cons count_step [of a p q] by (simp add: add.assoc)
  qed simp
  then show ?thesis by (simp add: countPoolSizeSubnets_def)
qed

lemma parts_of_cover:
  assumes parts: "parts_of q a ms" and len: "length ip = 4"
  shows "(\<exists>m \<in> set ms. ipnet_Contains m ip) \<longleftrightarrow> ipnet_Contains a ip"
proof -
  obtain p where a: "ip4_net a p" "p \<le> q" "length ms = 2 ^ (q - p)"
    and ms: "\<And>i. i < length ms \<Longrightarrow> ip4_net (ms ! i) q
      \<and> ip4_nat (ipnet_IP (ms ! i)) = ip4_nat (ipnet_IP a) + i * 2 ^ (32 - q)"
    using parts by (auto simp: parts_of_def)
  let ?N = "ip4_nat (ipnet_IP a)" and ?S = "2 ^ (32 - q) :: nat" and ?x = "ip4_nat ip"
  have q: "q \<le> 32" using ms [of 0] a ip4_netD(1) [of "ms ! 0" q] by simp
  have size: "2 ^ (32 - p) = ?S * 2 ^ (q - p)" using a q by (simp flip: power_add)
  have part: "ipnet_Contains (ms ! i) ip \<longleftrightarrow> ?N + i * ?S \<le> ?x \<and> ?x < ?N + i * ?S + ?S"
    if "i < length ms" for i
    using ipnet_Contains_interval [OF conjunct1 [OF ms [OF that]] len] ms [OF that] by simp
  have whole: "ipnet_Contains a ip \<longleftrightarrow> ?N \<le> ?x \<and> ?x < ?N + ?S * length ms"
    using ipnet_Contains_interval [OF a(1) len] size a(3) by simp
  show ?thesis
  proof
    assume "\<exists>m \<in> set ms. ipnet_Contains m ip"
    then obtain i where i: "i < length ms" "?N + i * ?S \<le> ?x" "?x < ?N + i * ?S + ?S"
      using part by (auto simp: in_set_conv_nth)
    have "(i + 1) * ?S \<le> length ms * ?S" using i(1) by (intro mult_le_mono1) simp
    then show "ipnet_Contains a ip" using i whole by (simp add: algebra_simps)
  next
    assume c: "ipnet_Contains a ip"
    define i where "i = (?x - ?N) div ?S"
    have x: "?N \<le> ?x" "?x - ?N < length ms * ?S" using c whole by (auto simp: algebra_simps)
    have "i < length ms" using x(2) by (simp add: i_def less_mult_imp_div_less)
    moreover have "i * ?S \<le> ?x - ?N" "?x - ?N < i * ?S + ?S"
      unfolding i_def using dividend_less_div_times [of ?S "?x - ?N"] by (simp_all add: div_times_less_eq_dividend)
    ultimately show "\<exists>m \<in> set ms. ipnet_Contains m ip"
      using part x(1) nth_mem by (metis (no_types, lifting) le_add_diff_inverse nat_add_left_cancel_le
          nat_add_left_cancel_less add.assoc)
  qed
qed

lemma parts_of_disjoint:
  assumes parts: "parts_of q a ms" and ij: "i < j" "j < length ms" and len: "length ip = 4"
  shows "\<not> (ipnet_Contains (ms ! i) ip \<and> ipnet_Contains (ms ! j) ip)"
proof -
  let ?N = "ip4_nat (ipnet_IP a)" and ?S = "2 ^ (32 - q) :: nat"
  have ms: "ip4_net (ms ! k) q \<and> ip4_nat (ipnet_IP (ms ! k)) = ?N + k * ?S" if "k < length ms" for k
    using parts that by (auto simp: parts_of_def)
  have "(i + 1) * ?S \<le> j * ?S" using ij by (intro mult_le_mono1) simp
  then show ?thesis
    using ms [of i] ms [of j] ij ipnet_Contains_interval [of "ms ! i" q ip]
      ipnet_Contains_interval [of "ms ! j" q ip] len by auto
qed

section \<open>The choice of the next address\<close>

lemma ip_sort_key_less: "To4 ip \<noteq> [] \<Longrightarrow> ipToInt ip = Ok (of_nat (ip_sort_key ip)) \<and> ip_sort_key ip < 2 ^ 32"
proof -
  assume "To4 ip \<noteq> []"
  then have "length (To4 ip) = 4" by (auto simp: To4_def split: if_splits)
  then obtain i where "ipToInt ip = Ok i" by (auto simp: ipToInt_def length4_conv)
  moreover have "unat i < 2 ^ 32" using unsigned_less [of i] by simp
  ultimately show ?thesis by (simp add: ip_sort_key_def)
qed

lemma ipToInt_ip4: "length ip = 4 \<Longrightarrow> ipToInt ip = Ok (ip4_word ip)"
  and ip_sort_key_ip4: "length ip = 4 \<Longrightarrow> ip_sort_key ip = ip4_nat ip"
  by (auto simp: ipToInt_def ip4_word_def ip_sort_key_def ip4_nat_def length4_conv)

lemma ip_sort_key_mapped [simp]: "length ip = 4 \<Longrightarrow> ip_sort_key (v4InV6Prefix @ ip) = ip4_nat ip"
  using ip_sort_key_ip4 [of ip] by (simp add: ip_sort_key_def ipToInt_def)

lemma set_sortIPs [simp]: "set (sortIPs ips) = set ips"
  by (simp add: sortIPs_def)

lemma find_SomeD: "find P xs = Some y \<Longrightarrow> y \<in> set xs \<and> P y"
  by (induction xs) (auto split: if_splits)

lemma find_sorted_least:
  assumes "sorted (map f xs)" "find (\<lambda>x. P (f x)) xs = Some y" "z \<in> set xs" "P (f z)"
  shows "f y \<le> f z"
  using assms by (induction xs) (auto split: if_splits)

lemma hd_sortIPs_least: "z \<in> set ips \<Longrightarrow> ip_sort_key (hd (sortIPs ips)) \<le> ip_sort_key z"
proof -
  assume z: "z \<in> set ips"
  have "sorted (map ip_sort_key (sortIPs ips))" by (simp add: sortIPs_def)
  moreover have "z \<in> set (sortIPs ips)" using z by simp
  ultimately show ?thesis by (cases "sortIPs ips") auto
qed

lemma hd_sortIPs_mem: "ips \<noteq> [] \<Longrightarrow> hd (sortIPs ips) \<in> set ips"
  using set_sortIPs [of ips] by (metis hd_in_set set_empty)

lemma getNextAvailableIP_cyclic:
  assumes ips: "ips \<noteq> []" "\<forall>ip \<in> set ips. To4 ip \<noteq> []"
    and last: "getLastReservedIP res = Ok l" "To4 l \<noteq> []"
  shows "\<exists>ip \<in> set ips. getNextAvailableIP ips res = Ok ip \<and>
    (if \<exists>x \<in> set ips. ip_sort_key l < ip_sort_key x
     then ip_sort_key l < ip_sort_key ip
       \<and> (\<forall>x \<in> set ips. ip_sort_key l < ip_sort_key x \<longrightarrow> ip_sort_key ip \<le> ip_sort_key x)
     else \<forall>x \<in> set ips. ip_sort_key ip \<le> ip_sort_key x)"
proof -
  let ?P = "\<lambda>ip. ip \<noteq> [] \<and> (case ipToInt ip of Ok c \<Rightarrow> of_nat (ip_sort_key l) < c | _ \<Rightarrow> False)"
  have P: "?P ip \<longleftrightarrow> ip_sort_key l < ip_sort_key ip" if "ip \<in> set ips" for ip
  proof -
    have "ip \<noteq> []" using ips(2) that by (auto simp: To4_def)
    then show ?thesis
      using ip_sort_key_less [OF last(2)] ip_sort_key_less [of ip] ips(2) that
      by (simp add: word_less_nat_alt unat_of_nat)
  qed
  have find: "find ?P (sortIPs ips) = find (\<lambda>ip. ip_sort_key l < ip_sort_key ip) (sortIPs ips)"
    by (rule find_cong) (simp_all add: P)
  have res: "getNextAvailableIP ips res =
      (case find (\<lambda>ip. ip_sort_key l < ip_sort_key ip) (sortIPs ips) of
         Some ip \<Rightarrow> Ok ip | None \<Rightarrow> Ok (hd (sortIPs ips)))"
    using ips(1) last ip_sort_key_less [OF last(2)] find by (simp add: getNextAvailableIP_def)
  show ?thesis
  proof (cases "find (\<lambda>ip. ip_sort_key l < ip_sort_key ip) (sortIPs ips)")
    case None
    then have "\<not> (\<exists>x \<in> set ips. ip_sort_key l < ip_sort_key x)" by (auto simp: find_None_iff)
    then show ?thesis
      using None res hd_sortIPs_mem [OF ips(1)] hd_sortIPs_least [of _ ips] by auto
  next
    case (Some y)
    then have y: "y \<in> set ips" "ip_sort_key l < ip_sort_key y"
      using find_SomeD by fastforce+
    moreover have "ip_sort_key y \<le> ip_sort_key x" if "x \<in> set ips" "ip_sort_key l < ip_sort_key x" for x
      using find_sorted_least [of ip_sort_key "sortIPs ips" "\<lambda>k. ip_sort_key l < k" y x] Some that
      by (simp add: sortIPs_def)
    ultimately show ?thesis using Some res by (intro bexI [of _ y]) auto
  qed
qed

lemma ipsInSubnet_listing:
  assumes "ip4_net n p" "1 \<le> p" "2 ^ (32 - p) \<le> fuel"
  shows "\<exists>ips. ipsInSubnet fuel n True True = Some (Ok ips) \<and> distinct ips
    \<and> sorted (map ip4_nat ips)
    \<and> set ips = {ip. length ip = 4 \<and> ipnet_Contains n ip}
        - {ipnet_IP n, nextIP (ipnet_IP n), the_ok (getBroadcastIP n)}"
proof -
  let ?N = "ip4_nat (ipnet_IP n)" and ?T = "ip4_nat (ipnet_IP n) + 2 ^ (32 - p)"
  let ?ips = "map ip4_of_nat [?N + 2..<?T - 1]"
  note len = ip4_netD(2) [OF assms(1)] and tp = ip4_net_top [OF assms(1)]
  have inv: "map ip4_nat ?ips = [?N + 2..<?T - 1]"
    using tp by (auto simp: o_def intro!: map_idI ip4_nat_of_nat)
  have gw: "nextIP (ipnet_IP n) = ip4_of_nat (?N + 1)" by (rule nextIP_ip4 [OF len])
  have bc: "the_ok (getBroadcastIP n) = ip4_of_nat (?T - 1)"
    by (simp add: getBroadcastIP_ip4 [OF assms(1)])
  have mem: "ip \<in> set ?ips \<longleftrightarrow> length ip = 4 \<and> ?N + 2 \<le> ip4_nat ip \<and> ip4_nat ip < ?T - 1" for ip
  proof
    assume "ip \<in> set ?ips"
    then show "length ip = 4 \<and> ?N + 2 \<le> ip4_nat ip \<and> ip4_nat ip < ?T - 1" using tp by force
  next
    assume "length ip = 4 \<and> ?N + 2 \<le> ip4_nat ip \<and> ip4_nat ip < ?T - 1"
    then show "ip \<in> set ?ips" by (auto simp: image_iff intro!: bexI [of _ "ip4_nat ip"])
  qed
  have excl: "ip \<in> {ipnet_IP n, nextIP (ipnet_IP n), the_ok (getBroadcastIP n)} \<longleftrightarrow>
      ip4_nat ip = ?N \<or> ip4_nat ip = (?N + 1) mod 2 ^ 32 \<or> ip4_nat ip = ?T - 1" if "length ip = 4" for ip
  proof -
    have "ip = ip4_of_nat k \<longleftrightarrow> ip4_nat ip = k mod 2 ^ 32" for k
      using that ip4_nat_inject [of ip "ip4_of_nat k"] ip4_of_nat_mod [of k]
        ip4_nat_of_nat [of "k mod 2 ^ 32"] by simp
    moreover have "(?T - 1) mod 2 ^ 32 = ?T - 1" using tp by simp
    ultimately show ?thesis
      unfolding gw bc using that len ip4_nat_inject [of ip "ipnet_IP n"] by auto
  qed
  have "set ?ips = {ip. length ip = 4 \<and> ipnet_Contains n ip}
      - {ipnet_IP n, nextIP (ipnet_IP n), the_ok (getBroadcastIP n)}"
  proof (rule set_eqI)
    fix ip
    have "(?N + 1) mod 2 ^ 32 = ?N + 1 \<or> ?T = ?N + 1"
    proof (cases "?N + 1 < 2 ^ 32")
      case False
      moreover have "(1 :: nat) \<le> 2 ^ (32 - p)" by simp
      ultimately have "?T = ?N + 1" using tp ip4_nat_less [of "ipnet_IP n"] by linarith
      then show ?thesis ..
    qed simp
    then show "ip \<in> set ?ips \<longleftrightarrow> ip \<in> {ip. length ip = 4 \<and> ipnet_Contains n ip}
        - {ipnet_IP n, nextIP (ipnet_IP n), the_ok (getBroadcastIP n)}"
      unfolding mem using excl [of ip] ipnet_Contains_interval [OF assms(1), of ip] by auto
  qed
  moreover have "ipsInSubnet fuel n True True = Some (Ok ?ips)"
    using ipsInSubnet_ip4 [OF assms refl, of True True] by (simp only: filter_ip_kept)
  moreover have "distinct ?ips" "sorted (map ip4_nat ?ips)"
    unfolding inv using inv by (metis distinct_map distinct_upt, simp)
  ultimately show ?thesis by blast
qed

section \<open>Properties\<close>

text \<open>A subnet function that satisfies the law, to apply the properties to.\<close>

definition cidr_Subnet_ref :: "ipnet \<Rightarrow> int \<Rightarrow> nat \<Rightarrow> ipnet res" where
  "cidr_Subnet_ref n d i =
     (let q = fst (mask_Size (ipnet_Mask n)) + nat d
      in if q \<le> 32 \<and> i < 2 ^ nat d
         then Ok \<lparr>ipnet_IP = ip4_of_nat (ip4_nat (ipnet_IP n) + i * 2 ^ (32 - q)),
                  ipnet_Mask = CIDRMask q 32\<rparr>
         else Err (Foreign ''insufficient address space''))"

lemma cidr_Subnet_ref_law: "cidr_Subnet_law cidr_Subnet_ref"
  unfolding cidr_Subnet_law_def
proof (intro allI impI, elim conjE)
  fix n p d i
  assume net: "ip4_net n p" and d: "0 \<le> d" "int p + d \<le> 32" and i: "i < (2 :: nat) ^ nat d"
  define q where "q = p + nat d"
  have q: "q \<le> 32" "p \<le> 32" using d net by (auto simp: q_def ip4_netD)
  let ?b = "ip4_nat (ipnet_IP n) + i * 2 ^ (32 - q)"
  have "i * 2 ^ (32 - q) < 2 ^ nat d * 2 ^ (32 - q)" using i by simp
  also have "\<dots> = (2 :: nat) ^ (32 - p)" using q by (simp add: q_def flip: power_add)
  finally have b: "?b < 2 ^ 32" using ip4_net_top [OF net] by linarith
  have "(2 :: nat) ^ (32 - q) dvd 2 ^ (32 - p)" by (rule le_imp_power_dvd) (simp add: q_def)
  then have "2 ^ (32 - q) dvd ?b"
    using ip4_net_base_dvd [OF net] by (meson dvd_add dvd_triv_right dvd_trans)
  then have "ip4_net \<lparr>ipnet_IP = ip4_of_nat ?b, ipnet_Mask = CIDRMask q 32\<rparr> q"
    using q b by (intro ip4_netI) simp_all
  then show "\<exists>m. cidr_Subnet_ref n d i = Ok m \<and> ip4_net m (p + nat d)
      \<and> ip4_nat (ipnet_IP m) = ip4_nat (ipnet_IP n) + i * 2 ^ (32 - (p + nat d))"
    using net i q b
    by (auto simp: cidr_Subnet_ref_def ip4_netD Let_def q_def)
qed

definition ipnet_disjoint :: "ipnet \<Rightarrow> ipnet \<Rightarrow> bool" where
  "ipnet_disjoint m n \<longleftrightarrow> (\<forall>ip. length ip = 4 \<longrightarrow> \<not> (ipnet_Contains m ip \<and> ipnet_Contains n ip))"

lemma parts_of_sorted_wrt: "parts_of q a ms \<Longrightarrow> sorted_wrt ipnet_disjoint ms"
  unfolding sorted_wrt_iff_nth_less ipnet_disjoint_def using parts_of_disjoint by blast

lemma parts_concat_mem:
  assumes "list_all2 (parts_of q) as mss" "length ip = 4"
  shows "(\<exists>m \<in> set (concat mss). ipnet_Contains m ip) \<longleftrightarrow> (\<exists>a \<in> set as. ipnet_Contains a ip)"
  using assms(1)
proof (induction rule: list_all2_induct)
  case (Cons a as ms mss)
  have "(\<exists>m \<in> set (concat (ms # mss)). ipnet_Contains m ip) \<longleftrightarrow>
      (\<exists>m \<in> set ms. ipnet_Contains m ip) \<or> (\<exists>m \<in> set (concat mss). ipnet_Contains m ip)" by auto
  also have "\<dots> \<longleftrightarrow> ipnet_Contains a ip \<or> (\<exists>a \<in> set as. ipnet_Contains a ip)"
    by (simp only: Cons.IH parts_of_cover [OF Cons.hyps(1) assms(2)])
  finally show ?case by simp
qed simp

lemma parts_concat_disjoint:
  "list_all2 (parts_of q) as mss \<Longrightarrow> sorted_wrt ipnet_disjoint as \<Longrightarrow>
   sorted_wrt ipnet_disjoint (concat mss)"
proof (induction rule: list_all2_induct)
  case (Cons a as ms mss)
  have "ipnet_disjoint m m'" if m: "m \<in> set ms" and m': "m' \<in> set (concat mss)" for m m'
    unfolding ipnet_disjoint_def
  proof (intro allI impI notI, elim conjE)
    fix ip :: net_ip
    assume ip: "length ip = 4" "ipnet_Contains m ip" "ipnet_Contains m' ip"
    then have "ipnet_Contains a ip" using parts_of_cover [OF Cons.hyps(1) ip(1)] m by blast
    moreover obtain a' where "a' \<in> set as" "ipnet_Contains a' ip"
      using parts_concat_mem [OF Cons.hyps(2) ip(1)] m' ip(3) by blast
    ultimately show False using Cons.prems ip(1) by (auto simp: ipnet_disjoint_def)
  qed
  then show ?case
    using Cons parts_of_sorted_wrt [OF Cons.hyps(1)] by (auto simp: sorted_wrt_append)
qed simp

lemma parts_concat_ip4: "list_all2 (parts_of q) as mss \<Longrightarrow> m \<in> set (concat mss) \<Longrightarrow> ip4_net m q"
  by (induction rule: list_all2_induct) (auto simp: parts_of_def in_set_conv_nth)

text \<open>
  C4: \<open>generateAllSubnets\<close> cuts a space of disjoint IPv4 networks into subnets of the pool size
  that are pairwise disjoint and cover exactly the addresses of the space, and their number is
  what \<open>countPoolSizeSubnets\<close> of the driver announces.
\<close>

theorem generateAllSubnets_partition:
  assumes "cidr_Subnet_law cidr_Subnet" "q \<le> 32" "\<forall>a \<in> set as. \<exists>p \<le> q. ip4_net a p"
    "sorted_wrt ipnet_disjoint as"
  shows "\<exists>ms. generateAllSubnets cidr_Subnet as (int q) = Ok ms
    \<and> list_all (\<lambda>m. ip4_net m q) ms \<and> sorted_wrt ipnet_disjoint ms
    \<and> (\<forall>ip. length ip = 4 \<longrightarrow>
         (\<exists>m \<in> set ms. ipnet_Contains m ip) = (\<exists>a \<in> set as. ipnet_Contains a ip))
    \<and> countPoolSizeSubnets as (int q) = of_nat (length ms)"
proof -
  obtain mss where mss: "generateAllSubnets cidr_Subnet as (int q) = Ok (concat mss)"
    "list_all2 (parts_of q) as mss" using generateAllSubnets_parts [OF assms(1-3)] by blast
  then show ?thesis
    using parts_concat_mem parts_concat_disjoint [OF mss(2) assms(4)] parts_concat_ip4 [OF mss(2)]
      countPoolSizeSubnets_parts [OF mss(2) assms(2)]
    by (intro exI [of _ "concat mss"]) (auto simp: list_all_iff)
qed

lemma generateAllSubnets_partition_witness:
  "\<exists>ms. generateAllSubnets cidr_Subnet_ref
      [\<lparr>ipnet_IP = [10, 0, 8, 0], ipnet_Mask = CIDRMask 23 32\<rparr>] 24 = Ok ms
    \<and> list_all (\<lambda>m. ip4_net m 24) ms \<and> of_nat (length ms) = (2 :: 64 word)
    \<and> (\<exists>m \<in> set ms. ipnet_Contains m [10, 0, 9, 77])"
proof -
  let ?n = "\<lparr>ipnet_IP = [10, 0, 8, 0], ipnet_Mask = CIDRMask 23 32\<rparr> :: ipnet"
  have "ip4_net ?n 23" by code_simp
  then have pre: "\<forall>a \<in> set [?n]. \<exists>p \<le> 24. ip4_net a p" by (auto intro!: exI [of _ 23])
  have le: "(24 :: nat) \<le> 32" and one: "sorted_wrt ipnet_disjoint [?n]" by simp_all
  have count: "countPoolSizeSubnets [?n] 24 = 2" and mem: "ipnet_Contains ?n [10, 0, 9, 77]"
    by code_simp+
  have int: "int 24 = 24" by simp
  obtain ms where ms: "generateAllSubnets cidr_Subnet_ref [?n] 24 = Ok ms"
    "list_all (\<lambda>m. ip4_net m 24) ms" "countPoolSizeSubnets [?n] 24 = of_nat (length ms)"
    "\<forall>ip. length ip = 4 \<longrightarrow>
      (\<exists>m \<in> set ms. ipnet_Contains m ip) = (\<exists>a \<in> set [?n]. ipnet_Contains a ip)"
    using generateAllSubnets_partition [OF cidr_Subnet_ref_law le pre one] unfolding int by blast
  have "\<exists>m \<in> set ms. ipnet_Contains m [10, 0, 9, 77]" using ms(4) mem by simp
  then show ?thesis using ms(1-3) count by auto
qed

text \<open>
  C5: For a pool subnet \<open>ipsInSubnet\<close> ends and lists, once each and in ascending order, exactly
  the addresses of the subnet except the network address, the gateway and the broadcast address.
  The number of addresses of the subnet is enough fuel for the loop.
\<close>

theorem ipsInSubnet_exact:
  assumes "ip4_net n p" "1 \<le> p" "2 ^ (32 - p) \<le> fuel"
  shows "\<exists>ips. ipsInSubnet fuel n True True = Some (Ok ips) \<and> distinct ips
    \<and> sorted (map ip4_nat ips)
    \<and> set ips = {ip. length ip = 4 \<and> ipnet_Contains n ip}
        - {ipnet_IP n, nextIP (ipnet_IP n), the_ok (getBroadcastIP n)}"
  using assms by (rule ipsInSubnet_listing)

lemma ipsInSubnet_exact_witness:
  "\<exists>ips. ipsInSubnet 8 \<lparr>ipnet_IP = [10, 0, 1, 248], ipnet_Mask = CIDRMask 29 32\<rparr> True True
      = Some (Ok ips) \<and> distinct ips
    \<and> ips = [[10, 0, 1, 250], [10, 0, 1, 251], [10, 0, 1, 252], [10, 0, 1, 253], [10, 0, 1, 254]]"
proof -
  let ?n = "\<lparr>ipnet_IP = [10, 0, 1, 248], ipnet_Mask = CIDRMask 29 32\<rparr> :: ipnet"
  have "ip4_net ?n 29" by code_simp
  moreover have "ipsInSubnet 8 ?n True True = Some (Ok [[10, 0, 1, 250], [10, 0, 1, 251],
      [10, 0, 1, 252], [10, 0, 1, 253], [10, 0, 1, 254]])" by code_simp
  ultimately show ?thesis using ipsInSubnet_exact [of ?n 29 8] by auto
qed

text \<open>
  On the network 0.0.0.0/0 the loop of \<open>ipsInSubnet\<close> never ends: every address, also the one
  after 255.255.255.255, is contained in it.
\<close>

theorem ipsInSubnet_default_route_diverges:
  assumes "ip4_net n 0"
  shows "ipsInSubnet fuel n excludeGateway excludeBroadcast = None"
  using assms
  by (simp add: ipsInSubnet_def getBroadcastIP_ip4 ip_Mask_net ip4_netD(2) nextIP_ip4
      ipsInSubnet_prefix0)

lemma ipsInSubnet_default_route_diverges_witness:
  "ipsInSubnet 5000000000 \<lparr>ipnet_IP = [0, 0, 0, 0], ipnet_Mask = CIDRMask 0 32\<rparr> True True = None"
proof -
  have "ip4_net \<lparr>ipnet_IP = [0, 0, 0, 0], ipnet_Mask = CIDRMask 0 32\<rparr> 0" by code_simp
  then show ?thesis by (rule ipsInSubnet_default_route_diverges)
qed

text \<open>
  \<open>getNextAvailableIP\<close> continues after the address of the latest allocation: it returns the
  lowest available address above it, and wraps around to the lowest available address when
  there is none.
\<close>

theorem getNextAvailableIP_next:
  assumes "ips \<noteq> []" "\<forall>ip \<in> set ips. To4 ip \<noteq> []"
    "getLastReservedIP reserved = Ok l" "To4 l \<noteq> []"
  shows "\<exists>ip \<in> set ips. getNextAvailableIP ips reserved = Ok ip \<and>
    (if \<exists>x \<in> set ips. ip_sort_key l < ip_sort_key x
     then ip_sort_key l < ip_sort_key ip
       \<and> (\<forall>x \<in> set ips. ip_sort_key l < ip_sort_key x \<longrightarrow> ip_sort_key ip \<le> ip_sort_key x)
     else \<forall>x \<in> set ips. ip_sort_key ip \<le> ip_sort_key x)"
  using assms by (rule getNextAvailableIP_cyclic)

lemma getNextAvailableIP_next_witness:
  "getNextAvailableIP [[10, 0, 0, 9], [10, 0, 0, 2], [10, 0, 0, 5]]
     [(''a'', zero_Allocation\<lparr>al_ip := [10, 0, 0, 3]\<rparr>)] = Ok [10, 0, 0, 5]"
proof -
  let ?ips = "[[10, 0, 0, 9], [10, 0, 0, 2], [10, 0, 0, 5]] :: net_ip list"
  let ?r = "[(''a'', zero_Allocation\<lparr>al_ip := [10, 0, 0, 3]\<rparr>)]"
  have "getLastReservedIP ?r = Ok [10, 0, 0, 3]" by code_simp
  moreover have "ip_sort_key [10, 0, 0, 9] = 167772169" "ip_sort_key [10, 0, 0, 2] = 167772162"
    "ip_sort_key [10, 0, 0, 5] = 167772165" "ip_sort_key [10, 0, 0, 3] = 167772163"
    by (simp_all add: ip_sort_key_ip4 ip4_nat_def ip4_word_def)
  ultimately have "\<exists>ip \<in> set ?ips. getNextAvailableIP ?ips ?r = Ok ip \<and> ip = [10, 0, 0, 5]"
    using getNextAvailableIP_next [of ?ips ?r "[10, 0, 0, 3]"] by (simp add: To4_def)
  then show ?thesis by blast
qed

end
