(* ===== verification/Common_Maps.thy ===== *)
theory Common_Maps
  imports Net_IP
begin

text \<open>
  Package \<open>common\<close>: the concurrent maps (\<open>concurrent_map.go\<close>, \<open>dualkey_concurrent_map.go\<close>),
  the comparison helpers (\<open>common.go\<close>), events (\<open>event.go\<close>) and one-time initialisation
  (\<open>init_manager.go\<close>). A method that holds the mutex from its first to its last access is one
  atomic function; \<open>GetOrAdd\<close>, which releases the read lock before it takes the write lock, is
  split at that point, and its interleavings are the step relation \<open>goa_step\<close>.
\<close>

section \<open>ConcurrentMap\<close>

record ('k, 'v) ConcurrentMap =
  cm_m :: "('k, 'v) gomap"

definition NewConcurrentMap :: "('k, 'v) ConcurrentMap" where
  "NewConcurrentMap = \<lparr>cm_m = []\<rparr>"

definition cm_Get :: "('k, 'v) ConcurrentMap \<Rightarrow> 'k \<Rightarrow> 'v option" where
  "cm_Get cm key = map_of (cm_m cm) key"

definition cm_Set :: "('k, 'v) ConcurrentMap \<Rightarrow> 'k \<Rightarrow> 'v \<Rightarrow> ('k, 'v) ConcurrentMap" where
  "cm_Set cm key value = cm\<lparr>cm_m := gomap_set (cm_m cm) key value\<rparr>"

definition cm_Remove :: "('k, 'v) ConcurrentMap \<Rightarrow> 'k \<Rightarrow> ('k, 'v) ConcurrentMap" where
  "cm_Remove cm key = cm\<lparr>cm_m := gomap_delete (cm_m cm) key\<rparr>"

definition cm_TryRemove ::
  "('k, 'v) ConcurrentMap \<Rightarrow> 'k \<Rightarrow> 'v option \<times> ('k, 'v) ConcurrentMap"
where
  "cm_TryRemove cm key =
     (case cm_Get cm key of
        Some value \<Rightarrow> (Some value, cm\<lparr>cm_m := gomap_delete (cm_m cm) key\<rparr>)
      | None \<Rightarrow> (None, cm))"

text \<open>
  The part of \<open>GetOrAdd\<close> under the write lock, and the whole call when no other goroutine runs
  between the two locks. The factory is a computation on a state \<open>'s\<close>; a pair \<open>(v, b)\<close> is the
  value with the flag \<open>wasAdded\<close>.
\<close>

definition cm_GetOrAdd_locked ::
  "('k, 'v) ConcurrentMap \<Rightarrow> 'k \<Rightarrow> ('s \<Rightarrow> 'v res \<times> 's) \<Rightarrow> 's \<Rightarrow>
   ('v \<times> bool) res \<times> ('k, 'v) ConcurrentMap \<times> 's"
where
  "cm_GetOrAdd_locked cm key factory s =
     (case cm_Get cm key of
        Some v \<Rightarrow> (Ok (v, False), cm, s)
      | None \<Rightarrow>
          (case factory s of
             (Ok v, s') \<Rightarrow> (Ok (v, True), cm\<lparr>cm_m := gomap_set (cm_m cm) key v\<rparr>, s')
           | (Err e, s') \<Rightarrow> (Err e, cm, s')
           | (Panic, s') \<Rightarrow> (Panic, cm, s')))"

definition cm_GetOrAdd ::
  "('k, 'v) ConcurrentMap \<Rightarrow> 'k \<Rightarrow> ('s \<Rightarrow> 'v res \<times> 's) \<Rightarrow> 's \<Rightarrow>
   ('v \<times> bool) res \<times> ('k, 'v) ConcurrentMap \<times> 's"
where
  "cm_GetOrAdd cm key factory s =
     (case cm_Get cm key of
        Some v \<Rightarrow> (Ok (v, False), cm, s)
      | None \<Rightarrow> cm_GetOrAdd_locked cm key factory s)"

definition cm_TryAdd ::
  "('k, 'v) ConcurrentMap \<Rightarrow> 'k \<Rightarrow> ('s \<Rightarrow> 'v res \<times> 's) \<Rightarrow> 's \<Rightarrow>
   bool res \<times> ('k, 'v) ConcurrentMap \<times> 's"
where
  "cm_TryAdd cm key factory s =
     (case cm_GetOrAdd cm key factory s of
        (Ok (_, wasSet), st) \<Rightarrow> (Ok wasSet, st)
      | (Err e, st) \<Rightarrow> (Err e, st)
      | (Panic, st) \<Rightarrow> (Panic, st))"

definition cm_AddOrUpdate ::
  "('k, 'v) ConcurrentMap \<Rightarrow> 'k \<Rightarrow> 'v \<Rightarrow> ('v \<Rightarrow> 'v) \<Rightarrow> ('v \<times> bool) \<times> ('k, 'v) ConcurrentMap"
where
  "cm_AddOrUpdate cm key addValue updateFunc =
     (case cm_Get cm key of
        Some existing \<Rightarrow>
          let updated = updateFunc existing
          in ((updated, True), cm\<lparr>cm_m := gomap_set (cm_m cm) key updated\<rparr>)
      | None \<Rightarrow> ((addValue, False), cm\<lparr>cm_m := gomap_set (cm_m cm) key addValue\<rparr>))"

definition cm_Count :: "('k, 'v) ConcurrentMap \<Rightarrow> nat" where
  "cm_Count cm = length (cm_m cm)"

definition cm_Keys :: "('k, 'v) ConcurrentMap \<Rightarrow> 'k list" where
  "cm_Keys cm = map fst (cm_m cm)"

definition cm_Values :: "('k, 'v) ConcurrentMap \<Rightarrow> 'v list" where
  "cm_Values cm = map snd (cm_m cm)"

definition cm_ok :: "('k, 'v) ConcurrentMap \<Rightarrow> bool" where
  "cm_ok cm \<longleftrightarrow> gomap_ok (cm_m cm)"

subsection \<open>The interface\<close>

text \<open>
  What the clients of a concurrent map rely on; \<open>inv\<close> is its invariant. The facts below the
  laws are proved once for every implementation.
\<close>

locale dictionary =
  fixes new :: "'m" and get :: "'m \<Rightarrow> 'k \<Rightarrow> 'v option" and put :: "'m \<Rightarrow> 'k \<Rightarrow> 'v \<Rightarrow> 'm"
    and remove :: "'m \<Rightarrow> 'k \<Rightarrow> 'm" and keys :: "'m \<Rightarrow> 'k list" and inv :: "'m \<Rightarrow> bool"
  assumes inv_new: "inv new" and get_new: "get new = Map.empty"
    and get_put: "inv m \<Longrightarrow> get (put m k v) = (get m)(k \<mapsto> v)"
    and get_remove: "inv m \<Longrightarrow> get (remove m k) = (get m)(k := None)"
    and inv_put: "inv m \<Longrightarrow> inv (put m k v)" and inv_remove: "inv m \<Longrightarrow> inv (remove m k)"
    and keys_dom: "inv m \<Longrightarrow> set (keys m) = dom (get m)"
    and keys_distinct: "inv m \<Longrightarrow> distinct (keys m)"
begin

lemma put_all: "inv m \<Longrightarrow> inv (foldl (\<lambda>m (k, v). put m k v) m kvs)
    \<and> get (foldl (\<lambda>m (k, v). put m k v) m kvs) = get m ++ map_of (rev kvs)"
  by (induction kvs arbitrary: m) (auto simp: inv_put get_put map_add_assoc split: prod.splits)

lemma remove_all: "inv m \<Longrightarrow> inv (foldl remove m ks)
    \<and> get (foldl remove m ks) = get m |` (- set ks)"
proof (induction ks arbitrary: m)
  case (Cons k ks)
  have "get (foldl remove m (k # ks)) = (get m)(k := None) |` (- set ks)"
    using Cons.IH [of "remove m k"] Cons.prems by (simp only: foldl.simps inv_remove get_remove)
  also have "\<dots> = get m |` (- set (k # ks))" by (rule ext) (simp add: restrict_map_def)
  finally show ?case using Cons by (simp add: inv_remove)
qed (simp add: restrict_map_def)

lemma remove_keys: "inv m \<Longrightarrow> get (foldl remove m (keys m)) = Map.empty"
  by (auto simp: remove_all restrict_map_def keys_dom fun_eq_iff)

lemma length_keys: "inv m \<Longrightarrow> length (keys m) = card (dom (get m))"
  by (metis keys_dom keys_distinct distinct_card)

end

interpretation cm: dictionary NewConcurrentMap cm_Get cm_Set cm_Remove cm_Keys cm_ok
  by unfold_locales
    (auto simp: NewConcurrentMap_def cm_Get_def cm_Set_def cm_Remove_def cm_Keys_def cm_ok_def
      gomap_ok_def fun_eq_iff distinct_update distinct_delete dom_map_of_conv_image_fst
      intro: rev_image_eqI)

lemma cm_ok_update [simp]:
  "cm_ok cm \<Longrightarrow> cm_ok (cm\<lparr>cm_m := gomap_set (cm_m cm) k v\<rparr>)"
  "cm_ok cm \<Longrightarrow> cm_ok (cm\<lparr>cm_m := gomap_delete (cm_m cm) k\<rparr>)"
  by (simp_all add: cm_ok_def)

lemma cm_Count_card: "cm_ok cm \<Longrightarrow> cm_Count cm = card (dom (cm_Get cm))"
  using cm.length_keys [of cm] by (simp add: cm_Count_def cm_Keys_def)

lemma cm_GetOrAdd_locked_cases:
  "cm_GetOrAdd_locked cm k f s = (r, cm', s') \<Longrightarrow>
   (\<exists>v. cm_Get cm k = Some v \<and> r = Ok (v, False) \<and> cm' = cm \<and> s' = s)
   \<or> (\<exists>v. cm_Get cm k = None \<and> f s = (Ok v, s') \<and> r = Ok (v, True) \<and> cm' = cm_Set cm k v)
   \<or> (cm_Get cm k = None \<and> cm' = cm \<and> (\<forall>v. r \<noteq> Ok v))"
  by (auto simp: cm_GetOrAdd_locked_def cm_Set_def split: option.splits prod.splits res.splits)

subsection \<open>Concurrent calls of GetOrAdd\<close>

text \<open>
  Goroutine \<open>i\<close> calls \<open>GetOrAdd\<close> for one key with a factory that returns \<open>f i\<close>. Its two steps are
  the look-up under the read lock and the rest under the write lock; the steps of different
  goroutines interleave freely.
\<close>

datatype 'v goa_pc = GoaStart | GoaMissed | GoaDone "('v \<times> bool) res"

type_synonym ('k, 'v) goa_state = "('k, 'v) ConcurrentMap \<times> (nat \<Rightarrow> 'v goa_pc)"

inductive goa_step ::
  "'k \<Rightarrow> (nat \<Rightarrow> 'v res) \<Rightarrow> ('k, 'v) goa_state \<Rightarrow> ('k, 'v) goa_state \<Rightarrow> bool" for key f
where
  hit: "t i = GoaStart \<Longrightarrow> cm_Get cm key = Some v \<Longrightarrow>
    goa_step key f (cm, t) (cm, t(i := GoaDone (Ok (v, False))))"
| miss: "t i = GoaStart \<Longrightarrow> cm_Get cm key = None \<Longrightarrow> goa_step key f (cm, t) (cm, t(i := GoaMissed))"
| locked: "t i = GoaMissed \<Longrightarrow> cm_GetOrAdd_locked cm key (\<lambda>u. (f i, u)) () = (r, cm', ()) \<Longrightarrow>
    goa_step key f (cm, t) (cm', t(i := GoaDone r))"

inductive_cases goa_stepE: "goa_step key f (cm, t) st"

definition goa_inv :: "'k \<Rightarrow> ('k, 'v) goa_state \<Rightarrow> bool" where
  "goa_inv key st \<longleftrightarrow>
     (\<forall>i v b. snd st i = GoaDone (Ok (v, b)) \<longrightarrow> cm_Get (fst st) key = Some v)
     \<and> (\<forall>i j v w. snd st i = GoaDone (Ok (v, True)) \<longrightarrow> snd st j = GoaDone (Ok (w, True)) \<longrightarrow> i = j)
     \<and> (cm_Get (fst st) key \<noteq> None \<longrightarrow> (\<exists>i v. snd st i = GoaDone (Ok (v, True))))"

lemma goa_inv_quiet:
  assumes inv: "goa_inv key (cm, t)" and i: "t i = GoaStart \<or> t i = GoaMissed"
    and pc: "\<And>v b. pc = GoaDone (Ok (v, b)) \<Longrightarrow> \<not> b \<and> cm_Get cm key = Some v"
  shows "goa_inv key (cm, t(i := pc))"
proof -
  have "\<exists>j w. (t(i := pc)) j = GoaDone (Ok (w, True))" if "cm_Get cm key \<noteq> None"
  proof -
    obtain j w where "t j = GoaDone (Ok (w, True))" using inv \<open>cm_Get cm key \<noteq> None\<close>
      by (auto simp: goa_inv_def)
    then show ?thesis using i by (intro exI [of _ j] exI [of _ w]) auto
  qed
  moreover have "(t(i := pc)) j = GoaDone (Ok (w, True)) \<longleftrightarrow> t j = GoaDone (Ok (w, True))" for j w
    using i pc [of w True] by auto
  ultimately show ?thesis using inv pc by (auto simp: goa_inv_def)
qed

lemma goa_step_inv: "goa_step key f st st' \<Longrightarrow> cm_ok (fst st) \<Longrightarrow> goa_inv key st \<Longrightarrow>
  cm_ok (fst st') \<and> goa_inv key st'"
proof (induction rule: goa_step.induct)
  case (hit t i cm v)
  then show ?case by (auto intro!: goa_inv_quiet)
next
  case (miss t i cm)
  then show ?case by (auto intro!: goa_inv_quiet)
next
  case (locked t i cm r cm')
  from cm_GetOrAdd_locked_cases [OF locked.hyps(2)] show ?case
  proof (elim disjE exE conjE)
    fix v
    assume a: "cm_Get cm key = None" "r = Ok (v, True)" "cm' = cm_Set cm key v"
    have none: "t j \<noteq> GoaDone (Ok (w, b))" for j w b
      using locked.prems(2) a(1) by (auto simp: goa_inv_def)
    have "cm_ok cm'" "cm_Get cm' key = Some v"
      using a locked.prems(1) by (simp_all add: cm.inv_put cm.get_put)
    then show ?case using a none by (auto simp: goa_inv_def)
  qed (use locked in \<open>auto intro!: goa_inv_quiet\<close>)
qed

lemma goa_reachable_inv:
  "(goa_step key f)\<^sup>*\<^sup>* st st' \<Longrightarrow> cm_ok (fst st) \<Longrightarrow> goa_inv key st \<Longrightarrow>
   cm_ok (fst st') \<and> goa_inv key st'"
  by (induction rule: rtranclp_induct) (auto dest: goa_step_inv)

section \<open>ConcurrentDualKeyMap\<close>

text \<open>\<open>zeroK1\<close> and \<open>zeroK2\<close> are the zero values of the key types.\<close>

record ('t, 'k1, 'k2, 'v) ConcurrentDualKeyMap =
  m1 :: "('k1, 'v) gomap"
  m2 :: "('k2, 'v) gomap"
  getKey1 :: "'t \<Rightarrow> 'k1"
  getKey2 :: "'t \<Rightarrow> 'k2"
  zeroK1 :: 'k1
  zeroK2 :: 'k2

definition ErrConflict :: goerr where
  "ErrConflict = Errorf ''both keys exist with different associated values''"

definition NewConcurrentDualKeyMap ::
  "('t \<Rightarrow> 'k1) \<Rightarrow> ('t \<Rightarrow> 'k2) \<Rightarrow> 'k1 \<Rightarrow> 'k2 \<Rightarrow> ('t, 'k1, 'k2, 'v) ConcurrentDualKeyMap"
where
  "NewConcurrentDualKeyMap g1 g2 z1 z2 =
     \<lparr>m1 = [], m2 = [], getKey1 = g1, getKey2 = g2, zeroK1 = z1, zeroK2 = z2\<rparr>"

definition dkm_Set ::
  "('t, 'k1, 'k2, 'v) ConcurrentDualKeyMap \<Rightarrow> 't \<Rightarrow> 'v \<Rightarrow> ('t, 'k1, 'k2, 'v) ConcurrentDualKeyMap"
where
  "dkm_Set dkm key value =
     (let k1 = getKey1 dkm key; k2 = getKey2 dkm key;
          dkm = (if k1 \<noteq> zeroK1 dkm then dkm\<lparr>m1 := gomap_set (m1 dkm) k1 value\<rparr> else dkm)
      in if k2 \<noteq> zeroK2 dkm then dkm\<lparr>m2 := gomap_set (m2 dkm) k2 value\<rparr> else dkm)"

text \<open>\<open>Ok None\<close> is the answer \<open>exists = false\<close>; a look-up may record a missing association.\<close>

definition dkm_Get ::
  "('t, 'k1, 'k2, 'v) ConcurrentDualKeyMap \<Rightarrow> 't \<Rightarrow>
   'v option res \<times> ('t, 'k1, 'k2, 'v) ConcurrentDualKeyMap"
where
  "dkm_Get dkm key =
     (let k1 = getKey1 dkm key; k2 = getKey2 dkm key
      in case (map_of (m1 dkm) k1, map_of (m2 dkm) k2) of
           (Some v1, Some v2) \<Rightarrow> (if v1 \<noteq> v2 then Err ErrConflict else Ok (Some v1), dkm)
         | (Some v1, None) \<Rightarrow>
             (Ok (Some v1), if k2 \<noteq> zeroK2 dkm then dkm\<lparr>m2 := gomap_set (m2 dkm) k2 v1\<rparr> else dkm)
         | (None, Some v2) \<Rightarrow>
             (Ok (Some v2), if k1 \<noteq> zeroK1 dkm then dkm\<lparr>m1 := gomap_set (m1 dkm) k1 v2\<rparr> else dkm)
         | (None, None) \<Rightarrow> (Ok None, dkm))"

definition dkm_Remove ::
  "('t, 'k1, 'k2, 'v) ConcurrentDualKeyMap \<Rightarrow> 't \<Rightarrow>
   unit res \<times> ('t, 'k1, 'k2, 'v) ConcurrentDualKeyMap"
where
  "dkm_Remove dkm key =
     (let k1 = getKey1 dkm key; k2 = getKey2 dkm key
      in case (map_of (m1 dkm) k1, map_of (m2 dkm) k2) of
           (Some v1, Some v2) \<Rightarrow>
             if v1 \<noteq> v2 then (Err ErrConflict, dkm)
             else (Ok (), dkm\<lparr>m1 := gomap_delete (m1 dkm) k1, m2 := gomap_delete (m2 dkm) k2\<rparr>)
         | (Some v1, None) \<Rightarrow> (Ok (), dkm\<lparr>m1 := gomap_delete (m1 dkm) k1\<rparr>)
         | (None, Some v2) \<Rightarrow> (Ok (), dkm\<lparr>m2 := gomap_delete (m2 dkm) k2\<rparr>)
         | (None, None) \<Rightarrow> (Ok (), dkm))"

definition common_Max :: "'a :: linorder \<Rightarrow> 'a \<Rightarrow> 'a" where
  "common_Max a b = (if a > b then a else b)"

definition dkm_Count :: "('t, 'k1, 'k2, 'v) ConcurrentDualKeyMap \<Rightarrow> nat" where
  "dkm_Count dkm = common_Max (length (m1 dkm)) (length (m2 dkm))"

definition dkm_Keys :: "('t, 'k1, 'k2, 'v) ConcurrentDualKeyMap \<Rightarrow> 'k1 list \<times> 'k2 list" where
  "dkm_Keys dkm = (map fst (m1 dkm), map fst (m2 dkm))"

text \<open>No operation stores under a zero key; the key functions never change.\<close>

definition dkm_ok :: "('t, 'k1, 'k2, 'v) ConcurrentDualKeyMap \<Rightarrow> bool" where
  "dkm_ok dkm \<longleftrightarrow> gomap_ok (m1 dkm) \<and> gomap_ok (m2 dkm)
     \<and> map_of (m1 dkm) (zeroK1 dkm) = None \<and> map_of (m2 dkm) (zeroK2 dkm) = None"

lemma dkm_ok_New: "dkm_ok (NewConcurrentDualKeyMap g1 g2 z1 z2)"
  by (simp add: dkm_ok_def NewConcurrentDualKeyMap_def)

lemma dkm_ok_Set: "dkm_ok dkm \<Longrightarrow> dkm_ok (dkm_Set dkm key v)"
  by (auto simp: dkm_ok_def dkm_Set_def Let_def)

lemma dkm_ok_Get: "dkm_ok dkm \<Longrightarrow> dkm_ok (snd (dkm_Get dkm key))"
  by (auto simp: dkm_ok_def dkm_Get_def Let_def split: option.splits)

lemma dkm_ok_Remove: "dkm_ok dkm \<Longrightarrow> dkm_ok (snd (dkm_Remove dkm key))"
  by (auto simp: dkm_ok_def dkm_Remove_def Let_def split: option.splits)

lemma dkm_Set_keys [simp]: "getKey1 (dkm_Set dkm key v) = getKey1 dkm"
  "getKey2 (dkm_Set dkm key v) = getKey2 dkm" "zeroK1 (dkm_Set dkm key v) = zeroK1 dkm"
  "zeroK2 (dkm_Set dkm key v) = zeroK2 dkm"
  by (simp_all add: dkm_Set_def Let_def)

lemma dkm_Set_m:
  "map_of (m1 (dkm_Set dkm key v)) = (if getKey1 dkm key \<noteq> zeroK1 dkm
     then (map_of (m1 dkm))(getKey1 dkm key \<mapsto> v) else map_of (m1 dkm))"
  "map_of (m2 (dkm_Set dkm key v)) = (if getKey2 dkm key \<noteq> zeroK2 dkm
     then (map_of (m2 dkm))(getKey2 dkm key \<mapsto> v) else map_of (m2 dkm))"
  by (simp_all add: dkm_Set_def Let_def)

section \<open>Helpers of common.go\<close>

definition SubnetToKey :: "string \<Rightarrow> string" where
  "SubnetToKey subnet = ReplaceAll CHR ''/'' CHR ''-'' subnet"

definition GetPtrFromMap :: "('k, 'v) gomap \<Rightarrow> 'k \<Rightarrow> 'v option" where
  "GetPtrFromMap m key = map_of m key"

text \<open>A nil map is \<open>None\<close>; the three comparison functions differ only in the value comparison.\<close>

definition compare_maps ::
  "('v \<Rightarrow> 'v \<Rightarrow> bool) \<Rightarrow> ('k, 'v) gomap option \<Rightarrow> ('k, 'v) gomap option \<Rightarrow> bool"
where
  "compare_maps eq a b =
     (case (a, b) of
        (None, None) \<Rightarrow> True
      | (Some a, Some b) \<Rightarrow>
          length a = length b
          \<and> list_all (\<lambda>(key, valA). case map_of b key of None \<Rightarrow> False | Some valB \<Rightarrow> eq valA valB) a
      | _ \<Rightarrow> False)"

fun compareStringSlices :: "string list \<Rightarrow> string list \<Rightarrow> bool" where
  "compareStringSlices a b =
     (length a = length b \<and> list_all (\<lambda>i. a ! i = b ! i) [0..<length a])"

definition CompareIPMaps ::
  "(string, net_ip) gomap option \<Rightarrow> (string, net_ip) gomap option \<Rightarrow> bool"
where
  "CompareIPMaps a b = compare_maps ip_Equal a b"

definition CompareStringMaps ::
  "(string, string) gomap option \<Rightarrow> (string, string) gomap option \<Rightarrow> bool"
where
  "CompareStringMaps a b = compare_maps (=) a b"

definition CompareStringArrayMaps ::
  "(string, string list) gomap option \<Rightarrow> (string, string list) gomap option \<Rightarrow> bool"
where
  "CompareStringArrayMaps a b = compare_maps compareStringSlices a b"

record NetworkInfo =
  ni_DockerID :: string
  ni_FlannelID :: string
  ni_Subnet :: string
  ni_Name :: string

definition IsFlannelNetwork :: "NetworkInfo \<Rightarrow> bool" where
  "IsFlannelNetwork n \<longleftrightarrow> ni_FlannelID n \<noteq> []"

definition NetworkInfo_Equals :: "NetworkInfo \<Rightarrow> NetworkInfo \<Rightarrow> bool" where
  "NetworkInfo_Equals n o' \<longleftrightarrow> \<not> (ni_FlannelID n \<noteq> ni_FlannelID o' \<or> ni_Name n \<noteq> ni_Name o')"

text \<open>\<open>AddOrUpdate\<close>: the update function is optional, as the Go code passes nil for none.\<close>

definition AddOrUpdate ::
  "(string, 'a) gomap \<Rightarrow> string \<Rightarrow> 'a \<Rightarrow> ('a \<Rightarrow> 'a) option \<Rightarrow> (string, 'a) gomap"
where
  "AddOrUpdate store key valueToAdd upd =
     (let existing = (case map_of store key of
                        Some e \<Rightarrow> (case upd of Some u \<Rightarrow> u e | None \<Rightarrow> e)
                      | None \<Rightarrow> valueToAdd)
      in gomap_set store key existing)"

lemma compareStringSlices_iff [simp]: "compareStringSlices a b \<longleftrightarrow> a = b"
  by (auto simp: list_all_iff intro: nth_equalityI)

declare compareStringSlices.simps [simp del]

lemma gomap_keys_subset_length:
  assumes "gomap_ok a" "gomap_ok b" "length a = length b" "dom (map_of a) \<subseteq> dom (map_of b)"
  shows "dom (map_of a) = dom (map_of b)"
proof (rule card_subset_eq [OF _ assms(4)])
  have "card (dom (map_of m)) = length m" if "gomap_ok m" for m :: "('a, 'c) gomap"
    using that distinct_card [of "map fst m"] by (simp add: gomap_ok_def flip: gomap_keys_dom)
  moreover have "card (dom (map_of b)) = length b"
    using assms(2) distinct_card [of "map fst b"] by (simp add: gomap_ok_def flip: gomap_keys_dom)
  ultimately show "card (dom (map_of a)) = card (dom (map_of b))"
    using assms distinct_card [of "map fst a"] by (simp add: gomap_ok_def flip: gomap_keys_dom)
qed (simp add: finite_dom_map_of)

lemma compare_maps_iff:
  assumes "gomap_ok a" "gomap_ok b"
  shows "compare_maps eq (Some a) (Some b) \<longleftrightarrow> (\<forall>k. rel_option eq (map_of a k) (map_of b k))"
proof
  assume c: "compare_maps eq (Some a) (Some b)"
  have mem: "\<exists>w. map_of b k = Some w \<and> eq v w" if "map_of a k = Some v" for k v
    using c that map_of_SomeD [OF that]
    by (fastforce simp: compare_maps_def list_all_iff split: option.splits)
  then have "dom (map_of a) \<subseteq> dom (map_of b)" by fastforce
  then have "dom (map_of a) = dom (map_of b)"
    using c assms by (intro gomap_keys_subset_length) (auto simp: compare_maps_def)
  then show "\<forall>k. rel_option eq (map_of a k) (map_of b k)"
    using mem by (metis domIff not_None_eq option.rel_intros)
next
  assume r: "\<forall>k. rel_option eq (map_of a k) (map_of b k)"
  then have "map_of a k = None \<longleftrightarrow> map_of b k = None" for k
    by (metis option.rel_distinct(1) option.rel_distinct(2) not_None_eq)
  then have "dom (map_of a) = dom (map_of b)" unfolding dom_def by simp
  then have "set (map fst a) = set (map fst b)" unfolding gomap_keys_dom .
  then have "length a = length b"
    using assms by (metis distinct_card gomap_ok_def length_map)
  moreover have "case map_of b k of None \<Rightarrow> False | Some w \<Rightarrow> eq v w" if "(k, v) \<in> set a" for k v
    using r that assms(1) by (metis gomap_mem_iff option.rel_cases option.simps(5) option.inject option.distinct(1))
  ultimately show "compare_maps eq (Some a) (Some b)"
    by (auto simp: compare_maps_def list_all_iff)
qed

section \<open>Events\<close>

text \<open>A handler is a computation on the state \<open>'s\<close> of the program around the event.\<close>

record ('d, 's) event =
  handlers :: "(int, 'd \<Rightarrow> 's \<Rightarrow> 's) gomap"
  nextID :: int

definition NewEvent :: "('d, 's) event" where
  "NewEvent = \<lparr>handlers = [], nextID = 0\<rparr>"

text \<open>\<open>Subscribe\<close> returns the id that its unsubscribe closure captures.\<close>

definition Subscribe :: "('d, 's) event \<Rightarrow> ('d \<Rightarrow> 's \<Rightarrow> 's) \<Rightarrow> int \<times> ('d, 's) event" where
  "Subscribe e handler =
     (let hid = nextID e
      in (hid, e\<lparr>nextID := nextID e + 1, handlers := gomap_set (handlers e) hid handler\<rparr>))"

definition unsubscribe :: "('d, 's) event \<Rightarrow> int \<Rightarrow> ('d, 's) event" where
  "unsubscribe e hid = e\<lparr>handlers := gomap_delete (handlers e) hid\<rparr>"

definition Raise :: "('d, 's) event \<Rightarrow> 'd \<Rightarrow> 's \<Rightarrow> 's" where
  "Raise e data s = foldl (\<lambda>s (_, handler). handler data s) s (handlers e)"

definition event_ok :: "('d, 's) event \<Rightarrow> bool" where
  "event_ok e \<longleftrightarrow> gomap_ok (handlers e) \<and> (\<forall>hid \<ge> nextID e. map_of (handlers e) hid = None)"

lemma event_ok_NewEvent: "event_ok NewEvent"
  by (simp add: event_ok_def NewEvent_def)

lemma event_ok_Subscribe: "event_ok e \<Longrightarrow> event_ok (snd (Subscribe e h))"
  by (auto simp: event_ok_def Subscribe_def Let_def)

lemma event_ok_unsubscribe: "event_ok e \<Longrightarrow> event_ok (unsubscribe e hid)"
  by (auto simp: event_ok_def unsubscribe_def)

text \<open>A new subscription gets an id of its own: it is called last and once.\<close>

lemma update_fresh: "k \<notin> set (map fst m) \<Longrightarrow> gomap_set m k v = m @ [(k, v)]"
  by (induction m) auto

lemma delete_fresh: "k \<notin> set (map fst m) \<Longrightarrow> gomap_delete m k = m"
  by (induction m) (auto simp: AList.delete_eq)

lemma Subscribe_handlers:
  "event_ok e \<Longrightarrow> handlers (snd (Subscribe e h)) = handlers e @ [(nextID e, h)]"
  by (auto simp: Subscribe_def Let_def event_ok_def map_of_eq_None_iff intro!: update_fresh)

section \<open>One-time initialisation\<close>

text \<open>
  The state of an \<open>InitManager\<close> with the number of runs of its function as ghost state. The
  steps: a call of \<open>Init\<close> (only the first starts the goroutine), the end of the goroutine with
  the result of the initialisation function, and \<open>Cancel\<close>.
\<close>

record InitManager =
  once_done :: bool
  running :: bool
  done_closed :: bool
  im_err :: "goerr option"
  cancelled :: bool
  runs :: nat

definition NewInitManager :: InitManager where
  "NewInitManager = \<lparr>once_done = False, running = False, done_closed = False, im_err = None,
     cancelled = False, runs = 0\<rparr>"

definition im_Init :: "InitManager \<Rightarrow> InitManager" where
  "im_Init m = (if once_done m then m
     else m\<lparr>once_done := True, running := True, runs := runs m + 1\<rparr>)"

definition im_finish :: "goerr option \<Rightarrow> InitManager \<Rightarrow> InitManager" where
  "im_finish r m =
     (case r of Some e \<Rightarrow> m\<lparr>im_err := Some e\<rparr> | None \<Rightarrow> m)\<lparr>done_closed := True, running := False\<rparr>"

definition im_Cancel :: "InitManager \<Rightarrow> InitManager" where
  "im_Cancel m = (if once_done m then m\<lparr>cancelled := True\<rparr> else m)"

definition im_IsDone :: "InitManager \<Rightarrow> bool" where
  "im_IsDone m = done_closed m"

text \<open>\<open>Wait\<close> blocks until the channel is closed: \<open>None\<close> while it blocks.\<close>

definition im_Wait :: "InitManager \<Rightarrow> unit res option" where
  "im_Wait m = (if done_closed m then Some (case im_err m of None \<Rightarrow> Ok () | Some e \<Rightarrow> Err e)
     else None)"

inductive im_step :: "goerr option \<Rightarrow> InitManager \<Rightarrow> InitManager \<Rightarrow> bool" for r where
  init: "im_step r m (im_Init m)"
| finish: "running m \<Longrightarrow> im_step r m (im_finish r m)"
| cancel: "im_step r m (im_Cancel m)"

definition im_inv :: "goerr option \<Rightarrow> InitManager \<Rightarrow> bool" where
  "im_inv r m \<longleftrightarrow> runs m \<le> 1 \<and> (once_done m \<longleftrightarrow> runs m = 1)
     \<and> (once_done m \<longleftrightarrow> running m \<noteq> done_closed m) \<and> \<not> (running m \<and> done_closed m)
     \<and> im_err m = (if done_closed m then r else None)"

lemma im_step_inv: "im_step r m m' \<Longrightarrow> im_inv r m \<Longrightarrow> im_inv r m'"
  by (induction rule: im_step.induct)
    (auto simp: im_inv_def im_Init_def im_finish_def im_Cancel_def split: option.splits)

lemma im_reachable_inv: "(im_step r)\<^sup>*\<^sup>* m m' \<Longrightarrow> im_inv r m \<Longrightarrow> im_inv r m'"
  by (induction rule: rtranclp_induct) (auto dest: im_step_inv)

section \<open>Properties\<close>

text \<open>
  C35: When any number of goroutines call \<open>GetOrAdd\<close> for the same absent key, in every
  interleaving of their look-ups and locked sections all successful calls return one and the
  same value, the one the map holds, and exactly one of them reports that it added it.
\<close>

theorem GetOrAdd_once:
  assumes "(goa_step key f)\<^sup>*\<^sup>* (cm, \<lambda>_. GoaStart) (cm', t)" "cm_ok cm" "cm_Get cm key = None"
    "t i = GoaDone (Ok (v, b))"
  shows "cm_Get cm' key = Some v \<and> (\<exists>!j. \<exists>w. t j = GoaDone (Ok (w, True)))"
proof -
  have "goa_inv key (cm, \<lambda>_. GoaStart)" using assms(3) by (simp add: goa_inv_def)
  then have "goa_inv key (cm', t)" using goa_reachable_inv [OF assms(1)] assms(2) by simp
  then show ?thesis using assms(4) unfolding goa_inv_def by fastforce
qed

lemma GetOrAdd_once_witness:
  "\<exists>t. (goa_step ''n'' (\<lambda>i. Ok i))\<^sup>*\<^sup>* (NewConcurrentMap, \<lambda>_. GoaStart)
       (cm_Set NewConcurrentMap ''n'' 1, t)
     \<and> t 0 = GoaDone (Ok (1, False)) \<and> (\<exists>!j. \<exists>w. t j = GoaDone (Ok (w, True)))"
proof -
  let ?s = "goa_step ''n'' (\<lambda>i. Ok i)" and ?e = "NewConcurrentMap :: (string, nat) ConcurrentMap"
  let ?t0 = "\<lambda>_. GoaStart" let ?t1 = "?t0(0 := GoaMissed)" let ?t2 = "?t1(1 := GoaMissed)"
  let ?t3 = "?t2(1 := GoaDone (Ok (1, True)))" let ?t4 = "?t3(0 := GoaDone (Ok (1, False)))"
  let ?c = "cm_Set ?e ''n'' 1"
  have get: "cm_Get ?e ''n'' = None" "cm_Get ?c ''n'' = Some 1" by code_simp+
  have "?s (?e, ?t0) (?e, ?t1)" "?s (?e, ?t1) (?e, ?t2)"
    using get by (auto intro: goa_step.miss)
  moreover have "?s (?e, ?t2) (?c, ?t3)" "?s (?c, ?t3) (?c, ?t4)"
    by (rule goa_step.locked, simp, use get in \<open>simp add: cm_GetOrAdd_locked_def cm_Set_def\<close>)+
  ultimately have "?s\<^sup>*\<^sup>* (?e, ?t0) (?c, ?t4)" by (meson rtranclp.rtrancl_into_rtrancl rtranclp.rtrancl_refl)
  then show ?thesis using GetOrAdd_once [of "''n''" "\<lambda>i. Ok i" ?e ?c ?t4 0 1 False] get(1) cm.inv_new
    by (intro exI [of _ ?t4]) auto
qed

text \<open>
  After \<open>Set\<close> under a key with two parts, \<open>Get\<close> with both parts, with the first part alone
  or with the second part alone returns the value without a conflict.
\<close>

theorem dkm_Get_after_Set:
  assumes "dkm_ok dkm" "getKey1 dkm t \<noteq> zeroK1 dkm" "getKey2 dkm t \<noteq> zeroK2 dkm"
    "getKey1 dkm u \<in> {getKey1 dkm t, zeroK1 dkm}" "getKey2 dkm u \<in> {getKey2 dkm t, zeroK2 dkm}"
    "getKey1 dkm u \<noteq> zeroK1 dkm \<or> getKey2 dkm u \<noteq> zeroK2 dkm"
  shows "dkm_Get (dkm_Set dkm t v) u = (Ok (Some v), dkm_Set dkm t v)"
  using assms by (auto simp: dkm_Get_def dkm_Set_m dkm_ok_def Let_def)

lemma dkm_Get_after_Set_witness:
  "let dkm = NewConcurrentDualKeyMap fst snd [] [] :: (string \<times> string, _, _, nat) ConcurrentDualKeyMap
   in dkm_Get (dkm_Set dkm (''a'', ''b'') 7) ([], ''b'') = (Ok (Some 7), dkm_Set dkm (''a'', ''b'') 7)"
  unfolding Let_def
  by (rule dkm_Get_after_Set [OF dkm_ok_New]) (simp_all add: NewConcurrentDualKeyMap_def)

text \<open>
  \<open>Remove\<close> with only the first part of a key leaves the association of the second part: a
  later \<open>Get\<close> by the second part still finds the removed value.
\<close>

theorem dkm_Remove_half:
  assumes "dkm_ok dkm" "getKey1 dkm t \<noteq> zeroK1 dkm" "getKey2 dkm t \<noteq> zeroK2 dkm"
    "getKey1 dkm u = getKey1 dkm t" "getKey2 dkm u = zeroK2 dkm"
    "getKey1 dkm w = zeroK1 dkm" "getKey2 dkm w = getKey2 dkm t"
  shows "fst (dkm_Get (snd (dkm_Remove (dkm_Set dkm t v) u)) w) = Ok (Some v)
    \<and> fst (dkm_Get (snd (dkm_Remove (dkm_Set dkm t v) t)) w) = Ok None"
  using assms by (auto simp: dkm_Get_def dkm_Remove_def dkm_Set_m dkm_ok_def Let_def)

lemma dkm_Remove_half_witness:
  "let dkm = NewConcurrentDualKeyMap fst snd [] [] :: (string \<times> string, _, _, nat) ConcurrentDualKeyMap
   in fst (dkm_Get (snd (dkm_Remove (dkm_Set dkm (''a'', ''b'') 7) (''a'', []))) ([], ''b'')) = Ok (Some 7)"
proof -
  let ?d = "NewConcurrentDualKeyMap fst snd [] [] :: (string \<times> string, _, _, nat) ConcurrentDualKeyMap"
  have "fst (dkm_Get (snd (dkm_Remove (dkm_Set ?d (''a'', ''b'') 7) (''a'', []))) ([], ''b''))
      = Ok (Some 7)"
    by (rule dkm_Remove_half [OF dkm_ok_New, THEN conjunct1])
      (simp_all add: NewConcurrentDualKeyMap_def)
  then show ?thesis by (simp add: Let_def)
qed

text \<open>
  \<open>CompareIPMaps\<close> decides equality of two maps: it is true exactly when both are nil, or
  neither is and they have the same keys with equal addresses, in whatever order they are ranged
  over.
\<close>

theorem CompareIPMaps_iff:
  assumes "pred_option gomap_ok a" "pred_option gomap_ok b"
  shows "CompareIPMaps a b \<longleftrightarrow>
    (a = None \<and> b = None) \<or>
    (a \<noteq> None \<and> b \<noteq> None \<and> (\<forall>k. rel_option ip_Equal (map_of (the a) k) (map_of (the b) k)))"
  using assms by (cases a; cases b) (simp_all add: CompareIPMaps_def compare_maps_iff, simp_all add: compare_maps_def)

lemma CompareIPMaps_iff_witness:
  "CompareIPMaps (Some [(''n'', [10, 0, 0, 1]), (''m'', [])])
     (Some [(''m'', []), (''n'', v4InV6Prefix @ [10, 0, 0, 1])])
   \<and> pred_option gomap_ok (Some [(''n'', [10, 0, 0, 1 :: byte]), (''m'', [])])"
proof -
  let ?a = "[(''n'', [10, 0, 0, 1]), (''m'', [])] :: (string, net_ip) gomap"
  let ?b = "[(''m'', []), (''n'', v4InV6Prefix @ [10, 0, 0, 1])] :: (string, net_ip) gomap"
  have "gomap_ok ?a" "gomap_ok ?b" by code_simp+
  moreover have "rel_option ip_Equal (map_of ?a k) (map_of ?b k)" for k
    by (auto simp: ip_Equal_def)
  ultimately show ?thesis using CompareIPMaps_iff [of "Some ?a" "Some ?b"] by simp
qed

text \<open>
  An \<open>InitManager\<close> runs its function at most once, however often and in whatever order
  \<open>Init\<close> and \<open>Cancel\<close> are called; when \<open>Wait\<close> returns, it returns the result of that run, and it
  does not return before \<open>Init\<close> was called.
\<close>

theorem InitManager_once:
  assumes "(im_step r)\<^sup>*\<^sup>* NewInitManager m"
  shows "runs m \<le> 1
    \<and> im_Wait m \<in> {None, Some (case r of None \<Rightarrow> Ok () | Some e \<Rightarrow> Err e)}
    \<and> (runs m = 0 \<longrightarrow> im_Wait m = None)"
proof -
  have "im_inv r m"
    by (rule im_reachable_inv [OF assms]) (simp add: im_inv_def NewInitManager_def)
  then have "runs m \<le> 1" "runs m = 0 \<longrightarrow> \<not> done_closed m" "done_closed m \<longrightarrow> im_err m = r"
    by (auto simp: im_inv_def)
  then show ?thesis by (auto simp: im_Wait_def)
qed

lemma InitManager_once_witness:
  "let m = im_finish (Some (Errorf ''x'')) (im_Init (im_Init NewInitManager))
   in runs m \<le> 1 \<and> im_Wait m = Some (Err (Errorf ''x''))"
proof -
  let ?r = "Some (Errorf ''x'')"
  have "im_step ?r NewInitManager (im_Init NewInitManager)" by (rule im_step.init)
  moreover have "im_step ?r (im_Init NewInitManager) (im_Init (im_Init NewInitManager))"
    by (rule im_step.init)
  moreover have "im_step ?r (im_Init (im_Init NewInitManager))
      (im_finish ?r (im_Init (im_Init NewInitManager)))"
    by (rule im_step.finish) (simp add: im_Init_def NewInitManager_def)
  ultimately have "(im_step ?r)\<^sup>*\<^sup>* NewInitManager (im_finish ?r (im_Init (im_Init NewInitManager)))"
    by (meson rtranclp.rtrancl_into_rtrancl rtranclp.rtrancl_refl)
  from InitManager_once [OF this] show ?thesis
    by (simp add: Let_def im_Wait_def im_finish_def)
qed

text \<open>
  A handler subscribed to an event runs on every \<open>Raise\<close> after the handlers that were there,
  and unsubscribing it restores the behaviour before the subscription.
\<close>

theorem Subscribe_Raise_unsubscribe:
  assumes "event_ok e"
  shows "Raise (snd (Subscribe e h)) d s = h d (Raise e d s)
    \<and> Raise (unsubscribe (snd (Subscribe e h)) (fst (Subscribe e h))) d s = Raise e d s"
proof -
  have id: "fst (Subscribe e h) = nextID e" by (simp add: Subscribe_def Let_def)
  have fresh: "nextID e \<notin> set (map fst (handlers e))"
    using assms by (auto simp: event_ok_def map_of_eq_None_iff)
  have "gomap_delete (handlers e @ [(nextID e, h)]) (nextID e) = handlers e"
    using delete_fresh [OF fresh] by (simp add: AList.delete_eq)
  then show ?thesis
    by (simp add: Raise_def unsubscribe_def Subscribe_handlers [OF assms] id)
qed

lemma Subscribe_Raise_unsubscribe_witness:
  "Raise (snd (Subscribe NewEvent (\<lambda>d s. s + d))) 3 (4 :: nat) = 7"
  using Subscribe_Raise_unsubscribe [OF event_ok_NewEvent, of "\<lambda>d s. s + d" 3 "4 :: nat"]
  by (simp add: Raise_def NewEvent_def)

end
