(* ===== verification/Etcd_Client.thy ===== *)
theory Etcd_Client
  imports Common_Maps
begin

text \<open>
  \<open>plugin/pkg/etcd/client.go\<close> and \<open>connection.go\<close>. The etcd server and its Go client are not
  part of the sources: they are the record \<open>etcd\<close> of state-passing operations, an argument of
  every definition that uses them. What the code relies on is the locale \<open>etcd_service\<close>: the
  documented behaviour of successful calls, and that a failed write may or may not have been
  applied. \<open>mem_etcd\<close> is a concrete service that satisfies it.
\<close>

section \<open>The etcd service\<close>

datatype etcd_cmp = ValueEq string string | ValueNe string string | CreateRevisionIs0 string

datatype etcd_op = OpPut string string | OpDelete string | OpGet string

record KeyValue =
  kv_Key :: string
  kv_Value :: string

text \<open>A transaction answers with its branch and one response per operation; puts and deletes
  have an empty range.\<close>

type_synonym txn_resp = "bool \<times> KeyValue list list"

text \<open>
  \<open>New\<close> is \<open>clientv3.New\<close>, \<open>CloseFailed\<close> is \<open>Close\<close> on the client value that a failed \<open>New\<close>
  returns; prefix variants are the calls with the option \<open>WithPrefix\<close>.
\<close>

record 'e etcd =
  New :: "'e \<Rightarrow> unit res \<times> 'e"
  CloseFailed :: "'e \<Rightarrow> unit res \<times> 'e"
  Close :: "'e \<Rightarrow> unit res \<times> 'e"
  Txn :: "etcd_cmp list \<Rightarrow> etcd_op list \<Rightarrow> etcd_op list \<Rightarrow> 'e \<Rightarrow> txn_resp res \<times> 'e"
  Get :: "string \<Rightarrow> 'e \<Rightarrow> KeyValue list res \<times> 'e"
  GetPrefix :: "string \<Rightarrow> 'e \<Rightarrow> KeyValue list res \<times> 'e"
  Put :: "string \<Rightarrow> string \<Rightarrow> 'e \<Rightarrow> unit res \<times> 'e"
  Delete :: "string \<Rightarrow> 'e \<Rightarrow> unit res \<times> 'e"
  DeletePrefix :: "string \<Rightarrow> 'e \<Rightarrow> unit res \<times> 'e"

type_synonym kv_view = "string \<rightharpoonup> string"

text \<open>A comparison of the value of an absent key fails, whatever the operator.\<close>

fun cmp_holds :: "kv_view \<Rightarrow> etcd_cmp \<Rightarrow> bool" where
  "cmp_holds m (ValueEq k v) = (m k = Some v)"
| "cmp_holds m (ValueNe k v) = (case m k of None \<Rightarrow> False | Some w \<Rightarrow> w \<noteq> v)"
| "cmp_holds m (CreateRevisionIs0 k) = (m k = None)"

fun apply_op :: "etcd_op \<Rightarrow> kv_view \<Rightarrow> kv_view" where
  "apply_op (OpPut k v) m = m(k \<mapsto> v)"
| "apply_op (OpDelete k) m = m(k := None)"
| "apply_op (OpGet k) m = m"

definition apply_ops :: "etcd_op list \<Rightarrow> kv_view \<Rightarrow> kv_view" where
  "apply_ops ops m = fold apply_op ops m"

definition kvs_of :: "kv_view \<Rightarrow> string \<Rightarrow> KeyValue list" where
  "kvs_of m k = (case m k of None \<Rightarrow> [] | Some v \<Rightarrow> [\<lparr>kv_Key = k, kv_Value = v\<rparr>])"

fun op_responses :: "etcd_op list \<Rightarrow> kv_view \<Rightarrow> KeyValue list list" where
  "op_responses [] m = []"
| "op_responses (OpGet k # ops) m = kvs_of m k # op_responses ops m"
| "op_responses (op # ops) m = [] # op_responses ops (apply_op op m)"

lemma apply_ops_simps [simp]:
  "apply_ops [] m = m" "apply_ops (op # ops) m = apply_ops ops (apply_op op m)"
  by (simp_all add: apply_ops_def)

definition delete_prefix :: "string \<Rightarrow> kv_view \<Rightarrow> kv_view" where
  "delete_prefix p m = (\<lambda>k. if HasPrefix k p then None else m k)"

definition kv_listing :: "kv_view \<Rightarrow> string \<Rightarrow> KeyValue list \<Rightarrow> bool" where
  "kv_listing m p kvs \<longleftrightarrow> sorted_wrt (<) (map kv_Key kvs)
     \<and> (\<forall>k v. \<lparr>kv_Key = k, kv_Value = v\<rparr> \<in> set kvs \<longleftrightarrow> m k = Some v \<and> HasPrefix k p)"

locale etcd_service =
  fixes E :: "'e etcd" and view :: "'e \<Rightarrow> kv_view"
  assumes New_view: "view (snd (New E e)) = view e" and New_no_panic: "fst (New E e) \<noteq> Panic"
    and CloseFailed_view: "view (snd (CloseFailed E e)) = view e"
    and Close_view: "view (snd (Close E e)) = view e" and Close_no_panic: "fst (Close E e) \<noteq> Panic"
    and Txn_Ok: "Txn E cs t f e = (Ok (b, rs), e') \<Longrightarrow>
      b = list_all (cmp_holds (view e)) cs
      \<and> rs = op_responses (if b then t else f) (view e)
      \<and> view e' = apply_ops (if b then t else f) (view e)"
    and Txn_Err: "Txn E cs t f e = (Err er, e') \<Longrightarrow>
      view e' \<in> {view e, apply_ops (if list_all (cmp_holds (view e)) cs then t else f) (view e)}"
    and Txn_no_panic: "fst (Txn E cs t f e) \<noteq> Panic"
    and Get_Ok: "Get E k e = (Ok kvs, e') \<Longrightarrow> kvs = kvs_of (view e) k"
    and Get_view: "view (snd (Get E k e)) = view e" and Get_no_panic: "fst (Get E k e) \<noteq> Panic"
    and GetPrefix_Ok: "GetPrefix E p e = (Ok kvs, e') \<Longrightarrow> kv_listing (view e) p kvs"
    and GetPrefix_view: "view (snd (GetPrefix E p e)) = view e"
    and GetPrefix_no_panic: "fst (GetPrefix E p e) \<noteq> Panic"
    and Put_Ok: "Put E k v e = (Ok u, e') \<Longrightarrow> view e' = (view e)(k \<mapsto> v)"
    and Put_Err: "Put E k v e = (Err er, e') \<Longrightarrow> view e' \<in> {view e, (view e)(k \<mapsto> v)}"
    and Put_no_panic: "fst (Put E k v e) \<noteq> Panic"
    and Delete_Ok: "Delete E k e = (Ok u, e') \<Longrightarrow> view e' = (view e)(k := None)"
    and Delete_Err: "Delete E k e = (Err er, e') \<Longrightarrow> view e' \<in> {view e, (view e)(k := None)}"
    and Delete_no_panic: "fst (Delete E k e) \<noteq> Panic"
    and DeletePrefix_Ok: "DeletePrefix E p e = (Ok u, e') \<Longrightarrow> view e' = delete_prefix p (view e)"
    and DeletePrefix_Err: "DeletePrefix E p e = (Err er, e') \<Longrightarrow>
      view e' \<in> {view e, delete_prefix p (view e)}"
    and DeletePrefix_no_panic: "fst (DeletePrefix E p e) \<noteq> Panic"

section \<open>Client and connection\<close>

record etcdClient =
  dialTimeout :: int
  prefix :: string
  endpoints :: "string list"

definition GetKey :: "etcdClient \<Rightarrow> string list \<Rightarrow> string" where
  "GetKey c subKeys =
     (if length subKeys = 0 then prefix c else prefix c @ ''/'' @ join_with ''/'' subKeys)"

definition GetEndpoints :: "etcdClient \<Rightarrow> string list" where
  "GetEndpoints c = endpoints c"

definition NewEtcdClient :: "string list \<Rightarrow> int \<Rightarrow> string \<Rightarrow> etcdClient" where
  "NewEtcdClient eps timeout p =
     \<lparr>dialTimeout = timeout, prefix = TrimRight CHR ''/'' p, endpoints = eps\<rparr>"

definition CreateSubClient :: "etcdClient \<Rightarrow> string list \<Rightarrow> etcdClient" where
  "CreateSubClient c subKeys = NewEtcdClient (endpoints c) (dialTimeout c) (GetKey c subKeys)"

text \<open>
  \<open>NewConnection\<close> fails when the dial fails. \<open>WithConnection\<close> defers \<open>Close\<close> before it looks at
  the error, so a failed dial closes the client value that came with the error.
\<close>

definition NewConnection :: "'e etcd \<Rightarrow> 'e \<Rightarrow> unit res \<times> 'e" where
  "NewConnection E e = New E e"

definition connection_Close :: "'e etcd \<Rightarrow> bool \<Rightarrow> 'e \<Rightarrow> unit res \<times> 'e" where
  "connection_Close E connected e =
     (case (if connected then Close E e else CloseFailed E e) of
        (Panic, e) \<Rightarrow> (Panic, e)
      | (_, e) \<Rightarrow> (Ok (), e))"

definition WithConnection :: "'e etcd \<Rightarrow> ('e \<Rightarrow> 'a res \<times> 'e) \<Rightarrow> 'e \<Rightarrow> 'a res \<times> 'e" where
  "WithConnection E fn e =
     (case NewConnection E e of
        (Ok _, e) \<Rightarrow>
          (case fn e of (r, e) \<Rightarrow>
             (case connection_Close E True e of (Panic, e) \<Rightarrow> (Panic, e) | (_, e) \<Rightarrow> (r, e)))
      | (Err er, e) \<Rightarrow>
          (case connection_Close E False e of (Panic, e) \<Rightarrow> (Panic, e) | (_, e) \<Rightarrow> (Err er, e))
      | (Panic, e) \<Rightarrow> (Panic, e))"

definition PutIfNewOrChanged :: "'e etcd \<Rightarrow> string \<Rightarrow> string \<Rightarrow> 'e \<Rightarrow> bool res \<times> 'e" where
  "PutIfNewOrChanged E key value e =
     res_bind (res_wrap ''etcd put operation failed for new key''
         (Txn E [CreateRevisionIs0 key] [OpPut key value] [] e))
       (\<lambda>(succeeded, _) e.
          if \<not> succeeded
          then res_bind (res_wrap ''etcd put operation failed for new key''
                   (Txn E [ValueNe key value] [OpPut key value] [] e))
                 (\<lambda>(succeeded, _) e. (Ok succeeded, e))
          else (Ok succeeded, e))"

text \<open>
  The retry loop of \<open>WaitUntilAvailable\<close>. The error of each attempt is assigned to a variable
  that shadows the one the final message reports.
\<close>

fun WaitUntilAvailable_loop :: "'e etcd \<Rightarrow> nat \<Rightarrow> 'e \<Rightarrow> unit res \<times> 'e" where
  "WaitUntilAvailable_loop E 0 e = (Err (Errorf ''failed to connect to etcd after %d attempts''), e)"
| "WaitUntilAvailable_loop E (Suc attempts) e =
     (case NewConnection E e of
        (Ok _, e) \<Rightarrow>
          (case Get E ''healthcheck'' e of
             (Ok _, e) \<Rightarrow> (Ok (), e)
           | (Err _, e) \<Rightarrow>
               (case connection_Close E True e of
                  (Panic, e) \<Rightarrow> (Panic, e)
                | (_, e) \<Rightarrow> WaitUntilAvailable_loop E attempts e)
           | (Panic, e) \<Rightarrow> (Panic, e))
      | (Err _, e) \<Rightarrow> WaitUntilAvailable_loop E attempts e
      | (Panic, e) \<Rightarrow> (Panic, e))"

definition WaitUntilAvailable :: "'e etcd \<Rightarrow> int \<Rightarrow> 'e \<Rightarrow> unit res \<times> 'e" where
  "WaitUntilAvailable E maxRetries e = WaitUntilAvailable_loop E (nat maxRetries) e"

section \<open>Keys\<close>

lemma GetKey_Nil [simp]: "GetKey c [] = prefix c"
  by (simp add: GetKey_def)

lemma GetKey_Cons: "ks \<noteq> [] \<Longrightarrow> GetKey c ks = prefix c @ ''/'' @ join_with ''/'' ks"
  by (simp add: GetKey_def)

lemma GetKey_single [simp]: "GetKey c [k] = prefix c @ CHR ''/'' # k"
  by (simp add: GetKey_def)

lemma GetKey_inject1 [simp]: "GetKey c [a] = GetKey c [b] \<longleftrightarrow> a = b"
  by simp

lemma last_join_with: "ks \<noteq> [] \<Longrightarrow> last ks \<noteq> [] \<Longrightarrow> join_with sep ks \<noteq> [] \<and>
  last (join_with sep ks) = last (last ks)"
  by (induction sep ks rule: join_with.induct) auto

lemma CreateSubClient_prefix:
  assumes "ks = [] \<longrightarrow> prefix c = [] \<or> last (prefix c) \<noteq> CHR ''/''"
    "ks \<noteq> [] \<longrightarrow> last ks \<noteq> [] \<and> last (last ks) \<noteq> CHR ''/''"
  shows "prefix (CreateSubClient c ks) = GetKey c ks"
proof (cases "ks = []")
  case True
  then show ?thesis using assms by (simp add: CreateSubClient_def NewEtcdClient_def TrimRight_id)
next
  case False
  then have "join_with ''/'' ks \<noteq> []" "last (join_with ''/'' ks) \<noteq> CHR ''/''"
    using assms last_join_with [of ks "''/''"] by auto
  then have "last (GetKey c ks) \<noteq> CHR ''/''" using False by (simp add: GetKey_Cons)
  then show ?thesis by (simp add: CreateSubClient_def NewEtcdClient_def TrimRight_id)
qed

lemma GetKey_SubClient:
  assumes "ks \<noteq> []" "js \<noteq> []" "last ks \<noteq> []" "last (last ks) \<noteq> CHR ''/''"
  shows "GetKey (CreateSubClient c ks) js = GetKey c (ks @ js)"
  using assms by (simp add: CreateSubClient_prefix GetKey_Cons join_with_append)

text \<open>
  The keys below a prefix are well formed when each of them has a slash right after the prefix
  and no second one behind it.
\<close>

definition wf_keys :: "string \<Rightarrow> kv_view \<Rightarrow> bool" where
  "wf_keys p m \<longleftrightarrow> (\<forall>k v. m k = Some v \<longrightarrow> HasPrefix k p \<longrightarrow>
     (\<exists>t. k = p @ CHR ''/'' # t \<and> (t = [] \<or> hd t \<noteq> CHR ''/'')))"

section \<open>The contract of connections\<close>

context etcd_service
begin

lemma WithConnection_Ok:
  assumes "WithConnection E fn e = (Ok a, e')"
  shows "\<exists>e1 e2. view e1 = view e \<and> fn e1 = (Ok a, e2) \<and> view e' = view e2"
proof -
  obtain e1 where n: "New E e = (Ok (), e1)"
    using assms by (auto simp: WithConnection_def NewConnection_def split: prod.splits res.splits)
  obtain r e2 where f: "fn e1 = (r, e2)" by force
  have "r = Ok a \<and> view e' = view e2"
    using assms n f Close_view [of e2]
    by (auto simp: WithConnection_def NewConnection_def connection_Close_def
        split: prod.splits res.splits)
  moreover have "view e1 = view e" using New_view [of e] n by simp
  ultimately show ?thesis using f by blast
qed

text \<open>Whatever its outcome, a call changes the store at most as its body does.\<close>

lemma WithConnection_rel:
  assumes "R (view e) (view e)" "\<And>e1. view e1 = view e \<Longrightarrow> R (view e) (view (snd (fn e1)))"
  shows "R (view e) (view (snd (WithConnection E fn e)))"
proof (cases "New E e")
  case (Pair r e1)
  then have v: "view e1 = view e" using New_view [of e] by simp
  obtain rf e2 where f: "fn e1 = (rf, e2)" by force
  have "view (snd (WithConnection E fn e)) \<in> {view e, view e2}"
    using Pair v f Close_view [of e2] CloseFailed_view [of e1]
    by (auto simp: WithConnection_def NewConnection_def connection_Close_def
        split: prod.splits res.splits)
  then show ?thesis using assms(1) assms(2) [OF v] f by auto
qed

lemma Txn_cases:
  assumes "Txn E cs t f e = (r, e')"
  obtains b rs where "r = Ok (b, rs)" "b = list_all (cmp_holds (view e)) cs"
    "rs = op_responses (if b then t else f) (view e)"
    "view e' = apply_ops (if b then t else f) (view e)"
  | er where "r = Err er"
    "view e' \<in> {view e, apply_ops (if list_all (cmp_holds (view e)) cs then t else f) (view e)}"
proof (cases r)
  case (Ok br)
  obtain b rs where br: "br = (b, rs)" by force
  with Ok assms have "Txn E cs t f e = (Ok (b, rs), e')" by simp
  from Txn_Ok [OF this] show ?thesis using that(1) [of b rs] Ok br by blast
next
  case (Err er)
  with assms have "Txn E cs t f e = (Err er, e')" by simp
  from Txn_Err [OF this] show ?thesis using that(2) [of er] Err by blast
next
  case Panic
  then show ?thesis using assms Txn_no_panic [of cs t f e] by simp
qed

lemma PutIfNewOrChanged_Ok:
  assumes "PutIfNewOrChanged E key value e = (Ok b, e')"
  shows "view e' = (view e)(key \<mapsto> value) \<and> (b \<longleftrightarrow> view e key \<noteq> Some value)"
proof -
  obtain b1 rs1 e1 where t1: "Txn E [CreateRevisionIs0 key] [OpPut key value] [] e = (Ok (b1, rs1), e1)"
    and k1: "(if \<not> b1 then res_bind (res_wrap ''etcd put operation failed for new key''
        (Txn E [ValueNe key value] [OpPut key value] [] e1)) (\<lambda>(s, _) e. (Ok s, e))
      else (Ok b1, e1)) = (Ok b, e')"
    using assms by (auto simp: PutIfNewOrChanged_def res_bind_Ok_iff)
  note l1 = Txn_Ok [OF t1]
  show ?thesis
  proof (cases b1)
    case True
    then show ?thesis using k1 l1 by auto
  next
    case False
    then obtain b2 rs2 where t2: "Txn E [ValueNe key value] [OpPut key value] [] e1 = (Ok (b2, rs2), e')"
      and b: "b = b2" using k1 by (auto simp: res_bind_Ok_iff)
    note l2 = Txn_Ok [OF t2]
    from l1 False obtain w where w: "view e key = Some w" "view e1 = view e" by auto
    then show ?thesis using l2 b by (cases "w = value") auto
  qed
qed

lemma PutIfNewOrChanged_view:
  "view (snd (PutIfNewOrChanged E key value e)) \<in> {view e, (view e)(key \<mapsto> value)}"
proof (cases "Txn E [CreateRevisionIs0 key] [OpPut key value] [] e")
  case (Pair r e1)
  then have v1: "view e1 \<in> {view e, (view e)(key \<mapsto> value)}" by (cases rule: Txn_cases) auto
  obtain r2 e2 where t2: "Txn E [ValueNe key value] [OpPut key value] [] e1 = (r2, e2)" by force
  then have "view e2 \<in> {view e1, (view e1)(key \<mapsto> value)}" by (cases rule: Txn_cases) auto
  then have "view e2 \<in> {view e, (view e)(key \<mapsto> value)}" using v1 by auto
  then show ?thesis
    using v1 Pair t2
    by (cases r; cases r2) (auto simp: PutIfNewOrChanged_def split: prod.splits if_splits)
qed

end

text \<open>A service whose calls all succeed; the theorems that a call returns a result use it.\<close>

locale etcd_reliable = etcd_service +
  assumes New_ok: "\<exists>e'. New E e = (Ok (), e')"
    and Txn_ok: "\<exists>br e'. Txn E cs t f e = (Ok br, e')"
    and Get_ok: "\<exists>kvs e'. Get E k e = (Ok kvs, e')"
    and GetPrefix_ok: "\<exists>kvs e'. GetPrefix E p e = (Ok kvs, e')"
    and Put_ok: "\<exists>u e'. Put E k v e = (Ok u, e')"
    and Delete_ok: "\<exists>u e'. Delete E k e = (Ok u, e')"
    and DeletePrefix_ok: "\<exists>u e'. DeletePrefix E p e = (Ok u, e')"
begin

lemma WithConnection_run:
  "\<exists>e1 e2 r. view e1 = view e \<and> fn e1 = (r, e2) \<and> view e' = view e2 \<and> r = r'"
  if "WithConnection E fn e = (r', e')"
proof -
  obtain e1 where n: "New E e = (Ok (), e1)" using New_ok by blast
  obtain r e2 where f: "fn e1 = (r, e2)" by force
  have "r' = r \<and> view e' = view e2"
    using that n f Close_view [of e2] Close_no_panic [of e2]
    by (auto simp: WithConnection_def NewConnection_def connection_Close_def
        split: prod.splits res.splits)
  moreover have "view e1 = view e" using New_view [of e] n by simp
  ultimately show ?thesis using f by blast
qed

lemma Txn_run:
  obtains e' where "Txn E cs t f e = (Ok (list_all (cmp_holds (view e)) cs,
      op_responses (if list_all (cmp_holds (view e)) cs then t else f) (view e)), e')"
    "view e' = apply_ops (if list_all (cmp_holds (view e)) cs then t else f) (view e)"
proof -
  obtain b rs e' where r: "Txn E cs t f e = (Ok (b, rs), e')" using Txn_ok by (metis surj_pair)
  from Txn_Ok [OF r] r that show ?thesis by auto
qed

lemma PutIfNewOrChanged_run:
  "\<exists>e'. PutIfNewOrChanged E key value e = (Ok (view e key \<noteq> Some value), e')
    \<and> view e' = (view e)(key \<mapsto> value)"
proof -
  obtain b e' where r: "PutIfNewOrChanged E key value e = (Ok b, e')"
  proof -
    obtain b1 rs1 e1 where t1: "Txn E [CreateRevisionIs0 key] [OpPut key value] [] e = (Ok (b1, rs1), e1)"
      using Txn_ok by (metis surj_pair)
    obtain b2 rs2 e2 where t2: "Txn E [ValueNe key value] [OpPut key value] [] e1 = (Ok (b2, rs2), e2)"
      using Txn_ok by (metis surj_pair)
    show ?thesis using that t1 t2 by (cases b1) (auto simp: PutIfNewOrChanged_def)
  qed
  from PutIfNewOrChanged_Ok [OF r] r show ?thesis by auto
qed

end

section \<open>A concrete service\<close>

text \<open>An etcd in memory: the state is the list of keys and values; every call succeeds.\<close>

type_synonym mem = "(string \<times> string) list"

definition mem_kvs :: "mem \<Rightarrow> string \<Rightarrow> KeyValue list" where
  "mem_kvs m k = (case map_of m k of None \<Rightarrow> [] | Some v \<Rightarrow> [\<lparr>kv_Key = k, kv_Value = v\<rparr>])"

fun mem_apply :: "etcd_op \<Rightarrow> mem \<Rightarrow> mem" where
  "mem_apply (OpPut k v) m = gomap_set m k v"
| "mem_apply (OpDelete k) m = gomap_delete m k"
| "mem_apply (OpGet k) m = m"

definition mem_listing :: "mem \<Rightarrow> string \<Rightarrow> KeyValue list" where
  "mem_listing m p =
     concat (map (mem_kvs m) (filter (\<lambda>k. HasPrefix k p) (sort (remdups (map fst m)))))"

definition mem_etcd :: "mem etcd" where
  "mem_etcd = \<lparr>
     New = \<lambda>m. (Ok (), m), CloseFailed = \<lambda>m. (Panic, m), Close = \<lambda>m. (Ok (), m),
     Txn = \<lambda>cs t f m. let b = list_all (cmp_holds (map_of m)) cs; ops = (if b then t else f)
                      in (Ok (b, op_responses ops (map_of m)), fold mem_apply ops m),
     Get = \<lambda>k m. (Ok (mem_kvs m k), m),
     GetPrefix = \<lambda>p m. (Ok (mem_listing m p), m),
     Put = \<lambda>k v m. (Ok (), gomap_set m k v),
     Delete = \<lambda>k m. (Ok (), gomap_delete m k),
     DeletePrefix = \<lambda>p m. (Ok (), filter (\<lambda>(k, v). \<not> HasPrefix k p) m)\<rparr>"

lemma mem_apply_view: "map_of (mem_apply op m) = apply_op op (map_of m)"
  by (cases op) simp_all

lemma mem_apply_ops_view: "map_of (fold mem_apply ops m) = apply_ops ops (map_of m)"
  by (induction ops arbitrary: m) (simp_all add: mem_apply_view)

lemma mem_kvs_key: "kv \<in> set (mem_kvs m k) \<Longrightarrow> kv_Key kv = k"
  by (auto simp: mem_kvs_def split: option.splits)

lemma mem_listing_keys:
  "map kv_Key (mem_listing m p) = filter (\<lambda>k. HasPrefix k p) (sort (remdups (map fst m)))"
proof -
  have "map kv_Key (concat (map (mem_kvs m) ks)) = ks" if "set ks \<subseteq> fst ` set m" for ks
    using that
  proof (induction ks)
    case (Cons k ks)
    then obtain v where "map_of m k = Some v" by (metis list.set_intros(1) map_of_eq_None_iff
        not_Some_eq subsetD)
    then show ?case using Cons by (simp add: mem_kvs_def)
  qed simp
  then show ?thesis by (auto simp: mem_listing_def)
qed

lemma mem_listing_ok: "kv_listing (map_of m) p (mem_listing m p)"
proof -
  have "sorted_wrt (<) (map kv_Key (mem_listing m p))"
    unfolding mem_listing_keys by (rule sorted_wrt_filter) (simp add: strict_sorted_iff)
  moreover have "\<lparr>kv_Key = k, kv_Value = v\<rparr> \<in> set (mem_listing m p) \<longleftrightarrow>
      map_of m k = Some v \<and> HasPrefix k p" for k v
  proof
    assume "\<lparr>kv_Key = k, kv_Value = v\<rparr> \<in> set (mem_listing m p)"
    then show "map_of m k = Some v \<and> HasPrefix k p"
      by (auto simp: mem_listing_def mem_kvs_def split: option.splits)
  next
    assume "map_of m k = Some v \<and> HasPrefix k p"
    moreover have "k \<in> fst ` set m" using calculation by (metis map_of_SomeD fst_conv image_eqI)
    ultimately show "\<lparr>kv_Key = k, kv_Value = v\<rparr> \<in> set (mem_listing m p)"
      by (auto simp: mem_listing_def mem_kvs_def)
  qed
  ultimately show ?thesis by (simp add: kv_listing_def)
qed

lemma map_of_filter_key: "map_of (filter (\<lambda>(k, v). P k) m) k = (if P k then map_of m k else None)"
  by (induction m) auto

interpretation mem: etcd_reliable mem_etcd map_of
  by unfold_locales
    (auto simp: mem_etcd_def Let_def mem_apply_ops_view mem_kvs_def kvs_of_def mem_listing_ok
      delete_prefix_def map_of_filter_key fun_eq_iff)

section \<open>Properties\<close>

text \<open>
  When \<open>PutIfNewOrChanged\<close> succeeds, the key holds the value, no other key changed, and the
  answer says whether the stored value differed before; when it fails, the store is unchanged
  or holds the value.
\<close>

theorem PutIfNewOrChanged_spec:
  assumes "etcd_service E view" "PutIfNewOrChanged E key value e = (r, e')"
  shows "(case r of Ok wasWritten \<Rightarrow>
            view e' = (view e)(key \<mapsto> value) \<and> wasWritten = (view e key \<noteq> Some value)
          | _ \<Rightarrow> view e' \<in> {view e, (view e)(key \<mapsto> value)})"
proof -
  have "view e' \<in> {view e, (view e)(key \<mapsto> value)}"
    using etcd_service.PutIfNewOrChanged_view [OF assms(1), of key "value" e] assms(2) by simp
  then show ?thesis
    using etcd_service.PutIfNewOrChanged_Ok [OF assms(1), of key "value" e _ e'] assms(2)
    by (cases r) auto
qed

lemma PutIfNewOrChanged_spec_witness:
  "fst (PutIfNewOrChanged mem_etcd ''/a'' ''1'' [(''/a'', ''0'')]) = Ok True
   \<and> map_of (snd (PutIfNewOrChanged mem_etcd ''/a'' ''1'' [(''/a'', ''0'')])) ''/a'' = Some ''1''"
proof -
  let ?p = "PutIfNewOrChanged mem_etcd ''/a'' ''1'' [(''/a'', ''0'')]"
  have "fst ?p = Ok True" by code_simp
  moreover have "?p = (fst ?p, snd ?p)" by simp
  note PutIfNewOrChanged_spec [OF mem.etcd_service_axioms this]
  ultimately show ?thesis by simp
qed

text \<open>
  The keys of a sub client are the keys of its parent below the sub path, for sub paths
  that do not end in an empty part or a slash.
\<close>

theorem SubClient_keys:
  assumes "ks \<noteq> []" "js \<noteq> []" "last ks \<noteq> []" "last (last ks) \<noteq> CHR ''/''"
  shows "GetKey (CreateSubClient c ks) js = GetKey c (ks @ js)"
  using assms by (rule GetKey_SubClient)

lemma SubClient_keys_witness:
  "GetKey (CreateSubClient (NewEtcdClient [] 5 ''/flannel/'') [''net'', ''n1'']) [''host''] =
   ''/flannel/net/n1/host''"
proof -
  have "GetKey (CreateSubClient (NewEtcdClient [] 5 ''/flannel/'') [''net'', ''n1'']) [''host''] =
      GetKey (NewEtcdClient [] 5 ''/flannel/'') ([''net'', ''n1''] @ [''host''])"
    by (rule SubClient_keys) simp_all
  then show ?thesis by (simp add: NewEtcdClient_def GetKey_def TrimRight_def)
qed

text \<open>
  When the dial fails and the client value that comes with the error cannot be closed,
  \<open>WithConnection\<close> panics instead of returning the error, because \<open>Close\<close> is deferred before the
  error is looked at; the body never runs and the store is unchanged.
\<close>

theorem WithConnection_failed_dial:
  assumes "New E e = (Err er, e1)" "CloseFailed E e1 = (Panic, e2)"
  shows "WithConnection E fn e = (Panic, e2)"
  using assms by (simp add: WithConnection_def NewConnection_def connection_Close_def)

lemma WithConnection_failed_dial_witness:
  "fst (WithConnection (mem_etcd\<lparr>New := \<lambda>m. (Err (Foreign ''dial''), m)\<rparr>) (\<lambda>e. (Ok (), e)) []) = Panic"
proof -
  let ?E = "mem_etcd\<lparr>New := \<lambda>m. (Err (Foreign ''dial''), m)\<rparr>"
  have "New ?E [] = (Err (Foreign ''dial''), [])" "CloseFailed ?E [] = (Panic, [])"
    by (simp_all add: mem_etcd_def)
  from WithConnection_failed_dial [OF this, of "\<lambda>e. (Ok (), e)"] show ?thesis by simp
qed

end
