(* ===== verification/Ipam_Etcd.thy ===== *)
theory Ipam_Etcd
  imports Ipam_Util Etcd_Client
begin

text \<open>
  \<open>plugin/pkg/ipam/pool_etcd.go\<close>: the allocations of a pool in etcd. An address has a key with
  its allocation type and up to three keys below it. The time of day of a call is its argument
  \<open>now\<close>; \<open>fmt_time\<close> and \<open>parse_time\<close> are \<open>Time.Format\<close> and \<open>time.Parse\<close> with the layout RFC3339.
\<close>

section \<open>Keys\<close>

definition AllocationTypeReserved :: string where
  "AllocationTypeReserved = ''reserved''"

definition AllocationTypeContainerIP :: string where
  "AllocationTypeContainerIP = ''container-ip''"

definition AllocationTypeServiceVIP :: string where
  "AllocationTypeServiceVIP = ''service-vip''"

definition dataKeyPartMac :: string where
  "dataKeyPartMac = ''mac''"

definition dataKeyPartServiceID :: string where
  "dataKeyPartServiceID = ''service-id''"

definition allocatedAtKeyPart :: string where
  "allocatedAtKeyPart = ''allocated-at''"

definition allocatedIPsKey :: "etcdClient \<Rightarrow> string" where
  "allocatedIPsKey client = GetKey client [''allocated-ips'']"

definition allocatedIPKey :: "etcdClient \<Rightarrow> string \<Rightarrow> string" where
  "allocatedIPKey client ip = allocatedIPsKey client @ ''/'' @ ip"

definition macKey :: "etcdClient \<Rightarrow> string \<Rightarrow> string" where
  "macKey client ip = allocatedIPKey client ip @ ''/'' @ dataKeyPartMac"

definition serviceIDKey :: "etcdClient \<Rightarrow> string \<Rightarrow> string" where
  "serviceIDKey client ip = allocatedIPKey client ip @ ''/'' @ dataKeyPartServiceID"

definition allocatedAtKey :: "etcdClient \<Rightarrow> string \<Rightarrow> string" where
  "allocatedAtKey client ip = allocatedIPKey client ip @ ''/'' @ allocatedAtKeyPart"

section \<open>Allocating\<close>

record IPAllocationResult =
  Success :: bool
  ar_Allocation :: Allocation

definition failed_allocation :: IPAllocationResult where
  "failed_allocation = \<lparr>Success = False, ar_Allocation = zero_Allocation\<rparr>"

text \<open>The loop over the conditions: the first transaction whose comparisons hold writes.\<close>

fun try_conditions ::
  "'e etcd \<Rightarrow> etcd_op list \<Rightarrow> Allocation \<Rightarrow> etcd_cmp list list \<Rightarrow> 'e \<Rightarrow> IPAllocationResult res \<times> 'e"
where
  "try_conditions E ops a [] e = (Ok failed_allocation, e)"
| "try_conditions E ops a (condition # conditions) e =
     (case Txn E condition ops [] e of
        (Ok (succeeded, _), e) \<Rightarrow>
          if succeeded then (Ok \<lparr>Success = True, ar_Allocation = a\<rparr>, e)
          else try_conditions E ops a conditions e
      | (Err er, e) \<Rightarrow> (Err (Errorf ''etcd transaction failed''), e)
      | (Panic, e) \<Rightarrow> (Panic, e))"

definition alloc_ops ::
  "etcdClient \<Rightarrow> string \<Rightarrow> string \<Rightarrow> string \<Rightarrow> string \<Rightarrow> string \<Rightarrow> etcd_op list"
where
  "alloc_ops client ip ty at dKey d =
     [OpPut (allocatedIPKey client ip) ty, OpPut (allocatedAtKey client ip) at]
     @ (if dKey \<noteq> [] \<and> d \<noteq> [] then [OpPut dKey d] else [])"

definition allocateIPByCondition ::
  "'e etcd \<Rightarrow> (gotime \<Rightarrow> string) \<Rightarrow> gotime \<Rightarrow> etcdClient \<Rightarrow> net_ip \<Rightarrow> string \<Rightarrow> string \<Rightarrow> string \<Rightarrow>
   etcd_cmp list list \<Rightarrow> 'e \<Rightarrow> IPAllocationResult res \<times> 'e"
where
  "allocateIPByCondition E fmt_time now client ip ty dKey d conditions e =
     WithConnection E
       (try_conditions E (alloc_ops client (ip_String ip) ty (fmt_time now) dKey d)
          \<lparr>al_ip = ip, allocationType = ty, allocatedAt = now, dataKey = dKey, al_data = d\<rparr>
          conditions) e"

definition container_conditions :: "etcdClient \<Rightarrow> net_ip \<Rightarrow> string \<Rightarrow> etcd_cmp list list" where
  "container_conditions client reservedIP mac =
     (let key = allocatedIPKey client (ip_String reservedIP);
          macK = macKey client (ip_String reservedIP)
      in [[ValueEq key AllocationTypeReserved, CreateRevisionIs0 macK],
          [CreateRevisionIs0 key],
          [ValueEq key AllocationTypeReserved, ValueEq macK mac],
          [ValueEq key AllocationTypeContainerIP, ValueEq macK mac]])"

definition allocateIPForContainer ::
  "'e etcd \<Rightarrow> (gotime \<Rightarrow> string) \<Rightarrow> gotime \<Rightarrow> etcdClient \<Rightarrow> net_ip \<Rightarrow> string \<Rightarrow> 'e \<Rightarrow>
   IPAllocationResult res \<times> 'e"
where
  "allocateIPForContainer E fmt_time now client reservedIP mac e =
     allocateIPByCondition E fmt_time now client reservedIP AllocationTypeContainerIP
       (macKey client (ip_String reservedIP)) mac (container_conditions client reservedIP mac) e"

definition service_conditions :: "etcdClient \<Rightarrow> net_ip \<Rightarrow> string \<Rightarrow> etcd_cmp list list" where
  "service_conditions client reservedIP serviceID =
     (let key = allocatedIPKey client (ip_String reservedIP);
          serviceK = serviceIDKey client (ip_String reservedIP)
      in [[ValueEq key AllocationTypeReserved, CreateRevisionIs0 serviceK],
          [ValueEq key AllocationTypeServiceVIP, ValueEq serviceK serviceID],
          [CreateRevisionIs0 key]])"

definition allocateIPForService ::
  "'e etcd \<Rightarrow> (gotime \<Rightarrow> string) \<Rightarrow> gotime \<Rightarrow> etcdClient \<Rightarrow> net_ip \<Rightarrow> string \<Rightarrow> 'e \<Rightarrow>
   IPAllocationResult res \<times> 'e"
where
  "allocateIPForService E fmt_time now client reservedIP serviceID e =
     allocateIPByCondition E fmt_time now client reservedIP AllocationTypeServiceVIP
       (serviceIDKey client (ip_String reservedIP)) serviceID
       (service_conditions client reservedIP serviceID) e"

definition reserveIP ::
  "'e etcd \<Rightarrow> (gotime \<Rightarrow> string) \<Rightarrow> gotime \<Rightarrow> etcdClient \<Rightarrow> net_ip \<Rightarrow> 'e \<Rightarrow> IPAllocationResult res \<times> 'e"
where
  "reserveIP E fmt_time now client ip e =
     allocateIPByCondition E fmt_time now client ip AllocationTypeReserved [] []
       [[CreateRevisionIs0 (allocatedIPKey client (ip_String ip))]] e"

section \<open>Releasing\<close>

text \<open>
  When the comparison fails, the answer is built from the four ranges read in the same
  transaction; \<open>Kvs[0]\<close> of an empty range is a panic.
\<close>

definition release_conflict ::
  "(string \<Rightarrow> gotime option) \<Rightarrow> Allocation \<Rightarrow> KeyValue list list \<Rightarrow> IPAllocationResult res"
where
  "release_conflict parse_time r responses =
     (case responses of
        [getKey, getAt, getMac, getServiceID] \<Rightarrow>
          (case getAt of
             [] \<Rightarrow> Panic
           | at # _ \<Rightarrow>
               let at = (case parse_time (kv_Value at) of Some t \<Rightarrow> t | None \<Rightarrow> zero_time);
                   (d, dKey) = (case getMac of
                       kv # _ \<Rightarrow> (kv_Value kv, kv_Key kv)
                     | [] \<Rightarrow> (case getServiceID of kv # _ \<Rightarrow> (kv_Value kv, kv_Key kv) | [] \<Rightarrow> ([], [])))
               in (case getKey of
                     [] \<Rightarrow> Panic
                   | kv # _ \<Rightarrow>
                       Ok \<lparr>Success = False, ar_Allocation =
                           \<lparr>al_ip = al_ip r, allocationType = kv_Value kv, allocatedAt = at,
                            dataKey = dKey, al_data = d\<rparr>\<rparr>))
      | _ \<Rightarrow> Panic)"

definition release_conditions :: "etcdClient \<Rightarrow> Allocation \<Rightarrow> etcd_cmp list" where
  "release_conditions client r =
     (let ipStr = ip_String (al_ip r)
      in ValueEq (allocatedIPKey client ipStr) (allocationType r)
         # (if al_data r = [] \<or> dataKey r = []
            then [CreateRevisionIs0 (macKey client ipStr), CreateRevisionIs0 (serviceIDKey client ipStr)]
            else [ValueEq (dataKey r) (al_data r)]))"

definition releaseAllocation ::
  "'e etcd \<Rightarrow> (string \<Rightarrow> gotime option) \<Rightarrow> etcdClient \<Rightarrow> Allocation \<Rightarrow> 'e \<Rightarrow>
   IPAllocationResult res \<times> 'e"
where
  "releaseAllocation E parse_time client r e =
     WithConnection E (\<lambda>e.
       let ipStr = ip_String (al_ip r);
           keys = [allocatedIPKey client ipStr, allocatedAtKey client ipStr, macKey client ipStr,
                   serviceIDKey client ipStr]
       in case Txn E (release_conditions client r) (map OpDelete keys) (map OpGet keys) e of
            (Ok (succeeded, responses), e) \<Rightarrow>
              if succeeded then (Ok \<lparr>Success = True, ar_Allocation = zero_Allocation\<rparr>, e)
              else (release_conflict parse_time r responses, e)
          | (Err er, e) \<Rightarrow> (Err er, e)
          | (Panic, e) \<Rightarrow> (Panic, e)) e"

section \<open>Reading\<close>

text \<open>
  What one key contributes to the map of allocations: an address and an update of its
  allocation. The value \<open>AddOrUpdate\<close> adds for a new address is the update of a zero allocation.
\<close>

definition update_of_key ::
  "(string \<Rightarrow> gotime option) \<Rightarrow> string \<Rightarrow> KeyValue \<Rightarrow> (string \<times> (Allocation \<Rightarrow> Allocation)) option"
where
  "update_of_key parse_time key kv =
     (if CHR ''/'' \<notin> set key
      then (let ip = ParseIP key
            in if ip = [] then None
               else Some (key, \<lambda>a. a\<lparr>al_ip := ip, allocationType := kv_Value kv\<rparr>))
      else (case split_on CHR ''/'' key of
              [i, part] \<Rightarrow>
                if part = dataKeyPartMac
                then Some (i, \<lambda>a. a\<lparr>dataKey := kv_Key kv, al_data := kv_Value kv\<rparr>)
                else if part = dataKeyPartServiceID
                then Some (i, \<lambda>a. a\<lparr>dataKey := kv_Key kv, al_data := kv_Value kv\<rparr>)
                else if part = allocatedAtKeyPart
                then (case parse_time (kv_Value kv) of
                        None \<Rightarrow> None
                      | Some t \<Rightarrow> Some (i, \<lambda>a. a\<lparr>allocatedAt := t\<rparr>))
                else None
            | _ \<Rightarrow> None))"

definition allocation_update ::
  "(string \<Rightarrow> gotime option) \<Rightarrow> string \<Rightarrow> KeyValue \<Rightarrow> (string \<times> (Allocation \<Rightarrow> Allocation)) option"
where
  "allocation_update parse_time p kv =
     update_of_key parse_time (TrimLeft CHR ''/'' (TrimPrefix (kv_Key kv) p)) kv"

definition collect_allocations ::
  "(string \<Rightarrow> gotime option) \<Rightarrow> string \<Rightarrow> KeyValue list \<Rightarrow> (string, Allocation) gomap"
where
  "collect_allocations parse_time p kvs =
     foldl (\<lambda>result kv.
              case allocation_update parse_time p kv of
                None \<Rightarrow> result
              | Some (i, upd) \<Rightarrow> AddOrUpdate result i (upd zero_Allocation) (Some upd)) [] kvs"

definition getAllocationsByPrefix ::
  "'e etcd \<Rightarrow> (string \<Rightarrow> gotime option) \<Rightarrow> string \<Rightarrow> 'e \<Rightarrow> (string, Allocation) gomap res \<times> 'e"
where
  "getAllocationsByPrefix E parse_time p e =
     WithConnection E (\<lambda>e.
       res_bind (GetPrefix E p e) (\<lambda>kvs e. (Ok (collect_allocations parse_time p kvs), e))) e"

definition getAllocations ::
  "'e etcd \<Rightarrow> (string \<Rightarrow> gotime option) \<Rightarrow> etcdClient \<Rightarrow> 'e \<Rightarrow> (string, Allocation) gomap res \<times> 'e"
where
  "getAllocations E parse_time client e =
     getAllocationsByPrefix E parse_time (allocatedIPsKey client) e"

definition readAllocation ::
  "'e etcd \<Rightarrow> (string \<Rightarrow> gotime option) \<Rightarrow> etcdClient \<Rightarrow> string \<Rightarrow> 'e \<Rightarrow> Allocation option res \<times> 'e"
where
  "readAllocation E parse_time client ip e =
     res_bind (getAllocationsByPrefix E parse_time (allocatedIPKey client ip) e)
       (\<lambda>tmp e. (Ok (map_of tmp ip), e))"

definition deleteAllAllocations :: "'e etcd \<Rightarrow> etcdClient \<Rightarrow> 'e \<Rightarrow> unit res \<times> 'e" where
  "deleteAllAllocations E client e = WithConnection E (DeletePrefix E (allocatedIPsKey client)) e"

section \<open>Facts about the keys\<close>

lemmas ip_key_defs = allocatedIPKey_def macKey_def serviceIDKey_def allocatedAtKey_def

lemmas key_part_defs = dataKeyPartMac_def dataKeyPartServiceID_def allocatedAtKeyPart_def

lemmas allocation_type_defs = AllocationTypeReserved_def AllocationTypeContainerIP_def
  AllocationTypeServiceVIP_def

lemma sub_key_inject:
  assumes "CHR ''/'' \<notin> set a" "CHR ''/'' \<notin> set b"
  shows "a @ CHR ''/'' # s = b @ CHR ''/'' # t \<longleftrightarrow> a = b \<and> s = t"
proof
  assume eq: "a @ CHR ''/'' # s = b @ CHR ''/'' # t"
  have "a # split_on CHR ''/'' s = b # split_on CHR ''/'' t"
    using split_on_append [OF assms(1), of s] split_on_append [OF assms(2), of t] eq by simp
  then show "a = b \<and> s = t" using eq by simp
qed simp

lemma ip_keys_distinct [simp]:
  "macKey c ip \<noteq> allocatedIPKey c ip" "serviceIDKey c ip \<noteq> allocatedIPKey c ip"
  "allocatedAtKey c ip \<noteq> allocatedIPKey c ip" "macKey c ip \<noteq> serviceIDKey c ip"
  "macKey c ip \<noteq> allocatedAtKey c ip" "serviceIDKey c ip \<noteq> allocatedAtKey c ip"
  by (simp_all add: ip_key_defs key_part_defs)

lemmas ip_keys_distinct' [simp] = ip_keys_distinct [symmetric]

text \<open>The keys of one address; different addresses have different keys.\<close>

definition ip_keys :: "etcdClient \<Rightarrow> string \<Rightarrow> string set" where
  "ip_keys c ip = {allocatedIPKey c ip, allocatedAtKey c ip, macKey c ip, serviceIDKey c ip}"

lemma ip_keys_disjoint:
  assumes "CHR ''/'' \<notin> set a" "CHR ''/'' \<notin> set b" "a \<noteq> b"
  shows "ip_keys c a \<inter> ip_keys c b = {}"
proof -
  have "a @ CHR ''/'' # s \<noteq> b @ CHR ''/'' # t" "a \<noteq> b @ CHR ''/'' # t" "a @ CHR ''/'' # s \<noteq> b" for s t
    using assms sub_key_inject [OF assms(1,2)] by auto
  then show ?thesis using assms(3) by (auto simp: ip_keys_def ip_key_defs)
qed

section \<open>Who may take an address\<close>

definition container_may_take :: "etcdClient \<Rightarrow> kv_view \<Rightarrow> string \<Rightarrow> string \<Rightarrow> bool" where
  "container_may_take c m ip mac \<longleftrightarrow>
     m (allocatedIPKey c ip) = None
     \<or> (m (allocatedIPKey c ip) = Some AllocationTypeReserved \<and> m (macKey c ip) \<in> {None, Some mac})
     \<or> (m (allocatedIPKey c ip) = Some AllocationTypeContainerIP \<and> m (macKey c ip) = Some mac)"

definition service_may_take :: "etcdClient \<Rightarrow> kv_view \<Rightarrow> string \<Rightarrow> string \<Rightarrow> bool" where
  "service_may_take c m ip sid \<longleftrightarrow>
     m (allocatedIPKey c ip) = None
     \<or> (m (allocatedIPKey c ip) = Some AllocationTypeReserved \<and> m (serviceIDKey c ip) = None)
     \<or> (m (allocatedIPKey c ip) = Some AllocationTypeServiceVIP \<and> m (serviceIDKey c ip) = Some sid)"

definition some_condition :: "kv_view \<Rightarrow> etcd_cmp list list \<Rightarrow> bool" where
  "some_condition m conds \<longleftrightarrow> (\<exists>cs \<in> set conds. list_all (cmp_holds m) cs)"

lemma some_condition_simps [simp]:
  "\<not> some_condition m []"
  "some_condition m (cs # conds) \<longleftrightarrow> list_all (cmp_holds m) cs \<or> some_condition m conds"
  by (auto simp: some_condition_def)

lemma container_conditions_iff:
  "some_condition m (container_conditions c ip mac) \<longleftrightarrow>
   container_may_take c m (ip_String ip) mac"
  by (auto simp: container_conditions_def container_may_take_def Let_def)

lemma service_conditions_iff:
  "some_condition m (service_conditions c ip sid) \<longleftrightarrow>
   service_may_take c m (ip_String ip) sid"
  by (auto simp: service_conditions_def service_may_take_def Let_def)

text \<open>The store after an allocation.\<close>

definition alloc_written ::
  "etcdClient \<Rightarrow> string \<Rightarrow> string \<Rightarrow> string \<Rightarrow> string \<Rightarrow> string \<Rightarrow> kv_view \<Rightarrow> kv_view"
where
  "alloc_written c ip ty at dKey d m =
     (let m = m(allocatedIPKey c ip \<mapsto> ty, allocatedAtKey c ip \<mapsto> at)
      in if dKey \<noteq> [] \<and> d \<noteq> [] then m(dKey \<mapsto> d) else m)"

definition alloc_record :: "gotime \<Rightarrow> net_ip \<Rightarrow> string \<Rightarrow> string \<Rightarrow> string \<Rightarrow> Allocation" where
  "alloc_record now ip ty dKey d =
     \<lparr>al_ip = ip, allocationType = ty, allocatedAt = now, dataKey = dKey, al_data = d\<rparr>"

lemma apply_alloc_ops: "apply_ops (alloc_ops c ip ty at dKey d) m = alloc_written c ip ty at dKey d m"
  by (simp add: alloc_ops_def alloc_written_def Let_def)

context etcd_service
begin

lemma try_conditions_view:
  "view (snd (try_conditions E ops a conds e)) = view e \<or>
   some_condition (view e) conds \<and> view (snd (try_conditions E ops a conds e)) = apply_ops ops (view e)"
proof (induction conds arbitrary: e)
  case (Cons cs conds)
  obtain r e1 where t: "Txn E cs ops [] e = (r, e1)" by force
  then show ?case
  proof (cases rule: Txn_cases)
    case (1 b rs)
    then show ?thesis using Cons [of e1] t by (cases b) auto
  next
    case (2 er)
    then show ?thesis using t by (auto split: if_splits)
  qed
qed simp

lemma try_conditions_Ok:
  assumes "try_conditions E ops a conds e = (Ok r, e')"
  shows "(if some_condition (view e) conds
    then r = \<lparr>Success = True, ar_Allocation = a\<rparr> \<and> view e' = apply_ops ops (view e)
    else r = failed_allocation \<and> view e' = view e)"
  using assms
proof (induction conds arbitrary: e)
  case (Cons cs conds)
  obtain r1 e1 where t: "Txn E cs ops [] e = (r1, e1)" by force
  then show ?case
  proof (cases rule: Txn_cases)
    case (1 b rs)
    then show ?thesis using Cons.IH [of e1] Cons.prems t by (cases b) auto
  next
    case (2 er)
    then show ?thesis using Cons.prems t by simp
  qed
qed simp

lemma allocateIPByCondition_Ok:
  assumes "allocateIPByCondition E fmt now c ip ty dKey d conds e = (Ok r, e')"
  shows "(if some_condition (view e) conds
    then r = \<lparr>Success = True, ar_Allocation = alloc_record now ip ty dKey d\<rparr>
      \<and> view e' = alloc_written c (ip_String ip) ty (fmt now) dKey d (view e)
    else r = failed_allocation \<and> view e' = view e)"
proof -
  obtain e1 e2 where "view e1 = view e" "view e' = view e2"
    "try_conditions E (alloc_ops c (ip_String ip) ty (fmt now) dKey d)
      (alloc_record now ip ty dKey d) conds e1 = (Ok r, e2)"
    using WithConnection_Ok [OF assms [unfolded allocateIPByCondition_def]]
    unfolding alloc_record_def by auto
  from try_conditions_Ok [OF this(3)] this(1,2) show ?thesis by (simp add: apply_alloc_ops)
qed

text \<open>Whatever the outcome, the store is unchanged or the address was taken under a condition.\<close>

lemma allocateIPByCondition_view:
  "view (snd (allocateIPByCondition E fmt now c ip ty dKey d conds e)) = view e \<or>
   some_condition (view e) conds \<and> view (snd (allocateIPByCondition E fmt now c ip ty dKey d conds e)) =
     alloc_written c (ip_String ip) ty (fmt now) dKey d (view e)"
  unfolding allocateIPByCondition_def
  by (rule WithConnection_rel) (simp_all, metis try_conditions_view apply_alloc_ops)

end

lemma alloc_written_other:
  "k \<notin> ip_keys c ip \<Longrightarrow> dKey \<in> {[], macKey c ip, serviceIDKey c ip} \<Longrightarrow>
   alloc_written c ip ty at dKey d m k = m k"
  by (auto simp: alloc_written_def Let_def ip_keys_def)

section \<open>Releasing an allocation\<close>

definition released :: "etcdClient \<Rightarrow> string \<Rightarrow> kv_view \<Rightarrow> kv_view" where
  "released c ip m = (\<lambda>k. if k \<in> ip_keys c ip then None else m k)"

definition may_release :: "etcdClient \<Rightarrow> kv_view \<Rightarrow> Allocation \<Rightarrow> bool" where
  "may_release c m a \<longleftrightarrow> list_all (cmp_holds m) (release_conditions c a)"

context etcd_service
begin

lemma releaseAllocation_Ok:
  assumes "releaseAllocation E parse_time c a e = (Ok r, e')"
  shows "(if may_release c (view e) a
    then Success r \<and> view e' = released c (ip_String (al_ip a)) (view e)
    else \<not> Success r \<and> view e' = view e
      \<and> view e (allocatedIPKey c (ip_String (al_ip a))) = Some (allocationType (ar_Allocation r)))"
proof -
  let ?ip = "ip_String (al_ip a)"
  let ?keys = "[allocatedIPKey c ?ip, allocatedAtKey c ?ip, macKey c ?ip, serviceIDKey c ?ip]"
  obtain e1 e2 where v: "view e1 = view e" "view e' = view e2" and
    t: "(case Txn E (release_conditions c a) (map OpDelete ?keys) (map OpGet ?keys) e1 of
            (Ok (succeeded, responses), e) \<Rightarrow>
              if succeeded then (Ok \<lparr>Success = True, ar_Allocation = zero_Allocation\<rparr>, e)
              else (release_conflict parse_time a responses, e)
          | (Err er, e) \<Rightarrow> (Err er, e)
          | (Panic, e) \<Rightarrow> (Panic, e)) = (Ok r, e2)"
    using WithConnection_Ok [OF assms [unfolded releaseAllocation_def]] by (auto simp: Let_def)
  obtain r1 e3 where tx: "Txn E (release_conditions c a) (map OpDelete ?keys) (map OpGet ?keys) e1 = (r1, e3)"
    by force
  then show ?thesis
  proof (cases rule: Txn_cases)
    case (1 b rs)
    have del: "apply_ops (map OpDelete ?keys) m = released c ?ip m" for m
      by (auto simp: released_def ip_keys_def fun_eq_iff)
    show ?thesis
    proof (cases b)
      case True
      have "view e2 = apply_ops (map OpDelete ?keys) (view e)" using 1 True t tx v by simp
      then show ?thesis using 1 True t tx v unfolding del by (auto simp: may_release_def)
    next
      case False
      have "rs = map (kvs_of (view e)) ?keys" using 1 False v by simp
      then have "view e (allocatedIPKey c ?ip) = Some (allocationType (ar_Allocation r)) \<and> \<not> Success r"
        using 1 False t tx
        by (auto simp: release_conflict_def kvs_of_def Let_def split: option.splits list.splits prod.splits)
      then show ?thesis using 1 False t tx v by (simp add: may_release_def)
    qed
  qed (use t tx in simp)
qed

lemma releaseAllocation_view:
  "view (snd (releaseAllocation E parse_time c a e)) = view e \<or>
   may_release c (view e) a \<and> view (snd (releaseAllocation E parse_time c a e)) =
     released c (ip_String (al_ip a)) (view e)"
  unfolding releaseAllocation_def
proof (rule WithConnection_rel, simp)
  fix e1
  assume v: "view e1 = view e"
  let ?ip = "ip_String (al_ip a)"
  let ?keys = "[allocatedIPKey c ?ip, allocatedAtKey c ?ip, macKey c ?ip, serviceIDKey c ?ip]"
  obtain r1 e3 where tx: "Txn E (release_conditions c a) (map OpDelete ?keys) (map OpGet ?keys) e1 = (r1, e3)"
    by force
  have ops: "apply_ops (map OpDelete ?keys) (view e) = released c ?ip (view e)"
    "apply_ops (map OpGet ?keys) (view e) = view e"
    by (auto simp: released_def ip_keys_def fun_eq_iff)
  from tx have "view e3 = view e \<or> may_release c (view e) a \<and> view e3 = released c ?ip (view e)"
  proof (cases rule: Txn_cases)
    case (1 b rs)
    then show ?thesis using ops v by (cases b) (auto simp: may_release_def simp del: list.map)
  next
    case (2 er)
    then show ?thesis using ops v by (auto simp: may_release_def simp del: list.map split: if_splits)
  qed
  then show "view (snd (let ipStr = ?ip;
           keys = [allocatedIPKey c ipStr, allocatedAtKey c ipStr, macKey c ipStr, serviceIDKey c ipStr]
       in case Txn E (release_conditions c a) (map OpDelete keys) (map OpGet keys) e1 of
            (Ok (succeeded, responses), e) \<Rightarrow>
              if succeeded then (Ok \<lparr>Success = True, ar_Allocation = zero_Allocation\<rparr>, e)
              else (release_conflict parse_time a responses, e)
          | (Err er, e) \<Rightarrow> (Err er, e)
          | (Panic, e) \<Rightarrow> (Panic, e))) = view e \<or>
     may_release c (view e) a \<and> view (snd (let ipStr = ?ip;
           keys = [allocatedIPKey c ipStr, allocatedAtKey c ipStr, macKey c ipStr, serviceIDKey c ipStr]
       in case Txn E (release_conditions c a) (map OpDelete keys) (map OpGet keys) e1 of
            (Ok (succeeded, responses), e) \<Rightarrow>
              if succeeded then (Ok \<lparr>Success = True, ar_Allocation = zero_Allocation\<rparr>, e)
              else (release_conflict parse_time a responses, e)
          | (Err er, e) \<Rightarrow> (Err er, e)
          | (Panic, e) \<Rightarrow> (Panic, e))) = released c ?ip (view e)"
    using tx by (auto simp: Let_def split: res.splits)
qed

end

section \<open>Reading the allocations\<close>

definition updates_for ::
  "(string \<Rightarrow> gotime option) \<Rightarrow> string \<Rightarrow> string \<Rightarrow> KeyValue list \<Rightarrow> (Allocation \<Rightarrow> Allocation) list"
where
  "updates_for parse_time p i kvs =
     concat (map (\<lambda>kv. case allocation_update parse_time p kv of
                         Some (j, u) \<Rightarrow> if j = i then [u] else [] | None \<Rightarrow> []) kvs)"

definition run_updates :: "(Allocation \<Rightarrow> Allocation) list \<Rightarrow> Allocation option" where
  "run_updates us = (if us = [] then None else Some (fold (\<lambda>u a. u a) us zero_Allocation))"

lemma collect_allocations_updates:
  "map_of (collect_allocations parse_time p kvs) i = run_updates (updates_for parse_time p i kvs)
   \<and> gomap_ok (collect_allocations parse_time p kvs)"
proof (induction kvs rule: rev_induct)
  case Nil
  then show ?case by (simp add: collect_allocations_def updates_for_def run_updates_def)
next
  case (snoc kv kvs)
  show ?case
  proof (cases "allocation_update parse_time p kv")
    case None
    then show ?thesis using snoc by (simp add: collect_allocations_def updates_for_def)
  next
    case (Some ju)
    obtain j u where ju: "ju = (j, u)" by force
    let ?m = "collect_allocations parse_time p kvs"
    have c: "collect_allocations parse_time p (kvs @ [kv]) = AddOrUpdate ?m j (u zero_Allocation) (Some u)"
      using Some ju by (simp add: collect_allocations_def)
    have us: "updates_for parse_time p i (kvs @ [kv]) =
        updates_for parse_time p i kvs @ (if j = i then [u] else [])"
      using Some ju by (simp add: updates_for_def)
    show ?thesis
      using snoc unfolding c us
      by (cases "updates_for parse_time p i kvs = []"; cases "j = i")
        (auto simp: AddOrUpdate_def Let_def run_updates_def)
  qed
qed

text \<open>The allocation of an address as a function of its four keys.\<close>

definition alloc_keys :: "etcdClient \<Rightarrow> string \<Rightarrow> string list" where
  "alloc_keys c ip = [allocatedIPKey c ip, allocatedAtKey c ip, macKey c ip, serviceIDKey c ip]"

definition read_updates ::
  "(string \<Rightarrow> gotime option) \<Rightarrow> etcdClient \<Rightarrow> kv_view \<Rightarrow> string \<Rightarrow> (Allocation \<Rightarrow> Allocation) list"
where
  "read_updates parse_time c m ip =
     (case m (allocatedIPKey c ip) of
        Some v \<Rightarrow> if ParseIP ip = [] then [] else [\<lambda>a. a\<lparr>al_ip := ParseIP ip, allocationType := v\<rparr>]
      | None \<Rightarrow> [])
     @ (case Option.bind (m (allocatedAtKey c ip)) parse_time of
          Some t \<Rightarrow> [\<lambda>a. a\<lparr>allocatedAt := t\<rparr>] | None \<Rightarrow> [])
     @ (case m (macKey c ip) of Some v \<Rightarrow> [\<lambda>a. a\<lparr>dataKey := macKey c ip, al_data := v\<rparr>] | None \<Rightarrow> [])
     @ (case m (serviceIDKey c ip) of
          Some v \<Rightarrow> [\<lambda>a. a\<lparr>dataKey := serviceIDKey c ip, al_data := v\<rparr>] | None \<Rightarrow> [])"

definition read_allocation ::
  "(string \<Rightarrow> gotime option) \<Rightarrow> etcdClient \<Rightarrow> kv_view \<Rightarrow> string \<Rightarrow> Allocation option"
where
  "read_allocation parse_time c m ip = run_updates (read_updates parse_time c m ip)"

lemma append_less_append [simp]: "(p @ x < p @ y) = (x < y)" for p :: "'a :: linorder list"
  by (induction p) simp_all

lemma less_append_self: "x \<noteq> [] \<Longrightarrow> p < p @ x" for p :: "'a :: linorder list"
  using append_less_append [of p "[]" x] by (cases x) simp_all

lemma alloc_keys_sorted: "sorted_wrt (<) (alloc_keys c ip)"
proof -
  have "''/allocated-at'' < ''/mac''" "''/mac'' < ''/service-id''" "''/allocated-at'' < ''/service-id''"
    by code_simp+
  then show ?thesis
    by (simp add: alloc_keys_def ip_key_defs key_part_defs less_append_self)
qed

lemma allocation_update_rel:
  assumes "t = [] \<or> hd t \<noteq> CHR ''/''" "kv_Key kv = p @ CHR ''/'' # t"
  shows "allocation_update parse_time p kv = update_of_key parse_time t kv"
proof -
  have "TrimLeft CHR ''/'' (TrimPrefix (kv_Key kv) p) = t" using assms by (simp add: TrimLeft_id)
  then show ?thesis by (simp add: allocation_update_def)
qed

lemma update_of_key_Some:
  assumes "update_of_key parse_time t kv = Some (i, u)"
  shows "t = i \<or> (\<exists>part \<in> {dataKeyPartMac, dataKeyPartServiceID, allocatedAtKeyPart}. t = i @ CHR ''/'' # part)"
proof (cases "CHR ''/'' \<in> set t")
  case False
  then show ?thesis using assms by (auto simp: update_of_key_def Let_def split: if_splits)
next
  case True
  then obtain part where sp: "split_on CHR ''/'' t = [i, part]"
    and part: "part \<in> {dataKeyPartMac, dataKeyPartServiceID, allocatedAtKeyPart}"
    using assms by (auto simp: update_of_key_def split: if_splits list.splits option.splits)
  have "t = i @ CHR ''/'' # part" using join_split_on [of "CHR ''/''" t] sp by simp
  then show ?thesis using part by blast
qed

lemma allocation_update_key:
  assumes "t = [] \<or> hd t \<noteq> CHR ''/''" "kv_Key kv = allocatedIPsKey c @ CHR ''/'' # t"
    "allocation_update parse_time (allocatedIPsKey c) kv = Some (i, u)"
  shows "kv_Key kv \<in> set (alloc_keys c i)"
  using update_of_key_Some [of parse_time t kv i u] assms allocation_update_rel [OF assms(1,2)]
  by (auto simp: alloc_keys_def ip_key_defs)

lemma updates_for_filter:
  assumes "\<And>kv u. kv \<in> set kvs \<Longrightarrow> allocation_update parse_time p kv = Some (i, u) \<Longrightarrow> P kv"
  shows "updates_for parse_time p i kvs = updates_for parse_time p i (filter P kvs)"
  using assms
proof (induction kvs)
  case (Cons kv kvs)
  have IH: "updates_for parse_time p i kvs = updates_for parse_time p i (filter P kvs)"
    by (rule Cons.IH, rule Cons.prems) auto
  have "P kv" if "allocation_update parse_time p kv = Some (i, u)" for u
    using Cons.prems [of kv u] that by simp
  then show ?case using IH by (auto simp: updates_for_def split: option.splits)
qed (simp add: updates_for_def)

lemma kvs_sorted_unique:
  assumes "sorted_wrt (<) (map kv_Key xs)" "sorted_wrt (<) (map kv_Key ys)" "set xs = set ys"
  shows "xs = (ys :: KeyValue list)"
proof -
  have "map kv_Key xs = map kv_Key ys"
    using assms by (intro strict_sorted_equal) simp_all
  moreover have "inj_on kv_Key (set xs)"
    using assms(1) by (metis strict_sorted_iff distinct_map)
  ultimately show ?thesis using assms(3) by (metis inj_on_map_eq_map Un_absorb)
qed

lemma filter_listing:
  assumes l: "kv_listing m p kvs" and ks: "sorted_wrt (<) ks" "\<forall>k \<in> set ks. HasPrefix k p"
  shows "filter (\<lambda>kv. kv_Key kv \<in> set ks) kvs = concat (map (kvs_of m) ks)"
proof (rule kvs_sorted_unique)
  show "sorted_wrt (<) (map kv_Key (filter (\<lambda>kv. kv_Key kv \<in> set ks) kvs))"
    using l by (auto simp: kv_listing_def sorted_wrt_map intro: sorted_wrt_filter)
  have keys: "map kv_Key (concat (map (kvs_of m) ks)) = filter (\<lambda>k. m k \<noteq> None) ks" for ks
    by (induction ks) (auto simp: kvs_of_def)
  show "sorted_wrt (<) (map kv_Key (concat (map (kvs_of m) ks)))"
    unfolding keys by (rule sorted_wrt_filter [OF ks(1)])
  have "kv \<in> set (concat (map (kvs_of m) ks)) \<longleftrightarrow> kv_Key kv \<in> set ks \<and> m (kv_Key kv) = Some (kv_Value kv)"
    for kv by (cases kv) (auto simp: kvs_of_def split: option.splits)
  moreover have "kv \<in> set kvs \<longleftrightarrow> m (kv_Key kv) = Some (kv_Value kv) \<and> HasPrefix (kv_Key kv) p" for kv
    using l by (cases kv) (auto simp: kv_listing_def)
  ultimately show "set (filter (\<lambda>kv. kv_Key kv \<in> set ks) kvs) = set (concat (map (kvs_of m) ks))"
    using ks(2) by auto
qed

lemma update_of_key_main:
  "CHR ''/'' \<notin> set i \<Longrightarrow> update_of_key parse_time i \<lparr>kv_Key = k, kv_Value = v\<rparr> =
    (if ParseIP i = [] then None else Some (i, \<lambda>a. a\<lparr>al_ip := ParseIP i, allocationType := v\<rparr>))"
  by (simp add: update_of_key_def Let_def)

lemma update_of_key_part:
  assumes "CHR ''/'' \<notin> set i" "CHR ''/'' \<notin> set part"
  shows "update_of_key parse_time (i @ CHR ''/'' # part) \<lparr>kv_Key = k, kv_Value = v\<rparr> =
    (if part = dataKeyPartMac \<or> part = dataKeyPartServiceID
     then Some (i, \<lambda>a. a\<lparr>dataKey := k, al_data := v\<rparr>)
     else if part = allocatedAtKeyPart
     then map_option (\<lambda>t. (i, \<lambda>a. a\<lparr>allocatedAt := t\<rparr>)) (parse_time v) else None)"
proof -
  have "split_on CHR ''/'' (i @ CHR ''/'' # part) = [i, part]"
    using assms by (simp add: split_on_append split_on_free)
  then show ?thesis by (auto simp: update_of_key_def split: option.splits)
qed

lemma updates_for_append:
  "updates_for parse_time p i (xs @ ys) = updates_for parse_time p i xs @ updates_for parse_time p i ys"
  by (simp add: updates_for_def)

lemma updates_of_keys:
  assumes "CHR ''/'' \<notin> set i" "i \<noteq> []"
  shows "updates_for parse_time (allocatedIPsKey c) i (concat (map (kvs_of m) (alloc_keys c i))) =
    read_updates parse_time c m i"
proof -
  let ?p = "allocatedIPsKey c"
  have hd: "hd i \<noteq> CHR ''/''" using assms by (cases i) auto
  have rel: "allocation_update parse_time ?p \<lparr>kv_Key = ?p @ CHR ''/'' # i @ s, kv_Value = v\<rparr> =
      update_of_key parse_time (i @ s) \<lparr>kv_Key = ?p @ CHR ''/'' # i @ s, kv_Value = v\<rparr>" for s v
    using assms hd by (intro allocation_update_rel) auto
  have main: "updates_for parse_time ?p i (kvs_of m (allocatedIPKey c i)) =
      (case m (allocatedIPKey c i) of
        Some v \<Rightarrow> if ParseIP i = [] then [] else [\<lambda>a. a\<lparr>al_ip := ParseIP i, allocationType := v\<rparr>]
      | None \<Rightarrow> [])"
    using rel [of "[]"] update_of_key_main [OF assms(1), of parse_time]
    by (auto simp: updates_for_def kvs_of_def allocatedIPKey_def split: option.splits)
  have part: "updates_for parse_time ?p i (kvs_of m (allocatedIPKey c i @ CHR ''/'' # part)) =
      (case m (allocatedIPKey c i @ CHR ''/'' # part) of None \<Rightarrow> []
       | Some v \<Rightarrow> (case update_of_key parse_time (i @ CHR ''/'' # part)
             \<lparr>kv_Key = allocatedIPKey c i @ CHR ''/'' # part, kv_Value = v\<rparr> of
           Some (j, u) \<Rightarrow> if j = i then [u] else [] | None \<Rightarrow> []))" for part
    using rel [of "CHR ''/'' # part"]
    by (auto simp: updates_for_def kvs_of_def allocatedIPKey_def split: option.splits)
  have free: "CHR ''/'' \<notin> set dataKeyPartMac" "CHR ''/'' \<notin> set dataKeyPartServiceID"
    "CHR ''/'' \<notin> set allocatedAtKeyPart" by (simp_all add: key_part_defs)
  have ne: "allocatedAtKeyPart \<noteq> dataKeyPartMac" "allocatedAtKeyPart \<noteq> dataKeyPartServiceID"
    by (simp_all add: key_part_defs)
  show ?thesis
    unfolding alloc_keys_def list.map concat.simps updates_for_append main read_updates_def
    using free ne part update_of_key_part [OF assms(1), of _ parse_time]
    by (auto simp: macKey_def serviceIDKey_def allocatedAtKey_def updates_for_def [of _ _ _ "[]"]
        split: option.splits)
qed

lemma alloc_keys_prefix: "k \<in> set (alloc_keys c i) \<Longrightarrow> HasPrefix k (allocatedIPsKey c)"
  by (auto simp: alloc_keys_def ip_key_defs HasPrefix_iff)

lemma collect_read_allocation:
  assumes l: "kv_listing m (allocatedIPsKey c) kvs" and wf: "wf_keys (allocatedIPsKey c) m"
    and i: "CHR ''/'' \<notin> set i" "i \<noteq> []"
  shows "map_of (collect_allocations parse_time (allocatedIPsKey c) kvs) i =
    read_allocation parse_time c m i"
proof -
  let ?p = "allocatedIPsKey c"
  have "updates_for parse_time ?p i kvs =
      updates_for parse_time ?p i (filter (\<lambda>kv. kv_Key kv \<in> set (alloc_keys c i)) kvs)"
  proof (rule updates_for_filter)
    fix kv u
    assume kv: "kv \<in> set kvs" "allocation_update parse_time ?p kv = Some (i, u)"
    have "m (kv_Key kv) = Some (kv_Value kv) \<and> HasPrefix (kv_Key kv) ?p"
      using l kv(1) by (cases kv) (auto simp: kv_listing_def)
    then obtain t where "kv_Key kv = ?p @ CHR ''/'' # t" "t = [] \<or> hd t \<noteq> CHR ''/''"
      using wf by (auto simp: wf_keys_def)
    then show "kv_Key kv \<in> set (alloc_keys c i)" using allocation_update_key kv(2) by blast
  qed
  also have "filter (\<lambda>kv. kv_Key kv \<in> set (alloc_keys c i)) kvs = concat (map (kvs_of m) (alloc_keys c i))"
    using filter_listing [OF l alloc_keys_sorted] alloc_keys_prefix by blast
  finally show ?thesis
    using collect_allocations_updates [of parse_time ?p kvs i]
    by (simp add: updates_of_keys [OF i] read_allocation_def)
qed

context etcd_service
begin

lemma getAllocationsByPrefix_Ok:
  assumes "getAllocationsByPrefix E parse_time p e = (Ok d, e')"
  shows "\<exists>kvs. kv_listing (view e) p kvs \<and> d = collect_allocations parse_time p kvs \<and> view e' = view e"
proof -
  obtain e1 e2 where v: "view e1 = view e" "view e' = view e2" and
    g: "res_bind (GetPrefix E p e1) (\<lambda>kvs e. (Ok (collect_allocations parse_time p kvs), e)) = (Ok d, e2)"
    using WithConnection_Ok [OF assms [unfolded getAllocationsByPrefix_def]] by auto
  then obtain kvs where g: "GetPrefix E p e1 = (Ok kvs, e2)" "d = collect_allocations parse_time p kvs"
    by (auto simp: res_bind_Ok_iff)
  then show ?thesis using v GetPrefix_Ok [OF g(1)] GetPrefix_view [of p e1] by auto
qed

lemma getAllocations_Ok:
  assumes "getAllocations E parse_time c e = (Ok d, e')" "wf_keys (allocatedIPsKey c) (view e)"
  shows "view e' = view e \<and> gomap_ok d
    \<and> (\<forall>i. CHR ''/'' \<notin> set i \<longrightarrow> i \<noteq> [] \<longrightarrow> map_of d i = read_allocation parse_time c (view e) i)"
  using getAllocationsByPrefix_Ok [of parse_time "allocatedIPsKey c" e d e'] assms
    collect_read_allocation [OF _ assms(2)] collect_allocations_updates
  unfolding getAllocations_def by blast

lemma getAllocationsByPrefix_view: "view (snd (getAllocationsByPrefix E parse_time p e)) = view e"
  unfolding getAllocationsByPrefix_def
proof (rule WithConnection_rel [where R = "\<lambda>m m'. m' = m"], simp)
  fix e1
  assume "view e1 = view e"
  moreover obtain r e2 where "GetPrefix E p e1 = (r, e2)" by force
  ultimately show "view (snd (res_bind (GetPrefix E p e1)
      (\<lambda>kvs e. (Ok (collect_allocations parse_time p kvs), e)))) = view e"
    using GetPrefix_view [of p e1] by (cases r) auto
qed

end

section \<open>Reading one allocation\<close>

text \<open>
  All keys below the prefix belong to IPv4 addresses. Three dots are used up by the address that
  \<open>readAllocation\<close> has put into the prefix, so no contribution is filed under an address again.
\<close>

definition ip4_alloc_keys :: "etcdClient \<Rightarrow> kv_view \<Rightarrow> bool" where
  "ip4_alloc_keys c m \<longleftrightarrow> (\<forall>k v. m k = Some v \<longrightarrow> HasPrefix k (allocatedIPsKey c) \<longrightarrow>
     (\<exists>j. length j = 4 \<and> k \<in> set (alloc_keys c (ip4_String j))))"

abbreviation dots :: "string \<Rightarrow> nat" where
  "dots s \<equiv> count_list s CHR ''.''"

lemma dots_ip4: "length j = 4 \<Longrightarrow> dots (ip4_String j) = 3"
proof -
  have "dots (FormatUint n) = 0" for n by (simp add: count_list_0_iff FormatUint_free)
  then show "length j = 4 \<Longrightarrow> ?thesis" by (auto simp: length4_conv ip4_String_def)
qed

lemma dots_TrimLeft: "dots (TrimLeft CHR ''/'' s) = dots s"
  unfolding TrimLeft_def by (induction s) auto

lemma update_of_key_dots:
  "update_of_key parse_time t kv = Some (i, u) \<Longrightarrow> dots i \<le> dots t"
  using update_of_key_Some by fastforce

lemma alloc_key_dots:
  assumes "k \<in> set (alloc_keys c (ip4_String j))" "length j = 4" "k = allocatedIPKey c (ip4_String i) @ r"
    "length i = 4"
  shows "dots r = 0"
proof -
  obtain s where s: "k = allocatedIPsKey c @ CHR ''/'' # ip4_String j @ s" "dots s = 0"
    using assms(1) by (auto simp: alloc_keys_def ip_key_defs key_part_defs)
  have "ip4_String i @ r = ip4_String j @ s" using s(1) assms(3) by (simp add: allocatedIPKey_def)
  then have "dots (ip4_String i @ r) = dots (ip4_String j @ s)" by simp
  then show ?thesis using s(2) dots_ip4 [OF assms(2)] dots_ip4 [OF assms(4)] by simp
qed

lemma collect_none:
  assumes "\<And>kv u. kv \<in> set kvs \<Longrightarrow> allocation_update parse_time p kv \<noteq> Some (i, u)"
  shows "map_of (collect_allocations parse_time p kvs) i = None"
proof -
  have "updates_for parse_time p i kvs = []"
    using assms by (auto simp: updates_for_def split: option.splits)
  then show ?thesis using collect_allocations_updates [of parse_time p kvs i] by (simp add: run_updates_def)
qed

context etcd_service
begin

lemma readAllocation_None:
  assumes "readAllocation E parse_time c (ip4_String i) e = (Ok x, e')" "length i = 4"
    "ip4_alloc_keys c (view e)"
  shows "x = None"
proof -
  let ?p = "allocatedIPKey c (ip4_String i)"
  obtain d where d: "getAllocationsByPrefix E parse_time ?p e = (Ok d, e')" "x = map_of d (ip4_String i)"
    using assms(1) by (auto simp: readAllocation_def res_bind_Ok_iff)
  obtain kvs where kvs: "kv_listing (view e) ?p kvs" "d = collect_allocations parse_time ?p kvs"
    using getAllocationsByPrefix_Ok [OF d(1)] by blast
  have "map_of (collect_allocations parse_time ?p kvs) (ip4_String i) = None"
  proof (rule collect_none)
    fix kv u
    assume kv: "kv \<in> set kvs"
    have k: "view e (kv_Key kv) = Some (kv_Value kv)" "HasPrefix (kv_Key kv) ?p"
      using kvs(1) kv by (cases kv; auto simp: kv_listing_def)+
    then obtain r where r: "kv_Key kv = ?p @ r" by (auto simp: HasPrefix_iff)
    have "HasPrefix (kv_Key kv) (allocatedIPsKey c)" using r by (simp add: allocatedIPKey_def HasPrefix_iff)
    then obtain j where j: "length j = 4" "kv_Key kv \<in> set (alloc_keys c (ip4_String j))"
      using assms(3) k(1) by (auto simp: ip4_alloc_keys_def)
    have "dots r = 0" using alloc_key_dots [OF j(2,1) r assms(2)] .
    then have "dots i' = 0" if "allocation_update parse_time ?p kv = Some (i', u)" for i'
      using update_of_key_dots [of parse_time "TrimLeft CHR ''/'' r" kv i' u] that
      by (simp add: allocation_update_def r dots_TrimLeft)
    then show "allocation_update parse_time ?p kv \<noteq> Some (ip4_String i, u)"
      using dots_ip4 [OF assms(2)] by fastforce
  qed
  then show ?thesis using d(2) kvs(2) by simp
qed

end

section \<open>Properties\<close>

text \<open>Time stamps for the witnesses: the seconds in decimal.\<close>

definition fmt_seconds :: "gotime \<Rightarrow> string" where
  "fmt_seconds t = FormatUint (nat (instant t))"

definition parse_seconds :: "string \<Rightarrow> gotime option" where
  "parse_seconds s = map_option (\<lambda>n. Time (int n) False) (ParseUint s 64)"

text \<open>
  C3: A container gets an address exactly when the address is free, is reserved without a MAC or
  for this MAC, or is already this container's; then type, time and MAC are written and nothing
  else changes. Otherwise, and whenever etcd reports an error before the write, nothing changes.
\<close>

theorem allocateIPForContainer_spec:
  assumes "etcd_service E view" "allocateIPForContainer E fmt_time now c ip mac e = (r, e')"
  shows "let ok = container_may_take c (view e) (ip_String ip) mac;
             written = alloc_written c (ip_String ip) AllocationTypeContainerIP (fmt_time now)
               (macKey c (ip_String ip)) mac (view e)
         in (case r of
               Ok res \<Rightarrow> Success res = ok \<and> view e' = (if ok then written else view e)
                 \<and> (ok \<longrightarrow> ar_Allocation res = alloc_record now ip AllocationTypeContainerIP
                      (macKey c (ip_String ip)) mac)
             | _ \<Rightarrow> view e' = view e \<or> ok \<and> view e' = written)"
proof -
  note view = etcd_service.allocateIPByCondition_view [OF assms(1), of fmt_time now c ip
      AllocationTypeContainerIP "macKey c (ip_String ip)" mac "container_conditions c ip mac" e,
      folded allocateIPForContainer_def, unfolded container_conditions_iff assms(2) snd_conv]
  show ?thesis
  proof (cases r)
    case (Ok res)
    show ?thesis
      using etcd_service.allocateIPByCondition_Ok [OF assms(1)
          assms(2) [unfolded Ok allocateIPForContainer_def], unfolded container_conditions_iff] Ok
      by (auto simp: Let_def failed_allocation_def split: if_splits)
  qed (use view in \<open>simp_all add: Let_def\<close>)
qed

lemma allocateIPForContainer_spec_witness:
  "let c = NewEtcdClient [] 5 ''/p'';
       e' = snd (allocateIPForContainer mem_etcd fmt_seconds zero_time c [10, 0, 0, 2] ''m1''
              [(''/p/allocated-ips/10.0.0.2'', ''reserved'')])
   in map_of e' ''/p/allocated-ips/10.0.0.2/mac'' = Some ''m1''"
proof -
  let ?c = "NewEtcdClient [] 5 ''/p''" and ?e = "[(''/p/allocated-ips/10.0.0.2'', ''reserved'')]"
  let ?r = "allocateIPForContainer mem_etcd fmt_seconds zero_time ?c [10, 0, 0, 2] ''m1'' ?e"
  have "fst ?r = Ok \<lparr>Success = True, ar_Allocation = alloc_record zero_time [10, 0, 0, 2]
      AllocationTypeContainerIP ''/p/allocated-ips/10.0.0.2/mac'' ''m1''\<rparr>" by code_simp
  moreover have "ip_String [10, 0, 0, 2] = ''10.0.0.2''" by code_simp
  moreover have "macKey ?c ''10.0.0.2'' = ''/p/allocated-ips/10.0.0.2/mac''" by code_simp
  moreover have "?r = (fst ?r, snd ?r)" by simp
  note allocateIPForContainer_spec [OF mem.etcd_service_axioms this]
  ultimately show ?thesis by (auto simp: Let_def alloc_written_def)
qed

text \<open>
  An address that belongs to a container is exclusive: no other container, no service and no
  reservation can take it, on whatever node they run; the store stays as it is and the answer is
  not a success.
\<close>

theorem allocated_ip_exclusive:
  assumes "etcd_service E view" "mac' \<noteq> mac"
    "view e (allocatedIPKey c (ip_String ip)) = Some AllocationTypeContainerIP"
    "view e (macKey c (ip_String ip)) = Some mac"
    "(r, e') \<in> {allocateIPForContainer E fmt_time now c ip mac' e,
       allocateIPForService E fmt_time now c ip sid e, reserveIP E fmt_time now c ip e}"
  shows "view e' = view e \<and> (\<forall>res. r = Ok res \<longrightarrow> \<not> Success res)"
proof -
  have no: "\<not> some_condition (view e) (container_conditions c ip mac')"
    "\<not> some_condition (view e) (service_conditions c ip sid)"
    "\<not> some_condition (view e) [[CreateRevisionIs0 (allocatedIPKey c (ip_String ip))]]"
    using assms(2-4)
    by (auto simp: container_conditions_iff service_conditions_iff container_may_take_def
        service_may_take_def allocation_type_defs)
  have gen: "view e' = view e \<and> (\<forall>res. r = Ok res \<longrightarrow> \<not> Success res)"
    if "allocateIPByCondition E fmt_time now c ip ty dKey d conds e = (r, e')"
      "\<not> some_condition (view e) conds" for ty dKey d conds
    using etcd_service.allocateIPByCondition_Ok [OF assms(1), of fmt_time now c ip ty dKey d conds e _ e']
      etcd_service.allocateIPByCondition_view [OF assms(1), of fmt_time now c ip ty dKey d conds e]
      that by (auto simp: failed_allocation_def)
  show ?thesis
    using assms(5) gen [OF sym no(1)] gen [OF sym no(2)] gen [OF sym no(3)]
    unfolding allocateIPForContainer_def allocateIPForService_def reserveIP_def by blast
qed

lemma allocated_ip_exclusive_witness:
  "let c = NewEtcdClient [] 5 ''/p'';
       e = [(''/p/allocated-ips/10.0.0.2'', ''container-ip''), (''/p/allocated-ips/10.0.0.2/mac'', ''m1'')]
   in map_of (snd (allocateIPForContainer mem_etcd fmt_seconds zero_time c [10, 0, 0, 2] ''m2'' e)) = map_of e"
proof -
  let ?c = "NewEtcdClient [] 5 ''/p''"
  let ?e = "[(''/p/allocated-ips/10.0.0.2'', ''container-ip''), (''/p/allocated-ips/10.0.0.2/mac'', ''m1'')]"
  have ip: "ip_String [10, 0, 0, 2] = ''10.0.0.2''" by code_simp
  have k: "allocatedIPKey ?c ''10.0.0.2'' = ''/p/allocated-ips/10.0.0.2''"
    "macKey ?c ''10.0.0.2'' = ''/p/allocated-ips/10.0.0.2/mac''" by code_simp+
  show ?thesis
    using allocated_ip_exclusive [OF mem.etcd_service_axioms, of "''m2''" "''m1''" ?e ?c "[10, 0, 0, 2]"
        "fst (allocateIPForContainer mem_etcd fmt_seconds zero_time ?c [10, 0, 0, 2] ''m2'' ?e)"
        "snd (allocateIPForContainer mem_etcd fmt_seconds zero_time ?c [10, 0, 0, 2] ''m2'' ?e)"
        fmt_seconds zero_time]
    by (simp add: Let_def ip k AllocationTypeContainerIP_def)
qed

text \<open>
  What an allocation for a container has written is what \<open>getAllocations\<close> reads: the address
  with its type, its MAC and the time stamp, while every other address reads as before.
\<close>

theorem allocate_getAllocations:
  assumes "etcd_service E view" "length ip = 4" "mac \<noteq> []" "parse_time (fmt_time now) = Some t"
    "allocateIPForContainer E fmt_time now c ip mac e = (Ok res, e1)" "Success res"
    "view e (serviceIDKey c (ip_String ip)) = None" "wf_keys (allocatedIPsKey c) (view e)"
    "getAllocations E parse_time c e1 = (Ok d, e2)"
  shows "map_of d (ip_String ip) = Some \<lparr>al_ip = v4InV6Prefix @ ip,
      allocationType = AllocationTypeContainerIP, allocatedAt = t,
      dataKey = macKey c (ip_String ip), al_data = mac\<rparr>
    \<and> (\<forall>i. CHR ''/'' \<notin> set i \<and> i \<noteq> [] \<and> i \<noteq> ip_String ip \<longrightarrow>
         map_of d i = read_allocation parse_time c (view e) i)"
proof -
  let ?s = "ip_String ip"
  have s: "CHR ''/'' \<notin> set ?s" "?s \<noteq> []" "ParseIP ?s = v4InV6Prefix @ ip" "v4InV6Prefix \<noteq> []"
    using assms(2) ip_String_slash [of ip] by (auto simp: ip_String_ip4 v4InV6Prefix_def)
  have v: "view e1 = alloc_written c ?s AllocationTypeContainerIP (fmt_time now) (macKey c ?s) mac (view e)"
    using etcd_service.allocateIPByCondition_Ok [OF assms(1)
        assms(5) [unfolded allocateIPForContainer_def]] assms(6)
    by (auto simp: failed_allocation_def split: if_splits)
  have mk: "macKey c ?s \<noteq> []" by (simp add: macKey_def)
  have wf: "wf_keys (allocatedIPsKey c) (view e1)"
    unfolding wf_keys_def
  proof (intro allI impI)
    fix k w
    assume k: "view e1 k = Some w" "HasPrefix k (allocatedIPsKey c)"
    show "\<exists>t. k = allocatedIPsKey c @ CHR ''/'' # t \<and> (t = [] \<or> hd t \<noteq> CHR ''/'')"
    proof (cases "k \<in> ip_keys c ?s")
      case True
      then obtain r where "k = allocatedIPsKey c @ CHR ''/'' # ?s @ r"
        by (auto simp: ip_keys_def ip_key_defs)
      moreover have "hd (?s @ r) \<noteq> CHR ''/''" using s(1,2) by (cases ?s) auto
      ultimately show ?thesis by blast
    next
      case False
      then have "view e k = Some w" using k(1) alloc_written_other [of k c ?s "macKey c ?s"] v by simp
      then show ?thesis using assms(8) k(2) by (auto simp: wf_keys_def)
    qed
  qed
  note g = etcd_service.getAllocations_Ok [OF assms(1,9) wf]
  have "read_allocation parse_time c (view e1) ?s = Some \<lparr>al_ip = v4InV6Prefix @ ip,
      allocationType = AllocationTypeContainerIP, allocatedAt = t, dataKey = macKey c ?s, al_data = mac\<rparr>"
    using assms(3,4,7) s(3,4) mk
    by (simp add: read_allocation_def read_updates_def run_updates_def v alloc_written_def
        zero_Allocation_def)
  moreover have "read_allocation parse_time c (view e1) i = read_allocation parse_time c (view e) i"
    if "CHR ''/'' \<notin> set i" "i \<noteq> ?s" for i
  proof -
    have "k \<notin> ip_keys c ?s" if "k \<in> ip_keys c i" for k
      using ip_keys_disjoint [OF s(1) \<open>CHR ''/'' \<notin> set i\<close>, of c] that \<open>i \<noteq> ?s\<close> by auto
    then have "view e1 k = view e k" if "k \<in> ip_keys c i" for k
      using alloc_written_other [of k c ?s "macKey c ?s"] v that by simp
    then show ?thesis by (simp add: read_allocation_def read_updates_def ip_keys_def)
  qed
  ultimately show ?thesis using g s(1,2) by auto
qed

lemma allocate_getAllocations_witness:
  "let c = NewEtcdClient [] 5 ''/p'';
       e1 = snd (allocateIPForContainer mem_etcd fmt_seconds (Time 7 True) c [10, 0, 0, 2] ''m1'' [])
   in map_option al_data (map_of (the_ok (fst (getAllocations mem_etcd parse_seconds c e1))) ''10.0.0.2'')
      = Some ''m1''"
proof -
  let ?c = "NewEtcdClient [] 5 ''/p''"
  let ?a = "allocateIPForContainer mem_etcd fmt_seconds (Time 7 True) ?c [10, 0, 0, 2] ''m1'' []"
  let ?g = "getAllocations mem_etcd parse_seconds ?c (snd ?a)"
  have ip: "ip_String [10, 0, 0, 2] = ''10.0.0.2''" by code_simp
  have res: "fst ?a = Ok \<lparr>Success = True, ar_Allocation = alloc_record (Time 7 True) [10, 0, 0, 2]
      AllocationTypeContainerIP ''/p/allocated-ips/10.0.0.2/mac'' ''m1''\<rparr>" by code_simp
  have t: "parse_seconds (fmt_seconds (Time 7 True)) = Some (Time 7 False)"
    by (simp add: parse_seconds_def fmt_seconds_def)
  have a: "?a = (Ok \<lparr>Success = True, ar_Allocation = alloc_record (Time 7 True) [10, 0, 0, 2]
      AllocationTypeContainerIP ''/p/allocated-ips/10.0.0.2/mac'' ''m1''\<rparr>, snd ?a)"
    using res by (metis prod.collapse)
  have "\<exists>kvs e'. GetPrefix mem_etcd (allocatedIPsKey ?c) (snd ?a) = (Ok kvs, e')" by (rule mem.GetPrefix_ok)
  then have "\<exists>d e'. ?g = (Ok d, e')"
    unfolding getAllocations_def getAllocationsByPrefix_def
    by (auto simp: WithConnection_def NewConnection_def connection_Close_def mem_etcd_def)
  then obtain d e2 where g: "?g = (Ok d, e2)" by blast
  have "wf_keys (allocatedIPsKey ?c) (map_of [])" by (simp add: wf_keys_def)
  from allocate_getAllocations [OF mem.etcd_service_axioms _ _ t a _ _ this g] show ?thesis
    by (simp add: Let_def g ip)
qed

text \<open>
  Releasing removes all keys of an address exactly when the store still has the allocation
  with its type and its data (or without data); otherwise the store is unchanged and the answer
  tells the type the address has now.
\<close>

theorem releaseAllocation_spec:
  assumes "etcd_service E view" "releaseAllocation E parse_time c a e = (Ok r, e')"
  shows "(if may_release c (view e) a
    then Success r \<and> view e' = released c (ip_String (al_ip a)) (view e)
    else \<not> Success r \<and> view e' = view e
      \<and> view e (allocatedIPKey c (ip_String (al_ip a))) = Some (allocationType (ar_Allocation r)))"
  using assms by (rule etcd_service.releaseAllocation_Ok)

lemma releaseAllocation_spec_witness:
  "let c = NewEtcdClient [] 5 ''/p''; ip = [10, 0, 0, 2];
       a = alloc_record zero_time ip AllocationTypeReserved [] [];
       e = [(''/p/allocated-ips/10.0.0.2'', ''reserved''), (''/p/allocated-ips/10.0.0.2/allocated-at'', ''0'')]
   in map_of (snd (releaseAllocation mem_etcd parse_seconds c a e)) = Map.empty"
proof -
  let ?c = "NewEtcdClient [] 5 ''/p''"
  let ?a = "alloc_record zero_time [10, 0, 0, 2] AllocationTypeReserved [] []"
  let ?e = "[(''/p/allocated-ips/10.0.0.2'', ''reserved''), (''/p/allocated-ips/10.0.0.2/allocated-at'', ''0'')]"
  let ?r = "releaseAllocation mem_etcd parse_seconds ?c ?a ?e"
  have r: "fst ?r = Ok \<lparr>Success = True, ar_Allocation = zero_Allocation\<rparr>" by code_simp
  then have "?r = (Ok \<lparr>Success = True, ar_Allocation = zero_Allocation\<rparr>, snd ?r)" by (metis prod.collapse)
  note th = releaseAllocation_spec [OF mem.etcd_service_axioms this]
  have keys: "''/p/allocated-ips/10.0.0.2'' \<in> ip_keys ?c (ip_String (al_ip ?a))"
    "''/p/allocated-ips/10.0.0.2/allocated-at'' \<in> ip_keys ?c (ip_String (al_ip ?a))" by code_simp+
  have "map_of (snd ?r) = released ?c (ip_String (al_ip ?a)) (map_of ?e)"
    using th by (auto split: if_splits)
  then show ?thesis using keys by (auto simp: Let_def released_def fun_eq_iff)
qed

text \<open>
  \<open>readAllocation\<close> never finds an allocation: it puts the address into the prefix, so the rest
  of each key, under which the contributions are filed, is never the address.
\<close>

theorem readAllocation_finds_nothing:
  assumes "etcd_service E view" "readAllocation E parse_time c (ip4_String i) e = (Ok x, e')"
    "length i = 4" "ip4_alloc_keys c (view e)"
  shows "x = None"
  using assms by (rule etcd_service.readAllocation_None)

lemma readAllocation_finds_nothing_witness:
  "let e = [(''/p/allocated-ips/10.0.0.2'', ''reserved''), (''/p/allocated-ips/10.0.0.2/mac'', ''m'')]
   in fst (readAllocation mem_etcd parse_seconds (NewEtcdClient [] 5 ''/p'') ''10.0.0.2'' e) = Ok None"
proof -
  let ?c = "NewEtcdClient [] 5 ''/p''"
  let ?e = "[(''/p/allocated-ips/10.0.0.2'', ''reserved''), (''/p/allocated-ips/10.0.0.2/mac'', ''m'')]"
  let ?r = "readAllocation mem_etcd parse_seconds ?c ''10.0.0.2'' ?e"
  have ip: "ip4_String [10, 0, 0, 2] = ''10.0.0.2''" by code_simp
  have k: "''/p/allocated-ips/10.0.0.2'' \<in> set (alloc_keys ?c (ip4_String [10, 0, 0, 2]))"
    "''/p/allocated-ips/10.0.0.2/mac'' \<in> set (alloc_keys ?c (ip4_String [10, 0, 0, 2]))" by code_simp+
  then have "ip4_alloc_keys ?c (map_of ?e)"
    unfolding ip4_alloc_keys_def by (auto split: if_splits intro!: exI [of _ "[10, 0, 0, 2]"])
  moreover have "\<exists>x e'. ?r = (Ok x, e')"
    unfolding readAllocation_def getAllocationsByPrefix_def
    by (simp add: WithConnection_def NewConnection_def connection_Close_def mem_etcd_def)
  then obtain x e' where r: "?r = (Ok x, e')" by blast
  ultimately have "x = None"
    using readAllocation_finds_nothing [OF mem.etcd_service_axioms, of parse_seconds ?c "[10, 0, 0, 2]" ?e x e']
    by (simp add: ip)
  then show ?thesis using r by (simp add: Let_def)
qed

end
