(* ===== verification/Ipam_Pool.thy ===== *)
theory Ipam_Pool
  imports Ipam_Etcd
begin

text \<open>
  \<open>plugin/pkg/ipam/pool.go\<close>: the address pool of one network on one node, a cache of the
  allocations in etcd. The methods hold the mutex of the pool, so each is one step. The time of
  day is the argument \<open>now\<close> and \<open>rnd\<close> gives the random index of each round of the allocation loop.
\<close>

section \<open>State and operations\<close>

record etcdPool =
  poolID :: string
  poolSubnet :: ipnet
  pool_client :: etcdClient
  allIPs :: "net_ip list"
  allocatedIPs :: "(string, Allocation) gomap"
  unusedIPs :: "(string, gotime) gomap"

definition GetAllocations :: "etcdPool \<Rightarrow> Allocation list" where
  "GetAllocations p = map snd (allocatedIPs p)"

definition syncIPs ::
  "'e etcd \<Rightarrow> (string \<Rightarrow> gotime option) \<Rightarrow> gotime \<Rightarrow> etcdPool \<Rightarrow> 'e \<Rightarrow> unit res \<times> etcdPool \<times> 'e"
where
  "syncIPs E parse_time now p e =
     (case getAllocations E parse_time (pool_client p) e of
        (Ok allocated, e) \<Rightarrow>
          let unused = foldl (\<lambda>unused ip.
                if map_of allocated (ip_String ip) = None
                then gomap_set unused (ip_String ip) now else unused) [] (allIPs p)
          in (Ok (), p\<lparr>allocatedIPs := allocated, unusedIPs := unused\<rparr>, e)
      | (Err er, e) \<Rightarrow> (Err (WithMessage er ''Error getting allocations for pool''), p, e)
      | (Panic, e) \<Rightarrow> (Panic, p, e))"

text \<open>
  The watcher that \<open>NewEtcdBasedAddressPool\<close> starts is \<open>pool_watchEvent\<close> below; opening it uses a
  connection, whose error is ignored.
\<close>

definition NewEtcdBasedAddressPool ::
  "nat \<Rightarrow> 'e etcd \<Rightarrow> (string \<Rightarrow> gotime option) \<Rightarrow> gotime \<Rightarrow> string \<Rightarrow> ipnet \<Rightarrow> etcdClient \<Rightarrow> 'e \<Rightarrow>
   (etcdPool res \<times> 'e) option"
where
  "NewEtcdBasedAddressPool fuel E parse_time now i subnet client e =
     (case ipsInSubnet fuel subnet True True of
        None \<Rightarrow> None
      | Some (Err er) \<Rightarrow> Some (Err er, e)
      | Some Panic \<Rightarrow> Some (Panic, e)
      | Some (Ok ips) \<Rightarrow>
          Some (case syncIPs E parse_time now
                  \<lparr>poolID = i, poolSubnet = subnet, pool_client = client, allIPs = ips,
                   allocatedIPs = [], unusedIPs = []\<rparr> e of
                  (Ok _, p, e) \<Rightarrow>
                    (case WithConnection E (\<lambda>e. (Ok (), e)) e of
                       (Panic, e) \<Rightarrow> (Panic, e) | (_, e) \<Rightarrow> (Ok p, e))
                | (Err er, _, e) \<Rightarrow> (Err er, e)
                | (Panic, _, e) \<Rightarrow> (Panic, e)))"

text \<open>An address is fresh enough when it has been unused for five minutes.\<close>

definition rested :: "gotime \<Rightarrow> gotime \<Rightarrow> bool" where
  "rested now since \<longleftrightarrow> instant since + minutes 5 < instant now"

fun parse_all :: "string list \<Rightarrow> net_ip list res" where
  "parse_all [] = Ok []"
| "parse_all (s # ss) =
     (let ip = ParseIP s
      in if ip = [] then Err (Errorf ''invalid IP'')
         else (case parse_all ss of Ok ips \<Rightarrow> Ok (ip # ips) | Err er \<Rightarrow> Err er | Panic \<Rightarrow> Panic))"

definition getAvailableUnusedIPs ::
  "'e etcd \<Rightarrow> (string \<Rightarrow> gotime option) \<Rightarrow> gotime \<Rightarrow> etcdPool \<Rightarrow> 'e \<Rightarrow>
   net_ip list res \<times> etcdPool \<times> 'e"
where
  "getAvailableUnusedIPs E parse_time now p e =
     (let available = map fst (filter (\<lambda>(_, since). rested now since) (unusedIPs p));
          available = (if length available = 0 then map fst (unusedIPs p) else available)
      in if length available = 0
         then (case syncIPs E parse_time now p e of
                 (Ok _, p, e) \<Rightarrow>
                   if length (unusedIPs p) = 0 then (Err (Errorf ''no more IPs available for pool''), p, e)
                   else (parse_all (map fst (unusedIPs p)), p, e)
               | (Err er, p, e) \<Rightarrow> (Err (WithMessage er ''Error syncing reserved IPs''), p, e)
               | (Panic, p, e) \<Rightarrow> (Panic, p, e))
         else (parse_all available, p, e))"

definition choose_ip ::
  "bool \<Rightarrow> nat \<Rightarrow> net_ip list \<Rightarrow> (string, Allocation) gomap \<Rightarrow> net_ip res"
where
  "choose_ip random i available allocated =
     (if random then (if i < length available then Ok (available ! i) else Panic)
      else getNextAvailableIP available allocated)"

definition record_allocation :: "string \<Rightarrow> Allocation \<Rightarrow> etcdPool \<Rightarrow> etcdPool" where
  "record_allocation ipStr a p =
     p\<lparr>unusedIPs := gomap_delete (unusedIPs p) ipStr,
       allocatedIPs := gomap_set (allocatedIPs p) ipStr a\<rparr>"

text \<open>
  The loop of \<open>allocateFreeIP\<close> ends only with a success or an error; without fuel it returns
  \<open>None\<close>. \<open>rnd n len\<close> is the random index of the round with \<open>n\<close> fuel left.
\<close>

fun allocateFreeIP ::
  "nat \<Rightarrow> 'e etcd \<Rightarrow> (string \<Rightarrow> gotime option) \<Rightarrow> gotime \<Rightarrow> (nat \<Rightarrow> nat \<Rightarrow> nat) \<Rightarrow> bool \<Rightarrow>
   (net_ip \<Rightarrow> 'e \<Rightarrow> IPAllocationResult res \<times> 'e) \<Rightarrow> etcdPool \<Rightarrow> 'e \<Rightarrow>
   (net_ip res \<times> etcdPool \<times> 'e) option"
where
  "allocateFreeIP 0 E parse_time now rnd random allocator p e = None"
| "allocateFreeIP (Suc fuel) E parse_time now rnd random allocator p e =
     (case getAvailableUnusedIPs E parse_time now p e of
        (Err er, p, e) \<Rightarrow> Some (Err (WithMessage er ''Error getting available unused IPs''), p, e)
      | (Panic, p, e) \<Rightarrow> Some (Panic, p, e)
      | (Ok available, p, e) \<Rightarrow>
          (case choose_ip random (rnd fuel (length available)) available (allocatedIPs p) of
             Err er \<Rightarrow> Some (Err (WithMessage er ''Error getting next available IP''), p, e)
           | Panic \<Rightarrow> Some (Panic, p, e)
           | Ok ip \<Rightarrow>
               (case allocator ip e of
                  (Err er, e) \<Rightarrow> Some (Err (WithMessage er ''Error reserving IP''), p, e)
                | (Panic, e) \<Rightarrow> Some (Panic, p, e)
                | (Ok result, e) \<Rightarrow>
                    if Success result
                    then let a = ar_Allocation result
                         in Some (Ok (al_ip a), record_allocation (ip_String (al_ip a)) a p, e)
                    else allocateFreeIP fuel E parse_time now rnd random allocator p e)))"

definition ReserveIP ::
  "nat \<Rightarrow> 'e etcd \<Rightarrow> (gotime \<Rightarrow> string) \<Rightarrow> (string \<Rightarrow> gotime option) \<Rightarrow> gotime \<Rightarrow> (nat \<Rightarrow> nat \<Rightarrow> nat) \<Rightarrow>
   bool \<Rightarrow> etcdPool \<Rightarrow> 'e \<Rightarrow> (net_ip res \<times> etcdPool \<times> 'e) option"
where
  "ReserveIP fuel E fmt_time parse_time now rnd random p e =
     allocateFreeIP fuel E parse_time now rnd random (reserveIP E fmt_time now (pool_client p)) p e"

text \<open>The common course of the two methods that prefer a given address.\<close>

definition allocate_preferred ::
  "nat \<Rightarrow> 'e etcd \<Rightarrow> (string \<Rightarrow> gotime option) \<Rightarrow> gotime \<Rightarrow> (nat \<Rightarrow> nat \<Rightarrow> nat) \<Rightarrow> bool \<Rightarrow>
   (net_ip \<Rightarrow> 'e \<Rightarrow> IPAllocationResult res \<times> 'e) \<Rightarrow> string \<Rightarrow> string \<Rightarrow> string \<Rightarrow> etcdPool \<Rightarrow> 'e \<Rightarrow>
   (net_ip res \<times> etcdPool \<times> 'e) option"
where
  "allocate_preferred fuel E parse_time now rnd random allocator invalid failed preferredIP p e =
     (let parsedIP = ParseIP preferredIP
      in if parsedIP = [] then Some (Err (Errorf invalid), p, e)
         else if ipnet_Contains (poolSubnet p) parsedIP
         then (case allocator parsedIP e of
                 (Err er, e) \<Rightarrow> Some (Err (WithMessage er failed), p, e)
               | (Panic, e) \<Rightarrow> Some (Panic, p, e)
               | (Ok result, e) \<Rightarrow>
                   if Success result
                   then let p = (if map_of (allocatedIPs p) preferredIP = None
                                 then p\<lparr>unusedIPs := gomap_delete (unusedIPs p) preferredIP\<rparr> else p);
                            a = ar_Allocation result
                        in Some (Ok (al_ip a),
                                 p\<lparr>allocatedIPs := gomap_set (allocatedIPs p) preferredIP a\<rparr>, e)
                   else allocateFreeIP fuel E parse_time now rnd random allocator p e)
         else allocateFreeIP fuel E parse_time now rnd random allocator p e)"

definition AllocateContainerIP ::
  "nat \<Rightarrow> 'e etcd \<Rightarrow> (gotime \<Rightarrow> string) \<Rightarrow> (string \<Rightarrow> gotime option) \<Rightarrow> gotime \<Rightarrow> (nat \<Rightarrow> nat \<Rightarrow> nat) \<Rightarrow>
   string \<Rightarrow> string \<Rightarrow> bool \<Rightarrow> etcdPool \<Rightarrow> 'e \<Rightarrow> (net_ip res \<times> etcdPool \<times> 'e) option"
where
  "AllocateContainerIP fuel E fmt_time parse_time now rnd preferredIP mac random p e =
     allocate_preferred fuel E parse_time now rnd random
       (\<lambda>ip. allocateIPForContainer E fmt_time now (pool_client p) ip mac)
       ''preferred IP is invalid'' ''Error allocating reserved IP for container'' preferredIP p e"

definition AllocateServiceVIP ::
  "nat \<Rightarrow> 'e etcd \<Rightarrow> (gotime \<Rightarrow> string) \<Rightarrow> (string \<Rightarrow> gotime option) \<Rightarrow> gotime \<Rightarrow> (nat \<Rightarrow> nat \<Rightarrow> nat) \<Rightarrow>
   string \<Rightarrow> string \<Rightarrow> bool \<Rightarrow> etcdPool \<Rightarrow> 'e \<Rightarrow> (net_ip res \<times> etcdPool \<times> 'e) option"
where
  "AllocateServiceVIP fuel E fmt_time parse_time now rnd ipamVIP serviceID random p e =
     allocate_preferred fuel E parse_time now rnd random
       (\<lambda>ip. allocateIPForService E fmt_time now (pool_client p) ip serviceID)
       ''ipam VIP is invalid'' ''Error allocating IPAM VIP for service'' ipamVIP p e"

definition ReleaseIPIfReserved ::
  "'e etcd \<Rightarrow> (string \<Rightarrow> gotime option) \<Rightarrow> gotime \<Rightarrow> string \<Rightarrow> etcdPool \<Rightarrow> 'e \<Rightarrow>
   bool res \<times> etcdPool \<times> 'e"
where
  "ReleaseIPIfReserved E parse_time now ip p e =
     (case map_of (allocatedIPs p) ip of
        None \<Rightarrow> (Ok False, p, e)
      | Some allocation \<Rightarrow>
          (case releaseAllocation E parse_time (pool_client p) allocation e of
             (Err er, e) \<Rightarrow> (Err (WithMessage er ''error releasing ip''), p, e)
           | (Panic, e) \<Rightarrow> (Panic, p, e)
           | (Ok result, e) \<Rightarrow>
               if \<not> Success result
               then (Err (Errorf ''couldn't release ip''),
                     p\<lparr>allocatedIPs := gomap_set (allocatedIPs p) ip (ar_Allocation result)\<rparr>, e)
               else (Ok True,
                     p\<lparr>allocatedIPs := gomap_delete (allocatedIPs p) ip,
                       unusedIPs := gomap_set (unusedIPs p) ip now\<rparr>, e)))"

definition ReleaseIP ::
  "'e etcd \<Rightarrow> (string \<Rightarrow> gotime option) \<Rightarrow> gotime \<Rightarrow> string \<Rightarrow> etcdPool \<Rightarrow> 'e \<Rightarrow>
   unit res \<times> etcdPool \<times> 'e"
where
  "ReleaseIP E parse_time now ip p e =
     (case ReleaseIPIfReserved E parse_time now ip p e of
        (Ok wasReleased, p, e) \<Rightarrow>
          (if \<not> wasReleased then Err (Errorf ''IP is not reserved in pool'') else Ok (), p, e)
      | (Err er, p, e) \<Rightarrow> (Err er, p, e)
      | (Panic, p, e) \<Rightarrow> (Panic, p, e))"

definition ReleaseAllIPs ::
  "'e etcd \<Rightarrow> (string \<Rightarrow> gotime option) \<Rightarrow> gotime \<Rightarrow> etcdPool \<Rightarrow> 'e \<Rightarrow> unit res \<times> etcdPool \<times> 'e"
where
  "ReleaseAllIPs E parse_time now p e =
     (case deleteAllAllocations E (pool_client p) e of
        (Ok _, e) \<Rightarrow> syncIPs E parse_time now p e
      | (Err er, e) \<Rightarrow> (Err (WithMessage er ''Error releasing all IPs for pool''), p, e)
      | (Panic, e) \<Rightarrow> (Panic, p, e))"

text \<open>
  One event of the watcher. Its result says whether the pool's mutex is free afterwards: two
  branches of the code continue with the next event without unlocking it, so that the next
  operation on the pool blocks for ever. A panic ends the program.
\<close>

datatype lock_state = Unlocked | LeftLocked | Crashed

datatype pool_event = PoolPut KeyValue | PoolDelete string

definition pool_watchEvent ::
  "'e etcd \<Rightarrow> (string \<Rightarrow> gotime option) \<Rightarrow> gotime \<Rightarrow> etcdPool \<Rightarrow> pool_event \<Rightarrow> 'e \<Rightarrow>
   lock_state \<times> etcdPool \<times> 'e"
where
  "pool_watchEvent E parse_time now p ev e =
     (let pre = allocatedIPsKey (pool_client p);
          key = (case ev of PoolPut kv \<Rightarrow> kv_Key kv | PoolDelete k \<Rightarrow> k);
          keyParts = split_on CHR ''/'' (TrimLeft CHR ''/'' (TrimPrefix key pre));
          ip = ParseIP (keyParts ! 0)
      in if ip = [] then (Unlocked, p, e)
         else let ipStr = ip_String ip
              in case ev of
                   PoolPut _ \<Rightarrow>
                     (case readAllocation E parse_time (pool_client p) ipStr e of
                        (Ok (Some r), e) \<Rightarrow>
                          (case map_of (allocatedIPs p) ipStr of
                             Some existing \<Rightarrow>
                               if allocationType existing \<noteq> allocationType r
                                  \<or> allocatedAt existing \<noteq> allocatedAt r \<or> al_data existing \<noteq> al_data r
                               then (Unlocked, p\<lparr>allocatedIPs := gomap_set (allocatedIPs p) ipStr r\<rparr>, e)
                               else (Unlocked, p, e)
                           | None \<Rightarrow> (Unlocked, record_allocation ipStr r p, e))
                      | (Ok None, e) \<Rightarrow> (LeftLocked, p, e)
                      | (Err _, e) \<Rightarrow> (LeftLocked, p, e)
                      | (Panic, e) \<Rightarrow> (Crashed, p, e))
                 | PoolDelete _ \<Rightarrow>
                     (if map_of (allocatedIPs p) ipStr = None then (Unlocked, p, e)
                      else (Unlocked, p\<lparr>allocatedIPs := gomap_delete (allocatedIPs p) ipStr,
                                        unusedIPs := gomap_set (unusedIPs p) ipStr now\<rparr>, e)))"

section \<open>The cache\<close>

text \<open>The two maps of a pool never share an address.\<close>

definition pool_ok :: "etcdPool \<Rightarrow> bool" where
  "pool_ok p \<longleftrightarrow> gomap_ok (allocatedIPs p) \<and> gomap_ok (unusedIPs p)
     \<and> dom (map_of (allocatedIPs p)) \<inter> dom (map_of (unusedIPs p)) = {}"

lemma pool_ok_record: "pool_ok p \<Longrightarrow> pool_ok (record_allocation i a p)"
  by (auto simp: pool_ok_def record_allocation_def)

lemma pool_ok_reallocate:
  "pool_ok p \<Longrightarrow> map_of (allocatedIPs p) i = Some b \<Longrightarrow>
   pool_ok (p\<lparr>allocatedIPs := gomap_set (allocatedIPs p) i a\<rparr>)"
  by (auto simp: pool_ok_def)

lemma pool_ok_release:
  "pool_ok p \<Longrightarrow> pool_ok (p\<lparr>allocatedIPs := gomap_delete (allocatedIPs p) i,
     unusedIPs := gomap_set (unusedIPs p) i t\<rparr>)"
  by (auto simp: pool_ok_def)

lemma fill_unused:
  "gomap_ok u \<Longrightarrow>
   gomap_ok (foldl (\<lambda>u ip. if P (ip_String ip) then gomap_set u (ip_String ip) t else u) u ips)
   \<and> dom (map_of (foldl (\<lambda>u ip. if P (ip_String ip) then gomap_set u (ip_String ip) t else u) u ips)) =
     dom (map_of u) \<union> {s \<in> ip_String ` set ips. P s}"
  by (induction ips arbitrary: u) auto

definition synced :: "etcdPool \<Rightarrow> (string, Allocation) gomap \<Rightarrow> gotime \<Rightarrow> etcdPool" where
  "synced p allocated now = p\<lparr>allocatedIPs := allocated,
     unusedIPs := foldl (\<lambda>unused ip.
       if map_of allocated (ip_String ip) = None
       then gomap_set unused (ip_String ip) now else unused) [] (allIPs p)\<rparr>"

lemma synced_simps [simp]:
  "allocatedIPs (synced p a now) = a" "allIPs (synced p a now) = allIPs p"
  "poolSubnet (synced p a now) = poolSubnet p" "pool_client (synced p a now) = pool_client p"
  by (simp_all add: synced_def)

lemma synced_unused:
  "gomap_ok (unusedIPs (synced p a now))"
  "dom (map_of (unusedIPs (synced p a now))) = ip_String ` set (allIPs p) - dom (map_of a)"
  using fill_unused [of "[]" "\<lambda>s. map_of a s = None" now "allIPs p"]
  by (auto simp: synced_def)

lemma pool_ok_synced: "gomap_ok a \<Longrightarrow> pool_ok (synced p a now)"
  by (auto simp: pool_ok_def synced_unused)

text \<open>Whatever happens, a synchronisation leaves the pool or brings it into step with etcd.\<close>

lemma syncIPs_cases:
  assumes "syncIPs E parse_time now p e = (r, p', e')"
  shows "e' = snd (getAllocations E parse_time (pool_client p) e)
    \<and> ((\<exists>a. fst (getAllocations E parse_time (pool_client p) e) = Ok a \<and> r = Ok () \<and> p' = synced p a now)
       \<or> (\<forall>u. r \<noteq> Ok u) \<and> p' = p)"
proof (cases "getAllocations E parse_time (pool_client p) e")
  case (Pair r1 e1)
  then show ?thesis using assms by (cases r1) (auto simp: syncIPs_def synced_def Let_def)
qed

lemma WithConnection_post:
  assumes "WithConnection E fn e = (Ok a, e')" "\<And>e a e'. fn e = (Ok a, e') \<Longrightarrow> P a"
  shows "P a"
proof -
  obtain r0 e1 where n: "NewConnection E e = (r0, e1)" by force
  obtain r1 e2 where f: "fn e1 = (r1, e2)" by force
  obtain r2 e3 where c: "connection_Close E True e2 = (r2, e3)" by force
  obtain r3 e4 where d: "connection_Close E False e1 = (r3, e4)" by force
  have "r1 = Ok a"
    using assms(1) n f c d by (cases r0; cases r2; cases r3) (auto simp: WithConnection_def)
  then show ?thesis using assms(2) f by blast
qed

lemma getAllocations_map_ok:
  assumes "getAllocations E parse_time c e = (Ok a, e')"
  shows "gomap_ok a"
proof (rule WithConnection_post [OF assms [unfolded getAllocations_def getAllocationsByPrefix_def]])
  fix e1 b e2
  assume "res_bind (GetPrefix E (allocatedIPsKey c) e1)
      (\<lambda>kvs e. (Ok (collect_allocations parse_time (allocatedIPsKey c) kvs), e)) = (Ok b, e2)"
  then obtain kvs where "b = collect_allocations parse_time (allocatedIPsKey c) kvs"
    by (auto simp: res_bind_Ok_iff)
  then show "gomap_ok b" using collect_allocations_updates by blast
qed

lemma syncIPs_ok: "pool_ok p \<Longrightarrow> syncIPs E parse_time now p e = (r, p', e') \<Longrightarrow> pool_ok p'"
  using syncIPs_cases [of E parse_time now p e r p' e'] getAllocations_map_ok pool_ok_synced
  by (metis prod.collapse)

lemma getAvailableUnusedIPs_pool:
  "getAvailableUnusedIPs E parse_time now p e = (r, p', e') \<Longrightarrow>
   (p', e') = (p, e) \<or> (unusedIPs p = [] \<and> (\<exists>r'. syncIPs E parse_time now p e = (r', p', e')))"
  by (auto simp: getAvailableUnusedIPs_def Let_def split: prod.splits res.splits if_splits)

lemma getAvailableUnusedIPs_ok:
  "pool_ok p \<Longrightarrow> getAvailableUnusedIPs E parse_time now p e = (r, p', e') \<Longrightarrow> pool_ok p'"
  using getAvailableUnusedIPs_pool [of E parse_time now p e r p' e'] syncIPs_ok [of p E parse_time now e _ p' e']
  by auto

lemma allocateFreeIP_ok:
  "pool_ok p \<Longrightarrow> allocateFreeIP fuel E parse_time now rnd random allocator p e = Some (r, p', e') \<Longrightarrow>
   pool_ok p'"
proof (induction fuel arbitrary: p e)
  case (Suc fuel)
  obtain ra p1 e1 where g: "getAvailableUnusedIPs E parse_time now p e = (ra, p1, e1)"
    by (metis prod.collapse)
  have ok1: "pool_ok p1" using getAvailableUnusedIPs_ok [OF Suc.prems(1) g] .
  then show ?case
    using Suc.prems(2) Suc.IH [OF ok1] g pool_ok_record [OF ok1]
    by (auto simp: Let_def split: res.splits prod.splits if_splits)
qed simp

lemma allocate_preferred_ok:
  assumes ok: "pool_ok p"
    and a: "allocate_preferred fuel E parse_time now rnd random allocator invalid failed ip p e = Some (r, p', e')"
  shows "pool_ok p'"
proof -
  have "pool_ok (p\<lparr>unusedIPs := gomap_delete (unusedIPs p) ip,
      allocatedIPs := gomap_set (allocatedIPs p) ip b\<rparr>)" for b
    using pool_ok_record [OF ok, of ip b] by (simp add: record_allocation_def)
  moreover have "pool_ok (p\<lparr>allocatedIPs := gomap_set (allocatedIPs p) ip b\<rparr>)"
    if "map_of (allocatedIPs p) ip \<noteq> None" for b
    using pool_ok_reallocate [OF ok] that by blast
  ultimately show ?thesis
    using a ok allocateFreeIP_ok
    by (auto simp: allocate_preferred_def Let_def split: res.splits prod.splits if_splits)
qed

lemma ReleaseIPIfReserved_ok:
  "pool_ok p \<Longrightarrow> ReleaseIPIfReserved E parse_time now ip p e = (r, p', e') \<Longrightarrow> pool_ok p'"
  by (auto simp: ReleaseIPIfReserved_def pool_ok_release pool_ok_reallocate
      split: option.splits prod.splits res.splits if_splits)

lemma pool_watchEvent_ok:
  "pool_ok p \<Longrightarrow> pool_watchEvent E parse_time now p ev e = (l, p', e') \<Longrightarrow> pool_ok p'"
  by (auto simp: pool_watchEvent_def Let_def pool_ok_release pool_ok_reallocate pool_ok_record
      split: pool_event.splits option.splits prod.splits res.splits if_splits)

section \<open>The effect on etcd\<close>

text \<open>
  The three kinds of allocation differ only in the type, the data and the conditions under which
  an address may be taken.
\<close>

record alloc_kind =
  ak_type :: string
  ak_dataKey :: "net_ip \<Rightarrow> string"
  ak_data :: string
  ak_conditions :: "net_ip \<Rightarrow> etcd_cmp list list"

definition kind_allocator ::
  "'e etcd \<Rightarrow> (gotime \<Rightarrow> string) \<Rightarrow> gotime \<Rightarrow> etcdClient \<Rightarrow> alloc_kind \<Rightarrow> net_ip \<Rightarrow> 'e \<Rightarrow>
   IPAllocationResult res \<times> 'e"
where
  "kind_allocator E fmt_time now c k ip e =
     allocateIPByCondition E fmt_time now c ip (ak_type k) (ak_dataKey k ip) (ak_data k) (ak_conditions k ip) e"

definition container_kind :: "etcdClient \<Rightarrow> string \<Rightarrow> alloc_kind" where
  "container_kind c mac = \<lparr>ak_type = AllocationTypeContainerIP, ak_dataKey = \<lambda>ip. macKey c (ip_String ip),
     ak_data = mac, ak_conditions = \<lambda>ip. container_conditions c ip mac\<rparr>"

definition service_kind :: "etcdClient \<Rightarrow> string \<Rightarrow> alloc_kind" where
  "service_kind c sid = \<lparr>ak_type = AllocationTypeServiceVIP, ak_dataKey = \<lambda>ip. serviceIDKey c (ip_String ip),
     ak_data = sid, ak_conditions = \<lambda>ip. service_conditions c ip sid\<rparr>"

definition reserve_kind :: "etcdClient \<Rightarrow> alloc_kind" where
  "reserve_kind c = \<lparr>ak_type = AllocationTypeReserved, ak_dataKey = \<lambda>ip. [], ak_data = [],
     ak_conditions = \<lambda>ip. [[CreateRevisionIs0 (allocatedIPKey c (ip_String ip))]]\<rparr>"

lemma kind_allocators:
  "allocateIPForContainer E fmt_time now c ip mac = kind_allocator E fmt_time now c (container_kind c mac) ip"
  "allocateIPForService E fmt_time now c ip sid = kind_allocator E fmt_time now c (service_kind c sid) ip"
  "reserveIP E fmt_time now c ip = kind_allocator E fmt_time now c (reserve_kind c) ip"
  by (simp_all add: fun_eq_iff kind_allocator_def container_kind_def service_kind_def reserve_kind_def
      allocateIPForContainer_def allocateIPForService_def reserveIP_def)

text \<open>The store changes from \<open>m\<close> to \<open>m'\<close> because the address was taken.\<close>

definition taken :: "etcdClient \<Rightarrow> alloc_kind \<Rightarrow> string \<Rightarrow> net_ip \<Rightarrow> kv_view \<Rightarrow> kv_view \<Rightarrow> bool" where
  "taken c k at ip m m' \<longleftrightarrow> some_condition m (ak_conditions k ip)
     \<and> m' = alloc_written c (ip_String ip) (ak_type k) at (ak_dataKey k ip) (ak_data k) m"

definition kind_record :: "gotime \<Rightarrow> net_ip \<Rightarrow> alloc_kind \<Rightarrow> Allocation" where
  "kind_record now ip k = alloc_record now ip (ak_type k) (ak_dataKey k ip) (ak_data k)"

lemma kind_record_ip [simp]: "al_ip (kind_record now ip k) = ip"
  by (simp add: kind_record_def alloc_record_def)

text \<open>What a call on a pool may have done to the store, given its result.\<close>

definition alloc_effect ::
  "etcdClient \<Rightarrow> alloc_kind \<Rightarrow> string \<Rightarrow> net_ip res \<Rightarrow> kv_view \<Rightarrow> kv_view \<Rightarrow> bool"
where
  "alloc_effect c k at r m m' \<longleftrightarrow>
     (case r of Ok ip \<Rightarrow> taken c k at ip m m' | _ \<Rightarrow> m' = m \<or> (\<exists>ip. taken c k at ip m m'))"

context etcd_service
begin

lemma kind_allocator_cases:
  assumes "kind_allocator E fmt now c k ip e = (r, e')"
  obtains res where "r = Ok res" "Success res" "ar_Allocation res = kind_record now ip k"
    "taken c k (fmt now) ip (view e) (view e')"
  | res where "r = Ok res" "\<not> Success res" "view e' = view e"
  | "\<forall>res. r \<noteq> Ok res" "view e' = view e \<or> taken c k (fmt now) ip (view e) (view e')"
proof (cases r)
  case (Ok res)
  from allocateIPByCondition_Ok [OF assms [unfolded kind_allocator_def Ok]] Ok show ?thesis
    using that(1,2) [OF Ok] by (simp add: taken_def kind_record_def failed_allocation_def split: if_splits)
qed (use assms that(3) allocateIPByCondition_view [of fmt now c ip "ak_type k" "ak_dataKey k ip" "ak_data k"
      "ak_conditions k ip" e] in \<open>auto simp: kind_allocator_def taken_def\<close>)

lemma syncIPs_view: "syncIPs E parse_time now p e = (r, p', e') \<Longrightarrow> view e' = view e"
  using syncIPs_cases [of E parse_time now p e r p' e']
    getAllocationsByPrefix_view [of parse_time "allocatedIPsKey (pool_client p)" e]
  by (simp add: getAllocations_def)

lemma getAvailableUnusedIPs_view:
  "getAvailableUnusedIPs E parse_time now p e = (r, p', e') \<Longrightarrow>
   view e' = view e \<and> poolSubnet p' = poolSubnet p \<and> pool_client p' = pool_client p"
  using getAvailableUnusedIPs_pool [of E parse_time now p e r p' e']
    syncIPs_cases [of E parse_time now p e _ p' e'] syncIPs_view [of parse_time now p e _ p' e']
  by fastforce

lemma allocateFreeIP_effect:
  "allocateFreeIP fuel E parse_time now rnd random (kind_allocator E fmt now c k) p e = Some (r, p', e') \<Longrightarrow>
   alloc_effect c k (fmt now) r (view e) (view e')
   \<and> (\<forall>ip. r = Ok ip \<longrightarrow> map_of (allocatedIPs p') (ip_String ip) = Some (kind_record now ip k))"
proof (induction fuel arbitrary: p e)
  case (Suc fuel)
  obtain ra p1 e1 where g: "getAvailableUnusedIPs E parse_time now p e = (ra, p1, e1)"
    by (metis prod.collapse)
  have v1: "view e1 = view e" using getAvailableUnusedIPs_view [OF g] by simp
  show ?case
  proof (cases ra)
    case (Ok available)
    let ?ch = "choose_ip random (rnd fuel (length available)) available (allocatedIPs p1)"
    show ?thesis
    proof (cases ?ch)
      case (Ok ip)
      obtain ral e2 where al: "kind_allocator E fmt now c k ip e1 = (ral, e2)" by force
      then show ?thesis
      proof (cases rule: kind_allocator_cases)
        case (1 res)
        then have "r = Ok ip" "e' = e2" "p' = record_allocation (ip_String ip) (kind_record now ip k) p1"
          using Suc.prems g \<open>ra = Ok available\<close> Ok al by (simp_all add: Let_def)
        then show ?thesis using 1 v1 by (simp add: alloc_effect_def record_allocation_def)
      next
        case (2 res)
        then have "allocateFreeIP fuel E parse_time now rnd random (kind_allocator E fmt now c k) p1 e2 =
            Some (r, p', e')" using Suc.prems g \<open>ra = Ok available\<close> Ok al by simp
        then show ?thesis using Suc.IH [of p1 e2] 2 v1 by simp
      next
        case 3
        then show ?thesis using Suc.prems g \<open>ra = Ok available\<close> Ok al v1
          by (cases ral) (auto simp: alloc_effect_def)
      qed
    qed (use Suc.prems g Ok v1 in \<open>auto simp: alloc_effect_def\<close>)
  qed (use Suc.prems g v1 in \<open>auto simp: alloc_effect_def\<close>)
qed simp

lemma allocate_preferred_effect:
  assumes "allocate_preferred fuel E parse_time now rnd random (kind_allocator E fmt now c k)
    invalid failed ips p e = Some (r, p', e')"
  shows "alloc_effect c k (fmt now) r (view e) (view e')
    \<and> (\<forall>ip. r = Ok ip \<longrightarrow> (\<exists>s \<in> {ips, ip_String ip}. map_of (allocatedIPs p') s = Some (kind_record now ip k)))"
proof -
  obtain ral e1 where al: "kind_allocator E fmt now c k (ParseIP ips) e = (ral, e1)" by force
  have free: "?thesis" if "allocateFreeIP fuel E parse_time now rnd random (kind_allocator E fmt now c k) p e2 =
      Some (r, p', e')" "view e2 = view e" for e2
    using allocateFreeIP_effect [OF that(1)] that(2) by auto
  show ?thesis
  proof (cases "ParseIP ips = [] \<or> \<not> ipnet_Contains (poolSubnet p) (ParseIP ips)")
    case True
    then show ?thesis using assms free [of e]
      by (auto simp: allocate_preferred_def Let_def alloc_effect_def split: if_splits)
  next
    case False
    from al show ?thesis
    proof (cases rule: kind_allocator_cases)
      case (1 res)
      then show ?thesis using assms False al
        by (auto simp: allocate_preferred_def Let_def alloc_effect_def)
    next
      case (2 res)
      then show ?thesis using assms False al free [of e1] by (auto simp: allocate_preferred_def Let_def)
    next
      case 3
      then show ?thesis using assms False al
        by (cases ral) (auto simp: allocate_preferred_def Let_def alloc_effect_def)
    qed
  qed
qed

end

section \<open>Exclusive ownership\<close>

text \<open>
  The interface between the pools and whoever relies on them: addresses have owners, and a taker
  only ever takes what is free or its own. Then no two takers end up with the same address.
\<close>

locale exclusive_allocation =
  fixes owner :: "'s \<Rightarrow> 'ip \<Rightarrow> 'who option" and take_ip :: "'who \<Rightarrow> 'ip \<Rightarrow> 's \<Rightarrow> 's \<Rightarrow> bool"
    and quiet :: "'s \<Rightarrow> 's \<Rightarrow> bool"
  assumes take_owner: "take_ip w i s s' \<Longrightarrow> owner s' i = Some w"
    and take_free: "take_ip w i s s' \<Longrightarrow> owner s i \<in> {None, Some w}"
    and take_frame: "take_ip w i s s' \<Longrightarrow> j \<noteq> i \<Longrightarrow> owner s' j = owner s j"
    and quiet_keeps: "quiet s s' \<Longrightarrow> owner s i = Some w \<Longrightarrow> owner s' i = Some w"
begin

fun history :: "('who \<times> 'ip) option list \<Rightarrow> 's \<Rightarrow> 's \<Rightarrow> bool" where
  "history [] s s' \<longleftrightarrow> s = s'"
| "history (None # h) s s'' \<longleftrightarrow> (\<exists>s'. quiet s s' \<and> history h s' s'')"
| "history (Some (w, i) # h) s s'' \<longleftrightarrow> (\<exists>s'. take_ip w i s s' \<and> history h s' s'')"

lemma take_keeps: "take_ip w i s s' \<Longrightarrow> owner s j = Some v \<Longrightarrow> owner s' j = Some v"
  using take_owner take_free take_frame by (metis empty_iff insert_iff option.distinct(1) option.inject)

lemma history_keeps: "history h s s' \<Longrightarrow> owner s i = Some w \<Longrightarrow> owner s' i = Some w"
  by (induction h s s' rule: history.induct) (auto dest: quiet_keeps take_keeps)

lemma history_owner: "history h s s' \<Longrightarrow> Some (w, i) \<in> set h \<Longrightarrow> owner s' i = Some w"
  by (induction h s s' rule: history.induct) (auto dest: take_owner history_keeps)

lemma history_exclusive:
  "history h s s' \<Longrightarrow> Some (v, i) \<in> set h \<Longrightarrow> Some (w, i) \<in> set h \<Longrightarrow> v = w"
  using history_owner by (metis option.inject)

end

definition container_owner :: "etcdClient \<Rightarrow> kv_view \<Rightarrow> string \<Rightarrow> string option" where
  "container_owner c m ip =
     (if CHR ''/'' \<notin> set ip \<and> m (allocatedIPKey c ip) = Some AllocationTypeContainerIP
      then m (macKey c ip) else None)"

definition container_takes :: "etcdClient \<Rightarrow> string \<Rightarrow> string \<Rightarrow> kv_view \<Rightarrow> kv_view \<Rightarrow> bool" where
  "container_takes c mac s m m' \<longleftrightarrow>
     (\<exists>at ip. mac \<noteq> [] \<and> s = ip_String ip \<and> taken c (container_kind c mac) at ip m m')"

definition others_act :: "etcdClient \<Rightarrow> kv_view \<Rightarrow> kv_view \<Rightarrow> bool" where
  "others_act c m m' \<longleftrightarrow> m' = m \<or>
     (\<exists>k at ip. taken c k at ip m m' \<and>
        (k = reserve_kind c \<or> (\<exists>sid. k = service_kind c sid) \<or> (\<exists>mac. mac \<noteq> [] \<and> k = container_kind c mac)))"

lemmas kind_defs = container_kind_def service_kind_def reserve_kind_def

lemma taken_other_keys:
  assumes "taken c k at ip m m'"
    "k = reserve_kind c \<or> (\<exists>sid. k = service_kind c sid) \<or> (\<exists>mac. k = container_kind c mac)"
    "CHR ''/'' \<notin> set s" "s \<noteq> ip_String ip" "x \<in> ip_keys c s"
  shows "m' x = m x"
proof -
  have "x \<notin> ip_keys c (ip_String ip)"
    using ip_keys_disjoint [OF assms(3) ip_String_slash [of ip] assms(4), of c] assms(5) by blast
  moreover have "ak_dataKey k ip \<in> {[], macKey c (ip_String ip), serviceIDKey c (ip_String ip)}"
    using assms(2) by (auto simp: kind_defs)
  ultimately show ?thesis using assms(1) alloc_written_other by (simp add: taken_def)
qed

lemma taken_keeps_owner:
  assumes t: "taken c k at ip m m'" and o: "container_owner c m s = Some v"
    and k: "k = reserve_kind c \<or> (\<exists>sid. k = service_kind c sid) \<or> (\<exists>mac. mac \<noteq> [] \<and> k = container_kind c mac)"
  shows "container_owner c m' s = Some v"
proof (cases "s = ip_String ip")
  case False
  have "m' x = m x" if "x \<in> ip_keys c s" for x
    using taken_other_keys [OF t _ _ False that] k o by (auto simp: container_owner_def split: if_splits)
  then show ?thesis using o by (simp add: container_owner_def ip_keys_def split: if_splits)
next
  case True
  have own: "m (allocatedIPKey c s) = Some AllocationTypeContainerIP" "m (macKey c s) = Some v"
    using o by (auto simp: container_owner_def split: if_splits)
  have mk: "macKey c s \<noteq> []" by (simp add: macKey_def)
  from k t own True obtain mac where mac: "k = container_kind c mac" "mac = v" "mac \<noteq> []"
    by (auto simp: taken_def kind_defs allocation_type_defs container_conditions_iff [unfolded container_may_take_def]
        service_conditions_iff [unfolded service_may_take_def])
  then have "m' = alloc_written c s AllocationTypeContainerIP at (macKey c s) v m"
    using t True by (simp add: taken_def container_kind_def)
  then show ?thesis
    using mac mk ip_String_slash [of ip] True by (simp add: container_owner_def alloc_written_def)
qed

interpretation owners: exclusive_allocation "container_owner c" "container_takes c" "others_act c" for c
proof
  fix w i m m'
  assume "container_takes c w i m m'"
  then obtain at ip where t: "w \<noteq> []" "i = ip_String ip" "taken c (container_kind c w) at ip m m'"
    by (auto simp: container_takes_def)
  have "macKey c i \<noteq> []" by (simp add: macKey_def)
  then show "container_owner c m' i = Some w"
    using t ip_String_slash [of ip] by (simp add: taken_def container_kind_def container_owner_def alloc_written_def)
  show "container_owner c m i \<in> {None, Some w}"
    using t by (auto simp: taken_def container_kind_def container_conditions_iff container_may_take_def
        container_owner_def allocation_type_defs)
  fix j
  assume j: "j \<noteq> i"
  show "container_owner c m' j = container_owner c m j"
  proof (cases "CHR ''/'' \<in> set j")
    case False
    have "m' x = m x" if "x \<in> ip_keys c j" for x
      using taken_other_keys [OF t(3) _ False _ that] j t(2) by auto
    then show ?thesis by (simp add: container_owner_def ip_keys_def)
  qed (simp add: container_owner_def)
next
  fix m m' i w
  assume "others_act c m m'" "container_owner c m i = Some w"
  then show "container_owner c m' i = Some w"
    unfolding others_act_def using taken_keeps_owner by blast
qed

section \<open>Runs\<close>

text \<open>
  Allocations by any number of pools on any number of nodes that share an etcd, one after the
  other; the log has the MAC and the address of each container that got one.
\<close>

inductive cluster_run ::
  "'e etcd \<Rightarrow> (gotime \<Rightarrow> string) \<Rightarrow> (string \<Rightarrow> gotime option) \<Rightarrow> etcdClient \<Rightarrow> 'e \<Rightarrow>
   (string \<times> string) list \<Rightarrow> 'e \<Rightarrow> bool" for E fmt_time parse_time c
where
  stop: "cluster_run E fmt_time parse_time c e [] e"
| container: "AllocateContainerIP fuel E fmt_time parse_time now rnd preferredIP mac random p e = Some (r, p', e1) \<Longrightarrow>
    pool_client p = c \<Longrightarrow> mac \<noteq> [] \<Longrightarrow> cluster_run E fmt_time parse_time c e1 log e' \<Longrightarrow>
    cluster_run E fmt_time parse_time c e ((case r of Ok ip \<Rightarrow> [(mac, ip_String ip)] | _ \<Rightarrow> []) @ log) e'"
| service: "AllocateServiceVIP fuel E fmt_time parse_time now rnd ipamVIP serviceID random p e = Some (r, p', e1) \<Longrightarrow>
    pool_client p = c \<Longrightarrow> cluster_run E fmt_time parse_time c e1 log e' \<Longrightarrow>
    cluster_run E fmt_time parse_time c e log e'"
| reserve: "ReserveIP fuel E fmt_time parse_time now rnd random p e = Some (r, p', e1) \<Longrightarrow>
    pool_client p = c \<Longrightarrow> cluster_run E fmt_time parse_time c e1 log e' \<Longrightarrow>
    cluster_run E fmt_time parse_time c e log e'"

context etcd_service
begin

lemma AllocateContainerIP_effect:
  "AllocateContainerIP fuel E fmt parse_time now rnd ips mac random p e = Some (r, p', e') \<Longrightarrow>
   alloc_effect (pool_client p) (container_kind (pool_client p) mac) (fmt now) r (view e) (view e')"
  unfolding AllocateContainerIP_def kind_allocators using allocate_preferred_effect by blast

lemma AllocateServiceVIP_effect:
  "AllocateServiceVIP fuel E fmt parse_time now rnd ips sid random p e = Some (r, p', e') \<Longrightarrow>
   alloc_effect (pool_client p) (service_kind (pool_client p) sid) (fmt now) r (view e) (view e')"
  unfolding AllocateServiceVIP_def kind_allocators using allocate_preferred_effect by blast

lemma ReserveIP_effect:
  "ReserveIP fuel E fmt parse_time now rnd random p e = Some (r, p', e') \<Longrightarrow>
   alloc_effect (pool_client p) (reserve_kind (pool_client p)) (fmt now) r (view e) (view e')"
  unfolding ReserveIP_def kind_allocators using allocateFreeIP_effect by blast

lemma others_actI:
  "alloc_effect c k at r m m' \<Longrightarrow>
   k = reserve_kind c \<or> (\<exists>sid. k = service_kind c sid) \<or> (\<exists>mac. mac \<noteq> [] \<and> k = container_kind c mac) \<Longrightarrow>
   others_act c m m'"
  unfolding alloc_effect_def others_act_def by (cases r) auto

lemma cluster_run_history:
  "cluster_run E fmt parse_time c e log e' \<Longrightarrow>
   \<exists>h. owners.history c h (view e) (view e') \<and> Some ` set log \<subseteq> set h"
proof (induction rule: cluster_run.induct)
  case (stop e)
  show ?case by (rule exI [of _ "[]"]) simp
next
  case (container fuel now rnd ips mac random p e r p' e1 log e')
  obtain h where h: "owners.history c h (view e1) (view e')" "Some ` set log \<subseteq> set h"
    using container.IH by blast
  have eff: "alloc_effect c (container_kind c mac) (fmt now) r (view e) (view e1)"
    using AllocateContainerIP_effect [OF container.hyps(1)] container.hyps(2) by simp
  have oth: "others_act c (view e) (view e1)" using others_actI [OF eff] container.hyps(3) by blast
  show ?case
  proof (cases r)
    case (Ok ip)
    then have "container_takes c mac (ip_String ip) (view e) (view e1)"
      using eff container.hyps(3) by (auto simp: alloc_effect_def container_takes_def)
    then show ?thesis using h Ok by (intro exI [of _ "Some (mac, ip_String ip) # h"]) auto
  qed (use h oth in \<open>auto intro!: exI [of _ "None # h"]\<close>)
next
  case (service fuel now rnd ips sid random p e r p' e1 log e')
  obtain h where h: "owners.history c h (view e1) (view e')" "Some ` set log \<subseteq> set h"
    using service.IH by blast
  moreover have "others_act c (view e) (view e1)"
    using others_actI [OF AllocateServiceVIP_effect [OF service.hyps(1)]] service.hyps(2) by blast
  ultimately show ?case by (intro exI [of _ "None # h"]) auto
next
  case (reserve fuel now rnd random p e r p' e1 log e')
  obtain h where h: "owners.history c h (view e1) (view e')" "Some ` set log \<subseteq> set h"
    using reserve.IH by blast
  moreover have "others_act c (view e) (view e1)"
    using others_actI [OF ReserveIP_effect [OF reserve.hyps(1)]] reserve.hyps(2) by blast
  ultimately show ?case by (intro exI [of _ "None # h"]) auto
qed

end

text \<open>Every step a pool can make, whatever etcd answers.\<close>

inductive pool_step :: "'e etcd \<Rightarrow> etcdPool \<Rightarrow> etcdPool \<Rightarrow> bool" for E where
  "ReserveIP fuel E fmt_time parse_time now rnd random p e = Some (r, p', e') \<Longrightarrow> pool_step E p p'"
| "AllocateContainerIP fuel E fmt_time parse_time now rnd ip mac random p e = Some (r, p', e') \<Longrightarrow> pool_step E p p'"
| "AllocateServiceVIP fuel E fmt_time parse_time now rnd ip sid random p e = Some (r, p', e') \<Longrightarrow> pool_step E p p'"
| "ReleaseIP E parse_time now ip p e = (u, p', e') \<Longrightarrow> pool_step E p p'"
| "ReleaseIPIfReserved E parse_time now ip p e = (b, p', e') \<Longrightarrow> pool_step E p p'"
| "ReleaseAllIPs E parse_time now p e = (u, p', e') \<Longrightarrow> pool_step E p p'"
| "pool_watchEvent E parse_time now p ev e = (l, p', e') \<Longrightarrow> pool_step E p p'"

lemma ReleaseIP_pool:
  "ReleaseIP E parse_time now ip p e = (u, p', e') \<Longrightarrow>
   \<exists>b. ReleaseIPIfReserved E parse_time now ip p e = (b, p', e')"
  by (auto simp: ReleaseIP_def split: prod.splits res.splits)

lemma ReleaseAllIPs_ok:
  "pool_ok p \<Longrightarrow> ReleaseAllIPs E parse_time now p e = (u, p', e') \<Longrightarrow> pool_ok p'"
  by (auto simp: ReleaseAllIPs_def syncIPs_ok split: prod.splits res.splits)

lemma pool_step_ok: "pool_step E p p' \<Longrightarrow> pool_ok p \<Longrightarrow> pool_ok p'"
proof (induction rule: pool_step.induct)
  case (1 fuel fmt_time parse_time now rnd random p e r p' e')
  then show ?case using allocateFreeIP_ok by (auto simp: ReserveIP_def)
next
  case (2 fuel fmt_time parse_time now rnd ip mac random p e r p' e')
  then show ?case using allocate_preferred_ok by (auto simp: AllocateContainerIP_def)
next
  case (3 fuel fmt_time parse_time now rnd ip sid random p e r p' e')
  then show ?case using allocate_preferred_ok by (auto simp: AllocateServiceVIP_def)
next
  case (4 parse_time now ip p e u p' e')
  then show ?case using ReleaseIP_pool [of E parse_time now ip p e u p' e'] ReleaseIPIfReserved_ok by metis
next
  case (5 parse_time now ip p e b p' e')
  then show ?case using ReleaseIPIfReserved_ok [of p E parse_time now ip e b p' e'] by simp
next
  case (6 parse_time now p e u p' e')
  then show ?case using ReleaseAllIPs_ok [of p E parse_time now e u p' e'] by simp
next
  case (7 parse_time now p ev e l p' e')
  then show ?case using pool_watchEvent_ok [of p E parse_time now ev e l p' e'] by simp
qed

lemma pool_reachable_ok: "(pool_step E)\<^sup>*\<^sup>* p p' \<Longrightarrow> pool_ok p \<Longrightarrow> pool_ok p'"
  by (induction rule: rtranclp_induct) (auto dest: pool_step_ok)

lemma NewEtcdBasedAddressPool_ok:
  "NewEtcdBasedAddressPool fuel E parse_time now i subnet c e = Some (Ok p, e') \<Longrightarrow> pool_ok p"
  using syncIPs_ok [of "\<lparr>poolID = i, poolSubnet = subnet, pool_client = c, allIPs = _,
      allocatedIPs = [], unusedIPs = []\<rparr>" E parse_time now]
  by (auto simp: NewEtcdBasedAddressPool_def pool_ok_def split: option.splits res.splits prod.splits)

section \<open>Calls that return\<close>

context etcd_reliable
begin

lemma try_conditions_run: "\<exists>res e'. try_conditions E ops a conds e = (Ok res, e')"
proof (induction conds arbitrary: e)
  case (Cons cs conds)
  obtain b rs e1 where "Txn E cs ops [] e = (Ok (b, rs), e1)" using Txn_ok by (metis surj_pair)
  then show ?case using Cons [of e1] by simp
qed simp

lemma kind_allocator_run: "\<exists>res e'. kind_allocator E fmt now c k ip e = (Ok res, e')"
proof -
  obtain r e' where r: "kind_allocator E fmt now c k ip e = (r, e')" by force
  from WithConnection_run [OF r [unfolded kind_allocator_def allocateIPByCondition_def]]
  obtain e1 e2 where "try_conditions E (alloc_ops c (ip_String ip) (ak_type k) (fmt now) (ak_dataKey k ip) (ak_data k))
      \<lparr>al_ip = ip, allocationType = ak_type k, allocatedAt = now, dataKey = ak_dataKey k ip, al_data = ak_data k\<rparr>
      (ak_conditions k ip) e1 = (r, e2)" by blast
  then show ?thesis using try_conditions_run r by (metis prod.inject)
qed

lemma getAllocations_run: "\<exists>a e'. getAllocations E parse_time c e = (Ok a, e')"
proof -
  obtain r e' where r: "getAllocations E parse_time c e = (r, e')" by force
  obtain e1 e2 where "res_bind (GetPrefix E (allocatedIPsKey c) e1)
      (\<lambda>kvs e. (Ok (collect_allocations parse_time (allocatedIPsKey c) kvs), e)) = (r, e2)"
    using WithConnection_run [OF r [unfolded getAllocations_def getAllocationsByPrefix_def]] by blast
  moreover obtain kvs e3 where "GetPrefix E (allocatedIPsKey c) e1 = (Ok kvs, e3)" using GetPrefix_ok by blast
  ultimately show ?thesis using r by auto
qed

lemma releaseAllocation_run:
  "\<exists>e1 e2. view e1 = view e \<and> view e' = view e2 \<and>
    (r, e2) = (let ipStr = ip_String (al_ip a);
           keys = [allocatedIPKey c ipStr, allocatedAtKey c ipStr, macKey c ipStr, serviceIDKey c ipStr];
           b = may_release c (view e) a
       in (if b then Ok \<lparr>Success = True, ar_Allocation = zero_Allocation\<rparr>
           else release_conflict parse_time a (map (kvs_of (view e)) keys), e2))"
  if rel: "releaseAllocation E parse_time c a e = (r, e')"
proof -
  let ?ip = "ip_String (al_ip a)"
  let ?keys = "[allocatedIPKey c ?ip, allocatedAtKey c ?ip, macKey c ?ip, serviceIDKey c ?ip]"
  obtain e1 e2 where v: "view e1 = view e" "view e' = view e2" and
    t: "(case Txn E (release_conditions c a) (map OpDelete ?keys) (map OpGet ?keys) e1 of
            (Ok (succeeded, responses), e) \<Rightarrow>
              if succeeded then (Ok \<lparr>Success = True, ar_Allocation = zero_Allocation\<rparr>, e)
              else (release_conflict parse_time a responses, e)
          | (Err er, e) \<Rightarrow> (Err er, e)
          | (Panic, e) \<Rightarrow> (Panic, e)) = (r, e2)"
    using WithConnection_run [OF rel [unfolded releaseAllocation_def]] by (auto simp: Let_def)
  obtain b rs e3 where tx: "Txn E (release_conditions c a) (map OpDelete ?keys) (map OpGet ?keys) e1 = (Ok (b, rs), e3)"
    using Txn_ok by (metis surj_pair)
  from Txn_Ok [OF tx] have b: "b = may_release c (view e) a" and "\<not> b \<Longrightarrow> rs = map (kvs_of (view e)) ?keys"
    using v by (auto simp: may_release_def)
  then show ?thesis using t tx v by (cases b) (auto simp: Let_def)
qed

end

lemma parse_all_Ok: "\<forall>s \<in> set ss. ParseIP s \<noteq> [] \<Longrightarrow> parse_all ss = Ok (map ParseIP ss)"
  by (induction ss) (auto simp: Let_def)

lemma getAvailableUnusedIPs_cached:
  assumes "unusedIPs p \<noteq> []" "\<forall>s \<in> dom (map_of (unusedIPs p)). ParseIP s \<noteq> []"
  shows "\<exists>ss. ss \<noteq> [] \<and> set ss \<subseteq> dom (map_of (unusedIPs p))
    \<and> getAvailableUnusedIPs E parse_time now p e = (Ok (map ParseIP ss), p, e)"
proof -
  let ?a = "map fst (filter (\<lambda>(_, since). rested now since) (unusedIPs p))"
  let ?ss = "if length ?a = 0 then map fst (unusedIPs p) else ?a"
  have ss: "?ss \<noteq> []" "set ?ss \<subseteq> dom (map_of (unusedIPs p))"
    using assms(1) by (auto simp: dom_map_of_conv_image_fst)
  moreover have "parse_all ?ss = Ok (map ParseIP ?ss)"
    using assms(2) ss(2) by (intro parse_all_Ok) blast
  ultimately show ?thesis
    by (intro exI [of _ ?ss]) (auto simp: getAvailableUnusedIPs_def Let_def)
qed

definition rnd_law :: "(nat \<Rightarrow> nat \<Rightarrow> nat) \<Rightarrow> bool" where
  "rnd_law rnd \<longleftrightarrow> (\<forall>i n. 0 < n \<longrightarrow> rnd i n < n)"

context etcd_reliable
begin

text \<open>One round of the loop on a pool with cached unused addresses.\<close>

lemma allocateFreeIP_round:
  assumes "unusedIPs p \<noteq> []" "\<forall>s \<in> dom (map_of (unusedIPs p)). ParseIP s \<noteq> []" "rnd_law rnd"
  shows "\<exists>s e1. s \<in> dom (map_of (unusedIPs p)) \<and>
    (if some_condition (view e) (ak_conditions k (ParseIP s))
     then allocateFreeIP (Suc fuel) E parse_time now rnd True (kind_allocator E fmt now c k) p e =
       Some (Ok (ParseIP s), record_allocation (ip_String (ParseIP s)) (kind_record now (ParseIP s) k) p, e1)
     else view e1 = view e \<and>
       allocateFreeIP (Suc fuel) E parse_time now rnd True (kind_allocator E fmt now c k) p e =
       allocateFreeIP fuel E parse_time now rnd True (kind_allocator E fmt now c k) p e1)"
proof -
  obtain ss where ss: "ss \<noteq> []" "set ss \<subseteq> dom (map_of (unusedIPs p))"
    "getAvailableUnusedIPs E parse_time now p e = (Ok (map ParseIP ss), p, e)"
    using getAvailableUnusedIPs_cached [OF assms(1,2), of E parse_time now e] by (elim exE conjE)
  let ?i = "rnd fuel (length ss)"
  have i: "?i < length ss" using ss(1) assms(3) by (simp add: rnd_law_def)
  then have s: "ss ! ?i \<in> dom (map_of (unusedIPs p))" using ss(2) nth_mem by blast
  have ch: "choose_ip True ?i (map ParseIP ss) (allocatedIPs p) = Ok (ParseIP (ss ! ?i))"
    using i by (simp add: choose_ip_def)
  obtain res e1 where al: "kind_allocator E fmt now c k (ParseIP (ss ! ?i)) e = (Ok res, e1)"
    using kind_allocator_run by blast
  from al have "if some_condition (view e) (ak_conditions k (ParseIP (ss ! ?i)))
      then Success res \<and> ar_Allocation res = kind_record now (ParseIP (ss ! ?i)) k
      else \<not> Success res \<and> view e1 = view e"
    using allocateIPByCondition_Ok [OF al [unfolded kind_allocator_def]]
    by (auto simp: kind_record_def failed_allocation_def split: if_splits)
  then show ?thesis
    using s ss(3) ch al by (intro exI [of _ "ss ! ?i"] exI [of _ e1]) (auto simp: Let_def split: if_splits)
qed

lemma allocateFreeIP_livelock:
  assumes "unusedIPs p \<noteq> []" "\<forall>s \<in> dom (map_of (unusedIPs p)). ParseIP s \<noteq> []" "rnd_law rnd"
    "\<forall>s \<in> dom (map_of (unusedIPs p)). \<not> some_condition (view e) (ak_conditions k (ParseIP s))"
  shows "allocateFreeIP fuel E parse_time now rnd True (kind_allocator E fmt now c k) p e = None"
  using assms(4)
proof (induction fuel arbitrary: e)
  case (Suc fuel)
  let ?loop = "\<lambda>fuel. allocateFreeIP fuel E parse_time now rnd True (kind_allocator E fmt now c k) p"
  obtain s e1 where s: "s \<in> dom (map_of (unusedIPs p))" and
    st: "if some_condition (view e) (ak_conditions k (ParseIP s))
      then ?loop (Suc fuel) e = Some (Ok (ParseIP s),
        record_allocation (ip_String (ParseIP s)) (kind_record now (ParseIP s) k) p, e1)
      else view e1 = view e \<and> ?loop (Suc fuel) e = ?loop fuel e1"
    using allocateFreeIP_round [OF assms(1-3), of e k fuel parse_time now fmt c] by (elim exE conjE)
  have "\<not> some_condition (view e) (ak_conditions k (ParseIP s))" using Suc.prems s by blast
  with st have "view e1 = view e" "?loop (Suc fuel) e = ?loop fuel e1"
    by (simp_all del: allocateFreeIP.simps)
  then show ?case using Suc by simp
qed simp

end

context etcd_reliable
begin

lemma syncIPs_run:
  assumes "wf_keys (allocatedIPsKey (pool_client p)) (view e)"
  shows "\<exists>a e'. syncIPs E parse_time now p e = (Ok (), synced p a now, e') \<and> view e' = view e
    \<and> (\<forall>i. CHR ''/'' \<notin> set i \<longrightarrow> i \<noteq> [] \<longrightarrow> map_of a i = read_allocation parse_time (pool_client p) (view e) i)"
proof -
  obtain a e' where g: "getAllocations E parse_time (pool_client p) e = (Ok a, e')"
    using getAllocations_run by blast
  then have "syncIPs E parse_time now p e = (Ok (), synced p a now, e')"
    by (simp add: syncIPs_def synced_def Let_def)
  then show ?thesis using getAllocations_Ok [OF g assms] by blast
qed

lemma NewEtcdBasedAddressPool_run:
  assumes "ipsInSubnet fuel subnet True True = Some (Ok ips)" "wf_keys (allocatedIPsKey c) (view e)"
  shows "\<exists>a p e'. NewEtcdBasedAddressPool fuel E parse_time now i subnet c e = Some (Ok (synced p a now), e')
    \<and> view e' = view e \<and> poolSubnet p = subnet \<and> allIPs p = ips
    \<and> (\<forall>i. CHR ''/'' \<notin> set i \<longrightarrow> i \<noteq> [] \<longrightarrow> map_of a i = read_allocation parse_time c (view e) i)"
proof -
  let ?p = "\<lparr>poolID = i, poolSubnet = subnet, pool_client = c, allIPs = ips, allocatedIPs = [], unusedIPs = []\<rparr>"
  obtain a e1 where sy: "syncIPs E parse_time now ?p e = (Ok (), synced ?p a now, e1)" "view e1 = view e"
    "\<forall>i. CHR ''/'' \<notin> set i \<longrightarrow> i \<noteq> [] \<longrightarrow> map_of a i = read_allocation parse_time c (view e) i"
    using syncIPs_run [of ?p e parse_time now] assms(2) by auto
  obtain r e2 where w: "WithConnection E (\<lambda>e. (Ok (), e)) e1 = (r, e2)" by force
  from WithConnection_run [OF w] have "r = Ok ()" "view e2 = view e" using sy(2) by auto
  with sy w assms(1) have "NewEtcdBasedAddressPool fuel E parse_time now i subnet c e = Some (Ok (synced ?p a now), e2)"
    by (simp add: NewEtcdBasedAddressPool_def)
  then show ?thesis using \<open>view e2 = view e\<close> sy(3) by (intro exI [of _ a] exI [of _ ?p] exI [of _ e2]) simp
qed

lemma ReleaseIP_run:
  assumes "map_of (allocatedIPs p) ip = Some a"
  shows "\<exists>r p' e'. ReleaseIP E parse_time now ip p e = (r, p', e') \<and>
    (if may_release (pool_client p) (view e) a
     then r = Ok () \<and> view e' = released (pool_client p) (ip_String (al_ip a)) (view e)
       \<and> p' = p\<lparr>allocatedIPs := gomap_delete (allocatedIPs p) ip, unusedIPs := gomap_set (unusedIPs p) ip now\<rparr>
     else view e' = view e \<and>
       (case (view e (allocatedIPKey (pool_client p) (ip_String (al_ip a))),
              view e (allocatedAtKey (pool_client p) (ip_String (al_ip a)))) of
          (Some ty, Some _) \<Rightarrow> (\<exists>er. r = Err er)
            \<and> map_option allocationType (map_of (allocatedIPs p') ip) = Some ty
            \<and> unusedIPs p' = unusedIPs p
        | _ \<Rightarrow> r = Panic \<and> p' = p))"
proof -
  let ?c = "pool_client p"
  obtain rr e' where rel: "releaseAllocation E parse_time ?c a e = (rr, e')" by force
  show ?thesis
  proof (cases "may_release ?c (view e) a")
    case True
    then have rr: "rr = Ok \<lparr>Success = True, ar_Allocation = zero_Allocation\<rparr>"
      using releaseAllocation_run [OF rel] by (auto simp: Let_def)
    show ?thesis
      using releaseAllocation_Ok [OF rel [unfolded rr]] True assms rel rr
      by (simp add: ReleaseIP_def ReleaseIPIfReserved_def)
  next
    case False
    then have rr: "rr = release_conflict parse_time a
        (map (kvs_of (view e)) [allocatedIPKey ?c (ip_String (al_ip a)), allocatedAtKey ?c (ip_String (al_ip a)),
           macKey ?c (ip_String (al_ip a)), serviceIDKey ?c (ip_String (al_ip a))])"
      using releaseAllocation_run [OF rel] by (auto simp: Let_def)
    have v: "view e' = view e" using releaseAllocation_view [of parse_time ?c a e] rel False by simp
    show ?thesis
      using False assms rel v unfolding rr
      by (auto simp: ReleaseIP_def ReleaseIPIfReserved_def release_conflict_def kvs_of_def Let_def
          split: option.splits prod.splits list.splits)
  qed
qed

end

lemma first_part_ip4:
  assumes "length i = 4" "t = [] \<or> hd t = CHR ''/''"
  shows "split_on CHR ''/'' (TrimLeft CHR ''/'' (CHR ''/'' # ip4_String i @ t)) ! 0 = ip4_String i"
proof -
  have free: "CHR ''/'' \<notin> set (ip4_String i)" by (simp add: ip4_String_free)
  moreover have "ip4_String i \<noteq> []" using assms(1) by simp
  ultimately have "TrimLeft CHR ''/'' (ip4_String i @ t) = ip4_String i @ t"
    by (intro TrimLeft_id) (metis hd_append2 hd_in_set)
  then show ?thesis using assms(2) free by (cases t) (auto simp: split_on_free split_on_append)
qed

lemma parsed_ip4:
  assumes "\<forall>s \<in> S. \<exists>ip. length ip = 4 \<and> s = ip4_String ip \<and> P s" "s \<in> S"
  shows "ParseIP s \<noteq> []" "ip_String (ParseIP s) = s" "P s"
proof -
  obtain ip where "length ip = 4" "s = ip4_String ip" "P s" using assms by blast
  then show "ParseIP s \<noteq> []" "ip_String (ParseIP s) = s" "P s"
    by (auto simp: ip_String_ip4)
qed

lemma reserve_conditions [simp]:
  "some_condition m (ak_conditions (reserve_kind c) ip) \<longleftrightarrow> m (allocatedIPKey c (ip_String ip)) = None"
  by (simp add: reserve_kind_def)

section \<open>Properties\<close>

text \<open>
  C1: However many pools on however many nodes allocate container addresses, service VIPs and
  reservations from one etcd, in any order and whatever errors etcd reports in between: no two
  containers with different MACs get the same address as long as none is released.
\<close>

theorem container_ips_exclusive:
  assumes "etcd_service E view" "cluster_run E fmt_time parse_time c e log e'"
    "(mac1, ip) \<in> set log" "(mac2, ip) \<in> set log"
  shows "mac1 = mac2"
proof -
  obtain h where "owners.history c h (view e) (view e')" "Some ` set log \<subseteq> set h"
    using etcd_service.cluster_run_history [OF assms(1,2)] by blast
  then show ?thesis using owners.history_exclusive [of c h "view e" "view e'" mac1 ip mac2] assms(3,4) by auto
qed

definition demo_client :: etcdClient where
  "demo_client = NewEtcdClient [] 5 ''/p''"

definition demo_pool :: etcdPool where
  "demo_pool = \<lparr>poolID = ''n1'', poolSubnet = \<lparr>ipnet_IP = [10, 0, 0, 0], ipnet_Mask = CIDRMask 24 32\<rparr>,
     pool_client = demo_client, allIPs = [[10, 0, 0, 5], [10, 0, 0, 6]], allocatedIPs = [],
     unusedIPs = [(''10.0.0.5'', zero_time), (''10.0.0.6'', zero_time)]\<rparr>"

definition demo_allocate :: "string \<Rightarrow> mem \<Rightarrow> (net_ip res \<times> etcdPool \<times> mem) option" where
  "demo_allocate mac m = AllocateContainerIP 5 mem_etcd fmt_seconds parse_seconds zero_time (\<lambda>i n. n - Suc 0)
     ''10.0.0.5'' mac True demo_pool m"

lemma demo_unused: "dom (map_of (unusedIPs demo_pool)) = {''10.0.0.5'', ''10.0.0.6''}"
  by (auto simp: demo_pool_def split: if_splits)

lemma demo_allocates:
  "\<exists>p1 m1 p2 m2. demo_allocate ''aa'' [] = Some (Ok (v4InV6Prefix @ [10, 0, 0, 5]), p1, m1)
     \<and> demo_allocate ''bb'' m1 = Some (Ok (v4InV6Prefix @ [10, 0, 0, 6]), p2, m2)"
proof -
  let ?r = "demo_allocate ''aa'' []" and ?q = "\<lambda>m. demo_allocate ''bb'' m"
  have "?r \<noteq> None \<and> fst (the ?r) = Ok (v4InV6Prefix @ [10, 0, 0, 5])
      \<and> ?q (snd (snd (the ?r))) \<noteq> None \<and> fst (the (?q (snd (snd (the ?r))))) = Ok (v4InV6Prefix @ [10, 0, 0, 6])"
    by code_simp
  then show ?thesis by (auto simp: split_paired_all)
qed

definition demo_subnet :: ipnet where
  "demo_subnet = \<lparr>ipnet_IP = [10, 0, 1, 248], ipnet_Mask = CIDRMask 29 32\<rparr>"

lemma demo_new:
  "\<exists>p. NewEtcdBasedAddressPool 8 mem_etcd parse_seconds zero_time ''n'' demo_subnet demo_client [] = Some (Ok p, [])"
proof -
  have "case NewEtcdBasedAddressPool 8 mem_etcd parse_seconds zero_time ''n'' demo_subnet demo_client [] of
      Some (Ok p, m) \<Rightarrow> m = [] | _ \<Rightarrow> False" by code_simp
  then obtain r m where "NewEtcdBasedAddressPool 8 mem_etcd parse_seconds zero_time ''n'' demo_subnet demo_client [] = Some (r, m)"
    "case r of Ok p \<Rightarrow> m = [] | _ \<Rightarrow> False" by (auto split: option.splits)
  then show ?thesis by (cases r) auto
qed

lemma container_ips_exclusive_witness:
  "\<exists>log e'. cluster_run mem_etcd fmt_seconds parse_seconds demo_client [] log e' \<and> length log = 2
    \<and> (\<forall>ip mac mac'. (mac, ip) \<in> set log \<and> (mac', ip) \<in> set log \<longrightarrow> mac = mac')"
proof -
  obtain p1 m1 p2 m2 where a: "demo_allocate ''aa'' [] = Some (Ok (v4InV6Prefix @ [10, 0, 0, 5]), p1, m1)"
    and b: "demo_allocate ''bb'' m1 = Some (Ok (v4InV6Prefix @ [10, 0, 0, 6]), p2, m2)"
    using demo_allocates by blast
  have c: "pool_client demo_pool = demo_client" by (simp add: demo_pool_def)
  let ?log = "[(''aa'', ip_String (v4InV6Prefix @ [10, 0, 0, 5]))] @ [(''bb'', ip_String (v4InV6Prefix @ [10, 0, 0, 6]))] @ []"
  have run: "cluster_run mem_etcd fmt_seconds parse_seconds demo_client [] ?log m2"
    using cluster_run.container [OF a [unfolded demo_allocate_def] c _
      cluster_run.container [OF b [unfolded demo_allocate_def] c _ cluster_run.stop]] by simp
  show ?thesis
  proof (intro exI conjI allI impI)
    fix ip mac mac'
    assume "(mac, ip) \<in> set ?log \<and> (mac', ip) \<in> set ?log"
    then show "mac = mac'" using container_ips_exclusive [OF mem.etcd_service_axioms run] by blast
  qed (rule run, simp)
qed

text \<open>
  C25: In every state a pool can reach from its creation, whatever etcd answers and in whatever
  order operations and watch events come, no address is both allocated and unused in its cache,
  and neither map has an address twice.
\<close>

theorem pool_cache_consistent:
  assumes "NewEtcdBasedAddressPool fuel E parse_time now i subnet c e = Some (Ok p, e')"
    "(pool_step E)\<^sup>*\<^sup>* p p'"
  shows "dom (map_of (allocatedIPs p')) \<inter> dom (map_of (unusedIPs p')) = {}
    \<and> distinct (map fst (allocatedIPs p')) \<and> distinct (map fst (unusedIPs p'))"
  using pool_reachable_ok [OF assms(2)] NewEtcdBasedAddressPool_ok [OF assms(1)]
  by (simp add: pool_ok_def gomap_ok_def)

lemma pool_cache_consistent_witness:
  "\<exists>p p'. NewEtcdBasedAddressPool 8 mem_etcd parse_seconds zero_time ''n''
       demo_subnet demo_client [] = Some (Ok p, [])
     \<and> (pool_step mem_etcd)\<^sup>*\<^sup>* p p' \<and> dom (map_of (allocatedIPs p')) \<inter> dom (map_of (unusedIPs p')) = {}"
proof -
  obtain p where p: "NewEtcdBasedAddressPool 8 mem_etcd parse_seconds zero_time ''n'' demo_subnet demo_client [] = Some (Ok p, [])"
    using demo_new by blast
  obtain u p' m' where "ReleaseAllIPs mem_etcd parse_seconds zero_time p [] = (u, p', m')" by (metis prod.collapse)
  then have s: "(pool_step mem_etcd)\<^sup>*\<^sup>* p p'" by (intro r_into_rtranclp pool_step.intros(6))
  show ?thesis using pool_cache_consistent [OF p s] p s by blast
qed

text \<open>
  C26: A pool created on a reliable etcd has exactly the allocations stored there, and as unused
  exactly the addresses of its subnet that are not allocated, without the network address, the
  gateway and the broadcast address; creating it changes nothing in etcd.
\<close>

theorem NewEtcdBasedAddressPool_spec:
  assumes "etcd_reliable E view" "ip4_net subnet n" "1 \<le> n" "2 ^ (32 - n) \<le> fuel"
    "wf_keys (allocatedIPsKey c) (view e)"
  shows "\<exists>p e'. NewEtcdBasedAddressPool fuel E parse_time now i subnet c e = Some (Ok p, e')
    \<and> view e' = view e \<and> poolSubnet p = subnet
    \<and> (\<forall>ip. length ip = 4 \<longrightarrow> map_of (allocatedIPs p) (ip_String ip) = read_allocation parse_time c (view e) (ip_String ip))
    \<and> dom (map_of (unusedIPs p)) =
        {ip_String ip |ip. length ip = 4 \<and> ipnet_Contains subnet ip
           \<and> ip \<notin> {ipnet_IP subnet, nextIP (ipnet_IP subnet), the_ok (getBroadcastIP subnet)}
           \<and> read_allocation parse_time c (view e) (ip_String ip) = None}"
proof -
  obtain ips where ips: "ipsInSubnet fuel subnet True True = Some (Ok ips)"
    "set ips = {ip. length ip = 4 \<and> ipnet_Contains subnet ip}
       - {ipnet_IP subnet, nextIP (ipnet_IP subnet), the_ok (getBroadcastIP subnet)}"
    using ipsInSubnet_listing [OF assms(2-4)] by blast
  obtain a p e' where p: "NewEtcdBasedAddressPool fuel E parse_time now i subnet c e = Some (Ok (synced p a now), e')"
    "view e' = view e" "poolSubnet p = subnet" "allIPs p = ips"
    "\<forall>i. CHR ''/'' \<notin> set i \<longrightarrow> i \<noteq> [] \<longrightarrow> map_of a i = read_allocation parse_time c (view e) i"
    using etcd_reliable.NewEtcdBasedAddressPool_run [OF assms(1) ips(1) assms(5), of parse_time now i]
    by (elim exE conjE)
  have al: "map_of a (ip_String ip) = read_allocation parse_time c (view e) (ip_String ip)" if "length ip = 4" for ip
    using p(5) ip_String_slash [of ip] that by (simp add: ip_String_ip4)
  have "dom (map_of (unusedIPs (synced p a now))) =
        {ip_String ip |ip. length ip = 4 \<and> ipnet_Contains subnet ip
           \<and> ip \<notin> {ipnet_IP subnet, nextIP (ipnet_IP subnet), the_ok (getBroadcastIP subnet)}
           \<and> read_allocation parse_time c (view e) (ip_String ip) = None}"
    unfolding synced_unused p(4) ips(2) using al by (auto simp: domIff)
  then show ?thesis using p(1-3) al by (intro exI [of _ "synced p a now"] exI [of _ e']) simp
qed

lemma NewEtcdBasedAddressPool_spec_witness:
  "\<exists>p. NewEtcdBasedAddressPool 8 mem_etcd parse_seconds zero_time ''n''
       demo_subnet demo_client [] = Some (Ok p, [])
     \<and> ''10.0.1.250'' \<in> dom (map_of (unusedIPs p)) \<and> ''10.0.1.249'' \<notin> dom (map_of (unusedIPs p))"
proof -
  let ?n = demo_subnet
  let ?ex = "{ipnet_IP ?n, nextIP (ipnet_IP ?n), the_ok (getBroadcastIP ?n)}"
  have net: "ip4_net ?n 29" by code_simp
  obtain p e' where p: "NewEtcdBasedAddressPool 8 mem_etcd parse_seconds zero_time ''n'' ?n demo_client [] = Some (Ok p, e')"
    and unused: "dom (map_of (unusedIPs p)) = {ip_String ip |ip. length ip = 4 \<and> ipnet_Contains ?n ip \<and> ip \<notin> ?ex
           \<and> read_allocation parse_seconds demo_client (map_of []) (ip_String ip) = None}"
    using NewEtcdBasedAddressPool_spec [OF mem.etcd_reliable_axioms net, of 8 demo_client "[]" parse_seconds zero_time "''n''"]
    by (auto simp: wf_keys_def)
  have "ipnet_Contains ?n [10, 0, 1, 250] \<and> [10, 0, 1, 250] \<notin> ?ex
      \<and> read_allocation parse_seconds demo_client (map_of []) (ip_String [10, 0, 1, 250]) = None" by code_simp
  moreover have str: "ip_String [10, 0, 1, 250] = ''10.0.1.250''" "ip_String [10, 0, 1, 249] = ''10.0.1.249''"
    and gw: "[10, 0, 1, 249] \<in> ?ex" by code_simp+
  ultimately have "''10.0.1.250'' \<in> dom (map_of (unusedIPs p))"
    unfolding unused by (intro CollectI exI [of _ "[10, 0, 1, 250]"]) simp
  moreover have "ip = [10, 0, 1, 249]" if "ip_String ip = ''10.0.1.249''" "length ip = 4" for ip
    using that str(2) ip_String_ip4(1) [of ip] ip_String_ip4(1) [of "[10, 0, 1, 249]"]
      ip4_String_inject [of ip "[10, 0, 1, 249]"] by simp
  then have "''10.0.1.249'' \<notin> dom (map_of (unusedIPs p))" unfolding unused using gw by auto
  moreover have "e' = []" using p demo_new by auto
  ultimately show ?thesis using p by blast
qed

text \<open>
  C29: On a reliable etcd, reserving a random address of a pool whose cached unused addresses are
  free takes one round: the answer is one of them, etcd has it as reserved and the cache has
  moved it from the unused to the allocated addresses.
\<close>

theorem ReserveIP_fresh:
  assumes "etcd_reliable E view" "rnd_law rnd" "unusedIPs p \<noteq> []"
    "\<forall>s \<in> dom (map_of (unusedIPs p)). \<exists>ip. length ip = 4 \<and> s = ip4_String ip
       \<and> view e (allocatedIPKey (pool_client p) s) = None"
  shows "\<exists>ip p' e'. ReserveIP (Suc fuel) E fmt_time parse_time now rnd True p e = Some (Ok ip, p', e')
    \<and> ip_String ip \<in> dom (map_of (unusedIPs p))
    \<and> view e' = (view e)(allocatedIPKey (pool_client p) (ip_String ip) \<mapsto> ''reserved'',
        allocatedAtKey (pool_client p) (ip_String ip) \<mapsto> fmt_time now)
    \<and> dom (map_of (allocatedIPs p')) = insert (ip_String ip) (dom (map_of (allocatedIPs p)))
    \<and> dom (map_of (unusedIPs p')) = dom (map_of (unusedIPs p)) - {ip_String ip}"
proof -
  let ?c = "pool_client p" and ?run = "ReserveIP (Suc fuel) E fmt_time parse_time now rnd True p e"
  note ip4 = parsed_ip4 [OF assms(4)]
  have parsed: "\<forall>s \<in> dom (map_of (unusedIPs p)). ParseIP s \<noteq> []" using ip4(1) by blast
  obtain s e1 where s: "s \<in> dom (map_of (unusedIPs p))" and
    run: "?run = Some (Ok (ParseIP s), record_allocation s (kind_record now (ParseIP s) (reserve_kind ?c)) p, e1)"
    using etcd_reliable.allocateFreeIP_round [OF assms(1,3) parsed assms(2), of e "reserve_kind ?c" fuel parse_time now fmt_time ?c]
      ip4(2,3) unfolding ReserveIP_def kind_allocators by fastforce
  have "taken ?c (reserve_kind ?c) (fmt_time now) (ParseIP s) (view e) (view e1)"
    using etcd_service.ReserveIP_effect [OF etcd_reliable.axioms(1) [OF assms(1)] run] by (simp add: alloc_effect_def)
  then show ?thesis using s run ip4(2) [OF s]
    by (auto simp: taken_def reserve_kind_def alloc_written_def record_allocation_def AllocationTypeReserved_def)
qed

lemma ReserveIP_fresh_witness:
  "\<exists>ip p' m'. ReserveIP 1 mem_etcd fmt_seconds parse_seconds zero_time (\<lambda>i n. i mod n) True demo_pool [] = Some (Ok ip, p', m')
     \<and> ip_String ip \<in> {''10.0.0.5'', ''10.0.0.6''} \<and> dom (map_of (unusedIPs p')) = {''10.0.0.5'', ''10.0.0.6''} - {ip_String ip}"
proof -
  have "ip4_String [10, 0, 0, 5] = ''10.0.0.5''" "ip4_String [10, 0, 0, 6] = ''10.0.0.6''"
    by code_simp+
  then have "\<forall>s \<in> dom (map_of (unusedIPs demo_pool)). \<exists>ip. length ip = 4 \<and> s = ip4_String ip
      \<and> map_of [] (allocatedIPKey (pool_client demo_pool) s) = None"
    unfolding demo_unused by (auto intro: exI [of _ "[10, 0, 0, 5]"] exI [of _ "[10, 0, 0, 6]"])
  moreover have "rnd_law (\<lambda>i n. i mod n)" "unusedIPs demo_pool \<noteq> []" by (simp_all add: rnd_law_def demo_pool_def)
  ultimately show ?thesis
    using ReserveIP_fresh [OF mem.etcd_reliable_axioms, of "\<lambda>i n. i mod n" demo_pool "[]" 0 fmt_seconds parse_seconds zero_time]
    unfolding demo_unused by fastforce
qed

text \<open>
  When other nodes have taken every address a pool still has in its cache of unused ones,
  reserving an address from the pool never returns, although etcd answers every call: the loop
  retries with the same stale cache, whatever the random choices are.
\<close>

theorem ReserveIP_stale_cache_diverges:
  assumes "etcd_reliable E view" "rnd_law rnd" "unusedIPs p \<noteq> []"
    "\<forall>s \<in> dom (map_of (unusedIPs p)). \<exists>ip. length ip = 4 \<and> s = ip4_String ip
       \<and> view e (allocatedIPKey (pool_client p) s) \<noteq> None"
  shows "ReserveIP fuel E fmt_time parse_time now rnd True p e = None"
  unfolding ReserveIP_def kind_allocators
proof (rule etcd_reliable.allocateFreeIP_livelock [OF assms(1,3) _ assms(2)])
  show "\<forall>s \<in> dom (map_of (unusedIPs p)). ParseIP s \<noteq> []" using parsed_ip4(1) [OF assms(4)] by blast
  show "\<forall>s \<in> dom (map_of (unusedIPs p)). \<not> some_condition (view e)
      (ak_conditions (reserve_kind (pool_client p)) (ParseIP s))"
    using parsed_ip4(2,3) [OF assms(4)] by simp
qed

lemma ReserveIP_stale_cache_diverges_witness:
  "ReserveIP 1000000 mem_etcd fmt_seconds parse_seconds zero_time (\<lambda>i n. i mod n) True demo_pool
     [(''/p/allocated-ips/10.0.0.5'', ''container-ip''), (''/p/allocated-ips/10.0.0.6'', ''container-ip'')] = None"
  (is "ReserveIP _ _ _ _ _ _ _ _ ?m = _")
proof (rule ReserveIP_stale_cache_diverges [OF mem.etcd_reliable_axioms])
  have "ip4_String [10, 0, 0, 5] = ''10.0.0.5''" "ip4_String [10, 0, 0, 6] = ''10.0.0.6''"
    "allocatedIPKey (pool_client demo_pool) ''10.0.0.5'' = ''/p/allocated-ips/10.0.0.5''"
    "allocatedIPKey (pool_client demo_pool) ''10.0.0.6'' = ''/p/allocated-ips/10.0.0.6''"
    by code_simp+
  then show "\<forall>s \<in> dom (map_of (unusedIPs demo_pool)). \<exists>ip. length ip = 4 \<and> s = ip4_String ip
      \<and> map_of ?m (allocatedIPKey (pool_client demo_pool) s) \<noteq> None"
    unfolding demo_unused by (auto intro: exI [of _ "[10, 0, 0, 5]"] exI [of _ "[10, 0, 0, 6]"])
qed (simp_all add: rnd_law_def demo_pool_def)

text \<open>
  Releasing an allocated address on a reliable etcd: when the store still has the cached
  allocation, its keys are removed and the address becomes unused as of now; when the address
  has another allocation by now, nothing is removed and the cache takes over what the store
  has; when its type or its time stamp is gone from the store, the call panics.
\<close>

theorem ReleaseIP_spec:
  assumes "etcd_reliable E view" "map_of (allocatedIPs p) ip = Some a" "s = ip_String (al_ip a)"
  shows "\<exists>r p' e'. ReleaseIP E parse_time now ip p e = (r, p', e') \<and>
    (if may_release (pool_client p) (view e) a
     then r = Ok () \<and> view e' = released (pool_client p) s (view e)
       \<and> p' = p\<lparr>allocatedIPs := gomap_delete (allocatedIPs p) ip, unusedIPs := gomap_set (unusedIPs p) ip now\<rparr>
     else view e' = view e \<and>
       (case (view e (allocatedIPKey (pool_client p) s), view e (allocatedAtKey (pool_client p) s)) of
          (Some ty, Some _) \<Rightarrow> (\<exists>er. r = Err er)
            \<and> map_option allocationType (map_of (allocatedIPs p') ip) = Some ty
            \<and> unusedIPs p' = unusedIPs p
        | _ \<Rightarrow> r = Panic \<and> p' = p))"
  unfolding assms(3) by (rule etcd_reliable.ReleaseIP_run [OF assms(1,2)])

lemma ReleaseIP_spec_witness:
  "fst (ReleaseIP mem_etcd parse_seconds zero_time ''10.0.0.7''
     (demo_pool\<lparr>allocatedIPs := [(''10.0.0.7'', kind_record zero_time [10, 0, 0, 7] (reserve_kind demo_client))]\<rparr>) []) = Panic"
  (is "fst (ReleaseIP _ _ _ _ ?p _) = _")
proof -
  let ?a = "kind_record zero_time [10, 0, 0, 7] (reserve_kind demo_client)"
  have a: "map_of (allocatedIPs ?p) ''10.0.0.7'' = Some ?a" by simp
  have "\<not> may_release (pool_client ?p) (map_of []) ?a" by code_simp
  then show ?thesis
    using ReleaseIP_spec [OF mem.etcd_reliable_axioms a refl, of parse_seconds zero_time "[]"] by fastforce
qed

text \<open>
  The watcher never recovers from an event that announces an allocation: \<open>readAllocation\<close>
  finds nothing, and the branch for that case goes on with the next event while it holds the
  mutex of the pool.
\<close>

theorem pool_watchEvent_put_deadlock:
  assumes "etcd_service E view" "ip4_alloc_keys (pool_client p) (view e)"
    "length i = 4" "kv_Key kv \<in> set (alloc_keys (pool_client p) (ip4_String i))"
    "pool_watchEvent E parse_time now p (PoolPut kv) e = (l, p', e')"
  shows "l \<noteq> Unlocked \<and> p' = p"
proof -
  obtain r e1 where r: "readAllocation E parse_time (pool_client p) (ip4_String i) e = (r, e1)" by force
  obtain t where "TrimPrefix (kv_Key kv) (allocatedIPsKey (pool_client p)) = CHR ''/'' # ip4_String i @ t"
    "t = [] \<or> hd t = CHR ''/''"
    using assms(4) by (auto simp: alloc_keys_def ip_key_defs key_part_defs)
  then have "split_on CHR ''/'' (TrimLeft CHR ''/'' (TrimPrefix (kv_Key kv) (allocatedIPsKey (pool_client p)))) ! 0 =
      ip4_String i" using first_part_ip4 [OF assms(3)] by simp
  then show ?thesis
    using assms(5) r etcd_service.readAllocation_None [OF assms(1), of parse_time "pool_client p" i e _ e1] assms(2,3)
    unfolding pool_watchEvent_def Let_def by (cases r) (auto simp: ip_String_ip4)
qed

lemma pool_watchEvent_put_deadlock_witness:
  "let m = [(''/p/allocated-ips/10.0.0.5'', ''reserved'')]
   in fst (pool_watchEvent mem_etcd parse_seconds zero_time demo_pool
        (PoolPut \<lparr>kv_Key = ''/p/allocated-ips/10.0.0.5'', kv_Value = ''reserved''\<rparr>) m) \<noteq> Unlocked"
proof -
  let ?m = "[(''/p/allocated-ips/10.0.0.5'', ''reserved'')]"
  let ?kv = "\<lparr>kv_Key = ''/p/allocated-ips/10.0.0.5'', kv_Value = ''reserved''\<rparr>"
  have k: "kv_Key ?kv \<in> set (alloc_keys (pool_client demo_pool) (ip4_String [10, 0, 0, 5]))" by code_simp
  then have "ip4_alloc_keys (pool_client demo_pool) (map_of ?m)"
    unfolding ip4_alloc_keys_def by (auto split: if_splits intro!: exI [of _ "[10, 0, 0, 5]"])
  moreover obtain l p' e' where w: "pool_watchEvent mem_etcd parse_seconds zero_time demo_pool (PoolPut ?kv) ?m = (l, p', e')"
    by (metis prod.collapse)
  ultimately have "l \<noteq> Unlocked"
    using pool_watchEvent_put_deadlock [OF mem.etcd_service_axioms, of demo_pool ?m "[10, 0, 0, 5]" ?kv
        parse_seconds zero_time l p' e'] k by simp
  then show ?thesis using w by (simp add: Let_def)
qed

end
