(* ===== verification/Common_Service.thy ===== *)
theory Common_Service
  imports Common_Maps
begin

text \<open>
  \<open>plugin/pkg/common/service.go\<close>: a Docker service with its networks, virtual addresses and
  containers. An operation returns the new service and the events it raises, in order.
  The library function \<open>lo.Difference\<close> is a parameter.
\<close>

record ContainerInfo =
  ci_ID :: string
  ci_Name :: string
  ci_ServiceID :: string
  ci_ServiceName :: string
  ci_SandboxKey :: string
  ci_IPs :: "(string, net_ip) gomap"
  ci_DNSNames :: "(string, string list) gomap"
  ci_Endpoints :: "(string, string) gomap"

definition ServiceEndpointModeVip :: string where
  "ServiceEndpointModeVip = ''vip''"

definition ServiceEndpointModeDnsrr :: string where
  "ServiceEndpointModeDnsrr = ''dnsrr''"

record service =
  svc_id :: string
  svc_name :: string
  endpointMode :: string
  svc_networks :: "string list"
  vips :: "(string, net_ip) gomap option"
  ipamVIPs :: "(string, net_ip) gomap option"
  svc_containers :: "(string, ContainerInfo) gomap"

datatype service_event =
  OnInitialized service | OnVIPsChanged service | OnNetworksChanged service
| OnEndpointModeChanged service | OnContainerAdded service ContainerInfo
| OnContainerRemoved service ContainerInfo

definition NewService :: "string \<Rightarrow> string \<Rightarrow> service" where
  "NewService i n = \<lparr>svc_id = i, svc_name = n, endpointMode = [], svc_networks = [],
     vips = Some [], ipamVIPs = Some [], svc_containers = []\<rparr>"

definition IsInitialized :: "service \<Rightarrow> bool" where
  "IsInitialized s \<longleftrightarrow> svc_id s \<noteq> [] \<and> svc_name s \<noteq> [] \<and> length (svc_networks s) > 0
     \<and> (endpointMode s = ServiceEndpointModeDnsrr
        \<or> (endpointMode s = ServiceEndpointModeVip
           \<and> (case ipamVIPs s of None \<Rightarrow> False | Some m \<Rightarrow> length m > 0)))"

definition SetVIPs :: "service \<Rightarrow> (string, net_ip) gomap option \<Rightarrow> service \<times> service_event list" where
  "SetVIPs s v =
     (let vipsChanged = CompareIPMaps (vips s) v; s = s\<lparr>vips := v\<rparr>
      in (s, if IsInitialized s \<and> vipsChanged then [OnVIPsChanged s] else []))"

definition AddContainer :: "service \<Rightarrow> ContainerInfo \<Rightarrow> service \<times> service_event list" where
  "AddContainer s container =
     (let s = s\<lparr>svc_containers := gomap_set (svc_containers s) (ci_ID container) container\<rparr>
      in (s, if IsInitialized s then [OnContainerAdded s container] else []))"

definition RemoveContainer :: "service \<Rightarrow> string \<Rightarrow> service \<times> service_event list" where
  "RemoveContainer s containerID =
     (case map_of (svc_containers s) containerID of
        Some container \<Rightarrow>
          let s = s\<lparr>svc_containers := gomap_delete (svc_containers s) (ci_ID container)\<rparr>
          in (s, if IsInitialized s then [OnContainerRemoved s container] else [])
      | None \<Rightarrow> (s, []))"

definition SetNetworks ::
  "(string list \<Rightarrow> string list \<Rightarrow> string list \<times> string list) \<Rightarrow> service \<Rightarrow> string list \<Rightarrow>
   (string, net_ip) gomap option \<Rightarrow> service \<times> service_event list"
where
  "SetNetworks lo_Difference s networks ipam =
     (let wasInitialized = IsInitialized s;
          (deletedNetworks, addedNetworks) = lo_Difference networks (svc_networks s);
          ipamVIPsChanged = CompareIPMaps (ipamVIPs s) ipam;
          s = s\<lparr>svc_networks := networks, ipamVIPs := ipam\<rparr>
      in (s, if IsInitialized s
             then if \<not> wasInitialized then [OnInitialized s]
                  else if ipamVIPsChanged \<or> length deletedNetworks > 0 \<or> length addedNetworks > 0
                  then [OnNetworksChanged s] else []
             else []))"

definition SetEndpointMode :: "service \<Rightarrow> string \<Rightarrow> service \<times> service_event list" where
  "SetEndpointMode s mode =
     (let wasInitialized = IsInitialized s;
          endpointModeChanged = (mode \<noteq> endpointMode s);
          s = s\<lparr>endpointMode := mode\<rparr>
      in (s, if IsInitialized s
             then if \<not> wasInitialized then [OnInitialized s]
                  else if endpointModeChanged then [OnEndpointModeChanged s] else []
             else []))"

text \<open>A snapshot of a service; the sources replace its maps of addresses, they never change them in place.\<close>

record ServiceInfo =
  svi_ID :: string
  svi_Name :: string
  svi_EndpointMode :: string
  svi_Networks :: "string list"
  svi_VIPs :: "(string, net_ip) gomap option"
  svi_IpamVIPs :: "(string, net_ip) gomap option"
  svi_Containers :: "(string, ContainerInfo) gomap"

definition service_GetInfo :: "service \<Rightarrow> ServiceInfo" where
  "service_GetInfo s =
     \<lparr>svi_ID = svc_id s, svi_Name = svc_name s, svi_EndpointMode = endpointMode s,
      svi_Networks = svc_networks s, svi_VIPs = vips s, svi_IpamVIPs = ipamVIPs s,
      svi_Containers = svc_containers s\<rparr>"

text \<open>What the code relies on of \<open>lo.Difference\<close>: the elements of each list not in the other.\<close>

definition lo_Difference_law :: "('a list \<Rightarrow> 'a list \<Rightarrow> 'a list \<times> 'a list) \<Rightarrow> bool" where
  "lo_Difference_law D \<longleftrightarrow>
     (\<forall>xs ys. D xs ys = (filter (\<lambda>x. x \<notin> set ys) xs, filter (\<lambda>y. y \<notin> set xs) ys))"

definition lo_Difference_ref :: "'a list \<Rightarrow> 'a list \<Rightarrow> 'a list \<times> 'a list" where
  "lo_Difference_ref xs ys = (filter (\<lambda>x. x \<notin> set ys) xs, filter (\<lambda>y. y \<notin> set xs) ys)"

lemma lo_Difference_ref_law: "lo_Difference_law lo_Difference_ref"
  by (simp add: lo_Difference_law_def lo_Difference_ref_def)

section \<open>Invariant\<close>

definition service_ok :: "service \<Rightarrow> bool" where
  "service_ok s \<longleftrightarrow> gomap_ok (svc_containers s)
     \<and> (\<forall>k c. map_of (svc_containers s) k = Some c \<longrightarrow> ci_ID c = k)"

lemma service_ok_New: "service_ok (NewService i n)"
  by (simp add: service_ok_def NewService_def)

text \<open>The calls a service can receive, and a run of them with all the events raised.\<close>

datatype service_call =
  CallSetVIPs "(string, net_ip) gomap option" | CallAddContainer ContainerInfo
| CallRemoveContainer string | CallSetNetworks "string list" "(string, net_ip) gomap option"
| CallSetEndpointMode string

fun service_call_step ::
  "(string list \<Rightarrow> string list \<Rightarrow> string list \<times> string list) \<Rightarrow> service \<Rightarrow> service_call \<Rightarrow>
   service \<times> service_event list"
where
  "service_call_step D s (CallSetVIPs v) = SetVIPs s v"
| "service_call_step D s (CallAddContainer c) = AddContainer s c"
| "service_call_step D s (CallRemoveContainer i) = RemoveContainer s i"
| "service_call_step D s (CallSetNetworks ns v) = SetNetworks D s ns v"
| "service_call_step D s (CallSetEndpointMode m) = SetEndpointMode s m"

fun service_run ::
  "(string list \<Rightarrow> string list \<Rightarrow> string list \<times> string list) \<Rightarrow> service \<Rightarrow> service_call list \<Rightarrow>
   service \<times> service_event list"
where
  "service_run D s [] = (s, [])"
| "service_run D s (c # cs) =
     (case service_call_step D s c of (s, evs) \<Rightarrow>
        case service_run D s cs of (s, evs') \<Rightarrow> (s, evs @ evs'))"

lemmas service_op_defs = SetVIPs_def AddContainer_def RemoveContainer_def SetNetworks_def
  SetEndpointMode_def

lemma service_call_ok: "service_ok s \<Longrightarrow> service_ok (fst (service_call_step D s c))"
  by (cases c) (auto simp: service_op_defs service_ok_def Let_def split: option.splits prod.splits)

lemma service_run_ok: "service_ok s \<Longrightarrow> service_ok (fst (service_run D s cs))"
proof (induction cs arbitrary: s)
  case (Cons c cs)
  obtain s' evs where st: "service_call_step D s c = (s', evs)" by force
  then have "service_ok s'" using service_call_ok [OF Cons.prems, of D c] by simp
  from Cons.IH [OF this] show ?case by (simp add: st split_def)
qed simp

text \<open>
  Before a service is initialised it raises nothing; the call that initialises it raises
  \<open>OnInitialized\<close> and nothing else, and a call on an initialised service never does.
\<close>

lemma IsInitialized_other [simp]:
  "IsInitialized (s\<lparr>vips := v\<rparr>) = IsInitialized s"
  "IsInitialized (s\<lparr>svc_containers := cs\<rparr>) = IsInitialized s"
  by (simp_all add: IsInitialized_def)

lemma service_call_events:
  "service_call_step D s c = (s', evs) \<Longrightarrow> evs \<noteq> [] \<Longrightarrow> IsInitialized s'"
  "service_call_step D s c = (s', evs) \<Longrightarrow> \<not> IsInitialized s \<Longrightarrow> IsInitialized s' \<Longrightarrow>
    evs = [OnInitialized s']"
  "service_call_step D s c = (s', evs) \<Longrightarrow> IsInitialized s \<Longrightarrow> OnInitialized x \<notin> set evs"
  by (cases c; auto simp: service_op_defs Let_def split: option.splits prod.splits if_splits)+

text \<open>The containers a service has after a run, as a function of the calls alone.\<close>

fun containers_spec :: "(string \<rightharpoonup> ContainerInfo) \<Rightarrow> service_call list \<Rightarrow> (string \<rightharpoonup> ContainerInfo)" where
  "containers_spec m [] = m"
| "containers_spec m (CallAddContainer c # cs) = containers_spec (m(ci_ID c \<mapsto> c)) cs"
| "containers_spec m (CallRemoveContainer i # cs) = containers_spec (m(i := None)) cs"
| "containers_spec m (_ # cs) = containers_spec m cs"

lemma containers_call:
  "service_ok s \<Longrightarrow> containers_spec (map_of (svc_containers s)) (c # cs) =
   containers_spec (map_of (svc_containers (fst (service_call_step D s c)))) cs"
proof (cases c)
  case (CallRemoveContainer i)
  assume ok: "service_ok s"
  show ?thesis
  proof (cases "map_of (svc_containers s) i")
    case None
    then have "(map_of (svc_containers s))(i := None) = map_of (svc_containers s)" by auto
    then show ?thesis using None CallRemoveContainer by (simp add: RemoveContainer_def)
  next
    case (Some x)
    then have "ci_ID x = i" using ok by (auto simp: service_ok_def)
    then show ?thesis using Some CallRemoveContainer by (simp add: RemoveContainer_def Let_def)
  qed
qed (simp_all add: service_op_defs Let_def split: prod.splits)

section \<open>Properties\<close>

text \<open>
  Whatever sequence of calls a new service receives, its containers are those added and not
  removed since, each under its own id.
\<close>

theorem service_run_containers:
  "map_of (svc_containers (fst (service_run D (NewService i n) cs))) = containers_spec Map.empty cs"
proof -
  have "map_of (svc_containers (fst (service_run D s cs))) =
      containers_spec (map_of (svc_containers s)) cs" if "service_ok s" for s
    using that
  proof (induction cs arbitrary: s)
    case (Cons c cs)
    obtain s' evs where st: "service_call_step D s c = (s', evs)" by force
    then have "service_ok s'" using service_call_ok [OF Cons.prems, of D c] by simp
    then have "map_of (svc_containers (fst (service_run D s' cs))) =
        containers_spec (map_of (svc_containers s')) cs" by (rule Cons.IH)
    moreover have "fst (service_run D s (c # cs)) = fst (service_run D s' cs)"
      by (simp add: st split: prod.splits)
    ultimately show ?case using containers_call [OF Cons.prems, of c cs D] st by simp
  qed simp
  from this [OF service_ok_New, of i n] show ?thesis by (simp add: NewService_def)
qed

text \<open>
  A service raises no event before it is fully initialised: in every sequence of calls the
  first event a new service raises is \<open>OnInitialized\<close>, raised by an initialised service.
\<close>

theorem service_first_event:
  assumes "snd (service_run D (NewService i n) cs) = e # es"
  shows "\<exists>s. e = OnInitialized s \<and> IsInitialized s"
proof -
  have "\<exists>s. e = OnInitialized s \<and> IsInitialized s"
    if "\<not> IsInitialized s" "snd (service_run D s cs) = e # es" for s
    using that
  proof (induction cs arbitrary: s)
    case (Cons c cs)
    obtain s' evs where st: "service_call_step D s c = (s', evs)" by force
    then have split: "snd (service_run D s (c # cs)) = evs @ snd (service_run D s' cs)"
      by (simp split: prod.splits)
    show ?case
    proof (cases "IsInitialized s'")
      case True
      then show ?thesis
        using service_call_events(2) [OF st Cons.prems(1)] Cons.prems(2) split by auto
    next
      case False
      then have "evs = []" using service_call_events(1) [OF st] by blast
      then show ?thesis using Cons.IH [OF False] Cons.prems(2) split by simp
    qed
  qed simp
  from this [OF _ assms] show ?thesis by (simp add: NewService_def IsInitialized_def)
qed

lemma service_first_event_witness:
  "\<exists>e es s. snd (service_run lo_Difference_ref (NewService ''i'' ''web'')
      [CallSetVIPs None, CallSetEndpointMode ''dnsrr'', CallSetNetworks [''n''] None,
       CallSetEndpointMode ''vip'']) = e # es \<and> e = OnInitialized s"
proof -
  let ?r = "snd (service_run lo_Difference_ref (NewService ''i'' ''web'')
      [CallSetVIPs None, CallSetEndpointMode ''dnsrr'', CallSetNetworks [''n''] None,
       CallSetEndpointMode ''vip''])"
  have "length ?r = 1" by code_simp
  then obtain e es where "?r = e # es" by (cases ?r) auto
  then show ?thesis using service_first_event by blast
qed

text \<open>
  On an initialised service \<open>SetVIPs\<close> stores the addresses, but raises \<open>OnVIPsChanged\<close>
  exactly when the new addresses equal the old ones: a real change is never announced.
\<close>

theorem SetVIPs_announces_only_no_change:
  assumes "IsInitialized s" "vips s = Some old" "gomap_ok old" "gomap_ok new"
  shows "vips (fst (SetVIPs s (Some new))) = Some new
    \<and> (snd (SetVIPs s (Some new)) = [] \<longleftrightarrow>
        (\<exists>k. \<not> rel_option ip_Equal (map_of old k) (map_of new k)))"
  using assms
  by (simp add: SetVIPs_def Let_def CompareIPMaps_def compare_maps_iff IsInitialized_def)

lemma SetVIPs_announces_only_no_change_witness:
  "let s = fst (SetNetworks lo_Difference_ref (fst (SetEndpointMode (NewService ''i'' ''web'') ''dnsrr''))
       [''n''] None)
   in snd (SetVIPs s (Some [(''n'', [10, 0, 0, 9])])) = []"
proof -
  let ?s = "fst (SetNetworks lo_Difference_ref
      (fst (SetEndpointMode (NewService ''i'' ''web'') ''dnsrr'')) [''n''] None)"
  have s: "IsInitialized ?s" "vips ?s = Some []" by code_simp+
  have "\<not> rel_option ip_Equal (map_of ([] :: (string, net_ip) gomap) ''n'')
      (map_of [(''n'', [10, 0, 0, 9])] ''n'')" by simp
  then have "snd (SetVIPs ?s (Some [(''n'', [10, 0, 0, 9])])) = []"
    using SetVIPs_announces_only_no_change [OF s, of "[(''n'', [10, 0, 0, 9])]"]
    by (auto simp: gomap_ok_def)
  then show ?thesis by (simp add: Let_def)
qed

end
