(* ===== verification/Etcd_Stores.thy ===== *)
theory Etcd_Stores
  imports Etcd_Client Common_Service
begin

text \<open>
  \<open>plugin/pkg/etcd/store.go\<close>, \<open>writeonly_store.go\<close> and \<open>readonly_store.go\<close>: maps of items kept in
  memory and in etcd. An operation returns the handler calls it makes, in order. Parameters:
  the JSON codec of the item type, its \<open>Equals\<close> method, and the functions of the package \<open>lo\<close>.
\<close>

section \<open>Parameters\<close>

record 'a codec =
  Marshal :: "'a \<Rightarrow> string option"
  Unmarshal :: "string \<Rightarrow> 'a option"

definition codec_law :: "'a codec \<Rightarrow> bool" where
  "codec_law C \<longleftrightarrow> (\<forall>x. \<exists>s. Marshal C x = Some s \<and> Unmarshal C s = Some x)"

record 'a lo_fns =
  lo_Difference :: "string list \<Rightarrow> string list \<Rightarrow> string list \<times> string list"
  lo_Keys :: "(string, 'a) gomap \<Rightarrow> string list"

definition lo_law :: "'a lo_fns \<Rightarrow> bool" where
  "lo_law L \<longleftrightarrow> lo_Difference_law (lo_Difference L)
     \<and> (\<forall>m. set (lo_Keys L m) = dom (map_of m) \<and> (gomap_ok m \<longrightarrow> distinct (lo_Keys L m)))"

definition lo_ref :: "'a lo_fns" where
  "lo_ref = \<lparr>lo_Difference = lo_Difference_ref, lo_Keys = map fst\<rparr>"

lemma lo_ref_law: "lo_law lo_ref"
  by (simp add: lo_law_def lo_ref_def lo_Difference_ref_law gomap_ok_def dom_map_of_conv_image_fst)

section \<open>The base store\<close>

record 'a Item =
  it_ID :: string
  it_Value :: 'a

record 'a ItemChange =
  ch_ID :: string
  ch_Previous :: 'a
  ch_Current :: 'a

text \<open>Which handlers are set (a nil handler is not called), and the calls made.\<close>

record ItemsHandlers =
  has_OnChanged :: bool
  has_OnAdded :: bool
  has_OnRemoved :: bool

datatype 'a handler_call =
  OnChanged "'a ItemChange list" | OnAdded "'a Item list" | OnRemoved "'a Item list"

record 'a storeBase =
  sb_client :: etcdClient
  sb_data :: "(string, 'a) gomap"
  sb_handlers :: ItemsHandlers

definition GetAll :: "'a storeBase \<Rightarrow> (string, 'a) gomap" where
  "GetAll s = sb_data s"

definition GetItem :: "'a storeBase \<Rightarrow> string \<Rightarrow> 'a option" where
  "GetItem s itemID = map_of (sb_data s) itemID"

text \<open>The ids of removed items are keys of the old data, so the look-up there succeeds.\<close>

definition syncToInternalState ::
  "'a lo_fns \<Rightarrow> ('a \<Rightarrow> 'a \<Rightarrow> bool) \<Rightarrow> 'a storeBase \<Rightarrow> (string, 'a) gomap \<Rightarrow>
   ('a ItemChange list \<times> 'a Item list \<times> 'a Item list) \<times> 'a storeBase"
where
  "syncToInternalState L Equals s truth =
     (let changes = concat (map (\<lambda>(i, item).
            case map_of (sb_data s) i of
              Some previousItem \<Rightarrow>
                if \<not> Equals previousItem item
                then [\<lparr>ch_ID = i, ch_Previous = previousItem, ch_Current = item\<rparr>] else []
            | None \<Rightarrow> []) truth);
          added = concat (map (\<lambda>(i, item).
            case map_of (sb_data s) i of
              Some _ \<Rightarrow> [] | None \<Rightarrow> [\<lparr>it_ID = i, it_Value = item\<rparr>]) truth);
          toBeDeletedFromInternalState =
            fst (lo_Difference L (lo_Keys L (sb_data s)) (lo_Keys L truth));
          removed = map (\<lambda>i. \<lparr>it_ID = i, it_Value = the (map_of (sb_data s) i)\<rparr>)
            toBeDeletedFromInternalState
      in ((changes, added, removed), s\<lparr>sb_data := truth\<rparr>))"

datatype 'a parsed = Ignored | ParseError string | Parsed string 'a

definition parseItem :: "'a codec \<Rightarrow> string \<Rightarrow> KeyValue \<Rightarrow> 'a parsed" where
  "parseItem C p kv =
     (let key = TrimLeft CHR ''/'' (TrimPrefix (kv_Key kv) p); parts = split_on CHR ''/'' key
      in if length parts \<noteq> 1 then Ignored
         else case Unmarshal C (kv_Value kv) of
                None \<Rightarrow> ParseError (parts ! 0)
              | Some item \<Rightarrow> Parsed (parts ! 0) item)"

definition parsed_entry :: "'a parsed \<Rightarrow> (string \<times> 'a) option" where
  "parsed_entry x = (case x of Parsed i item \<Rightarrow> Some (i, item) | _ \<Rightarrow> None)"

definition loadData :: "'e etcd \<Rightarrow> 'a codec \<Rightarrow> etcdClient \<Rightarrow> 'e \<Rightarrow> (string, 'a) gomap res \<times> 'e" where
  "loadData E C client e =
     (let p = GetKey client []
      in res_bind (res_wrap ''Error getting data from etcd for prefix'' (GetPrefix E p e))
           (\<lambda>kvs e. (Ok (gomap_collect (\<lambda>kv. parsed_entry (parseItem C p kv)) kvs), e)))"

definition invokeAddOrChangedHandler ::
  "('a \<Rightarrow> 'a \<Rightarrow> bool) \<Rightarrow> 'a storeBase \<Rightarrow> string \<Rightarrow> 'a option \<Rightarrow> 'a \<Rightarrow> 'a handler_call list"
where
  "invokeAddOrChangedHandler Equals s i previous current =
     (case previous of
        Some prev \<Rightarrow>
          if \<not> Equals prev current \<and> has_OnChanged (sb_handlers s)
          then [OnChanged [\<lparr>ch_ID = i, ch_Previous = prev, ch_Current = current\<rparr>]] else []
      | None \<Rightarrow>
          if has_OnAdded (sb_handlers s) then [OnAdded [\<lparr>it_ID = i, it_Value = current\<rparr>]] else [])"

definition sync_calls ::
  "ItemsHandlers \<Rightarrow> 'a ItemChange list \<Rightarrow> 'a Item list \<Rightarrow> 'a Item list \<Rightarrow> 'a handler_call list"
where
  "sync_calls h changes added removed =
     (if length added > 0 \<and> has_OnAdded h then [OnAdded added] else [])
     @ (if length changes > 0 \<and> has_OnChanged h then [OnChanged changes] else [])
     @ (if length removed > 0 \<and> has_OnRemoved h then [OnRemoved removed] else [])"

section \<open>The write-only store\<close>

definition NewStore :: "etcdClient \<Rightarrow> ItemsHandlers \<Rightarrow> 'a storeBase" where
  "NewStore client h = \<lparr>sb_client = client, sb_data = [], sb_handlers = h\<rparr>"

definition storeItem ::
  "'e etcd \<Rightarrow> 'a codec \<Rightarrow> etcdClient \<Rightarrow> string \<Rightarrow> 'a \<Rightarrow> 'e \<Rightarrow> bool res \<times> 'e"
where
  "storeItem E C client itemID item e =
     (case Marshal C item of
        None \<Rightarrow> (Err (Errorf ''Failed to serialize item''), e)
      | Some bytes \<Rightarrow> PutIfNewOrChanged E (GetKey client [itemID]) bytes e)"

type_synonym ('a, 'e) store_result = "(unit res \<times> 'a handler_call list) \<times> 'a storeBase \<times> 'e"

text \<open>The end of an operation: an error is returned without calling a handler.\<close>

definition finish_op ::
  "unit res \<times> 'e \<Rightarrow> 'a storeBase \<Rightarrow> 'a handler_call list \<Rightarrow> ('a, 'e) store_result"
where
  "finish_op r s calls =
     (case r of
        (Ok _, e) \<Rightarrow> ((Ok (), calls), s, e)
      | (Err er, e) \<Rightarrow> ((Err er, []), s, e)
      | (Panic, e) \<Rightarrow> ((Panic, []), s, e))"

definition wo_AddOrUpdateItem ::
  "'e etcd \<Rightarrow> 'a codec \<Rightarrow> ('a \<Rightarrow> 'a \<Rightarrow> bool) \<Rightarrow> 'a storeBase \<Rightarrow> string \<Rightarrow> 'a \<Rightarrow> 'e \<Rightarrow> ('a, 'e) store_result"
where
  "wo_AddOrUpdateItem E C Equals s itemID item e =
     (let previousItem = map_of (sb_data s) itemID;
          s = s\<lparr>sb_data := gomap_set (sb_data s) itemID item\<rparr>;
          r = WithConnection E (\<lambda>e.
                res_bind (res_wrap ''failed to store item'' (storeItem E C (sb_client s) itemID item e))
                  (\<lambda>_ e. (Ok (), e))) e
      in finish_op r s (invokeAddOrChangedHandler Equals s itemID previousItem item))"

definition wo_DeleteItem :: "'e etcd \<Rightarrow> 'a storeBase \<Rightarrow> string \<Rightarrow> 'e \<Rightarrow> ('a, 'e) store_result" where
  "wo_DeleteItem E s itemID e =
     (let previousItem = map_of (sb_data s) itemID;
          s = s\<lparr>sb_data := gomap_delete (sb_data s) itemID\<rparr>;
          r = WithConnection E (\<lambda>e.
                res_wrap ''failed to delete item'' (Delete E (GetKey (sb_client s) [itemID]) e)) e
      in finish_op r s
           (case previousItem of
              Some previous \<Rightarrow>
                if has_OnRemoved (sb_handlers s)
                then [OnRemoved [\<lparr>it_ID = itemID, it_Value = previous\<rparr>]] else []
            | None \<Rightarrow> []))"

fun storeItems ::
  "'e etcd \<Rightarrow> 'a codec \<Rightarrow> etcdClient \<Rightarrow> (string \<times> 'a) list \<Rightarrow> 'e \<Rightarrow> unit res \<times> 'e"
where
  "storeItems E C client [] e = (Ok (), e)"
| "storeItems E C client ((i, item) # rest) e =
     res_bind (res_wrap ''failed to store item'' (storeItem E C client i item e))
       (\<lambda>_ e. storeItems E C client rest e)"

fun deleteItems :: "'e etcd \<Rightarrow> etcdClient \<Rightarrow> string list \<Rightarrow> 'e \<Rightarrow> unit res \<times> 'e" where
  "deleteItems E client [] e = (Ok (), e)"
| "deleteItems E client (i # rest) e =
     res_bind (res_wrap ''failed to delete item'' (Delete E (GetKey client [i]) e))
       (\<lambda>_ e. deleteItems E client rest e)"

definition wo_sync_etcd ::
  "'e etcd \<Rightarrow> 'a codec \<Rightarrow> 'a lo_fns \<Rightarrow> etcdClient \<Rightarrow> (string, 'a) gomap \<Rightarrow> 'e \<Rightarrow> unit res \<times> 'e"
where
  "wo_sync_etcd E C L client items e =
     res_bind (loadData E C client e)
       (\<lambda>etcdData e.
          let toBeDeletedFromEtcd = fst (lo_Difference L (lo_Keys L etcdData) (lo_Keys L items))
          in res_bind (storeItems E C client items e)
               (\<lambda>_ e. deleteItems E client toBeDeletedFromEtcd e))"

definition wo_sync ::
  "'e etcd \<Rightarrow> 'a codec \<Rightarrow> 'a lo_fns \<Rightarrow> ('a \<Rightarrow> 'a \<Rightarrow> bool) \<Rightarrow> 'a storeBase \<Rightarrow> (string, 'a) gomap \<Rightarrow>
   bool \<Rightarrow> 'e \<Rightarrow> ('a, 'e) store_result"
where
  "wo_sync E C L Equals s items callHandlers e =
     (case syncToInternalState L Equals s items of ((changes, added, removed), s) \<Rightarrow>
        let r = WithConnection E (wo_sync_etcd E C L (sb_client s) items) e
        in finish_op r s
             (if callHandlers then sync_calls (sb_handlers s) changes added removed else []))"

definition wo_Init ::
  "'e etcd \<Rightarrow> 'a codec \<Rightarrow> 'a lo_fns \<Rightarrow> ('a \<Rightarrow> 'a \<Rightarrow> bool) \<Rightarrow> 'a storeBase \<Rightarrow> (string, 'a) gomap \<Rightarrow>
   'e \<Rightarrow> ('a, 'e) store_result"
where
  "wo_Init E C L Equals s items e = wo_sync E C L Equals s items False e"

definition wo_Sync ::
  "'e etcd \<Rightarrow> 'a codec \<Rightarrow> 'a lo_fns \<Rightarrow> ('a \<Rightarrow> 'a \<Rightarrow> bool) \<Rightarrow> 'a storeBase \<Rightarrow> (string, 'a) gomap \<Rightarrow>
   'e \<Rightarrow> ('a, 'e) store_result"
where
  "wo_Sync E C L Equals s items e = wo_sync E C L Equals s items True e"

definition wo_InitFromEtcd :: "'e etcd \<Rightarrow> 'a codec \<Rightarrow> 'a storeBase \<Rightarrow> 'e \<Rightarrow> ('a, 'e) store_result" where
  "wo_InitFromEtcd E C s e =
     (case WithConnection E (loadData E C (sb_client s)) e of
        (Ok etcdData, e) \<Rightarrow> ((Ok (), []), s\<lparr>sb_data := etcdData\<rparr>, e)
      | (Err er, e) \<Rightarrow> ((Err er, []), s, e)
      | (Panic, e) \<Rightarrow> ((Panic, []), s, e))"

section \<open>The read-only store\<close>

definition ro_sync ::
  "'e etcd \<Rightarrow> 'a codec \<Rightarrow> 'a lo_fns \<Rightarrow> ('a \<Rightarrow> 'a \<Rightarrow> bool) \<Rightarrow> 'a storeBase \<Rightarrow> bool \<Rightarrow> 'e \<Rightarrow>
   ('a, 'e) store_result"
where
  "ro_sync E C L Equals s callHandlers e =
     (case WithConnection E (loadData E C (sb_client s)) e of
        (Ok etcdData, e) \<Rightarrow>
          (case syncToInternalState L Equals s etcdData of ((changes, added, removed), s) \<Rightarrow>
             ((Ok (), if callHandlers then sync_calls (sb_handlers s) changes added removed else []),
              s, e))
      | (Err er, e) \<Rightarrow> ((Err er, []), s, e)
      | (Panic, e) \<Rightarrow> ((Panic, []), s, e))"

definition ro_Sync ::
  "'e etcd \<Rightarrow> 'a codec \<Rightarrow> 'a lo_fns \<Rightarrow> ('a \<Rightarrow> 'a \<Rightarrow> bool) \<Rightarrow> 'a storeBase \<Rightarrow> 'e \<Rightarrow> ('a, 'e) store_result"
where
  "ro_Sync E C L Equals s e = ro_sync E C L Equals s True e"

text \<open>\<open>Watch\<close> opens a connection of its own; the events arrive later, one list per response.\<close>

definition client_Watch :: "'e etcd \<Rightarrow> 'e \<Rightarrow> unit res \<times> 'e" where
  "client_Watch E e = res_wrap ''error connecting to etcd'' (NewConnection E e)"

definition ro_Init ::
  "'e etcd \<Rightarrow> 'a codec \<Rightarrow> 'a lo_fns \<Rightarrow> ('a \<Rightarrow> 'a \<Rightarrow> bool) \<Rightarrow> 'a storeBase \<Rightarrow> 'e \<Rightarrow> ('a, 'e) store_result"
where
  "ro_Init E C L Equals s e =
     (case ro_sync E C L Equals s False e of
        ((Ok _, _), s, e) \<Rightarrow>
          finish_op (res_wrap ''ReadOnlyStore: couldn't start watcher'' (client_Watch E e)) s []
      | ((Err er, _), s, e) \<Rightarrow> ((Err (WithMessage er ''Error performing initial sync''), []), s, e)
      | ((Panic, _), s, e) \<Rightarrow> ((Panic, []), s, e))"

datatype watch_event = PutEvent KeyValue | DeleteEvent string

definition ro_watchEvent ::
  "'a codec \<Rightarrow> ('a \<Rightarrow> 'a \<Rightarrow> bool) \<Rightarrow> string \<Rightarrow> 'a storeBase \<Rightarrow> watch_event \<Rightarrow>
   'a storeBase \<times> 'a handler_call list"
where
  "ro_watchEvent C Equals p s ev =
     (case ev of
        PutEvent kv \<Rightarrow>
          (case parseItem C p kv of
             ParseError _ \<Rightarrow> (s, [])
           | Ignored \<Rightarrow> (s, [])
           | Parsed itemID item \<Rightarrow>
               let previousItem = map_of (sb_data s) itemID;
                   s = s\<lparr>sb_data := gomap_set (sb_data s) itemID item\<rparr>
               in (s, invokeAddOrChangedHandler Equals s itemID previousItem item))
      | DeleteEvent key \<Rightarrow>
          let itemID = TrimPrefix key (GetKey (sb_client s) [] @ ''/'');
              previousItem = map_of (sb_data s) itemID;
              s = s\<lparr>sb_data := gomap_delete (sb_data s) itemID\<rparr>
          in (s, case previousItem of
                   Some previous \<Rightarrow>
                     if has_OnRemoved (sb_handlers s)
                     then [OnRemoved [\<lparr>it_ID = itemID, it_Value = previous\<rparr>]] else []
                 | None \<Rightarrow> []))"

fun ro_watchEventHandler ::
  "'a codec \<Rightarrow> ('a \<Rightarrow> 'a \<Rightarrow> bool) \<Rightarrow> string \<Rightarrow> 'a storeBase \<Rightarrow> watch_event list \<Rightarrow>
   'a storeBase \<times> 'a handler_call list"
where
  "ro_watchEventHandler C Equals p s [] = (s, [])"
| "ro_watchEventHandler C Equals p s (ev # evs) =
     (case ro_watchEvent C Equals p s ev of (s, calls) \<Rightarrow>
        case ro_watchEventHandler C Equals p s evs of (s, calls') \<Rightarrow> (s, calls @ calls'))"

section \<open>Keys of items\<close>

text \<open>The items of a store are the keys with one part below the prefix of its client.\<close>

definition simple_id :: "string \<Rightarrow> bool" where
  "simple_id i \<longleftrightarrow> CHR ''/'' \<notin> set i"

lemma parseItem_key:
  assumes "t = [] \<or> hd t \<noteq> CHR ''/''"
  shows "parseItem C (prefix c) \<lparr>kv_Key = prefix c @ CHR ''/'' # t, kv_Value = v\<rparr> =
    (if simple_id t then (case Unmarshal C v of None \<Rightarrow> ParseError t | Some x \<Rightarrow> Parsed t x)
     else Ignored)"
proof -
  have "TrimLeft CHR ''/'' (TrimPrefix (prefix c @ CHR ''/'' # t) (prefix c)) = t"
    using assms by (simp add: TrimLeft_id)
  then show ?thesis
    by (cases "simple_id t") (simp_all add: parseItem_def Let_def simple_id_def split_on_free
        split_on_single_iff del: One_nat_def cong: option.case_cong)
qed

lemma parseItem_item:
  "simple_id i \<Longrightarrow> parseItem C (prefix c) \<lparr>kv_Key = GetKey c [i], kv_Value = v\<rparr> =
    (case Unmarshal C v of None \<Rightarrow> ParseError i | Some x \<Rightarrow> Parsed i x)"
  by (cases i) (auto simp: parseItem_key simple_id_def)

text \<open>The items that a store's keys in etcd stand for.\<close>

definition decoded :: "'a codec \<Rightarrow> etcdClient \<Rightarrow> kv_view \<Rightarrow> string \<rightharpoonup> 'a" where
  "decoded C c m i = (if simple_id i then Option.bind (m (GetKey c [i])) (Unmarshal C) else None)"

lemma parsed_entry_wf:
  assumes "wf_keys (prefix c) m" "m k = Some v" "HasPrefix k (prefix c)"
  shows "parsed_entry (parseItem C (prefix c) \<lparr>kv_Key = k, kv_Value = v\<rparr>) = Some (i, x) \<longleftrightarrow>
    simple_id i \<and> k = GetKey c [i] \<and> Unmarshal C v = Some x"
proof -
  obtain t where t: "k = prefix c @ CHR ''/'' # t" "t = [] \<or> hd t \<noteq> CHR ''/''"
    using assms by (auto simp: wf_keys_def)
  show ?thesis
    unfolding t(1) parseItem_key [OF t(2)]
    by (auto simp: parsed_entry_def split: option.splits)
qed

lemma kv_listingD:
  "kv_listing m p kvs \<Longrightarrow> kv \<in> set kvs \<longleftrightarrow> m (kv_Key kv) = Some (kv_Value kv) \<and> HasPrefix (kv_Key kv) p"
  by (cases kv) (auto simp: kv_listing_def)

lemma collect_decoded:
  assumes l: "kv_listing m (prefix c) kvs" and wf: "wf_keys (prefix c) m"
  shows "map_of (gomap_collect (\<lambda>kv. parsed_entry (parseItem C (prefix c) kv)) kvs) = decoded C c m"
proof -
  let ?f = "\<lambda>kv. parsed_entry (parseItem C (prefix c) kv)"
  have f: "?f kv = Some (i, x) \<longleftrightarrow>
      simple_id i \<and> kv_Key kv = GetKey c [i] \<and> Unmarshal C (kv_Value kv) = Some x"
    if "kv \<in> set kvs" for kv i x
    using parsed_entry_wf [OF wf, of "kv_Key kv" "kv_Value kv" C i x] kv_listingD [OF l, of kv] that
    by (cases kv) simp
  have "map_of (gomap_collect ?f kvs) i = Some x \<longleftrightarrow> decoded C c m i = Some x" for i x
  proof -
    have "map_of (gomap_collect ?f kvs) i = Some x \<longleftrightarrow> (\<exists>kv \<in> set kvs. ?f kv = Some (i, x))"
    proof (rule gomap_collect_iff)
      fix a b j v w
      assume *: "a \<in> set kvs" "b \<in> set kvs" "?f a = Some (j, v)" "?f b = Some (j, w)"
      then have "kv_Key a = kv_Key b" using f [of a j v] f [of b j w] by simp
      then have "kv_Value a = kv_Value b"
        using * kv_listingD [OF l, of a] kv_listingD [OF l, of b] by simp
      then show "v = w" using * f [of a j v] f [of b j w] by simp
    qed
    also have "\<dots> \<longleftrightarrow> (simple_id i \<and> (\<exists>v. m (GetKey c [i]) = Some v \<and> Unmarshal C v = Some x))"
    proof
      assume "\<exists>kv \<in> set kvs. ?f kv = Some (i, x)"
      then obtain kv where "kv \<in> set kvs" "?f kv = Some (i, x)" by blast
      then show "simple_id i \<and> (\<exists>v. m (GetKey c [i]) = Some v \<and> Unmarshal C v = Some x)"
        using f [of kv i x] kv_listingD [OF l, of kv] by auto
    next
      assume "simple_id i \<and> (\<exists>v. m (GetKey c [i]) = Some v \<and> Unmarshal C v = Some x)"
      then obtain v where v: "simple_id i" "m (GetKey c [i]) = Some v" "Unmarshal C v = Some x" by blast
      let ?kv = "\<lparr>kv_Key = GetKey c [i], kv_Value = v\<rparr>"
      have "?kv \<in> set kvs" using kv_listingD [OF l, of ?kv] v by (simp add: HasPrefix_def)
      then show "\<exists>kv \<in> set kvs. ?f kv = Some (i, x)" using f [of ?kv i x] v by auto
    qed
    finally show ?thesis by (auto simp: decoded_def bind_eq_Some_conv)
  qed
  then show ?thesis by (metis (no_types, lifting) ext not_Some_eq)
qed

section \<open>Writing\<close>

definition encode_all :: "'a codec \<Rightarrow> etcdClient \<Rightarrow> (string \<times> 'a) list \<Rightarrow> kv_view \<Rightarrow> kv_view" where
  "encode_all C c items m = fold (\<lambda>(i, x) m. m(GetKey c [i] \<mapsto> the (Marshal C x))) items m"

definition remove_all_items :: "etcdClient \<Rightarrow> string list \<Rightarrow> kv_view \<Rightarrow> kv_view" where
  "remove_all_items c ids m = fold (\<lambda>i m. m(GetKey c [i] := None)) ids m"

lemma remove_all_items_apply:
  "remove_all_items c ids m k = (if k \<in> (\<lambda>i. GetKey c [i]) ` set ids then None else m k)"
  unfolding remove_all_items_def by (induction ids arbitrary: m) auto

lemma encode_all_other: "\<forall>i. k \<noteq> GetKey c [i] \<Longrightarrow> encode_all C c items m k = m k"
  unfolding encode_all_def by (induction items arbitrary: m) (auto split: prod.splits)

lemma encode_all_item:
  "gomap_ok items \<Longrightarrow> encode_all C c items m (GetKey c [i]) =
    (case map_of items i of None \<Rightarrow> m (GetKey c [i]) | Some x \<Rightarrow> Some (the (Marshal C x)))"
proof (induction items arbitrary: m)
  case (Cons jx items)
  obtain j x where jx: "jx = (j, x)" by force
  have ok: "gomap_ok items" and j: "map_of items j = None"
    using Cons.prems by (auto simp: jx gomap_ok_def map_of_eq_None_iff)
  have "encode_all C c (jx # items) m = encode_all C c items (m(GetKey c [j] \<mapsto> the (Marshal C x)))"
    by (simp add: encode_all_def jx)
  then show ?case using Cons.IH [OF ok] j by (auto simp: jx split: option.splits)
qed (simp add: encode_all_def)

context etcd_service
begin

lemma loadData_Ok:
  assumes "loadData E C c e = (Ok d, e')" "wf_keys (prefix c) (view e)"
  shows "map_of d = decoded C c (view e) \<and> gomap_ok d \<and> view e' = view e"
proof -
  obtain kvs where g: "GetPrefix E (prefix c) e = (Ok kvs, e')"
    and d: "d = gomap_collect (\<lambda>kv. parsed_entry (parseItem C (prefix c) kv)) kvs"
    using assms(1) by (auto simp: loadData_def res_bind_Ok_iff Let_def)
  show ?thesis
    using collect_decoded [OF GetPrefix_Ok [OF g] assms(2)] GetPrefix_view [of "prefix c" e] g
    by (simp add: d)
qed

lemma loadData_view: "view (snd (loadData E C c e)) = view e"
proof (cases "GetPrefix E (prefix c) e")
  case (Pair r e1)
  then show ?thesis using GetPrefix_view [of "prefix c" e] by (cases r) (auto simp: loadData_def)
qed

lemma storeItem_Ok:
  assumes "storeItem E C c i x e = (Ok b, e')"
  shows "view e' = (view e)(GetKey c [i] \<mapsto> the (Marshal C x))"
  using assms PutIfNewOrChanged_Ok [of "GetKey c [i]" _ e b e']
  by (auto simp: storeItem_def split: option.splits)

lemma storeItems_Ok:
  "storeItems E C c items e = (Ok u, e') \<Longrightarrow> view e' = encode_all C c items (view e)"
proof (induction items arbitrary: e)
  case (Cons ix items)
  obtain i x where ix: "ix = (i, x)" by force
  obtain b e1 where s: "storeItem E C c i x e = (Ok b, e1)" "storeItems E C c items e1 = (Ok u, e')"
    using Cons.prems by (auto simp: ix res_bind_Ok_iff)
  show ?case unfolding Cons.IH [OF s(2)] storeItem_Ok [OF s(1)] by (simp add: ix encode_all_def)
qed (simp add: encode_all_def)

lemma deleteItems_Ok:
  "deleteItems E c ids e = (Ok u, e') \<Longrightarrow> view e' = remove_all_items c ids (view e)"
proof (induction ids arbitrary: e)
  case (Cons i ids)
  obtain v e1 where d: "Delete E (GetKey c [i]) e = (Ok v, e1)" "deleteItems E c ids e1 = (Ok u, e')"
    using Cons.prems by (auto simp: res_bind_Ok_iff)
  show ?case unfolding Cons.IH [OF d(2)] Delete_Ok [OF d(1)] by (simp add: remove_all_items_def)
qed (simp add: remove_all_items_def)

text \<open>After a successful synchronisation the keys of the store hold exactly the items; values
  that cannot be parsed stay where they are.\<close>

lemma wo_sync_etcd_Ok:
  assumes sync: "wo_sync_etcd E C L c items e = (Ok u, e')"
    and law: "lo_law L" and ok: "gomap_ok items" and wf: "wf_keys (prefix c) (view e)"
  shows "simple_id i \<Longrightarrow> view e' (GetKey c [i]) =
      (case map_of items i of
         Some x \<Rightarrow> Some (the (Marshal C x))
       | None \<Rightarrow> if decoded C c (view e) i = None then view e (GetKey c [i]) else None)"
    and "\<forall>i. k \<noteq> GetKey c [i] \<Longrightarrow> view e' k = view e k"
    and "map_of items i = None \<Longrightarrow> view e (GetKey c [i]) = None \<Longrightarrow> view e' (GetKey c [i]) = None"
proof -
  obtain d e1 e2 where l: "loadData E C c e = (Ok d, e1)"
    and s: "storeItems E C c items e1 = (Ok (), e2)"
    and del: "deleteItems E c (fst (lo_Difference L (lo_Keys L d) (lo_Keys L items))) e2 = (Ok u, e')"
    using sync by (auto simp: wo_sync_etcd_def res_bind_Ok_iff Let_def)
  let ?del = "fst (lo_Difference L (lo_Keys L d) (lo_Keys L items))"
  have mem: "i \<in> set ?del \<longleftrightarrow> decoded C c (view e) i \<noteq> None \<and> map_of items i = None" for i
    using law loadData_Ok [OF l wf] by (auto simp: lo_law_def lo_Difference_law_def)
  have v: "view e' = remove_all_items c ?del (encode_all C c items (view e))"
    using storeItems_Ok [OF s] deleteItems_Ok [OF del] loadData_Ok [OF l wf] by simp
  show "simple_id i \<Longrightarrow> view e' (GetKey c [i]) =
      (case map_of items i of
         Some x \<Rightarrow> Some (the (Marshal C x))
       | None \<Rightarrow> if decoded C c (view e) i = None then view e (GetKey c [i]) else None)"
    using mem [of i] encode_all_item [OF ok]
    by (auto simp: v remove_all_items_apply image_iff split: option.splits)
  show "\<forall>i. k \<noteq> GetKey c [i] \<Longrightarrow> view e' k = view e k"
    using encode_all_other [of k c] by (auto simp: v remove_all_items_apply)
  show "map_of items i = None \<Longrightarrow> view e (GetKey c [i]) = None \<Longrightarrow> view e' (GetKey c [i]) = None"
    using encode_all_item [OF ok, of C c "view e" i] by (simp add: v remove_all_items_apply)
qed

lemma wo_sync_etcd_decoded:
  assumes sync: "wo_sync_etcd E C L c items e = (Ok u, e')"
    and law: "lo_law L" "codec_law C" and ok: "gomap_ok items" "\<forall>i \<in> dom (map_of items). simple_id i"
    and wf: "wf_keys (prefix c) (view e)"
  shows "decoded C c (view e') = map_of items" "wf_keys (prefix c) (view e')"
proof -
  note v = wo_sync_etcd_Ok [OF sync law(1) ok(1) wf]
  show "decoded C c (view e') = map_of items"
  proof
    fix i
    show "decoded C c (view e') i = map_of items i"
    proof (cases "simple_id i")
      case False
      then have "map_of items i = None" using ok(2) by blast
      then show ?thesis using False by (simp add: decoded_def)
    next
      case True
      have "Unmarshal C (the (Marshal C x)) = Some x" for x
        using law(2) by (metis codec_law_def option.sel)
      then show ?thesis
        using True v(1) [OF True] by (cases "map_of items i") (auto simp: decoded_def)
    qed
  qed
  show "wf_keys (prefix c) (view e')"
    unfolding wf_keys_def
  proof (intro allI impI)
    fix k w
    assume k: "view e' k = Some w" "HasPrefix k (prefix c)"
    show "\<exists>t. k = prefix c @ CHR ''/'' # t \<and> (t = [] \<or> hd t \<noteq> CHR ''/'')"
    proof (cases "view e k")
      case (Some w')
      then show ?thesis using wf k(2) by (auto simp: wf_keys_def)
    next
      case None
      then obtain i where i: "k = GetKey c [i]" using v(2) [of k] k(1) by auto
      have "i \<in> dom (map_of items)" using v(3) [of i] k(1) None i by auto
      then have "simple_id i" using ok(2) by blast
      then show ?thesis using i by (cases i) (auto simp: simple_id_def)
    qed
  qed
qed

end

context etcd_reliable
begin

lemma loadData_run: "\<exists>d e'. loadData E C c e = (Ok d, e')"
  using GetPrefix_ok [of "prefix c" e] by (auto simp: loadData_def Let_def)

lemma storeItem_run: "Marshal C x = Some v \<Longrightarrow> \<exists>b e'. storeItem E C c i x e = (Ok b, e')"
  using PutIfNewOrChanged_run [of "GetKey c [i]" v e] by (auto simp: storeItem_def)

lemma storeItems_run: "codec_law C \<Longrightarrow> \<exists>e'. storeItems E C c items e = (Ok (), e')"
proof (induction items arbitrary: e)
  case (Cons ix items)
  obtain i x where ix: "ix = (i, x)" by force
  obtain v where "Marshal C x = Some v" using Cons.prems unfolding codec_law_def by blast
  from storeItem_run [OF this, of c i e] obtain b e1 where "storeItem E C c i x e = (Ok b, e1)" by auto
  then show ?case using Cons.IH [OF Cons.prems, of e1] by (simp add: ix)
qed simp

lemma deleteItems_run: "\<exists>e'. deleteItems E c ids e = (Ok (), e')"
proof (induction ids arbitrary: e)
  case (Cons i ids)
  obtain u e1 where "Delete E (GetKey c [i]) e = (Ok u, e1)" using Delete_ok by blast
  then show ?case using Cons.IH [of e1] by simp
qed simp

lemma wo_sync_etcd_run: "codec_law C \<Longrightarrow> \<exists>e'. wo_sync_etcd E C L c items e = (Ok (), e')"
proof -
  assume C: "codec_law C"
  obtain d e1 where 1: "loadData E C c e = (Ok d, e1)" using loadData_run by blast
  obtain e2 where 2: "storeItems E C c items e1 = (Ok (), e2)" using storeItems_run [OF C] by blast
  show ?thesis
    using 1 2 deleteItems_run [of c "fst (lo_Difference L (lo_Keys L d) (lo_Keys L items))" e2]
    by (auto simp: wo_sync_etcd_def Let_def)
qed

lemma WithConnection_Ok_run:
  "(\<And>e. \<exists>a e'. fn e = (Ok a, e')) \<Longrightarrow> \<exists>a e'. WithConnection E fn e = (Ok a, e')"
  using WithConnection_run [of fn e "fst (WithConnection E fn e)" "snd (WithConnection E fn e)"]
  by (metis fst_conv prod.collapse)

lemma wo_sync_run:
  "codec_law C \<Longrightarrow> \<exists>calls s' e'. wo_sync E C L Equals s items h e = ((Ok (), calls), s', e')"
  using WithConnection_Ok_run [of "wo_sync_etcd E C L (sb_client s) items" e]
    wo_sync_etcd_run [of C L "sb_client s" items]
  by (fastforce simp: wo_sync_def syncToInternalState_def Let_def finish_op_def)

lemma wo_InitFromEtcd_run:
  "\<exists>s' e'. wo_InitFromEtcd E C s e = ((Ok (), []), s', e')"
  using WithConnection_Ok_run [of "loadData E C (sb_client s)" e] loadData_run [of C "sb_client s"]
  by (fastforce simp: wo_InitFromEtcd_def)

end

context etcd_service
begin

lemma wo_sync_Ok:
  assumes "wo_sync E C L Equals s items h e = ((Ok (), calls), s', e')"
  shows "s' = s\<lparr>sb_data := items\<rparr>
    \<and> (\<exists>e1 e2. view e1 = view e \<and> wo_sync_etcd E C L (sb_client s) items e1 = (Ok (), e2)
        \<and> view e' = view e2)"
proof -
  have w: "WithConnection E (wo_sync_etcd E C L (sb_client s) items) e = (Ok (), e')"
    and s': "s' = s\<lparr>sb_data := items\<rparr>"
    using assms by (auto simp: wo_sync_def syncToInternalState_def Let_def finish_op_def
        split: prod.splits res.splits)
  from WithConnection_Ok [OF w] s' show ?thesis by blast
qed

lemma wo_InitFromEtcd_Ok:
  assumes "wo_InitFromEtcd E C s e = ((Ok (), calls), s', e')" "wf_keys (prefix (sb_client s)) (view e)"
  shows "map_of (sb_data s') = decoded C (sb_client s) (view e)"
proof -
  obtain d where w: "WithConnection E (loadData E C (sb_client s)) e = (Ok d, e')"
    and s': "s' = s\<lparr>sb_data := d\<rparr>"
    using assms(1) by (auto simp: wo_InitFromEtcd_def split: prod.splits res.splits)
  obtain e1 e2 where "view e1 = view e" "loadData E C (sb_client s) e1 = (Ok d, e2)"
    using WithConnection_Ok [OF w] by blast
  then show ?thesis using loadData_Ok [of C "sb_client s" e1 d e2] assms(2) s' by simp
qed

end

section \<open>The difference of two states\<close>

lemma mem_changes:
  assumes "gomap_ok truth"
  shows "ch \<in> set (fst (fst (syncToInternalState L Equals s truth))) \<longleftrightarrow>
    map_of (sb_data s) (ch_ID ch) = Some (ch_Previous ch)
    \<and> map_of truth (ch_ID ch) = Some (ch_Current ch) \<and> \<not> Equals (ch_Previous ch) (ch_Current ch)"
  using gomap_mem_iff [OF assms]
  by (cases ch) (fastforce simp: syncToInternalState_def Let_def split: option.splits if_splits)

lemma mem_added:
  assumes "gomap_ok truth"
  shows "it \<in> set (fst (snd (fst (syncToInternalState L Equals s truth)))) \<longleftrightarrow>
    map_of (sb_data s) (it_ID it) = None \<and> map_of truth (it_ID it) = Some (it_Value it)"
  using gomap_mem_iff [OF assms]
  by (cases it) (fastforce simp: syncToInternalState_def Let_def split: option.splits if_splits)

lemma mem_removed:
  assumes "lo_law L"
  shows "it \<in> set (snd (snd (fst (syncToInternalState L Equals s truth)))) \<longleftrightarrow>
    map_of (sb_data s) (it_ID it) = Some (it_Value it) \<and> map_of truth (it_ID it) = None"
  using assms
  by (cases it) (force simp: syncToInternalState_def Let_def lo_law_def lo_Difference_law_def image_iff)

lemma it_ID_image:
  fixes A :: "'a Item set"
  assumes "\<And>it. it \<in> A \<longleftrightarrow> P (it_ID it) \<and> m (it_ID it) = Some (it_Value it)"
  shows "it_ID ` A = {i. P i} \<inter> dom m"
proof (rule set_eqI, rule iffI)
  fix i
  assume "i \<in> {i. P i} \<inter> dom m"
  then obtain x where "P i" "m i = Some x" by blast
  then show "i \<in> it_ID ` A" by (intro image_eqI [of _ _ "\<lparr>it_ID = i, it_Value = x\<rparr>"]) (simp_all add: assms)
qed (auto simp: assms)

section \<open>Contract\<close>

text \<open>In memory a store is a dictionary, whatever etcd answers.\<close>

definition store_ok :: "'a storeBase \<Rightarrow> bool" where
  "store_ok s \<longleftrightarrow> gomap_ok (sb_data s)"

lemma finish_op_store [simp]: "fst (snd (finish_op r s calls)) = s"
  by (auto simp: finish_op_def split: prod.splits res.splits)

lemma wo_AddOrUpdateItem_data [simp]:
  "fst (snd (wo_AddOrUpdateItem E C Equals s i x e)) = s\<lparr>sb_data := gomap_set (sb_data s) i x\<rparr>"
  by (simp add: wo_AddOrUpdateItem_def Let_def)

lemma wo_DeleteItem_data [simp]:
  "fst (snd (wo_DeleteItem E s i e)) = s\<lparr>sb_data := gomap_delete (sb_data s) i\<rparr>"
  by (simp add: wo_DeleteItem_def Let_def)

interpretation wo: dictionary "NewStore client h" GetItem
  "\<lambda>s i x. fst (snd (wo_AddOrUpdateItem E C Equals s i x e))"
  "\<lambda>s i. fst (snd (wo_DeleteItem E s i e))" "\<lambda>s. map fst (GetAll s)" store_ok
  for client h E C Equals e
  by unfold_locales (auto simp: NewStore_def GetItem_def GetAll_def store_ok_def fun_eq_iff
      dom_map_of_conv_image_fst gomap_ok_def distinct_update distinct_delete intro: rev_image_eqI)

section \<open>Watching\<close>

text \<open>The events etcd sends are the changes of its store, in order.\<close>

fun apply_event :: "watch_event \<Rightarrow> kv_view \<Rightarrow> kv_view" where
  "apply_event (PutEvent kv) m = m(kv_Key kv \<mapsto> kv_Value kv)"
| "apply_event (DeleteEvent k) m = m(k := None)"

fun event_key :: "watch_event \<Rightarrow> string" where
  "event_key (PutEvent kv) = kv_Key kv"
| "event_key (DeleteEvent k) = k"

text \<open>An event for an item: a key with one part, and a value the codec can read.\<close>

fun item_event :: "'a codec \<Rightarrow> etcdClient \<Rightarrow> watch_event \<Rightarrow> bool" where
  "item_event C c (PutEvent kv) \<longleftrightarrow> Unmarshal C (kv_Value kv) \<noteq> None
     \<and> HasPrefix (kv_Key kv) (prefix c @ ''/'') \<and> simple_id (TrimPrefix (kv_Key kv) (prefix c @ ''/''))"
| "item_event C c (DeleteEvent k) \<longleftrightarrow>
     HasPrefix k (prefix c @ ''/'') \<and> simple_id (TrimPrefix k (prefix c @ ''/''))"

lemma item_event_key: "item_event C c ev \<Longrightarrow> \<exists>i. simple_id i \<and> event_key ev = GetKey c [i]"
  by (cases ev) (auto simp: HasPrefix_iff TrimPrefix_def)

lemma ro_watchEvent_data:
  assumes "item_event C (sb_client s) ev" "map_of (sb_data s) = decoded C (sb_client s) m"
  shows "map_of (sb_data (fst (ro_watchEvent C Equals (prefix (sb_client s)) s ev))) =
      decoded C (sb_client s) (apply_event ev m)
    \<and> sb_client (fst (ro_watchEvent C Equals (prefix (sb_client s)) s ev)) = sb_client s"
proof -
  obtain i where i: "simple_id i" "event_key ev = GetKey (sb_client s) [i]"
    using item_event_key [OF assms(1)] by blast
  show ?thesis
  proof (cases ev)
    case (PutEvent kv)
    obtain x where x: "Unmarshal C (kv_Value kv) = Some x" using assms(1) PutEvent by auto
    have "parseItem C (prefix (sb_client s)) kv = Parsed i x"
      using parseItem_item [OF i(1), of C "sb_client s" "kv_Value kv"] i(2) PutEvent x
      by (cases kv) simp
    then show ?thesis
      using PutEvent i x assms(2) by (auto simp: ro_watchEvent_def Let_def decoded_def fun_eq_iff)
  next
    case (DeleteEvent k)
    have "TrimPrefix k (prefix (sb_client s) @ ''/'') = i"
      using i(2) DeleteEvent TrimPrefix_append [of "prefix (sb_client s) @ ''/''" i] by simp
    then show ?thesis
      using DeleteEvent i assms(2) by (auto simp: ro_watchEvent_def Let_def decoded_def fun_eq_iff)
  qed
qed

lemma ro_watchEventHandler_data:
  "list_all (item_event C (sb_client s)) evs \<Longrightarrow> map_of (sb_data s) = decoded C (sb_client s) m \<Longrightarrow>
   map_of (sb_data (fst (ro_watchEventHandler C Equals (prefix (sb_client s)) s evs))) =
     decoded C (sb_client s) (fold apply_event evs m)"
proof (induction evs arbitrary: s m)
  case (Cons ev evs)
  obtain s1 calls where s1: "ro_watchEvent C Equals (prefix (sb_client s)) s ev = (s1, calls)" by force
  have d: "map_of (sb_data s1) = decoded C (sb_client s1) (apply_event ev m)" "sb_client s1 = sb_client s"
    using ro_watchEvent_data [of C s ev m Equals] Cons.prems s1 by auto
  have "fst (ro_watchEventHandler C Equals (prefix (sb_client s)) s (ev # evs)) =
      fst (ro_watchEventHandler C Equals (prefix (sb_client s1)) s1 evs)"
    by (simp add: s1 d(2) split: prod.splits)
  then show ?case using Cons.IH [of s1 "apply_event ev m"] Cons.prems(1) d by simp
qed simp

section \<open>Properties\<close>

text \<open>A codec that satisfies the law, to apply the properties to: strings in double quotes.\<close>

text \<open>A text format: every field with its length in unary before it.\<close>

definition enc_fields :: "string list \<Rightarrow> string" where
  "enc_fields xs = concat (map (\<lambda>s. replicate (length s) CHR ''#'' @ CHR '':'' # s) xs)"

fun dec_fields :: "nat \<Rightarrow> string \<Rightarrow> string list" where
  "dec_fields 0 _ = []"
| "dec_fields (Suc n) t =
     (if t = [] then []
      else let l = length (takeWhile (\<lambda>c. c = CHR ''#'') t); rest = drop (Suc l) t
           in take l rest # dec_fields n (drop l rest))"

lemma dec_enc_fields: "length xs \<le> n \<Longrightarrow> dec_fields n (enc_fields xs) = xs"
proof (induction xs arbitrary: n)
  case Nil
  then show ?case by (cases n) (simp_all add: enc_fields_def)
next
  case (Cons x xs)
  then obtain m where n: "n = Suc m" by (cases n) auto
  have tw: "takeWhile (\<lambda>c. c = CHR ''#'') (replicate k CHR ''#'' @ CHR '':'' # t) = replicate k CHR ''#''" for k t
    by (induction k) auto
  have "enc_fields (x # xs) = replicate (length x) CHR ''#'' @ CHR '':'' # x @ enc_fields xs"
    by (simp add: enc_fields_def)
  then show ?case using Cons by (simp add: n tw Let_def)
qed

lemma length_enc_fields: "length xs \<le> length (enc_fields xs)"
  by (induction xs) (auto simp: enc_fields_def)

definition dec :: "string \<Rightarrow> string list" where
  "dec t = dec_fields (length t) t"

lemma dec_enc [simp]: "dec (enc_fields xs) = xs"
  by (simp add: dec_def dec_enc_fields length_enc_fields)

definition enc_ip :: "net_ip \<Rightarrow> string" where
  "enc_ip ip = map (\<lambda>b. char_of (unat b)) ip"

definition dec_ip :: "string \<Rightarrow> net_ip" where
  "dec_ip t = map (\<lambda>c. word_of_nat (of_char c)) t"

lemma dec_enc_ip [simp]: "dec_ip (enc_ip ip) = ip"
proof -
  have "word_of_nat (of_char (char_of (unat b))) = b" for b :: byte
    using unsigned_less [of b, where 'a = nat] by (simp add: of_char_of)
  then show ?thesis by (simp add: dec_ip_def enc_ip_def comp_def)
qed

definition enc_map :: "('v \<Rightarrow> string) \<Rightarrow> (string, 'v) gomap \<Rightarrow> string" where
  "enc_map f m = enc_fields (map (\<lambda>(k, v). enc_fields [k, f v]) m)"

definition dec_map :: "(string \<Rightarrow> 'v) \<Rightarrow> string \<Rightarrow> (string, 'v) gomap" where
  "dec_map g t = map (\<lambda>u. (dec u ! 0, g (dec u ! 1))) (dec t)"

lemma dec_enc_map: "(\<And>v. g (f v) = v) \<Longrightarrow> dec_map g (enc_map f m) = m"
  by (simp add: dec_map_def enc_map_def comp_def case_prod_beta)

definition codec_of :: "('a \<Rightarrow> string list) \<Rightarrow> (string list \<Rightarrow> 'a) \<Rightarrow> 'a codec" where
  "codec_of f g = \<lparr>Marshal = \<lambda>x. Some (enc_fields (f x)), Unmarshal = \<lambda>t. Some (g (dec t))\<rparr>"

lemma codec_of_law: "(\<And>x. g (f x) = x) \<Longrightarrow> codec_law (codec_of f g)"
  by (simp add: codec_law_def codec_of_def)

definition quote_codec :: "string codec" where
  "quote_codec = \<lparr>Marshal = \<lambda>x. Some (CHR 0x22 # x @ [CHR 0x22]),
     Unmarshal = \<lambda>v. if length v \<ge> 2 \<and> hd v = CHR 0x22 \<and> last v = CHR 0x22
       then Some (butlast (tl v)) else None\<rparr>"

lemma quote_codec_law: "codec_law quote_codec"
  by (simp add: codec_law_def quote_codec_def)

text \<open>
  After a successful \<open>Sync\<close> of a write-only store the memory holds the given items, and so do
  their keys in etcd; an item that was in etcd and is not among them is gone; values in etcd that
  cannot be parsed, and all other keys, are untouched.
\<close>

theorem wo_Sync_exact:
  assumes "etcd_service E view" "lo_law L" "codec_law C" "gomap_ok items"
    "wf_keys (prefix (sb_client s)) (view e)"
    "wo_Sync E C L Equals s items e = ((Ok (), calls), s', e')"
  shows "sb_data s' = items
    \<and> (\<forall>i. simple_id i \<longrightarrow> view e' (GetKey (sb_client s) [i]) =
         (case map_of items i of
            Some x \<Rightarrow> Marshal C x
          | None \<Rightarrow> if decoded C (sb_client s) (view e) i = None
                    then view e (GetKey (sb_client s) [i]) else None))
    \<and> (\<forall>k. (\<forall>i. k \<noteq> GetKey (sb_client s) [i]) \<longrightarrow> view e' k = view e k)"
proof -
  obtain e1 e2 where *: "s' = s\<lparr>sb_data := items\<rparr>" "view e1 = view e" "view e' = view e2"
    "wo_sync_etcd E C L (sb_client s) items e1 = (Ok (), e2)"
    using etcd_service.wo_sync_Ok [OF assms(1)] assms(6) unfolding wo_Sync_def by blast
  have M: "Some (the (Marshal C x)) = Marshal C x" for x
    using assms(3) by (metis codec_law_def option.sel)
  have wf: "wf_keys (prefix (sb_client s)) (view e1)" using assms(5) *(2) by simp
  show ?thesis
    using etcd_service.wo_sync_etcd_Ok(1,2) [OF assms(1) *(4) assms(2,4) wf]
    unfolding M *(2,3) using *(1) by simp
qed

lemma wo_Sync_exact_witness:
  "let c = NewEtcdClient [] 5 ''/s''; st = NewStore c \<lparr>has_OnChanged = True, has_OnAdded = True, has_OnRemoved = True\<rparr>;
       e' = snd (snd (wo_Sync mem_etcd quote_codec lo_ref (=) st [(''a'', ''1'')]
              [(''/s/b'', [CHR 0x22, CHR 0x22]), (''/s/c'', ''?'')]))
   in map_of e' ''/s/a'' = Some [CHR 0x22, CHR ''1'', CHR 0x22] \<and> map_of e' ''/s/b'' = None
      \<and> map_of e' ''/s/c'' = Some ''?''"
proof -
  let ?c = "NewEtcdClient [] 5 ''/s''"
  let ?st = "NewStore ?c \<lparr>has_OnChanged = True, has_OnAdded = True, has_OnRemoved = True\<rparr> :: string storeBase"
  let ?e = "[(''/s/b'', [CHR 0x22, CHR 0x22]), (''/s/c'', ''?'')]"
  let ?r = "wo_Sync mem_etcd quote_codec lo_ref (=) ?st [(''a'', ''1'')] ?e"
  have c: "sb_client ?st = ?c" "prefix ?c = ''/s''"
    by (simp_all add: NewStore_def NewEtcdClient_def TrimRight_def)
  have wf: "wf_keys (prefix (sb_client ?st)) (map_of ?e)"
    unfolding wf_keys_def c by (auto split: if_splits)
  obtain calls s' e' where r: "?r = ((Ok (), calls), s', e')"
    unfolding wo_Sync_def using mem.wo_sync_run [OF quote_codec_law] by blast
  have dec: "decoded quote_codec ?c (map_of ?e) ''b'' = Some []"
    "decoded quote_codec ?c (map_of ?e) ''c'' = None"
    by (simp_all add: decoded_def simple_id_def c quote_codec_def)
  have "gomap_ok [(''a'', ''1'')]" by (simp add: gomap_ok_def)
  note th = wo_Sync_exact [OF mem.etcd_service_axioms lo_ref_law quote_codec_law this wf r]
  have ids: "simple_id ''a''" "simple_id ''b''" "simple_id ''c''" by (simp_all add: simple_id_def)
  have "map_of e' ''/s/a'' = Some [CHR 0x22, CHR ''1'', CHR 0x22]"
    "map_of e' ''/s/b'' = None" "map_of e' ''/s/c'' = Some ''?''"
    using th [THEN conjunct2, THEN conjunct1, rule_format, OF ids(1)]
      th [THEN conjunct2, THEN conjunct1, rule_format, OF ids(2)]
      th [THEN conjunct2, THEN conjunct1, rule_format, OF ids(3)] dec
    by (simp_all add: c quote_codec_def)
  then show ?thesis by (simp add: Let_def r)
qed

text \<open>
  What a write-only store has synchronised to a reliable etcd is what any store with the
  same prefix loads from it: \<open>Sync\<close> succeeds, \<open>InitFromEtcd\<close> afterwards succeeds, and it restores
  exactly the items.
\<close>

theorem wo_Sync_InitFromEtcd:
  assumes "etcd_reliable E view" "lo_law L" "codec_law C" "gomap_ok items"
    "\<forall>i \<in> dom (map_of items). simple_id i" "wf_keys (prefix (sb_client s)) (view e)"
    "sb_client t = sb_client s"
  shows "\<exists>calls s' e' calls' t' e''. wo_Sync E C L Equals s items e = ((Ok (), calls), s', e')
    \<and> wo_InitFromEtcd E C t e' = ((Ok (), calls'), t', e'') \<and> map_of (GetAll t') = map_of items"
proof -
  have sv: "etcd_service E view" using assms(1) by (simp add: etcd_reliable_def)
  obtain calls s' e' where s: "wo_Sync E C L Equals s items e = ((Ok (), calls), s', e')"
    unfolding wo_Sync_def using etcd_reliable.wo_sync_run [OF assms(1,3)] by blast
  obtain t' e'' where t: "wo_InitFromEtcd E C t e' = ((Ok (), []), t', e'')"
    using etcd_reliable.wo_InitFromEtcd_run [OF assms(1)] by blast
  obtain e1 e2 where *: "view e1 = view e" "view e' = view e2"
    "wo_sync_etcd E C L (sb_client s) items e1 = (Ok (), e2)"
    using etcd_service.wo_sync_Ok [OF sv] s unfolding wo_Sync_def by blast
  have "decoded C (sb_client s) (view e') = map_of items" "wf_keys (prefix (sb_client s)) (view e')"
    using etcd_service.wo_sync_etcd_decoded [OF sv *(3) assms(2-5)] assms(6) * by auto
  then show ?thesis
    using s t etcd_service.wo_InitFromEtcd_Ok [OF sv t] assms(7) by (auto simp: GetAll_def)
qed

lemma wo_Sync_InitFromEtcd_witness:
  "let s = NewStore (NewEtcdClient [] 5 ''/s'') \<lparr>has_OnChanged = True, has_OnAdded = True, has_OnRemoved = True\<rparr>
   in \<exists>calls s' e' calls' t' e''.
     wo_Sync mem_etcd quote_codec lo_ref (=) s [(''a'', ''1''), (''b'', ''2'')] [] = ((Ok (), calls), s', e')
     \<and> wo_InitFromEtcd mem_etcd quote_codec s e' = ((Ok (), calls'), t', e'')
     \<and> map_of (GetAll t') = map_of [(''a'', ''1''), (''b'', ''2'')]"
  unfolding Let_def
  by (rule wo_Sync_InitFromEtcd [OF mem.etcd_reliable_axioms lo_ref_law quote_codec_law])
    (auto simp: gomap_ok_def simple_id_def wf_keys_def)

text \<open>
  A synchronisation reports the exact difference between the old and the new items: added are
  the new ids, removed the missing ones with their old values, changed those in both with values
  that are not equal, and afterwards the store holds the new items.
\<close>

theorem syncToInternalState_exact:
  assumes "lo_law L" "gomap_ok truth"
    "syncToInternalState L Equals s truth = ((changes, added, removed), s')"
  shows "sb_data s' = truth
    \<and> it_ID ` set added = dom (map_of truth) - dom (map_of (sb_data s))
    \<and> it_ID ` set removed = dom (map_of (sb_data s)) - dom (map_of truth)
    \<and> list_all (\<lambda>it. map_of truth (it_ID it) = Some (it_Value it)) added
    \<and> list_all (\<lambda>it. map_of (sb_data s) (it_ID it) = Some (it_Value it)) removed
    \<and> (\<forall>ch. ch \<in> set changes \<longleftrightarrow> map_of (sb_data s) (ch_ID ch) = Some (ch_Previous ch)
         \<and> map_of truth (ch_ID ch) = Some (ch_Current ch)
         \<and> \<not> Equals (ch_Previous ch) (ch_Current ch))"
proof -
  have a: "it \<in> set added \<longleftrightarrow> map_of (sb_data s) (it_ID it) = None \<and> map_of truth (it_ID it) = Some (it_Value it)"
    and r: "it \<in> set removed \<longleftrightarrow> map_of (sb_data s) (it_ID it) = Some (it_Value it) \<and> map_of truth (it_ID it) = None"
    and c: "ch \<in> set changes \<longleftrightarrow> map_of (sb_data s) (ch_ID ch) = Some (ch_Previous ch)
        \<and> map_of truth (ch_ID ch) = Some (ch_Current ch) \<and> \<not> Equals (ch_Previous ch) (ch_Current ch)"
    for it ch
    using mem_added [OF assms(2), of it L Equals s] mem_removed [OF assms(1), of it Equals s truth]
      mem_changes [OF assms(2), of ch L Equals s] assms(3) by auto
  have "it_ID ` set added = {i. map_of (sb_data s) i = None} \<inter> dom (map_of truth)"
    "it_ID ` set removed = {i. map_of truth i = None} \<inter> dom (map_of (sb_data s))"
    by (rule it_ID_image, simp add: a r conj_commute)+
  moreover have "sb_data s' = truth" using assms(3) by (auto simp: syncToInternalState_def Let_def)
  ultimately show ?thesis using a r c by (auto simp: list_all_iff)
qed

lemma syncToInternalState_exact_witness:
  "let s = NewStore (NewEtcdClient [] 5 ''/s'') \<lparr>has_OnChanged = True, has_OnAdded = True, has_OnRemoved = True\<rparr>
         \<lparr>sb_data := [(''a'', 1 :: nat), (''b'', 2)]\<rparr>
   in case syncToInternalState lo_ref (=) s [(''b'', 3), (''c'', 4)] of ((changes, added, removed), s') \<Rightarrow>
        it_ID ` set added = {''c''} \<and> it_ID ` set removed = {''a''} \<and> ch_ID ` set changes = {''b''}"
proof -
  let ?s = "NewStore (NewEtcdClient [] 5 ''/s'') \<lparr>has_OnChanged = True, has_OnAdded = True, has_OnRemoved = True\<rparr>
         \<lparr>sb_data := [(''a'', 1 :: nat), (''b'', 2)]\<rparr>"
  let ?t = "[(''b'', 3), (''c'', 4)] :: (string, nat) gomap"
  obtain ch ad re s' where r: "syncToInternalState lo_ref (=) ?s ?t = ((ch, ad, re), s')"
    by (metis prod.collapse)
  have "gomap_ok ?t" by (simp add: gomap_ok_def)
  note th = syncToInternalState_exact [OF lo_ref_law this r]
  have "ch_ID ` set ch = {''b''}"
    using r by (auto simp: syncToInternalState_def Let_def)
  then show ?thesis using th r by (auto simp: Let_def)
qed

text \<open>
  A read-only store follows etcd: if it agrees with the items in etcd and then handles the
  events of any sequence of changes of items, it agrees with the items in etcd after them.
\<close>

theorem ro_watch_follows:
  assumes "list_all (item_event C (sb_client s)) evs"
    "map_of (GetAll s) = decoded C (sb_client s) m"
  shows "map_of (GetAll (fst (ro_watchEventHandler C Equals (GetKey (sb_client s) []) s evs))) =
    decoded C (sb_client s) (fold apply_event evs m)"
  using ro_watchEventHandler_data [of C s evs m Equals] assms by (simp add: GetAll_def)

lemma ro_watch_follows_witness:
  "let s = NewStore (NewEtcdClient [] 5 ''/s'') \<lparr>has_OnChanged = True, has_OnAdded = True, has_OnRemoved = True\<rparr>
         :: string storeBase;
       evs = [PutEvent \<lparr>kv_Key = ''/s/a'', kv_Value = [CHR 0x22, CHR ''1'', CHR 0x22]\<rparr>, DeleteEvent ''/s/b'']
   in map_of (GetAll (fst (ro_watchEventHandler quote_codec (=) ''/s'' s evs))) =
        decoded quote_codec (NewEtcdClient [] 5 ''/s'') (fold apply_event evs Map.empty)"
proof -
  let ?c = "NewEtcdClient [] 5 ''/s''"
  let ?s = "NewStore ?c \<lparr>has_OnChanged = True, has_OnAdded = True, has_OnRemoved = True\<rparr> :: string storeBase"
  have p: "prefix ?c = ''/s''" "sb_client ?s = ?c" "sb_data ?s = []"
    by (simp_all add: NewEtcdClient_def TrimRight_def NewStore_def)
  have "decoded quote_codec ?c Map.empty = Map.empty" by (auto simp: decoded_def)
  then show ?thesis
    using ro_watch_follows [of quote_codec ?s "[PutEvent \<lparr>kv_Key = ''/s/a'', kv_Value = [CHR 0x22, CHR ''1'', CHR 0x22]\<rparr>, DeleteEvent ''/s/b'']" Map.empty "(=)"]
    by (simp add: p Let_def GetAll_def HasPrefix_def TrimPrefix_def simple_id_def quote_codec_def)
qed

end
