(* ===== verification/Ipam_Space.thy ===== *)
theory Ipam_Space
  imports Ipam_Pool Etcd_Stores
begin

text \<open>
  \<open>plugin/pkg/ipam/address_space.go\<close> and \<open>address_space_etcd.go\<close>: the address space of the
  cluster is cut into pool subnets, and each network gets one. Which pool has which subnet is
  kept in etcd, with one key per subnet; every node has a cache of it. The functions
  \<open>cidr.Subnet\<close> and \<open>lo.Filter\<close> of the imported packages are arguments.
\<close>

section \<open>Subnets in etcd\<close>

definition subnetsKey :: "etcdClient \<Rightarrow> string" where
  "subnetsKey c = GetKey c []"

definition subnetKey :: "etcdClient \<Rightarrow> string \<Rightarrow> string" where
  "subnetKey c subnet = GetKey c [SubnetToKey subnet]"

text \<open>The subnet and the network an entry below the prefix stands for, unless it is skipped.\<close>

definition used_subnet :: "string \<Rightarrow> KeyValue \<Rightarrow> (string \<times> ipnet) option" where
  "used_subnet p kv =
     (let key = TrimLeft CHR ''/'' (TrimPrefix (kv_Key kv) p)
      in if CHR ''/'' \<in> set key then None
         else (case ParseCIDR (ReplaceAll CHR ''-'' CHR ''/'' key) of
                 None \<Rightarrow> None
               | Some (_, ipNet) \<Rightarrow> Some (kv_Value kv, ipNet)))"

definition used_subnets :: "string \<Rightarrow> KeyValue list \<Rightarrow> (string, ipnet) ConcurrentMap" where
  "used_subnets p kvs = foldl (\<lambda>result kv.
     case used_subnet p kv of
       None \<Rightarrow> result
     | Some (networkID, ipNet) \<Rightarrow> cm_Set result networkID ipNet) NewConcurrentMap kvs"

definition getUsedSubnets :: "'e etcd \<Rightarrow> etcdClient \<Rightarrow> 'e \<Rightarrow> (string, ipnet) ConcurrentMap res \<times> 'e" where
  "getUsedSubnets E client e =
     WithConnection E (\<lambda>e.
       let p = subnetsKey client
       in res_bind (GetPrefix E p e) (\<lambda>kvs e. (Ok (used_subnets p kvs), e))) e"

record PoolSubnetLeaseResult =
  lr_Success :: bool
  lr_PoolID :: string

definition reservePoolSubnet ::
  "'e etcd \<Rightarrow> etcdClient \<Rightarrow> string \<Rightarrow> string \<Rightarrow> 'e \<Rightarrow> PoolSubnetLeaseResult res \<times> 'e"
where
  "reservePoolSubnet E client subnet i e =
     WithConnection E (\<lambda>e.
       let key = subnetKey client subnet
       in case Txn E [CreateRevisionIs0 key] [OpPut key i] [OpGet key] e of
            (Ok (succeeded, responses), e) \<Rightarrow>
              if succeeded then (Ok \<lparr>lr_Success = True, lr_PoolID = []\<rparr>, e)
              else (case responses of
                      (kv # _) # _ \<Rightarrow>
                        if kv_Value kv = i then (Ok \<lparr>lr_Success = True, lr_PoolID = []\<rparr>, e)
                        else (Ok \<lparr>lr_Success = False, lr_PoolID = kv_Value kv\<rparr>, e)
                    | _ \<Rightarrow> (Panic, e))
          | (Err er, e) \<Rightarrow> (Err er, e)
          | (Panic, e) \<Rightarrow> (Panic, e)) e"

definition releasePoolSubnet ::
  "'e etcd \<Rightarrow> etcdClient \<Rightarrow> string \<Rightarrow> string \<Rightarrow> 'e \<Rightarrow> PoolSubnetLeaseResult res \<times> 'e"
where
  "releasePoolSubnet E client subnet i e =
     WithConnection E (\<lambda>e.
       let key = subnetKey client subnet
       in case Txn E [ValueEq key i] [OpDelete key] [OpGet key] e of
            (Ok (succeeded, responses), e) \<Rightarrow>
              if succeeded then (Ok \<lparr>lr_Success = True, lr_PoolID = []\<rparr>, e)
              else (case responses of
                      (kv # _) # _ \<Rightarrow> (Ok \<lparr>lr_Success = False, lr_PoolID = kv_Value kv\<rparr>, e)
                    | [] # _ \<Rightarrow> (Ok \<lparr>lr_Success = True, lr_PoolID = []\<rparr>, e)
                    | [] \<Rightarrow> (Panic, e))
          | (Err er, e) \<Rightarrow> (Err er, e)
          | (Panic, e) \<Rightarrow> (Panic, e)) e"

section \<open>The address space\<close>

record etcdAddressSpace =
  completeSpace :: "ipnet list"
  poolSize :: int
  allSubnets :: "ipnet list"
  unusedSubnets :: "ipnet list"
  pools :: "(string, ipnet) ConcurrentMap"
  as_client :: etcdClient

type_synonym ipnet_filter = "(ipnet \<Rightarrow> bool) \<Rightarrow> ipnet list \<Rightarrow> ipnet list"

definition remove_subnet :: "ipnet_filter \<Rightarrow> ipnet list \<Rightarrow> ipnet \<Rightarrow> ipnet list" where
  "remove_subnet lo_Filter subnets used =
     lo_Filter (\<lambda>item. ipnet_String item \<noteq> ipnet_String used) subnets"

definition NewEtcdBasedAddressSpace ::
  "'e etcd \<Rightarrow> (ipnet \<Rightarrow> int \<Rightarrow> nat \<Rightarrow> ipnet res) \<Rightarrow> ipnet_filter \<Rightarrow> ipnet list \<Rightarrow> int \<Rightarrow> etcdClient \<Rightarrow> 'e \<Rightarrow>
   etcdAddressSpace res \<times> 'e"
where
  "NewEtcdBasedAddressSpace E cidr_Subnet lo_Filter space bits client e =
     (case generateAllSubnets cidr_Subnet space bits of
        Err er \<Rightarrow> (Err (WithMessage er ''error generating all subnets''), e)
      | Panic \<Rightarrow> (Panic, e)
      | Ok subnets \<Rightarrow>
          res_bind (res_wrap ''error getting used subnets'' (getUsedSubnets E client e)) (\<lambda>ps e.
          let unused = foldl (remove_subnet lo_Filter) subnets (cm_Values ps);
              sp = \<lparr>completeSpace = space, poolSize = bits, allSubnets = subnets,
                    unusedSubnets = unused, pools = ps, as_client = client\<rparr>
          in res_bind (res_wrap ''error creating etcd watcher to watch for used subnets'' (client_Watch E e))
               (\<lambda>_ e. (Ok sp, e))))"

definition GetPoolById :: "etcdAddressSpace \<Rightarrow> string \<Rightarrow> ipnet option" where
  "GetPoolById sp i = cm_Get (pools sp) i"

text \<open>
  The factory of \<open>getOrAddPool\<close>: its loop takes the unused subnets one by one until a
  reservation succeeds. Its state has the unused subnets, the reservations of other pools it
  comes across, and etcd.
\<close>

fun reserve_next ::
  "'e etcd \<Rightarrow> etcdClient \<Rightarrow> string \<Rightarrow> ipnet list \<Rightarrow> (string, ipnet) gomap \<Rightarrow> 'e \<Rightarrow>
   ipnet res \<times> ipnet list \<times> (string, ipnet) gomap \<times> 'e"
where
  "reserve_next E client i [] found e =
     (Err (Errorf ''unable to get new pool: there are no unused subnets left''), [], found, e)"
| "reserve_next E client i (subnet # unused) found e =
     (case reservePoolSubnet E client (ipnet_String subnet) i e of
        (Err er, e) \<Rightarrow> (Err (WithMessage er ''error reserving subnet''), subnet # unused, found, e)
      | (Panic, e) \<Rightarrow> (Panic, subnet # unused, found, e)
      | (Ok result, e) \<Rightarrow>
          if lr_Success result then (Ok subnet, unused, found, e)
          else reserve_next E client i unused (gomap_set found (lr_PoolID result) subnet) e)"

definition getOrAddPool ::
  "'e etcd \<Rightarrow> etcdAddressSpace \<Rightarrow> string \<Rightarrow> 'e \<Rightarrow> (ipnet \<times> bool) res \<times> etcdAddressSpace \<times> 'e"
where
  "getOrAddPool E sp i e =
     (case cm_GetOrAdd (pools sp) i
             (\<lambda>(unused, found, e). reserve_next E (as_client sp) i unused found e)
             (unusedSubnets sp, [], e) of
        (r, ps, unused, found, e) \<Rightarrow>
          (r, sp\<lparr>unusedSubnets := unused,
                 pools := foldl (\<lambda>ps (pid, subnet). cm_Set ps pid subnet) ps found\<rparr>, e))"

definition GetNewOrExistingPool ::
  "'e etcd \<Rightarrow> etcdAddressSpace \<Rightarrow> string \<Rightarrow> 'e \<Rightarrow> ipnet res \<times> etcdAddressSpace \<times> 'e"
where
  "GetNewOrExistingPool E sp i e =
     (case getOrAddPool E sp i e of
        (Ok (pool, _), st) \<Rightarrow> (Ok pool, st) | (Err er, st) \<Rightarrow> (Err er, st) | (Panic, st) \<Rightarrow> (Panic, st))"

text \<open>\<open>GetNewPool\<close> looks at the flag before it looks at the error.\<close>

definition GetNewPool ::
  "'e etcd \<Rightarrow> etcdAddressSpace \<Rightarrow> string \<Rightarrow> 'e \<Rightarrow> ipnet res \<times> etcdAddressSpace \<times> 'e"
where
  "GetNewPool E sp i e =
     (case getOrAddPool E sp i e of
        (Ok (pool, wasAdded), st) \<Rightarrow>
          if \<not> wasAdded then (Err (Errorf ''address pool already exists''), st) else (Ok pool, st)
      | (Err er, st) \<Rightarrow> (Err (Errorf ''address pool already exists''), st)
      | (Panic, st) \<Rightarrow> (Panic, st))"

definition ReleasePool ::
  "'e etcd \<Rightarrow> etcdAddressSpace \<Rightarrow> string \<Rightarrow> 'e \<Rightarrow> unit res \<times> etcdAddressSpace \<times> 'e"
where
  "ReleasePool E sp i e =
     (case cm_TryRemove (pools sp) i of
        (None, _) \<Rightarrow> (Err (Errorf ''address pool does not exist''), sp, e)
      | (Some subnet, ps) \<Rightarrow>
          let sp = sp\<lparr>pools := ps\<rparr>
          in case releasePoolSubnet E (as_client sp) (ipnet_String subnet) i e of
               (Err er, e) \<Rightarrow> (Err (WithMessage er ''error releasing subnet''), sp, e)
             | (Panic, e) \<Rightarrow> (Panic, sp, e)
             | (Ok result, e) \<Rightarrow>
                 if \<not> lr_Success result
                 then (Err (Errorf ''couldn't release subnet''),
                       sp\<lparr>pools := cm_Set (pools sp) (lr_PoolID result) subnet\<rparr>, e)
                 else (Ok (), sp\<lparr>unusedSubnets := unusedSubnets sp @ [subnet]\<rparr>, e))"

text \<open>The handler of the watcher, for one event with the key and the value that came with it.\<close>

datatype subnet_event = SubnetPut KeyValue | SubnetDelete KeyValue

definition subnetUsageChangeEvent :: "ipnet_filter \<Rightarrow> etcdAddressSpace \<Rightarrow> subnet_event \<Rightarrow> etcdAddressSpace" where
  "subnetUsageChangeEvent lo_Filter sp ev =
     (case used_subnet (subnetsKey (as_client sp)) (case ev of SubnetPut kv \<Rightarrow> kv | SubnetDelete kv \<Rightarrow> kv) of
        None \<Rightarrow> sp
      | Some (pid, subnet) \<Rightarrow>
          (case ev of
             SubnetPut _ \<Rightarrow>
               (case cm_AddOrUpdate (pools sp) pid subnet (\<lambda>existing. existing) of
                  ((_, wasUpdated), ps) \<Rightarrow>
                    if \<not> wasUpdated
                    then sp\<lparr>pools := ps, unusedSubnets := remove_subnet lo_Filter (unusedSubnets sp) subnet\<rparr>
                    else sp\<lparr>pools := ps\<rparr>)
           | SubnetDelete _ \<Rightarrow>
               (case cm_TryRemove (pools sp) pid of
                  (Some _, ps) \<Rightarrow> sp\<lparr>pools := ps, unusedSubnets := unusedSubnets sp @ [subnet]\<rparr>
                | (None, ps) \<Rightarrow> sp\<lparr>pools := ps\<rparr>)))"

definition subnetUsageChangeHandler ::
  "ipnet_filter \<Rightarrow> etcdAddressSpace \<Rightarrow> subnet_event list \<Rightarrow> etcdAddressSpace"
where
  "subnetUsageChangeHandler lo_Filter sp events = foldl (subnetUsageChangeEvent lo_Filter) sp events"


section \<open>Reservations\<close>

text \<open>A pool takes a subnet that is free or already its own; nothing else changes.\<close>

definition subnet_taken :: "string \<Rightarrow> string \<Rightarrow> kv_view \<Rightarrow> kv_view \<Rightarrow> bool" where
  "subnet_taken i k m m' \<longleftrightarrow> m k \<in> {None, Some i} \<and> m' = m(k \<mapsto> i)"

definition others_reserve :: "kv_view \<Rightarrow> kv_view \<Rightarrow> bool" where
  "others_reserve m m' \<longleftrightarrow> m' = m \<or> (\<exists>i k. subnet_taken i k m m')"

interpretation subnets: exclusive_allocation "\<lambda>m k. m k" subnet_taken others_reserve
  by unfold_locales (auto simp: subnet_taken_def others_reserve_def)

lemma others_reserve_intros [intro]:
  "others_reserve m m" "m k = None \<Longrightarrow> others_reserve m (m(k \<mapsto> i))"
  by (auto simp: others_reserve_def subnet_taken_def)

definition reserve_effect :: "etcdClient \<Rightarrow> string \<Rightarrow> ipnet res \<Rightarrow> kv_view \<Rightarrow> kv_view \<Rightarrow> bool" where
  "reserve_effect c i r m m' \<longleftrightarrow>
     (case r of Ok n \<Rightarrow> subnet_taken i (subnetKey c (ipnet_String n)) m m' | _ \<Rightarrow> others_reserve m m')"

context etcd_service
begin

lemma reservePoolSubnet_Ok:
  assumes "reservePoolSubnet E c s i e = (Ok r, e')" "k = subnetKey c s"
  shows "if view e k \<in> {None, Some i} then lr_Success r \<and> view e' = (view e)(k \<mapsto> i)
    else \<not> lr_Success r \<and> view e' = view e \<and> view e k = Some (lr_PoolID r)"
proof -
  obtain e1 e2 where v: "view e1 = view e" "view e' = view e2" and
    t: "(case Txn E [CreateRevisionIs0 k] [OpPut k i] [OpGet k] e1 of
            (Ok (succeeded, responses), e) \<Rightarrow>
              if succeeded then (Ok \<lparr>lr_Success = True, lr_PoolID = []\<rparr>, e)
              else (case responses of
                      (kv # _) # _ \<Rightarrow>
                        if kv_Value kv = i then (Ok \<lparr>lr_Success = True, lr_PoolID = []\<rparr>, e)
                        else (Ok \<lparr>lr_Success = False, lr_PoolID = kv_Value kv\<rparr>, e)
                    | _ \<Rightarrow> (Panic, e))
          | (Err er, e) \<Rightarrow> (Err er, e)
          | (Panic, e) \<Rightarrow> (Panic, e)) = (Ok r, e2)"
    using WithConnection_Ok [OF assms(1) [unfolded reservePoolSubnet_def]] assms(2) by (auto simp: Let_def)
  obtain r1 e3 where tx: "Txn E [CreateRevisionIs0 k] [OpPut k i] [OpGet k] e1 = (r1, e3)" by force
  then show ?thesis
  proof (cases rule: Txn_cases)
    case (1 b rs)
    then show ?thesis using t tx v
      by (cases "view e k") (auto simp: kvs_of_def fun_upd_idem_iff split: if_splits)
  qed (use t tx in simp)
qed

lemma reservePoolSubnet_view:
  "others_reserve (view e) (view (snd (reservePoolSubnet E c s i e)))"
  unfolding reservePoolSubnet_def
proof (rule WithConnection_rel)
  fix e1
  assume v: "view e1 = view e"
  let ?k = "subnetKey c s"
  obtain r1 e2 where tx: "Txn E [CreateRevisionIs0 ?k] [OpPut ?k i] [OpGet ?k] e1 = (r1, e2)" by force
  then have "others_reserve (view e) (view e2)"
    by (cases rule: Txn_cases) (auto simp: v)
  then show "others_reserve (view e) (view (snd (let key = ?k
       in case Txn E [CreateRevisionIs0 key] [OpPut key i] [OpGet key] e1 of
            (Ok (succeeded, responses), e) \<Rightarrow>
              if succeeded then (Ok \<lparr>lr_Success = True, lr_PoolID = []\<rparr>, e)
              else (case responses of
                      (kv # _) # _ \<Rightarrow>
                        if kv_Value kv = i then (Ok \<lparr>lr_Success = True, lr_PoolID = []\<rparr>, e)
                        else (Ok \<lparr>lr_Success = False, lr_PoolID = kv_Value kv\<rparr>, e)
                    | _ \<Rightarrow> (Panic, e))
          | (Err er, e) \<Rightarrow> (Err er, e)
          | (Panic, e) \<Rightarrow> (Panic, e))))"
    using tx by (auto simp: Let_def split: res.splits prod.splits list.splits if_splits)
qed (simp add: others_reserve_def)

lemma reserve_next_effect:
  "reserve_next E c i unused found e = (r, unused', found', e') \<Longrightarrow>
   reserve_effect c i r (view e) (view e') \<and> (\<forall>n. r = Ok n \<longrightarrow> n \<in> set unused)"
proof (induction unused arbitrary: found e)
  case Nil
  then show ?case by (auto simp: reserve_effect_def others_reserve_def)
next
  case (Cons s unused)
  obtain r1 e1 where t: "reservePoolSubnet E c (ipnet_String s) i e = (r1, e1)" by force
  show ?case
  proof (cases r1)
    case (Ok res)
    note eff = reservePoolSubnet_Ok [OF t [unfolded Ok] refl]
    show ?thesis
    proof (cases "lr_Success res")
      case True
      then show ?thesis
        using Cons.prems t Ok eff by (auto simp: reserve_effect_def subnet_taken_def split: if_splits)
    next
      case False
      then have "view e1 = view e" using eff by (auto split: if_splits)
      moreover have "reserve_next E c i unused (gomap_set found (lr_PoolID res) s) e1 = (r, unused', found', e')"
        using Cons.prems t Ok False by simp
      ultimately show ?thesis using Cons.IH by fastforce
    qed
  qed (use Cons.prems t reservePoolSubnet_view [of e c "ipnet_String s" i] in
      \<open>auto simp: reserve_effect_def\<close>)
qed

lemma getOrAddPool_effect:
  assumes "getOrAddPool E sp i e = (r, sp', e')"
  shows "(\<exists>n. cm_Get (pools sp) i = Some n \<and> r = Ok (n, False) \<and> view e' = view e)
    \<or> (\<exists>n. r = Ok (n, True) \<and> n \<in> set (unusedSubnets sp)
         \<and> subnet_taken i (subnetKey (as_client sp) (ipnet_String n)) (view e) (view e'))
    \<or> (\<forall>v. r \<noteq> Ok v) \<and> others_reserve (view e) (view e')"
proof (cases "cm_Get (pools sp) i")
  case None
  obtain r1 u1 f1 e1 where n: "reserve_next E (as_client sp) i (unusedSubnets sp) [] e = (r1, u1, f1, e1)"
    by (metis prod.collapse)
  note eff = reserve_next_effect [OF n]
  have "e' = e1" and "(\<exists>n. r1 = Ok n \<and> r = Ok (n, True)) \<or> (\<forall>v. r1 \<noteq> Ok v) \<and> (\<forall>v. r \<noteq> Ok v)"
    using assms None n
    by (cases r1; auto simp: getOrAddPool_def cm_GetOrAdd_def cm_GetOrAdd_locked_def)+
  then show ?thesis using eff by (cases r1) (auto simp: reserve_effect_def)
qed (use assms in \<open>auto simp: getOrAddPool_def cm_GetOrAdd_def\<close>)

end

text \<open>
  Pools created through any number of address spaces on any number of nodes, one after the
  other; the log has the pools that \<open>GetNewPool\<close> handed out.
\<close>

inductive space_run ::
  "'e etcd \<Rightarrow> etcdClient \<Rightarrow> ipnet set \<Rightarrow> 'e \<Rightarrow> (string \<times> ipnet) list \<Rightarrow> 'e \<Rightarrow> bool" for E c S
where
  stop: "space_run E c S e [] e"
| new_pool: "GetNewPool E sp i e = (r, sp', e1) \<Longrightarrow> as_client sp = c \<Longrightarrow> set (unusedSubnets sp) \<subseteq> S \<Longrightarrow>
    space_run E c S e1 log e' \<Longrightarrow>
    space_run E c S e ((case r of Ok n \<Rightarrow> [(i, n)] | _ \<Rightarrow> []) @ log) e'"
| existing: "GetNewOrExistingPool E sp i e = (r, sp', e1) \<Longrightarrow> as_client sp = c \<Longrightarrow> set (unusedSubnets sp) \<subseteq> S \<Longrightarrow>
    space_run E c S e1 log e' \<Longrightarrow> space_run E c S e log e'"

context etcd_service
begin

lemma GetNewPool_effect:
  assumes "GetNewPool E sp i e = (r, sp', e')"
  shows "others_reserve (view e) (view e') \<and> (\<forall>n. r = Ok n \<longrightarrow> n \<in> set (unusedSubnets sp)
    \<and> subnet_taken i (subnetKey (as_client sp) (ipnet_String n)) (view e) (view e'))"
proof -
  obtain r1 sp1 e1 where g: "getOrAddPool E sp i e = (r1, sp1, e1)" by (metis prod.collapse)
  from getOrAddPool_effect [OF g] show ?thesis
    using assms g by (cases r1) (auto simp: GetNewPool_def others_reserve_def split: if_splits prod.splits)
qed

lemma GetNewOrExistingPool_effect:
  assumes "GetNewOrExistingPool E sp i e = (r, sp', e')"
  shows "others_reserve (view e) (view e')"
proof -
  obtain r1 sp1 e1 where g: "getOrAddPool E sp i e = (r1, sp1, e1)" by (metis prod.collapse)
  from getOrAddPool_effect [OF g] show ?thesis
    using assms g by (cases r1) (auto simp: GetNewOrExistingPool_def others_reserve_def split: prod.splits)
qed

lemma space_run_history:
  "space_run E c S e log e' \<Longrightarrow> snd ` set log \<subseteq> S \<and>
   (\<exists>h. subnets.history h (view e) (view e') \<and>
     (\<lambda>(i, n). Some (i, subnetKey c (ipnet_String n))) ` set log \<subseteq> set h)"
proof (induction rule: space_run.induct)
  case (stop e)
  show ?case by (auto intro!: exI [of _ "[]"])
next
  case (new_pool sp i e r sp' e1 log e')
  obtain h where h: "subnets.history h (view e1) (view e')"
    "(\<lambda>(i, n). Some (i, subnetKey c (ipnet_String n))) ` set log \<subseteq> set h" using new_pool.IH by blast
  note eff = GetNewPool_effect [OF new_pool.hyps(1)]
  show ?case
  proof (cases r)
    case (Ok n)
    then show ?thesis using h eff new_pool.hyps(2,3) new_pool.IH
      by (auto intro!: exI [of _ "Some (i, subnetKey c (ipnet_String n)) # h"])
  qed (use h eff new_pool.IH in \<open>auto intro!: exI [of _ "None # h"]\<close>)
next
  case (existing sp i e r sp' e1 log e')
  obtain h where h: "subnets.history h (view e1) (view e')"
    "(\<lambda>(i, n). Some (i, subnetKey c (ipnet_String n))) ` set log \<subseteq> set h" using existing.IH by blast
  then show ?case using GetNewOrExistingPool_effect [OF existing.hyps(1)] existing.IH
    by (auto intro!: exI [of _ "None # h"])
qed

end


section \<open>Calls that return\<close>

text \<open>What a new pool finds: the unused subnets up to the first one it may take.\<close>

definition may_reserve :: "etcdClient \<Rightarrow> string \<Rightarrow> kv_view \<Rightarrow> ipnet \<Rightarrow> bool" where
  "may_reserve c i m s \<longleftrightarrow> m (subnetKey c (ipnet_String s)) \<in> {None, Some i}"

context etcd_reliable
begin

lemma reservePoolSubnet_run: "\<exists>r e'. reservePoolSubnet E c s i e = (Ok r, e')"
proof -
  let ?k = "subnetKey c s"
  obtain r e' where r: "reservePoolSubnet E c s i e = (r, e')" by force
  obtain e1 e2 where
    t: "(case Txn E [CreateRevisionIs0 ?k] [OpPut ?k i] [OpGet ?k] e1 of
            (Ok (succeeded, responses), e) \<Rightarrow>
              if succeeded then (Ok \<lparr>lr_Success = True, lr_PoolID = []\<rparr>, e)
              else (case responses of
                      (kv # _) # _ \<Rightarrow>
                        if kv_Value kv = i then (Ok \<lparr>lr_Success = True, lr_PoolID = []\<rparr>, e)
                        else (Ok \<lparr>lr_Success = False, lr_PoolID = kv_Value kv\<rparr>, e)
                    | _ \<Rightarrow> (Panic, e))
          | (Err er, e) \<Rightarrow> (Err er, e)
          | (Panic, e) \<Rightarrow> (Panic, e)) = (r, e2)"
    using WithConnection_run [OF r [unfolded reservePoolSubnet_def]] by (auto simp: Let_def)
  obtain e3 where "Txn E [CreateRevisionIs0 ?k] [OpPut ?k i] [OpGet ?k] e1 =
      (Ok (list_all (cmp_holds (view e1)) [CreateRevisionIs0 ?k],
           op_responses (if list_all (cmp_holds (view e1)) [CreateRevisionIs0 ?k] then [OpPut ?k i] else [OpGet ?k]) (view e1)), e3)"
    using Txn_run by blast
  then show ?thesis using t r by (cases "view e1 ?k") (auto simp: kvs_of_def split: if_splits)
qed

lemma reserve_next_run:
  "\<exists>r found' e'. reserve_next E c i unused found e =
     (r, tl (dropWhile (\<lambda>s. \<not> may_reserve c i (view e) s) unused), found', e')
   \<and> (\<forall>n. map_of found' i = Some n \<longrightarrow> map_of found i = Some n)
   \<and> (case dropWhile (\<lambda>s. \<not> may_reserve c i (view e) s) unused of
        [] \<Rightarrow> (\<exists>er. r = Err er) \<and> view e' = view e
      | s # _ \<Rightarrow> r = Ok s \<and> view e' = (view e)(subnetKey c (ipnet_String s) \<mapsto> i))"
proof (induction unused arbitrary: found e)
  case (Cons s unused)
  obtain r1 e1 where t: "reservePoolSubnet E c (ipnet_String s) i e = (Ok r1, e1)"
    using reservePoolSubnet_run by blast
  note eff = reservePoolSubnet_Ok [OF t refl]
  show ?case
  proof (cases "may_reserve c i (view e) s")
    case True
    then show ?thesis using t eff by (auto simp: may_reserve_def)
  next
    case False
    then have "\<not> lr_Success r1" "view e1 = view e" "lr_PoolID r1 \<noteq> i"
      using eff by (auto simp: may_reserve_def)
    then show ?thesis
      using Cons.IH [where e = e1 and found = "gomap_set found (lr_PoolID r1) s"] t False
      unfolding \<open>view e1 = view e\<close> by simp
  qed
qed simp

end

lemma foldl_cm_Set_other:
  "map_of found i = None \<Longrightarrow> cm_Get (foldl (\<lambda>ps (pid, subnet). cm_Set ps pid subnet) ps found) i = cm_Get ps i"
  by (induction found arbitrary: ps) (auto simp: cm_Get_def cm_Set_def split: if_splits)


section \<open>Reading the subnets back\<close>

lemma ReplaceAll_free: "a \<noteq> b \<Longrightarrow> a \<notin> set (ReplaceAll a b s)"
  by (auto simp: ReplaceAll_def)

lemma ipnet_String_free: "ip4_net n p \<Longrightarrow> CHR ''-'' \<notin> set (ipnet_String n)"
  by (simp add: ipnet_String_ip4 ip4_String_free FormatUint_free)

lemma used_subnet_key:
  assumes "ip4_net n p" "kv_Key kv = subnetKey c (ipnet_String n)"
  shows "used_subnet (subnetsKey c) kv = Some (kv_Value kv, n)"
proof -
  let ?k = "SubnetToKey (ipnet_String n)"
  have free: "CHR ''/'' \<notin> set ?k" by (simp add: SubnetToKey_def ReplaceAll_free)
  have "TrimLeft CHR ''/'' (TrimPrefix (kv_Key kv) (subnetsKey c)) = ?k"
    using assms(2) TrimLeft_free [OF free] by (simp add: subnetKey_def subnetsKey_def)
  moreover have "ReplaceAll CHR ''-'' CHR ''/'' ?k = ipnet_String n"
    using ReplaceAll_back [OF ipnet_String_free [OF assms(1)]] by (simp add: SubnetToKey_def)
  ultimately show ?thesis
    using free ParseCIDR_ipnet_String [OF assms(1)] by (simp add: used_subnet_def)
qed

lemma subnetKey_inject:
  assumes "ip4_net m p" "ip4_net n q"
  shows "subnetKey c (ipnet_String m) = subnetKey c (ipnet_String n) \<longleftrightarrow> m = n"
  using ReplaceAll_back [OF ipnet_String_free [OF assms(1)], of "CHR ''/''"]
    ReplaceAll_back [OF ipnet_String_free [OF assms(2)], of "CHR ''/''"] ipnet_String_inject [OF assms]
  by (auto simp: subnetKey_def SubnetToKey_def)

text \<open>
  The part of the store that belongs to the address space: every key names an IPv4 subnet, and
  no pool has two of them.
\<close>

definition subnet_store :: "etcdClient \<Rightarrow> kv_view \<Rightarrow> bool" where
  "subnet_store c m \<longleftrightarrow>
     (\<forall>k i. m k = Some i \<longrightarrow> HasPrefix k (subnetsKey c) \<longrightarrow>
        (\<exists>n p. ip4_net n p \<and> k = subnetKey c (ipnet_String n)))
     \<and> (\<forall>k k' i. m k = Some i \<longrightarrow> m k' = Some i \<longrightarrow>
          HasPrefix k (subnetsKey c) \<longrightarrow> HasPrefix k' (subnetsKey c) \<longrightarrow> k = k')"

definition stored_subnet :: "etcdClient \<Rightarrow> kv_view \<Rightarrow> string \<Rightarrow> ipnet \<Rightarrow> bool" where
  "stored_subnet c m i n \<longleftrightarrow> (\<exists>p. ip4_net n p) \<and> m (subnetKey c (ipnet_String n)) = Some i"

lemma used_subnets_collect: "used_subnets p kvs = \<lparr>cm_m = gomap_collect (used_subnet p) kvs\<rparr>"
proof (induction kvs rule: rev_induct)
  case Nil
  then show ?case by (simp add: used_subnets_def NewConcurrentMap_def gomap_collect_def)
next
  case (snoc kv kvs)
  have "used_subnets p (kvs @ [kv]) = (case used_subnet p kv of None \<Rightarrow> used_subnets p kvs
      | Some (networkID, ipNet) \<Rightarrow> cm_Set (used_subnets p kvs) networkID ipNet)"
    by (cases "used_subnet p kv") (auto simp: used_subnets_def)
  then show ?case by (cases "used_subnet p kv") (auto simp: snoc gomap_collect_snoc cm_Set_def)
qed

lemma used_subnet_iff:
  assumes "subnet_store c m" "kv_listing m (subnetsKey c) kvs" "kv \<in> set kvs"
  shows "used_subnet (subnetsKey c) kv = Some (i, n) \<longleftrightarrow>
    kv_Value kv = i \<and> (\<exists>p. ip4_net n p) \<and> kv_Key kv = subnetKey c (ipnet_String n)"
proof -
  have kv: "m (kv_Key kv) = Some (kv_Value kv)" "HasPrefix (kv_Key kv) (subnetsKey c)"
    using kv_listingD [OF assms(2), of kv] assms(3) by auto
  then obtain n' p' where n': "ip4_net n' p'" "kv_Key kv = subnetKey c (ipnet_String n')"
    using assms(1) by (auto simp: subnet_store_def)
  then show ?thesis using used_subnet_key [OF n'] subnetKey_inject [OF n'(1)] by auto
qed

lemma used_subnets_stored:
  assumes "subnet_store c m" "kv_listing m (subnetsKey c) kvs"
  shows "cm_Get (used_subnets (subnetsKey c) kvs) i = Some n \<longleftrightarrow> stored_subnet c m i n"
proof -
  note iff = used_subnet_iff [OF assms]
  have "map_of (gomap_collect (used_subnet (subnetsKey c)) kvs) i = Some n \<longleftrightarrow>
      (\<exists>kv \<in> set kvs. used_subnet (subnetsKey c) kv = Some (i, n))"
  proof (rule gomap_collect_iff)
    fix x y j v w
    assume xy: "x \<in> set kvs" "y \<in> set kvs" and "used_subnet (subnetsKey c) x = Some (j, v)"
      "used_subnet (subnetsKey c) y = Some (j, w)"
    then have x: "kv_Value x = j" "\<exists>p. ip4_net v p" "kv_Key x = subnetKey c (ipnet_String v)"
      and y: "kv_Value y = j" "\<exists>p. ip4_net w p" "kv_Key y = subnetKey c (ipnet_String w)"
      using iff by blast+
    have "kv_Key x = kv_Key y"
      using assms(1) kv_listingD [OF assms(2), of x] kv_listingD [OF assms(2), of y] xy x(1) y(1)
      unfolding subnet_store_def by metis
    then show "v = w" using x y subnetKey_inject by metis
  qed
  also have "\<dots> \<longleftrightarrow> stored_subnet c m i n"
  proof
    assume "\<exists>kv \<in> set kvs. used_subnet (subnetsKey c) kv = Some (i, n)"
    then show "stored_subnet c m i n"
      using iff kv_listingD [OF assms(2)] by (auto simp: stored_subnet_def)
  next
    assume st: "stored_subnet c m i n"
    let ?kv = "\<lparr>kv_Key = subnetKey c (ipnet_String n), kv_Value = i\<rparr>"
    have "HasPrefix (subnetKey c (ipnet_String n)) (subnetsKey c)"
      by (simp add: subnetKey_def subnetsKey_def)
    then have "?kv \<in> set kvs" using st assms(2) by (simp add: kv_listing_def stored_subnet_def)
    then show "\<exists>kv \<in> set kvs. used_subnet (subnetsKey c) kv = Some (i, n)"
      using iff [of ?kv i n] st by (auto simp: stored_subnet_def)
  qed
  finally show ?thesis by (simp add: used_subnets_collect cm_Get_def)
qed

definition lo_Filter_law :: "ipnet_filter \<Rightarrow> bool" where
  "lo_Filter_law lo_Filter \<longleftrightarrow> (\<forall>P xs. lo_Filter P xs = filter P xs)"

lemma remove_subnets_filter:
  "lo_Filter_law F \<Longrightarrow> foldl (remove_subnet F) subnets used =
     filter (\<lambda>s. ipnet_String s \<notin> ipnet_String ` set used) subnets"
  by (induction used arbitrary: subnets)
    (auto simp: lo_Filter_law_def remove_subnet_def intro!: filter_cong)


context etcd_reliable
begin

lemma getUsedSubnets_run:
  "\<exists>kvs e'. getUsedSubnets E c e = (Ok (used_subnets (subnetsKey c) kvs), e') \<and> view e' = view e
     \<and> kv_listing (view e) (subnetsKey c) kvs"
proof -
  obtain r e' where r: "getUsedSubnets E c e = (r, e')" by force
  obtain e1 e2 where g: "view e1 = view e" "view e' = view e2" "res_bind (GetPrefix E (subnetsKey c) e1)
      (\<lambda>kvs e. (Ok (used_subnets (subnetsKey c) kvs), e)) = (r, e2)"
    using WithConnection_run [OF r [unfolded getUsedSubnets_def Let_def]] by blast
  obtain kvs e3 where l: "GetPrefix E (subnetsKey c) e1 = (Ok kvs, e3)" using GetPrefix_ok by blast
  then show ?thesis using r g GetPrefix_Ok [OF l] GetPrefix_view [of "subnetsKey c" e1] by auto
qed

lemma NewEtcdBasedAddressSpace_run:
  assumes "generateAllSubnets cidr_Subnet space bits = Ok subnets"
  shows "\<exists>kvs sp e'. NewEtcdBasedAddressSpace E cidr_Subnet F space bits c e = (Ok sp, e') \<and> view e' = view e
    \<and> kv_listing (view e) (subnetsKey c) kvs \<and> pools sp = used_subnets (subnetsKey c) kvs \<and> allSubnets sp = subnets
    \<and> as_client sp = c \<and> unusedSubnets sp = foldl (remove_subnet F) subnets (cm_Values (pools sp))"
proof -
  obtain kvs e1 where g: "getUsedSubnets E c e = (Ok (used_subnets (subnetsKey c) kvs), e1)" "view e1 = view e"
    "kv_listing (view e) (subnetsKey c) kvs" using getUsedSubnets_run by blast
  obtain e2 where "New E e1 = (Ok (), e2)" using New_ok by blast
  then show ?thesis using assms g New_view [of e1]
    by (auto simp: NewEtcdBasedAddressSpace_def client_Watch_def NewConnection_def)
qed

end

lemma sorted_wrt_disjoint:
  assumes "sorted_wrt ipnet_disjoint ns" "m \<in> set ns" "n \<in> set ns" "m \<noteq> n"
  shows "ipnet_disjoint m n"
  using assms by (induction ns) (auto simp: ipnet_disjoint_def)

section \<open>Properties\<close>



definition demo_space :: "string \<Rightarrow> etcdAddressSpace" where
  "demo_space p = \<lparr>completeSpace = [\<lparr>ipnet_IP = [10, 0, 8, 0], ipnet_Mask = CIDRMask 23 32\<rparr>], poolSize = 24,
     allSubnets = [\<lparr>ipnet_IP = [10, 0, 8, 0], ipnet_Mask = CIDRMask 24 32\<rparr>, \<lparr>ipnet_IP = [10, 0, 9, 0], ipnet_Mask = CIDRMask 24 32\<rparr>],
     unusedSubnets = [\<lparr>ipnet_IP = [10, 0, 8, 0], ipnet_Mask = CIDRMask 24 32\<rparr>, \<lparr>ipnet_IP = [10, 0, 9, 0], ipnet_Mask = CIDRMask 24 32\<rparr>],
     pools = NewConcurrentMap, as_client = NewEtcdClient [] 5 p\<rparr>"

lemma demo_generate:
  "generateAllSubnets cidr_Subnet_ref (completeSpace (demo_space p)) (int 24) = Ok (allSubnets (demo_space p))"
proof -
  have "ip4_nat [10, 0, 8, 0] = 167774208" by (simp add: ip4_nat_def ip4_word_def)
  moreover have "ip4_of_nat 167774208 = [10, 0, 8, 0]" "ip4_of_nat 167774464 = [10, 0, 9, 0]"
    by (simp_all add: ip4_of_nat_def)
  ultimately show ?thesis by (simp add: demo_space_def shift_count_def cidr_Subnet_ref_def Let_def upt_rec)
qed

lemma demo_space_net: "\<forall>a \<in> set (completeSpace (demo_space p)). \<exists>q \<le> 24. ip4_net a q"
proof -
  have "ip4_net \<lparr>ipnet_IP = [10, 0, 8, 0], ipnet_Mask = CIDRMask 23 32\<rparr> 23" by code_simp
  then show ?thesis by (auto simp: demo_space_def intro!: exI [of _ 23])
qed




text \<open>
  C27: A restarted node knows what the cluster has reserved: a new address space on a reliable
  etcd has exactly the stored pools, its unused subnets are exactly the generated ones without a
  reservation, in order, and creating it changes nothing in etcd.
\<close>

theorem NewEtcdBasedAddressSpace_spec:
  assumes "etcd_reliable E view" "cidr_Subnet_law cidr_Subnet" "lo_Filter_law lo_Filter" "q \<le> 32"
    "\<forall>a \<in> set space. \<exists>p \<le> q. ip4_net a p" "subnet_store c (view e)"
  shows "\<exists>sp e'. NewEtcdBasedAddressSpace E cidr_Subnet lo_Filter space (int q) c e = (Ok sp, e')
    \<and> view e' = view e
    \<and> (\<forall>i n. GetPoolById sp i = Some n \<longleftrightarrow> stored_subnet c (view e) i n)
    \<and> Ok (allSubnets sp) = generateAllSubnets cidr_Subnet space (int q)
    \<and> unusedSubnets sp = filter (\<lambda>s. view e (subnetKey c (ipnet_String s)) = None) (allSubnets sp)"
proof -
  obtain mss where mss: "generateAllSubnets cidr_Subnet space (int q) = Ok (concat mss)"
    "list_all2 (parts_of q) space mss" using generateAllSubnets_parts [OF assms(2,4,5)] by blast
  obtain kvs sp e' where sp: "NewEtcdBasedAddressSpace E cidr_Subnet lo_Filter space (int q) c e = (Ok sp, e')"
    "view e' = view e" "kv_listing (view e) (subnetsKey c) kvs" "pools sp = used_subnets (subnetsKey c) kvs"
    "allSubnets sp = concat mss" "unusedSubnets sp = foldl (remove_subnet lo_Filter) (concat mss) (cm_Values (pools sp))"
    using etcd_reliable.NewEtcdBasedAddressSpace_run [OF assms(1) mss(1), of lo_Filter c e] by blast
  have st: "cm_Get (pools sp) i = Some n \<longleftrightarrow> stored_subnet c (view e) i n" for i n
    using used_subnets_stored [OF assms(6) sp(3)] sp(4) by simp
  have vals: "n \<in> set (cm_Values (pools sp)) \<longleftrightarrow> (\<exists>i. stored_subnet c (view e) i n)" for n
    using st gomap_mem_iff [OF gomap_collect_ok, of _ n "used_subnet (subnetsKey c)" kvs]
    by (force simp: sp(4) used_subnets_collect cm_Values_def cm_Get_def)
  have "ipnet_String s \<notin> ipnet_String ` set (cm_Values (pools sp)) \<longleftrightarrow>
      view e (subnetKey c (ipnet_String s)) = None" if "s \<in> set (concat mss)" for s
  proof -
    have s: "ip4_net s q" using parts_concat_ip4 [OF mss(2) that] .
    have "ipnet_String s \<in> ipnet_String ` set (cm_Values (pools sp)) \<longleftrightarrow> (\<exists>i. stored_subnet c (view e) i s)"
    proof
      assume "ipnet_String s \<in> ipnet_String ` set (cm_Values (pools sp))"
      then obtain n i where n: "ipnet_String s = ipnet_String n" "stored_subnet c (view e) i n"
        using vals by blast
      then have "s = n" using ipnet_String_inject [OF s] by (auto simp: stored_subnet_def)
      then show "\<exists>i. stored_subnet c (view e) i s" using n(2) by blast
    qed (use vals in blast)
    then show ?thesis using s by (auto simp: stored_subnet_def)
  qed
  then have "unusedSubnets sp = filter (\<lambda>s. view e (subnetKey c (ipnet_String s)) = None) (concat mss)"
    unfolding sp(6) remove_subnets_filter [OF assms(3)] by (rule filter_cong [OF refl])
  then show ?thesis using sp(1,2,5) st mss(1) by (auto simp: GetPoolById_def)
qed

lemma NewEtcdBasedAddressSpace_spec_witness:
  "\<exists>sp e'. NewEtcdBasedAddressSpace mem_etcd cidr_Subnet_ref filter (completeSpace (demo_space ''/s'')) 24
        (as_client (demo_space ''/s'')) [(''/s/10.0.8.0-24'', ''net1'')] = (Ok sp, e')
    \<and> GetPoolById sp ''net1'' = Some \<lparr>ipnet_IP = [10, 0, 8, 0], ipnet_Mask = CIDRMask 24 32\<rparr>"
proof -
  let ?sp = "demo_space ''/s''" and ?n = "\<lparr>ipnet_IP = [10, 0, 8, 0], ipnet_Mask = CIDRMask 24 32\<rparr>"
  let ?m = "[(''/s/10.0.8.0-24'', ''net1'')]"
  have n: "ip4_net ?n 24" and k: "subnetKey (as_client ?sp) (ipnet_String ?n) = ''/s/10.0.8.0-24''" by code_simp+
  have "subnet_store (as_client ?sp) (map_of ?m)"
    unfolding subnet_store_def using n k by (auto split: if_splits)
  moreover have "lo_Filter_law filter" by (simp add: lo_Filter_law_def)
  moreover have "stored_subnet (as_client ?sp) (map_of ?m) ''net1'' ?n"
    using n k by (auto simp: stored_subnet_def)
  moreover have "int 24 = 24" by simp
  ultimately show ?thesis
    using NewEtcdBasedAddressSpace_spec [OF mem.etcd_reliable_axioms cidr_Subnet_ref_law, of filter 24
        "completeSpace ?sp" "as_client ?sp" ?m, OF _ _ demo_space_net] by auto
qed

text \<open>
  A subnet that another node releases never comes back on this node: etcd sends no value with
  a deletion, so the handler looks for a pool with an empty name, finds none and leaves the pool
  and the unused subnets as they are.
\<close>

theorem subnet_delete_ignored:
  assumes "kv_Value kv = []" "GetPoolById sp [] = None"
  shows "subnetUsageChangeEvent lo_Filter sp (SubnetDelete kv) = sp"
  using assms by (auto simp: subnetUsageChangeEvent_def GetPoolById_def cm_TryRemove_def used_subnet_def Let_def
      split: option.splits if_splits)

lemma subnet_delete_ignored_witness:
  "let sp = (demo_space ''/s'')\<lparr>pools := \<lparr>cm_m = [(''net1'', \<lparr>ipnet_IP = [10, 0, 7, 0], ipnet_Mask = CIDRMask 24 32\<rparr>)]\<rparr>\<rparr>
   in GetPoolById (subnetUsageChangeEvent filter sp
        (SubnetDelete \<lparr>kv_Key = ''/s/10.0.7.0-24'', kv_Value = []\<rparr>)) ''net1'' \<noteq> None"
proof -
  let ?sp = "(demo_space ''/s'')\<lparr>pools := \<lparr>cm_m = [(''net1'', \<lparr>ipnet_IP = [10, 0, 7, 0], ipnet_Mask = CIDRMask 24 32\<rparr>)]\<rparr>\<rparr>"
  have "GetPoolById ?sp [] = None" by (simp add: GetPoolById_def cm_Get_def)
  then have "subnetUsageChangeEvent filter ?sp (SubnetDelete \<lparr>kv_Key = ''/s/10.0.7.0-24'', kv_Value = []\<rparr>) = ?sp"
    by (intro subnet_delete_ignored) simp_all
  then show ?thesis by (simp add: Let_def GetPoolById_def cm_Get_def)
qed

end
