(* ===== verification/Dns_Resolver.thy ===== *)
theory Dns_Resolver
  imports Common_Service "HOL-Library.Multiset"
begin

text \<open>
  \<open>plugin/pkg/dns/resolver.go\<close>: the names the DNS server of a node knows. The resolver keeps
  references to the services, so that it sees their present data: a service is an address in a
  heap \<open>h\<close> that the rest of the program changes. The functions of the packages \<open>lo\<close> and \<open>dns\<close>
  are arguments.
\<close>

section \<open>State\<close>

record containerDNSNameData =
  cd_containerID :: string
  cd_networkID :: string
  cd_ip :: net_ip

type_synonym service_ref = nat
type_synonym service_heap = "service_ref \<Rightarrow> service"
type_synonym name_table = "(string, containerDNSNameData list) gomap"

record resolver =
  networkNameToID :: "(string, string) gomap"
  networkIDToName :: "(string, string) gomap"
  containerData :: name_table
  serviceData :: "(string, service_ref) gomap"
  dockerCompatibilityMode :: bool
  ttl :: "32 word"

definition NewResolver :: "bool \<Rightarrow> resolver" where
  "NewResolver mode = \<lparr>networkNameToID = [], networkIDToName = [], containerData = [], serviceData = [],
     dockerCompatibilityMode = mode, ttl = 600\<rparr>"

text \<open>The functions of the imported packages, and the constants of package \<open>dns\<close>.\<close>

record dns_A =
  rr_Name :: string
  rr_Rrtype :: nat
  rr_Class :: nat
  rr_Ttl :: "32 word"
  rr_A :: net_ip

record dns_pkgs =
  lo_Filter_items :: "(containerDNSNameData \<Rightarrow> bool) \<Rightarrow> containerDNSNameData list \<Rightarrow> containerDNSNameData list"
  lo_UniqBy :: "(net_ip \<Rightarrow> string) \<Rightarrow> net_ip list \<Rightarrow> net_ip list"
  lo_Shuffle :: "net_ip list \<Rightarrow> net_ip list"
  lo_Map_records :: "(net_ip \<Rightarrow> dns_A) \<Rightarrow> net_ip list \<Rightarrow> dns_A list"
  dns_TypeA :: nat
  dns_ClassINET :: nat

section \<open>Services and networks\<close>

definition resolver_AddService :: "service_heap \<Rightarrow> resolver \<Rightarrow> service_ref \<Rightarrow> resolver" where
  "resolver_AddService h r s = r\<lparr>serviceData := gomap_set (serviceData r) (svc_name (h s)) s\<rparr>"

definition resolver_RemoveService :: "service_heap \<Rightarrow> resolver \<Rightarrow> service_ref \<Rightarrow> resolver" where
  "resolver_RemoveService h r s = r\<lparr>serviceData := gomap_delete (serviceData r) (svc_name (h s))\<rparr>"

definition AddNetwork :: "resolver \<Rightarrow> NetworkInfo \<Rightarrow> resolver" where
  "AddNetwork r network =
     r\<lparr>networkNameToID := gomap_set (networkNameToID r) (ni_Name network) (ni_DockerID network),
       networkIDToName := gomap_set (networkIDToName r) (ni_DockerID network) (ni_Name network)\<rparr>"

definition RemoveNetwork :: "resolver \<Rightarrow> NetworkInfo \<Rightarrow> resolver" where
  "RemoveNetwork r network =
     r\<lparr>networkNameToID := gomap_delete (networkNameToID r) (ni_DockerID network),
       networkIDToName := gomap_delete (networkIDToName r) (ni_Name network)\<rparr>"

section \<open>Containers\<close>

definition add_item :: "name_table \<Rightarrow> string \<Rightarrow> containerDNSNameData \<Rightarrow> name_table" where
  "add_item itemsMap key item =
     (let items = (case map_of itemsMap key of None \<Rightarrow> [] | Some items \<Rightarrow> items)
      in gomap_set itemsMap key (items @ [item]))"

definition remove_items ::
  "dns_pkgs \<Rightarrow> name_table \<Rightarrow> string \<Rightarrow> (containerDNSNameData \<Rightarrow> bool) \<Rightarrow> name_table"
where
  "remove_items L itemsMap key predicate =
     (let items = (case map_of itemsMap key of
            None \<Rightarrow> [] | Some items \<Rightarrow> lo_Filter_items L (\<lambda>item. \<not> predicate item) items)
      in if length items = 0 then gomap_delete itemsMap key else gomap_set itemsMap key items)"

text \<open>The pairs of network and name of a container, in the order of the nested loops.\<close>

definition dns_pairs :: "ContainerInfo \<Rightarrow> (string \<times> string) list" where
  "dns_pairs c = concat (map (\<lambda>(networkID, dnsNames). map (\<lambda>dnsName. (networkID, dnsName)) dnsNames) (ci_DNSNames c))"

definition name_data :: "ContainerInfo \<Rightarrow> string \<Rightarrow> containerDNSNameData" where
  "name_data c networkID = \<lparr>cd_containerID = ci_ID c, cd_networkID = networkID,
     cd_ip = (case map_of (ci_IPs c) networkID of None \<Rightarrow> [] | Some ip \<Rightarrow> ip)\<rparr>"

definition resolver_AddContainer :: "resolver \<Rightarrow> ContainerInfo \<Rightarrow> resolver" where
  "resolver_AddContainer r c =
     r\<lparr>containerData := foldl (\<lambda>t (networkID, dnsName). add_item t dnsName (name_data c networkID))
         (containerData r) (dns_pairs c)\<rparr>"

definition resolver_RemoveContainer :: "dns_pkgs \<Rightarrow> resolver \<Rightarrow> ContainerInfo \<Rightarrow> resolver" where
  "resolver_RemoveContainer L r c =
     r\<lparr>containerData := foldl (\<lambda>t (_, dnsName). remove_items L t dnsName (\<lambda>item. cd_containerID item = ci_ID c))
         (containerData r) (dns_pairs c)\<rparr>"

text \<open>
  \<open>UpdateContainer\<close>: the names known so far, per network; then the names that are not known are
  added and crossed off; what is left over is removed.
\<close>

type_synonym known_names = "(string, (string, unit) gomap) gomap"

definition note_known :: "known_names \<Rightarrow> string \<Rightarrow> string \<Rightarrow> known_names" where
  "note_known known networkID dnsName =
     (let networkData = (case map_of known networkID of None \<Rightarrow> [] | Some d \<Rightarrow> d)
      in gomap_set known networkID (gomap_set networkData dnsName ()))"

definition known_dns_names :: "name_table \<Rightarrow> string \<Rightarrow> known_names" where
  "known_dns_names t i =
     foldl (\<lambda>known (dnsName, data).
       foldl (\<lambda>known item. if cd_containerID item = i then note_known known (cd_networkID item) dnsName else known)
         known data) [] t"

definition update_pair ::
  "ContainerInfo \<Rightarrow> name_table \<times> known_names \<Rightarrow> string \<times> string \<Rightarrow> name_table \<times> known_names"
where
  "update_pair c st pair =
     (case st of (t, known) \<Rightarrow> case pair of (networkID, dnsName) \<Rightarrow>
        (case map_of known networkID of
           Some networkData \<Rightarrow>
             if map_of networkData dnsName \<noteq> None
             then (t, gomap_set known networkID (gomap_delete networkData dnsName))
             else (add_item t dnsName (name_data c networkID), known)
         | None \<Rightarrow> (add_item t dnsName (name_data c networkID), known)))"

definition known_pairs :: "known_names \<Rightarrow> (string \<times> string) list" where
  "known_pairs known = concat (map (\<lambda>(networkID, dnsNames). map (\<lambda>(dnsName, _). (networkID, dnsName)) dnsNames) known)"

definition UpdateContainer :: "dns_pkgs \<Rightarrow> resolver \<Rightarrow> ContainerInfo \<Rightarrow> resolver" where
  "UpdateContainer L r c =
     (case foldl (update_pair c) (containerData r, known_dns_names (containerData r) (ci_ID c)) (dns_pairs c) of
        (t, known) \<Rightarrow>
          r\<lparr>containerData := foldl (\<lambda>t (networkID, dnsName).
              remove_items L t dnsName (\<lambda>item. cd_containerID item = ci_ID c \<and> cd_networkID item = networkID))
              t (known_pairs known)\<rparr>)"

section \<open>Lookups\<close>

definition filterIPsByNetwork :: "(string, net_ip) gomap \<Rightarrow> string \<Rightarrow> net_ip list" where
  "filterIPsByNetwork ips validNetworkID =
     concat (map (\<lambda>(networkID, ip). if validNetworkID = networkID then [ip] else []) ips)"

definition resolveServiceName :: "service_heap \<Rightarrow> resolver \<Rightarrow> string \<Rightarrow> string \<Rightarrow> net_ip list" where
  "resolveServiceName h r requestedName validNetworkID =
     (case map_of (serviceData r) requestedName of
        None \<Rightarrow> []
      | Some s \<Rightarrow>
          if endpointMode (h s) = ServiceEndpointModeVip
          then filterIPsByNetwork (case vips (h s) of None \<Rightarrow> [] | Some m \<Rightarrow> m) validNetworkID
          else if endpointMode (h s) = ServiceEndpointModeDnsrr
          then concat (map (\<lambda>(_, container). filterIPsByNetwork (ci_IPs container) validNetworkID)
                 (svc_containers (h s)))
          else [])"

definition resolveContainerName :: "resolver \<Rightarrow> string \<Rightarrow> string \<Rightarrow> net_ip list" where
  "resolveContainerName r requestedName validNetworkID =
     (case map_of (containerData r) requestedName of
        None \<Rightarrow> []
      | Some dnsNameData \<Rightarrow>
          concat (map (\<lambda>data. if validNetworkID = cd_networkID data then [cd_ip data] else []) dnsNameData))"

definition resolveName :: "service_heap \<Rightarrow> resolver \<Rightarrow> string \<Rightarrow> string \<Rightarrow> string \<Rightarrow> net_ip list" where
  "resolveName h r requestedName requestedNetworkName validNetworkID =
     (if requestedNetworkName \<noteq> [] \<and> map_of (networkNameToID r) requestedNetworkName \<noteq> Some validNetworkID
      then []
      else resolveServiceName h r requestedName validNetworkID @ resolveContainerName r requestedName validNetworkID)"

text \<open>
  \<open>sort.Slice\<close> sorts up to 12 elements by insertion, comparing and swapping by position; longer
  slices are left to the argument \<open>pdq\<close>. The comparison of \<open>ResolveName\<close> looks up the names of
  the unsorted slice.
\<close>

fun sink :: "(nat \<Rightarrow> nat \<Rightarrow> bool) \<Rightarrow> 'a list \<Rightarrow> nat \<Rightarrow> 'a list" where
  "sink lt xs 0 = xs"
| "sink lt xs (Suc j) =
     (if lt (Suc j) j then sink lt (xs[Suc j := xs ! j, j := xs ! Suc j]) j else xs)"

definition sort_Slice ::
  "((nat \<Rightarrow> nat \<Rightarrow> bool) \<Rightarrow> 'a list \<Rightarrow> 'a list) \<Rightarrow> (nat \<Rightarrow> nat \<Rightarrow> bool) \<Rightarrow> 'a list \<Rightarrow> 'a list"
where
  "sort_Slice pdq lt xs = (if length xs \<le> 12 then foldl (sink lt) xs [1..<length xs] else pdq lt xs)"

type_synonym slice_sort = "(nat \<Rightarrow> nat \<Rightarrow> bool) \<Rightarrow> string list \<Rightarrow> string list"

definition network_name :: "resolver \<Rightarrow> string \<Rightarrow> string" where
  "network_name r i = (case map_of (networkIDToName r) i of None \<Rightarrow> [] | Some n \<Rightarrow> n)"

definition sorted_networks :: "slice_sort \<Rightarrow> resolver \<Rightarrow> string list \<Rightarrow> string list" where
  "sorted_networks pdq r valid =
     sort_Slice pdq (\<lambda>i j. network_name r (valid ! i) < network_name r (valid ! j)) valid"

text \<open>The inner loop over the networks and the outer loop over the places to cut the name.\<close>

fun resolve_networks ::
  "service_heap \<Rightarrow> resolver \<Rightarrow> string \<Rightarrow> string \<Rightarrow> string list \<Rightarrow> net_ip list \<Rightarrow> net_ip list"
where
  "resolve_networks h r name network [] result = result"
| "resolve_networks h r name network (networkID # rest) result =
     (let result = result @ resolveName h r name network networkID
      in if dockerCompatibilityMode r \<and> length result > 0 then result
         else resolve_networks h r name network rest result)"

fun resolve_levels ::
  "service_heap \<Rightarrow> resolver \<Rightarrow> string list \<Rightarrow> string list \<Rightarrow> nat list \<Rightarrow> net_ip list \<Rightarrow> net_ip list"
where
  "resolve_levels h r queryParts networks [] result = result"
| "resolve_levels h r queryParts networks (i # is) result =
     (let requestedName = join_with ''.'' (take (length queryParts - i) queryParts);
          requestedNetworkName = join_with ''.'' (drop (length queryParts - i) queryParts);
          result = resolve_networks h r requestedName requestedNetworkName networks result
      in if length result > 0 then result else resolve_levels h r queryParts networks is result)"

definition query_parts :: "string \<Rightarrow> string list" where
  "query_parts query = split_on CHR ''.'' (TrimSuffix query ''.'')"

definition ResolveName ::
  "dns_pkgs \<Rightarrow> slice_sort \<Rightarrow> service_heap \<Rightarrow> resolver \<Rightarrow> string \<Rightarrow> string list \<Rightarrow> dns_A list"
where
  "ResolveName L pdq h r query validNetworkIDs =
     (let queryParts = query_parts query;
          result = resolve_levels h r queryParts (sorted_networks pdq r validNetworkIDs) [0..<length queryParts] [];
          result = lo_Shuffle L (lo_UniqBy L ip_String result)
      in lo_Map_records L (\<lambda>item. \<lparr>rr_Name = query, rr_Rrtype = dns_TypeA L, rr_Class = dns_ClassINET L,
           rr_Ttl = ttl r, rr_A = item\<rparr>) result)"

definition ResolveIP :: "resolver \<Rightarrow> string \<Rightarrow> string list \<Rightarrow> dns_A list" where
  "ResolveIP r query validNetworkIDs = []"

section \<open>What the packages promise\<close>

definition dns_pkgs_law :: "dns_pkgs \<Rightarrow> bool" where
  "dns_pkgs_law L \<longleftrightarrow> lo_Filter_items L = filter \<and> lo_Map_records L = map
     \<and> (\<forall>xs. mset (lo_Shuffle L xs) = mset xs)
     \<and> (\<forall>f xs. distinct (map f (lo_UniqBy L f xs)) \<and> set (lo_UniqBy L f xs) \<subseteq> set xs
          \<and> f ` set (lo_UniqBy L f xs) = f ` set xs)"

definition sort_law :: "((nat \<Rightarrow> nat \<Rightarrow> bool) \<Rightarrow> 'a list \<Rightarrow> 'a list) \<Rightarrow> bool" where
  "sort_law pdq \<longleftrightarrow> (\<forall>lt xs. mset (pdq lt xs) = mset xs)"

section \<open>The table of names\<close>

definition entries :: "name_table \<Rightarrow> (string \<times> containerDNSNameData) set" where
  "entries t = {(name, item). \<exists>items. map_of t name = Some items \<and> item \<in> set items}"

lemma entries_add [simp]: "entries (add_item t key item) = insert (key, item) (entries t)"
  by (auto simp: entries_def add_item_def Let_def split: option.splits if_splits)

lemma entries_remove:
  assumes "dns_pkgs_law L"
  shows "entries (remove_items L t key P) = {(name, item) \<in> entries t. name = key \<longrightarrow> \<not> P item}"
proof (cases "map_of t key")
  case None
  then show ?thesis by (auto simp: entries_def remove_items_def split: if_splits)
next
  case (Some items)
  then show ?thesis using assms
    by (auto simp: entries_def remove_items_def dns_pkgs_law_def Let_def filter_empty_conv split: if_splits)
qed

lemma gomap_ok_add [simp]: "gomap_ok t \<Longrightarrow> gomap_ok (add_item t key item)"
  by (simp add: add_item_def Let_def)

lemma entries_add_all:
  "entries (foldl (\<lambda>t (networkID, dnsName). add_item t dnsName (f networkID)) t ps) =
   entries t \<union> (\<lambda>(networkID, dnsName). (dnsName, f networkID)) ` set ps"
  by (induction ps arbitrary: t) auto

lemma entries_remove_all:
  assumes "dns_pkgs_law L"
  shows "entries (foldl (\<lambda>t (networkID, dnsName). remove_items L t dnsName (P networkID)) t ps) =
    {(name, item) \<in> entries t. \<forall>networkID. (networkID, name) \<in> set ps \<longrightarrow> \<not> P networkID item}"
proof (induction ps arbitrary: t)
  case (Cons p ps)
  then show ?case by (cases p) (auto simp: entries_remove [OF assms])
qed auto

section \<open>Updating a container\<close>

definition knows :: "known_names \<Rightarrow> string \<Rightarrow> string \<Rightarrow> bool" where
  "knows known networkID dnsName \<longleftrightarrow> (\<exists>d. map_of known networkID = Some d \<and> map_of d dnsName \<noteq> None)"

lemma knows_note [simp]:
  "knows (note_known known i n) j m \<longleftrightarrow> i = j \<and> n = m \<or> knows known j m"
  by (auto simp: knows_def note_known_def Let_def split: option.splits)

lemma gomap_ok_note [simp]: "gomap_ok known \<Longrightarrow> gomap_ok (note_known known i n)"
  by (simp add: note_known_def Let_def)

lemma note_items:
  "knows (foldl (\<lambda>known item. if cd_containerID item = i then note_known known (cd_networkID item) n else known) known data) j m
     \<longleftrightarrow> knows known j m \<or> (m = n \<and> (\<exists>item \<in> set data. cd_containerID item = i \<and> cd_networkID item = j))"
  "gomap_ok known \<Longrightarrow> gomap_ok (foldl (\<lambda>known item. if cd_containerID item = i then note_known known (cd_networkID item) n else known) known data)"
  by (induction data arbitrary: known) auto

lemma known_dns_names_iff:
  assumes "gomap_ok t"
  shows "knows (known_dns_names t i) j n \<longleftrightarrow>
    (\<exists>item. (n, item) \<in> entries t \<and> cd_containerID item = i \<and> cd_networkID item = j)"
    "gomap_ok (known_dns_names t i)"
proof -
  let ?note = "\<lambda>known (n, data). foldl (\<lambda>known item. if cd_containerID item = i
      then note_known known (cd_networkID item) n else known) known data"
  have "knows (foldl ?note known t) j n \<longleftrightarrow> knows known j n \<or>
      (\<exists>data item. (n, data) \<in> set t \<and> item \<in> set data \<and> cd_containerID item = i \<and> cd_networkID item = j)"
    for known and t :: name_table
  proof (induction t arbitrary: known)
    case (Cons a t)
    then show ?case by (cases a) (simp add: note_items(1), blast)
  qed simp
  moreover have "gomap_ok (foldl ?note known t)" if "gomap_ok known" for known and t :: name_table
    using that by (induction t arbitrary: known) (auto simp: note_items(2))
  ultimately show "knows (known_dns_names t i) j n \<longleftrightarrow>
      (\<exists>item. (n, item) \<in> entries t \<and> cd_containerID item = i \<and> cd_networkID item = j)"
    "gomap_ok (known_dns_names t i)"
    using assms by (auto simp: known_dns_names_def knows_def entries_def gomap_mem_iff)
qed

lemma known_pairs_iff: "gomap_ok known \<Longrightarrow> (i, n) \<in> set (known_pairs known) \<longleftrightarrow> knows known i n"
proof -
  assume ok: "gomap_ok known"
  have "(i, n) \<in> set (known_pairs known) \<longleftrightarrow> (\<exists>d. (i, d) \<in> set known \<and> n \<in> fst ` set d)"
    by (force simp: known_pairs_def)
  then show ?thesis using ok by (simp add: gomap_mem_iff knows_def map_of_eq_None_iff)
qed

lemma update_pairs:
  assumes "distinct ps" "gomap_ok known" "foldl (update_pair c) (t, known) ps = (t', known')"
  shows "entries t' = entries t \<union> {(n, name_data c i) |i n. (i, n) \<in> set ps \<and> \<not> knows known i n}
    \<and> (\<forall>i n. knows known' i n \<longleftrightarrow> knows known i n \<and> (i, n) \<notin> set ps) \<and> gomap_ok known'"
  using assms
proof (induction ps arbitrary: t known)
  case (Cons p ps)
  obtain i n where p: "p = (i, n)" by force
  show ?case
  proof (cases "knows known i n")
    case True
    then obtain d where d: "map_of known i = Some d" "map_of d n \<noteq> None" by (auto simp: knows_def)
    let ?k = "gomap_set known i (gomap_delete d n)"
    have st: "update_pair c (t, known) p = (t, ?k)" using d by (simp add: update_pair_def p)
    have k: "knows ?k j m \<longleftrightarrow> knows known j m \<and> (j, m) \<noteq> (i, n)" for j m
      using d by (auto simp: knows_def)
    have "entries t' = entries t \<union> {(n, name_data c i) |i n. (i, n) \<in> set ps \<and> \<not> knows ?k i n}
        \<and> (\<forall>j m. knows known' j m \<longleftrightarrow> knows ?k j m \<and> (j, m) \<notin> set ps) \<and> gomap_ok known'"
      using Cons.IH [of ?k t] Cons.prems st by simp
    then show ?thesis using Cons.prems(1) True by (auto simp: k p)
  next
    case False
    then have st: "update_pair c (t, known) p = (add_item t n (name_data c i), known)"
      by (auto simp: update_pair_def p knows_def split: option.splits)
    have "entries t' = entries (add_item t n (name_data c i)) \<union> {(n, name_data c i) |i n. (i, n) \<in> set ps \<and> \<not> knows known i n}
        \<and> (\<forall>j m. knows known' j m \<longleftrightarrow> knows known j m \<and> (j, m) \<notin> set ps) \<and> gomap_ok known'"
      using Cons.IH [of known "add_item t n (name_data c i)"] Cons.prems st by simp
    then show ?thesis using False by (auto simp: p)
  qed
qed simp

lemma UpdateContainer_entries:
  assumes "dns_pkgs_law L" "gomap_ok (containerData r)" "distinct (dns_pairs c)"
  shows "(name, item) \<in> entries (containerData (UpdateContainer L r c)) \<longleftrightarrow>
    ((name, item) \<in> entries (containerData r)
       \<and> (cd_containerID item = ci_ID c \<longrightarrow> (cd_networkID item, name) \<in> set (dns_pairs c)))
    \<or> (\<exists>i. (i, name) \<in> set (dns_pairs c) \<and> item = name_data c i
         \<and> \<not> (\<exists>old. (name, old) \<in> entries (containerData r) \<and> cd_containerID old = ci_ID c \<and> cd_networkID old = i))"
proof -
  let ?t = "containerData r" and ?k = "known_dns_names (containerData r) (ci_ID c)"
  obtain t' known' where u: "foldl (update_pair c) (?t, ?k) (dns_pairs c) = (t', known')" by force
  note kn = known_dns_names_iff [OF assms(2)]
  note up = update_pairs [OF assms(3) kn(2) u, unfolded kn(1)]
  have "containerData (UpdateContainer L r c) = foldl (\<lambda>t (i, n). remove_items L t n
      (\<lambda>item. cd_containerID item = ci_ID c \<and> cd_networkID item = i)) t' (known_pairs known')"
    by (simp add: UpdateContainer_def u)
  then have "(name, item) \<in> entries (containerData (UpdateContainer L r c)) \<longleftrightarrow>
      (name, item) \<in> entries t' \<and> (cd_containerID item = ci_ID c \<longrightarrow> \<not> knows known' (cd_networkID item) name)"
    using known_pairs_iff [of known'] up
    by (auto simp: entries_remove_all [OF assms(1), where P = "\<lambda>i item. cd_containerID item = ci_ID c \<and> cd_networkID item = i"])
  then show ?thesis using up by (auto simp: name_data_def)
qed

section \<open>Answers\<close>

text \<open>Which addresses a name has in a network, as the comments of the code describe it.\<close>

definition service_answer :: "service \<Rightarrow> string \<Rightarrow> net_ip \<Rightarrow> bool" where
  "service_answer s i ip \<longleftrightarrow>
     endpointMode s = ServiceEndpointModeVip \<and> (i, ip) \<in> set (case vips s of None \<Rightarrow> [] | Some m \<Rightarrow> m)
     \<or> endpointMode s = ServiceEndpointModeDnsrr \<and> (\<exists>k c. (k, c) \<in> set (svc_containers s) \<and> (i, ip) \<in> set (ci_IPs c))"

definition name_answers :: "service_heap \<Rightarrow> resolver \<Rightarrow> string \<Rightarrow> string \<Rightarrow> string \<Rightarrow> net_ip set" where
  "name_answers h r name network i = {ip. (network \<noteq> [] \<longrightarrow> map_of (networkNameToID r) network = Some i) \<and>
     ((\<exists>s. map_of (serviceData r) name = Some s \<and> service_answer (h s) i ip)
      \<or> (\<exists>item. (name, item) \<in> entries (containerData r) \<and> cd_networkID item = i \<and> cd_ip item = ip))}"

lemma set_filterIPs [simp]: "set (filterIPsByNetwork ips i) = {ip. (i, ip) \<in> set ips}"
  by (auto simp: filterIPsByNetwork_def split: if_splits)

lemma set_resolveServiceName:
  "set (resolveServiceName h r name i) = {ip. \<exists>s. map_of (serviceData r) name = Some s \<and> service_answer (h s) i ip}"
proof (cases "map_of (serviceData r) name")
  case (Some s)
  show ?thesis
    by (cases "vips (h s)")
      (force simp: Some resolveServiceName_def service_answer_def ServiceEndpointModeVip_def ServiceEndpointModeDnsrr_def)+
qed (simp add: resolveServiceName_def)

lemma set_resolveContainerName:
  "set (resolveContainerName r name i) =
   {ip. \<exists>item. (name, item) \<in> entries (containerData r) \<and> cd_networkID item = i \<and> cd_ip item = ip}"
proof (cases "map_of (containerData r) name")
  case (Some items)
  then show ?thesis by (auto simp: resolveContainerName_def entries_def split: if_splits)
qed (simp add: resolveContainerName_def entries_def)

lemma set_resolveName: "set (resolveName h r name network i) = name_answers h r name network i"
  by (auto simp: resolveName_def name_answers_def set_resolveServiceName set_resolveContainerName)

lemma resolve_networks_all:
  "\<not> dockerCompatibilityMode r \<Longrightarrow>
   set (resolve_networks h r name network is result) = set result \<union> (\<Union>i \<in> set is. name_answers h r name network i)"
  by (induction "is" arbitrary: result) (auto simp: Let_def set_resolveName)

lemma resolve_networks_first:
  "dockerCompatibilityMode r \<Longrightarrow>
   (if \<forall>i \<in> set is. name_answers h r name network i = {} then resolve_networks h r name network is [] = []
    else \<exists>i \<in> set is. name_answers h r name network i \<noteq> {}
      \<and> set (resolve_networks h r name network is []) = name_answers h r name network i)"
proof (induction "is")
  case (Cons i "is")
  show ?case
  proof (cases "name_answers h r name network i = {}")
    case True
    then have "resolveName h r name network i = []" using set_resolveName [of h r name network i] by simp
    then show ?thesis using Cons True by (auto simp: Let_def)
  next
    case False
    then have "resolveName h r name network i \<noteq> []" using set_resolveName [of h r name network i] by auto
    then show ?thesis using Cons.prems False by (auto simp: Let_def set_resolveName)
  qed
qed simp

definition level_name :: "string list \<Rightarrow> nat \<Rightarrow> string" where
  "level_name parts k = join_with ''.'' (take (length parts - k) parts)"

definition level_network :: "string list \<Rightarrow> nat \<Rightarrow> string" where
  "level_network parts k = join_with ''.'' (drop (length parts - k) parts)"

text \<open>The answers of a level: what the name before the cut has in the valid networks.\<close>

definition level_answers :: "service_heap \<Rightarrow> resolver \<Rightarrow> string list \<Rightarrow> string set \<Rightarrow> nat \<Rightarrow> net_ip set" where
  "level_answers h r parts valid k =
     (\<Union>i \<in> valid. name_answers h r (level_name parts k) (level_network parts k) i)"

lemma resolve_networks_level:
  "set (resolve_networks h r (level_name parts k) (level_network parts k) is []) \<subseteq> level_answers h r parts (set is) k"
  "resolve_networks h r (level_name parts k) (level_network parts k) is [] = [] \<longleftrightarrow> level_answers h r parts (set is) k = {}"
  "level_answers h r parts (set is) k \<noteq> {} \<Longrightarrow>
     (if dockerCompatibilityMode r
      then \<exists>i \<in> set is. set (resolve_networks h r (level_name parts k) (level_network parts k) is []) =
             name_answers h r (level_name parts k) (level_network parts k) i
      else set (resolve_networks h r (level_name parts k) (level_network parts k) is []) = level_answers h r parts (set is) k)"
  using resolve_networks_all [of r h "level_name parts k" "level_network parts k" "is" "[]"]
    resolve_networks_first [of r "is" h "level_name parts k" "level_network parts k"]
  by (cases "dockerCompatibilityMode r"; fastforce simp: level_answers_def split: if_splits)+

lemma resolve_levels_first:
  "(\<forall>k \<in> set ks. level_answers h r parts (set is) k = {}) \<and> resolve_levels h r parts is ks [] = []
   \<or> (\<exists>pre k post. ks = pre @ k # post \<and> (\<forall>j \<in> set pre. level_answers h r parts (set is) j = {})
        \<and> level_answers h r parts (set is) k \<noteq> {}
        \<and> resolve_levels h r parts is ks [] = resolve_networks h r (level_name parts k) (level_network parts k) is [])"
proof (induction ks)
  case (Cons k ks)
  let ?res = "resolve_networks h r (level_name parts k) (level_network parts k) is []"
  have st: "resolve_levels h r parts is (k # ks) [] = (if length ?res > 0 then ?res else resolve_levels h r parts is ks ?res)"
    by (simp add: Let_def level_name_def level_network_def)
  show ?case
  proof (cases "level_answers h r parts (set is) k = {}")
    case True
    then have "?res = []" using resolve_networks_level(2) by blast
    then have st': "resolve_levels h r parts is (k # ks) [] = resolve_levels h r parts is ks []" using st by simp
    from Cons.IH show ?thesis
    proof (elim disjE exE conjE)
      fix pre l post
      assume "ks = pre @ l # post" "\<forall>j \<in> set pre. level_answers h r parts (set is) j = {}"
        "level_answers h r parts (set is) l \<noteq> {}"
        "resolve_levels h r parts is ks [] = resolve_networks h r (level_name parts l) (level_network parts l) is []"
      then show ?thesis using True st'
        by (intro disjI2 exI [of _ "k # pre"] exI [of _ l] exI [of _ post]) (simp del: resolve_levels.simps)
    qed (use True st' in \<open>simp del: resolve_levels.simps\<close>)
  next
    case False
    then have "?res \<noteq> []" using resolve_networks_level(2) by blast
    then show ?thesis using False st
      by (intro disjI2 exI [of _ "[]"] exI [of _ k] exI [of _ ks]) (simp del: resolve_levels.simps)
  qed
qed simp

lemma upt_split_first: "[0..<n] = pre @ k # post \<Longrightarrow> k < n \<and> set pre = {..<k}"
proof -
  assume eq: "[0..<n] = pre @ k # post"
  then have l: "length pre < n" by (metis length_append length_upt diff_zero less_add_same_cancel1 length_Cons zero_less_Suc)
  then have "k = length pre" using eq by (metis add.left_neutral nth_append_length nth_upt)
  moreover have "pre = take (length pre) [0..<n]" using eq by simp
  then have "pre = [0..<length pre]" using l by (simp add: take_upt)
  then have "set pre = {..<length pre}" by (metis atLeast_upt)
  ultimately show ?thesis using l by simp
qed

lemma mset_sink: "j < length xs \<Longrightarrow> mset (sink lt xs j) = mset xs"
proof (induction lt xs j rule: sink.induct)
  case (2 lt xs j)
  then show ?case by (auto simp: mset_swap)
qed simp

lemma set_sort_Slice: "sort_law pdq \<Longrightarrow> set (sort_Slice pdq lt xs) = set xs"
proof -
  assume law: "sort_law pdq"
  have "mset (foldl (sink lt) ys js) = mset ys" if "\<forall>j \<in> set js. j < length ys" for ys js
    using that
  proof (induction js arbitrary: ys)
    case (Cons j js)
    then have m: "mset (sink lt ys j) = mset ys" by (simp add: mset_sink)
    then have "length (sink lt ys j) = length ys" using mset_eq_length by blast
    then show ?case using Cons m by simp
  qed simp
  from this [of "[1..<length xs]" xs] have "mset (sort_Slice pdq lt xs) = mset xs"
    using law by (auto simp: sort_Slice_def sort_law_def)
  then show ?thesis using mset_eq_setD by blast
qed


section \<open>Properties\<close>

text \<open>Functions that satisfy the laws, and a small table to apply the properties to.\<close>

fun uniq_by :: "('a \<Rightarrow> 'b) \<Rightarrow> 'a list \<Rightarrow> 'a list" where
  "uniq_by f [] = []"
| "uniq_by f (x # xs) = x # filter (\<lambda>y. f y \<noteq> f x) (uniq_by f xs)"

lemma uniq_by_law:
  "set (uniq_by f xs) \<subseteq> set xs" "f ` set (uniq_by f xs) = f ` set xs" "distinct (map f (uniq_by f xs))"
proof (induction xs)
  case (Cons x xs)
  {
    case 1
    then show ?case using Cons(1) by auto
  next
    case 2
    have "insert (f x) (f ` {y \<in> set (uniq_by f xs). f y \<noteq> f x}) = insert (f x) (f ` set (uniq_by f xs))" by auto
    then show ?case using Cons(2) by simp
  next
    case 3
    then show ?case using Cons(3) by (auto simp: distinct_map inj_on_def)
  }
qed simp_all

definition dns_ref :: dns_pkgs where
  "dns_ref = \<lparr>lo_Filter_items = filter, lo_UniqBy = uniq_by, lo_Shuffle = rev, lo_Map_records = map,
     dns_TypeA = 1, dns_ClassINET = 1\<rparr>"

lemma dns_ref_law: "dns_pkgs_law dns_ref"
  by (simp add: dns_pkgs_law_def dns_ref_def uniq_by_law)

definition no_services :: service_heap where
  "no_services s = NewService [] []"

definition demo_container :: "string \<Rightarrow> byte \<Rightarrow> ContainerInfo" where
  "demo_container net b = \<lparr>ci_ID = ''c1'', ci_Name = ''web'', ci_ServiceID = [], ci_ServiceName = [], ci_SandboxKey = [],
     ci_IPs = [(net, [10, 0, b, 9])], ci_DNSNames = [(net, [''web''])], ci_Endpoints = []\<rparr>"

definition demo_network :: "string \<Rightarrow> string \<Rightarrow> NetworkInfo" where
  "demo_network i n = \<lparr>ni_DockerID = i, ni_FlannelID = [], ni_Subnet = [], ni_Name = n\<rparr>"


definition demo_resolver :: "bool \<Rightarrow> resolver" where
  "demo_resolver mode = resolver_AddContainer (resolver_AddContainer (foldl AddNetwork (NewResolver mode)
     [demo_network ''1'' ''c'', demo_network ''2'' ''a'', demo_network ''3'' ''b''])
     (demo_container ''1'' 1)) (demo_container ''3'' 3)"


text \<open>
  The networks are not searched in alphabetical order: the comparison reads the names at the
  positions of the unsorted slice. With networks called c, a and b in this order, the
  compatibility mode answers from network c although network b, which comes before it, has the
  name too.
\<close>

theorem ResolveName_wrong_order:
  "sorted_networks pdq (demo_resolver True) [''1'', ''2'', ''3''] = [''2'', ''1'', ''3'']
   \<and> map (network_name (demo_resolver True)) [''2'', ''1'', ''3''] = [''a'', ''c'', ''b'']
   \<and> map rr_A (ResolveName dns_ref pdq no_services (demo_resolver True) ''web'' [''1'', ''2'', ''3'']) = [[10, 0, 1, 9]]
   \<and> resolveName no_services (demo_resolver True) ''web'' [] ''3'' = [[10, 0, 3, 9]]"
proof -
  have s: "sorted_networks pdq (demo_resolver True) [''1'', ''2'', ''3''] =
      sorted_networks (\<lambda>lt xs. xs) (demo_resolver True) [''1'', ''2'', ''3'']"
    by (simp add: sorted_networks_def sort_Slice_def)
  have c: "sorted_networks (\<lambda>lt xs. xs) (demo_resolver True) [''1'', ''2'', ''3''] = [''2'', ''1'', ''3'']"
    "map (network_name (demo_resolver True)) [''2'', ''1'', ''3''] = [''a'', ''c'', ''b'']"
    "map rr_A (ResolveName dns_ref (\<lambda>lt xs. xs) no_services (demo_resolver True) ''web'' [''1'', ''2'', ''3'']) = [[10, 0, 1, 9]]"
    "resolveName no_services (demo_resolver True) ''web'' [] ''3'' = [[10, 0, 3, 9]]"
    by code_simp+
  then show ?thesis unfolding ResolveName_def s by simp
qed

text \<open>
  After \<open>UpdateContainer\<close> the table has, for this container, exactly the pairs of network and
  name of the update, and everything of the other containers. But a pair that was known keeps
  its old entry, so a changed address is only taken over for new pairs.
\<close>

theorem UpdateContainer_spec:
  assumes "dns_pkgs_law L" "gomap_ok (containerData r)" "distinct (dns_pairs c)"
  shows "let old = entries (containerData r); pairs = set (dns_pairs c);
             known = (\<lambda>i name. \<exists>o'. (name, o') \<in> old \<and> cd_containerID o' = ci_ID c \<and> cd_networkID o' = i)
    in entries (containerData (UpdateContainer L r c)) =
      {(name, item) \<in> old. cd_containerID item = ci_ID c \<longrightarrow> (cd_networkID item, name) \<in> pairs}
      \<union> {(name, name_data c i) |name i. (i, name) \<in> pairs \<and> \<not> known i name}"
  unfolding Let_def using UpdateContainer_entries [OF assms] by auto

lemma UpdateContainer_spec_witness:
  "(''web'', name_data (demo_container ''1'' 1) ''1'')
     \<in> entries (containerData (UpdateContainer dns_ref (demo_resolver False) (demo_container ''1'' 77)))
   \<and> (''web'', name_data (demo_container ''1'' 77) ''1'')
     \<notin> entries (containerData (UpdateContainer dns_ref (demo_resolver False) (demo_container ''1'' 77)))"
proof -
  have ok: "gomap_ok (containerData (demo_resolver False))" by code_simp
  have d: "distinct (dns_pairs (demo_container ''1'' 77))" by code_simp
  have t: "containerData (demo_resolver False) = [(''web'',
      [name_data (demo_container ''1'' 1) ''1'', name_data (demo_container ''3'' 3) ''3''])]" by code_simp
  show ?thesis
    using UpdateContainer_spec [OF dns_ref_law ok d]
    by (auto simp: t entries_def name_data_def demo_container_def dns_pairs_def)
qed

text \<open>
  C33: Adding a container and removing it again leaves every answer for container names as it was,
  when the container was not known before.
\<close>

theorem AddContainer_RemoveContainer:
  assumes "dns_pkgs_law L" "\<forall>(name, item) \<in> entries (containerData r). cd_containerID item \<noteq> ci_ID c"
  shows "set (resolveContainerName (resolver_RemoveContainer L (resolver_AddContainer r c) c) name i) =
    set (resolveContainerName r name i)"
proof -
  have "entries (containerData (resolver_RemoveContainer L (resolver_AddContainer r c) c)) = entries (containerData r)"
    using assms(2)
    by (auto simp: resolver_RemoveContainer_def resolver_AddContainer_def entries_add_all
        entries_remove_all [OF assms(1), where P = "\<lambda>_ item. cd_containerID item = ci_ID c"] name_data_def)
  then show ?thesis by (simp add: set_resolveContainerName)
qed

lemma AddContainer_RemoveContainer_witness:
  "set (resolveContainerName (resolver_RemoveContainer dns_ref
     (resolver_AddContainer (NewResolver True) (demo_container ''1'' 1)) (demo_container ''1'' 1)) ''web'' ''1'') = {}"
  using AddContainer_RemoveContainer [OF dns_ref_law, of "NewResolver True" "demo_container ''1'' 1" "''web''" "''1''"]
  by (simp add: NewResolver_def entries_def resolveContainerName_def)

text \<open>
  \<open>RemoveNetwork\<close> does not remove a network: it deletes the id from the table of names and the
  name from the table of ids, so both directions are still there afterwards.
\<close>

theorem RemoveNetwork_keeps_network:
  assumes "ni_Name n \<noteq> ni_DockerID n"
  shows "map_of (networkNameToID (RemoveNetwork (AddNetwork r n) n)) (ni_Name n) = Some (ni_DockerID n)
    \<and> map_of (networkIDToName (RemoveNetwork (AddNetwork r n) n)) (ni_DockerID n) = Some (ni_Name n)"
  using assms by (simp add: RemoveNetwork_def AddNetwork_def)


lemma RemoveNetwork_keeps_network_witness:
  "map_of (networkNameToID (RemoveNetwork (AddNetwork (NewResolver True) (demo_network ''1'' ''web'')) (demo_network ''1'' ''web''))) ''web'' = Some ''1''"
  using RemoveNetwork_keeps_network [of "demo_network ''1'' ''web''" "NewResolver True"] by (simp add: demo_network_def)

end
