(* ===== verification/Service_Fwmarks.thy ===== *)
theory Service_Fwmarks
  imports Ipam_Pool
begin

text \<open>
  \<open>plugin/pkg/service_lb/fwmarks.go\<close>: the firewall marks of the services. Every service of a
  network has a mark of 32 bits; etcd has it once by service and once in the list of the marks of
  the network. The random bytes of the suffixes are the argument \<open>rand_Read\<close>, by the number of
  attempts left; \<open>lo.Some\<close> is an argument.
\<close>

section \<open>CRC-32\<close>

text \<open>\<open>crc32.ChecksumIEEE\<close>, bit by bit with the reflected polynomial.\<close>

definition crc_bit :: "32 word \<Rightarrow> 32 word" where
  "crc_bit c = (if bit c 0 then drop_bit 1 c XOR 0xEDB88320 else drop_bit 1 c)"

definition crc_byte :: "32 word \<Rightarrow> char \<Rightarrow> 32 word" where
  "crc_byte c x = (crc_bit ^^ 8) (c XOR of_char x)"

definition ChecksumIEEE :: "string \<Rightarrow> 32 word" where
  "ChecksumIEEE s = NOT (foldl crc_byte (NOT 0) s)"

section \<open>Generating a mark\<close>

text \<open>The random suffix of an attempt: the four bytes of \<open>rand.Read\<close> in hexadecimal, or its error.\<close>

definition generateRandomSuffix :: "(nat \<Rightarrow> byte list option) \<Rightarrow> nat \<Rightarrow> string option" where
  "generateRandomSuffix rand_Read attempt = map_option hex_bytes (rand_Read attempt)"

text \<open>The loop with the number of attempts left; the name changes with every collision.\<close>

fun generate_attempts ::
  "(nat \<Rightarrow> byte list option) \<Rightarrow> string \<Rightarrow> 32 word set \<Rightarrow> nat \<Rightarrow> string \<Rightarrow> 32 word res"
where
  "generate_attempts rand_Read serviceID marks 0 currentName =
     Err (Errorf ''unable to generate a unique FWMARK after maximum attempts'')"
| "generate_attempts rand_Read serviceID marks (Suc attempts) currentName =
     (let fwmark = ChecksumIEEE currentName
      in if fwmark \<notin> marks then Ok fwmark
         else (case generateRandomSuffix rand_Read attempts of
                 None \<Rightarrow> Err (Errorf ''failed to generate random suffix'')
               | Some suffix \<Rightarrow>
                   generate_attempts rand_Read serviceID marks attempts (serviceID @ ''_'' @ suffix)))"

definition GenerateFWMARK ::
  "(nat \<Rightarrow> byte list option) \<Rightarrow> string \<Rightarrow> string \<Rightarrow> 32 word list \<Rightarrow> 32 word res"
where
  "GenerateFWMARK rand_Read serviceID networkID existingFWMARKs =
     generate_attempts rand_Read serviceID (set existingFWMARKs) 1000 (serviceID @ ''-'' @ networkID)"

section \<open>Marks in etcd\<close>

definition fwmarksListKey :: "etcdClient \<Rightarrow> string \<Rightarrow> string" where
  "fwmarksListKey c networkID = GetKey c [networkID, ''list'']"

definition fwmarkKey :: "etcdClient \<Rightarrow> string \<Rightarrow> string \<Rightarrow> string" where
  "fwmarkKey c networkID fwmark = fwmarksListKey c networkID @ ''/'' @ fwmark"

definition fwmarkServicesKey :: "etcdClient \<Rightarrow> string \<Rightarrow> string" where
  "fwmarkServicesKey c networkID = GetKey c [networkID, ''by-service'']"

definition fwmarkServiceKey :: "etcdClient \<Rightarrow> string \<Rightarrow> string \<Rightarrow> string" where
  "fwmarkServiceKey c networkID serviceID = fwmarkServicesKey c networkID @ ''/'' @ serviceID"

definition parse_mark :: "string \<Rightarrow> 32 word option" where
  "parse_mark s = map_option of_nat (ParseUint s 32)"

definition format_mark :: "32 word \<Rightarrow> string" where
  "format_mark w = FormatUint (unat w)"

definition existing_marks :: "string \<Rightarrow> KeyValue list \<Rightarrow> 32 word list" where
  "existing_marks listKey kvs =
     concat (map (\<lambda>kv. case parse_mark (TrimLeft CHR ''/'' (TrimPrefix (kv_Key kv) listKey)) of
                         None \<Rightarrow> [] | Some w \<Rightarrow> [w]) kvs)"

text \<open>The loop of \<open>Get\<close>: it retries when the mark has been registered in the meantime.\<close>

fun register_mark ::
  "nat \<Rightarrow> 'e etcd \<Rightarrow> (nat \<Rightarrow> byte list option) \<Rightarrow> etcdClient \<Rightarrow> string \<Rightarrow> string \<Rightarrow> 'e \<Rightarrow>
   (32 word res \<times> 'e) option"
where
  "register_mark 0 E rand_Read c serviceID networkID e = None"
| "register_mark (Suc fuel) E rand_Read c serviceID networkID e =
     (let listKey = fwmarksListKey c networkID
      in case GetPrefix E listKey e of
           (Err er, e) \<Rightarrow> Some (Err er, e)
         | (Panic, e) \<Rightarrow> Some (Panic, e)
         | (Ok kvs, e) \<Rightarrow>
             (case GenerateFWMARK rand_Read serviceID networkID (existing_marks listKey kvs) of
                Err er \<Rightarrow> Some (Err er, e)
              | Panic \<Rightarrow> Some (Panic, e)
              | Ok fwmark \<Rightarrow>
                  let fwmarkStr = format_mark fwmark; key = fwmarkKey c networkID fwmarkStr
                  in case Txn E [CreateRevisionIs0 key]
                            [OpPut (fwmarkServiceKey c networkID serviceID) fwmarkStr, OpPut key serviceID] [] e of
                       (Err er, e) \<Rightarrow> Some (Err (Errorf ''etcd transaction failed''), e)
                     | (Panic, e) \<Rightarrow> Some (Panic, e)
                     | (Ok (succeeded, _), e) \<Rightarrow>
                         if \<not> succeeded then register_mark fuel E rand_Read c serviceID networkID e
                         else Some (Ok fwmark, e)))"

text \<open>A call that does not return is \<open>None\<close>, also behind the connection it runs on.\<close>

definition get_mark ::
  "nat \<Rightarrow> 'e etcd \<Rightarrow> (nat \<Rightarrow> byte list option) \<Rightarrow> etcdClient \<Rightarrow> string \<Rightarrow> string \<Rightarrow> 'e \<Rightarrow>
   (32 word res \<times> 'e) option"
where
  "get_mark fuel E rand_Read c serviceID networkID e =
     (case Get E (fwmarkServiceKey c networkID serviceID) e of
        (Err er, e) \<Rightarrow> Some (Err er, e)
      | (Panic, e) \<Rightarrow> Some (Panic, e)
      | (Ok kvs, e) \<Rightarrow>
          (case (case kvs of [] \<Rightarrow> None | kv # _ \<Rightarrow> parse_mark (kv_Value kv)) of
             Some w \<Rightarrow> Some (Ok w, e)
           | None \<Rightarrow> register_mark fuel E rand_Read c serviceID networkID e))"

definition WithConnection_opt :: "'e etcd \<Rightarrow> ('e \<Rightarrow> ('a res \<times> 'e) option) \<Rightarrow> 'e \<Rightarrow> ('a res \<times> 'e) option" where
  "WithConnection_opt E fn e =
     (case NewConnection E e of
        (Ok _, e) \<Rightarrow>
          (case fn e of
             None \<Rightarrow> None
           | Some (r, e) \<Rightarrow> Some (case connection_Close E True e of (Panic, e) \<Rightarrow> (Panic, e) | (_, e) \<Rightarrow> (r, e)))
      | (Err er, e) \<Rightarrow>
          Some (case connection_Close E False e of (Panic, e) \<Rightarrow> (Panic, e) | (_, e) \<Rightarrow> (Err er, e))
      | (Panic, e) \<Rightarrow> Some (Panic, e))"

lemma WithConnection_opt_total: "WithConnection_opt E (\<lambda>e. Some (fn e)) e = Some (WithConnection E fn e)"
  by (auto simp: WithConnection_opt_def WithConnection_def split: prod.splits res.splits)

definition fwmarks_Get ::
  "nat \<Rightarrow> 'e etcd \<Rightarrow> (nat \<Rightarrow> byte list option) \<Rightarrow> etcdClient \<Rightarrow> string \<Rightarrow> string \<Rightarrow> 'e \<Rightarrow>
   (32 word res \<times> 'e) option"
where
  "fwmarks_Get fuel E rand_Read c serviceID networkID e =
     WithConnection_opt E (get_mark fuel E rand_Read c serviceID networkID) e"

text \<open>
  \<open>errors.WithMessagef\<close> of a nil error is nil: a transaction whose comparison fails is reported
  as a success.
\<close>

definition fwmarks_Release ::
  "'e etcd \<Rightarrow> etcdClient \<Rightarrow> string \<Rightarrow> string \<Rightarrow> 32 word \<Rightarrow> 'e \<Rightarrow> unit res \<times> 'e"
where
  "fwmarks_Release E c serviceID networkID fwmark e =
     WithConnection E (\<lambda>e.
       let fwmarkStr = format_mark fwmark;
           serviceKey = fwmarkServiceKey c networkID serviceID;
           key = fwmarkKey c networkID fwmarkStr
       in case Txn E [ValueEq serviceKey fwmarkStr, ValueEq key serviceID] [OpDelete serviceKey, OpDelete key] [] e of
            (Err er, e) \<Rightarrow> (Err (Errorf ''etcd transaction failed''), e)
          | (Panic, e) \<Rightarrow> (Panic, e)
          | (Ok (succeeded, _), e) \<Rightarrow> (Ok (), e)) e"

section \<open>Stale marks\<close>

text \<open>The service and the mark of an entry, and whether the entry is deleted.\<close>

definition stale_mark ::
  "(string list \<Rightarrow> string list \<Rightarrow> bool) \<Rightarrow> string \<Rightarrow> string list \<Rightarrow> KeyValue \<Rightarrow> (string \<times> 32 word) option"
where
  "stale_mark lo_Some p existingServices kv =
     (case split_on CHR ''/'' (TrimLeft CHR ''/'' (TrimPrefix (kv_Key kv) p)) of
        [_, part, lastPart] \<Rightarrow>
          let (serviceID, fwmarkStr) = (if part = ''by-service'' then (lastPart, kv_Value kv) else (kv_Value kv, lastPart))
          in if lo_Some existingServices [serviceID] then None
             else (case parse_mark fwmarkStr of None \<Rightarrow> None | Some w \<Rightarrow> Some (serviceID, w))
      | _ \<Rightarrow> None)"

fun delete_stale ::
  "'e etcd \<Rightarrow> (string list \<Rightarrow> string list \<Rightarrow> bool) \<Rightarrow> string \<Rightarrow> string list \<Rightarrow> KeyValue list \<Rightarrow>
   (string, 32 word) gomap \<Rightarrow> 'e \<Rightarrow> 32 word list res \<times> 'e"
where
  "delete_stale E lo_Some p existingServices [] marks e = (Ok (map snd marks), e)"
| "delete_stale E lo_Some p existingServices (kv # kvs) marks e =
     (case stale_mark lo_Some p existingServices kv of
        None \<Rightarrow> delete_stale E lo_Some p existingServices kvs marks e
      | Some (serviceID, w) \<Rightarrow>
          (case Delete E (kv_Key kv) e of
             (Panic, e) \<Rightarrow> (Panic, e)
           | (_, e) \<Rightarrow> delete_stale E lo_Some p existingServices kvs (gomap_set marks serviceID w) e))"

definition cleanUpStaleFwmarks ::
  "'e etcd \<Rightarrow> (string list \<Rightarrow> string list \<Rightarrow> bool) \<Rightarrow> etcdClient \<Rightarrow> string list \<Rightarrow> 'e \<Rightarrow> 32 word list res \<times> 'e"
where
  "cleanUpStaleFwmarks E lo_Some c existingServices e =
     WithConnection E (\<lambda>e.
       let p = GetKey c []
       in res_bind (res_wrap ''failed to get fwmarks data from etcd'' (GetPrefix E p e))
            (\<lambda>kvs e. delete_stale E lo_Some p existingServices kvs [] e)) e"

section \<open>Keys and marks\<close>

lemma ChecksumIEEE_check: "ChecksumIEEE ''a'' = 0xE8B7BE43"
  by code_simp

lemma parse_format_mark [simp]: "parse_mark (format_mark w) = Some w"
proof -
  have "unat w < 2 ^ 32" using unsigned_less [of w] by simp
  then show ?thesis by (simp add: parse_mark_def format_mark_def)
qed

lemma format_mark_free: "CHR ''/'' \<notin> set (format_mark w)"
  by (simp add: format_mark_def FormatUint_free)

lemma format_mark_inject [simp]: "format_mark v = format_mark w \<longleftrightarrow> v = w"
  by (metis option.inject parse_format_mark)

lemma mark_keys_Cons:
  "fwmarkServiceKey c networkID serviceID = prefix c @ CHR ''/'' # networkID @ CHR ''/'' # ''by-service/'' @ serviceID"
  "fwmarkKey c networkID fwmark = prefix c @ CHR ''/'' # networkID @ CHR ''/'' # ''list/'' @ fwmark"
  by (simp_all add: fwmarkServiceKey_def fwmarkServicesKey_def fwmarkKey_def fwmarksListKey_def GetKey_def)

lemma mark_keys_inject:
  assumes "CHR ''/'' \<notin> set n" "CHR ''/'' \<notin> set n'"
  shows "fwmarkServiceKey c n s = fwmarkServiceKey c n' s' \<longleftrightarrow> n = n' \<and> s = s'"
    "fwmarkKey c n s = fwmarkKey c n' s' \<longleftrightarrow> n = n' \<and> s = s'"
    "fwmarkServiceKey c n s \<noteq> fwmarkKey c n' s'" "fwmarkKey c n' s' \<noteq> fwmarkServiceKey c n s"
  using sub_key_inject [OF assms] sub_key_inject [OF assms(2,1)] by (auto simp: mark_keys_Cons)

lemma listed_mark:
  assumes "kv_listing m (fwmarksListKey c n) kvs" "m (fwmarkKey c n (format_mark w)) = Some v"
  shows "w \<in> set (existing_marks (fwmarksListKey c n) kvs)"
proof -
  let ?kv = "\<lparr>kv_Key = fwmarkKey c n (format_mark w), kv_Value = v\<rparr>"
  have "?kv \<in> set kvs" using assms by (simp add: kv_listing_def fwmarkKey_def)
  moreover have "TrimLeft CHR ''/'' (TrimPrefix (kv_Key ?kv) (fwmarksListKey c n)) = format_mark w"
    using TrimLeft_free [OF format_mark_free [of w]] by (simp add: fwmarkKey_def)
  ultimately show ?thesis by (force simp: existing_marks_def)
qed

lemma generate_fresh: "generate_attempts rd s marks k name = Ok w \<Longrightarrow> w \<notin> marks"
  by (induction k arbitrary: name) (auto simp: Let_def split: if_splits option.splits)

section \<open>Who has which mark\<close>

definition fw_ok :: "etcdClient \<Rightarrow> kv_view \<Rightarrow> bool" where
  "fw_ok c m \<longleftrightarrow> (\<forall>n sid s w. CHR ''/'' \<notin> set n \<longrightarrow> m (fwmarkServiceKey c n sid) = Some s \<longrightarrow>
     parse_mark s = Some w \<longrightarrow> m (fwmarkKey c n (format_mark w)) = Some sid)"

definition fw_owner :: "etcdClient \<Rightarrow> kv_view \<Rightarrow> string \<times> 32 word \<Rightarrow> string option" where
  "fw_owner c m nw = (if CHR ''/'' \<in> set (fst nw) then None else m (fwmarkKey c (fst nw) (format_mark (snd nw))))"

definition mark_written :: "etcdClient \<Rightarrow> string \<Rightarrow> string \<Rightarrow> 32 word \<Rightarrow> kv_view \<Rightarrow> kv_view" where
  "mark_written c sid n w m =
     m(fwmarkServiceKey c n sid \<mapsto> format_mark w, fwmarkKey c n (format_mark w) \<mapsto> sid)"

definition new_mark :: "etcdClient \<Rightarrow> string \<Rightarrow> string \<times> 32 word \<Rightarrow> kv_view \<Rightarrow> kv_view \<Rightarrow> bool" where
  "new_mark c sid nw m m' \<longleftrightarrow> CHR ''/'' \<notin> set (fst nw) \<and> fw_owner c m nw = None
     \<and> m' = mark_written c sid (fst nw) (snd nw) m"

definition mark_taken :: "etcdClient \<Rightarrow> string \<Rightarrow> string \<times> 32 word \<Rightarrow> kv_view \<Rightarrow> kv_view \<Rightarrow> bool" where
  "mark_taken c sid nw m m' \<longleftrightarrow> m' = m \<and> fw_owner c m nw = Some sid \<or> new_mark c sid nw m m'"

definition marks_quiet :: "etcdClient \<Rightarrow> kv_view \<Rightarrow> kv_view \<Rightarrow> bool" where
  "marks_quiet c m m' \<longleftrightarrow> m' = m \<or> (\<exists>sid nw. new_mark c sid nw m m')"

lemma fw_owner_written:
  assumes "CHR ''/'' \<notin> set n"
  shows "fw_owner c (mark_written c sid n w m) nw = (if nw = (n, w) then Some sid else fw_owner c m nw)"
  using assms by (cases nw) (auto simp: fw_owner_def mark_written_def mark_keys_inject)

lemma new_mark_owner: "new_mark c sid nw m m' \<Longrightarrow> fw_owner c m' v = (if v = nw then Some sid else fw_owner c m v)"
  by (cases nw) (auto simp: new_mark_def fw_owner_written)

interpretation marks: exclusive_allocation "fw_owner c" "mark_taken c" "marks_quiet c" for c
proof unfold_locales
  fix sid nw m m'
  assume t: "mark_taken c sid nw m m'"
  then show "fw_owner c m' nw = Some sid" "fw_owner c m nw \<in> {None, Some sid}"
    by (auto simp: mark_taken_def new_mark_owner) (auto simp: new_mark_def)
  show "fw_owner c m' v = fw_owner c m v" if "v \<noteq> nw" for v
    using t that by (auto simp: mark_taken_def new_mark_owner)
next
  fix m m' v sid
  assume "marks_quiet c m m'" "fw_owner c m v = Some sid"
  then show "fw_owner c m' v = Some sid"
    using new_mark_owner [of c _ _ m m' v] by (auto simp: marks_quiet_def new_mark_def)
qed

lemma new_mark_ok: "fw_ok c m \<Longrightarrow> new_mark c sid nw m m' \<Longrightarrow> fw_ok c m'"
proof -
  assume ok: "fw_ok c m" and nm: "new_mark c sid nw m m'"
  obtain n w where nw: "nw = (n, w)" by force
  have n: "CHR ''/'' \<notin> set n" and free: "m (fwmarkKey c n (format_mark w)) = None" and m': "m' = mark_written c sid n w m"
    using nm nw by (auto simp: new_mark_def fw_owner_def)
  show ?thesis
    unfolding fw_ok_def
  proof (intro allI impI)
    fix n' sid' s' w'
    assume n': "CHR ''/'' \<notin> set n'" and s': "m' (fwmarkServiceKey c n' sid') = Some s'" "parse_mark s' = Some w'"
    show "m' (fwmarkKey c n' (format_mark w')) = Some sid'"
    proof (cases "n' = n \<and> sid' = sid")
      case True
      then show ?thesis using s' n by (auto simp: m' mark_written_def mark_keys_inject)
    next
      case False
      then have "m (fwmarkServiceKey c n' sid') = Some s'"
        using s' n n' by (auto simp: m' mark_written_def mark_keys_inject split: if_splits)
      then have "m (fwmarkKey c n' (format_mark w')) = Some sid'" using ok n' s'(2) by (simp add: fw_ok_def)
      then show ?thesis using free n n' by (auto simp: m' mark_written_def mark_keys_inject)
    qed
  qed
qed

lemma marks_quiet_ok: "fw_ok c m \<Longrightarrow> marks_quiet c m m' \<Longrightarrow> fw_ok c m'"
  using new_mark_ok by (auto simp: marks_quiet_def)

lemma mark_taken_quiet: "mark_taken c sid nw m m' \<Longrightarrow> marks_quiet c m m'"
  unfolding mark_taken_def marks_quiet_def by blast

context etcd_service
begin

lemma WithConnection_opt_cases:
  assumes "WithConnection_opt E fn e = Some (r, e')"
  shows "(view e' = view e \<and> (\<forall>v. r \<noteq> Ok v))
    \<or> (\<exists>e1 e2 rf. view e1 = view e \<and> fn e1 = Some (rf, e2) \<and> view e' = view e2 \<and> (r = rf \<or> r = Panic))"
proof -
  obtain r0 e1 where n: "New E e = (r0, e1)" by force
  then have v: "view e1 = view e" using New_view [of e] by simp
  show ?thesis
  proof (cases r0)
    case (Ok u)
    then obtain rf e2 where f: "fn e1 = Some (rf, e2)"
      using assms n by (auto simp: WithConnection_opt_def NewConnection_def split: option.splits)
    obtain rc e3 where c: "Close E e2 = (rc, e3)" by force
    then have "view e' = view e2 \<and> (r = rf \<or> r = Panic)"
      using assms n f Ok Close_view [of e2]
      by (cases rc) (auto simp: WithConnection_opt_def NewConnection_def connection_Close_def)
    then show ?thesis using v f by blast
  next
    case (Err er)
    obtain rc e3 where c: "CloseFailed E e1 = (rc, e3)" by force
    then show ?thesis
      using assms n v Err CloseFailed_view [of e1]
      by (cases rc) (auto simp: WithConnection_opt_def NewConnection_def connection_Close_def)
  qed (use assms n v New_no_panic [of e] in auto)
qed

lemma register_mark_effect:
  assumes "CHR ''/'' \<notin> set n"
  shows "register_mark fuel E rd c sid n e = Some (r, e') \<Longrightarrow>
    (case r of Ok w \<Rightarrow> new_mark c sid (n, w) (view e) (view e') | _ \<Rightarrow> marks_quiet c (view e) (view e'))"
proof (induction fuel arbitrary: e)
  case (Suc fuel)
  obtain r1 e1 where l: "GetPrefix E (fwmarksListKey c n) e = (r1, e1)" by force
  then have v1: "view e1 = view e" using GetPrefix_view [of "fwmarksListKey c n" e] by simp
  show ?case
  proof (cases r1)
    case (Ok kvs)
    let ?g = "GenerateFWMARK rd sid n (existing_marks (fwmarksListKey c n) kvs)"
    show ?thesis
    proof (cases ?g)
      case (Ok w)
      let ?key = "fwmarkKey c n (format_mark w)" and ?put = "[OpPut (fwmarkServiceKey c n sid) (format_mark w), OpPut (fwmarkKey c n (format_mark w)) sid]"
      obtain r2 e2 where t: "Txn E [CreateRevisionIs0 ?key] ?put [] e1 = (r2, e2)" by force
      have new: "new_mark c sid (n, w) (view e) (apply_ops ?put (view e))" if "view e ?key = None"
        using that assms by (simp add: new_mark_def fw_owner_def mark_written_def)
      from t show ?thesis
      proof (cases rule: Txn_cases)
        case (1 b rs)
        show ?thesis
        proof (cases b)
          case True
          then have "r = Ok w" "e' = e2" using Suc.prems l \<open>r1 = Ok kvs\<close> Ok t 1 by (simp_all add: Let_def)
          then show ?thesis using 1 True new v1 by simp
        next
          case False
          then have "register_mark fuel E rd c sid n e2 = Some (r, e')"
            using Suc.prems l \<open>r1 = Ok kvs\<close> Ok t 1(1) by (simp add: Let_def)
          moreover have "view e2 = view e" using 1(4) False v1 by simp
          ultimately show ?thesis using Suc.IH by metis
        qed
      next
        case (2 er)
        then have "r = Err (Errorf ''etcd transaction failed'')" "e' = e2"
          using Suc.prems l \<open>r1 = Ok kvs\<close> Ok t by (simp_all add: Let_def)
        then show ?thesis using 2 new v1 by (auto simp: marks_quiet_def split: if_splits)
      qed
    next
      case (Err er)
      then have "r = Err er" "e' = e1" using Suc.prems l Ok by (simp_all add: Let_def)
      then show ?thesis using v1 by (simp add: marks_quiet_def)
    next
      case Panic
      then have "r = Panic" "e' = e1" using Suc.prems l Ok by (simp_all add: Let_def)
      then show ?thesis using v1 by (simp add: marks_quiet_def)
    qed
  qed (use Suc.prems l v1 in \<open>auto simp: marks_quiet_def Let_def\<close>)
qed simp

lemma get_mark_effect:
  assumes "get_mark fuel E rd c sid n e = Some (r, e')" "CHR ''/'' \<notin> set n" "fw_ok c (view e)"
  shows "(case r of Ok w \<Rightarrow> mark_taken c sid (n, w) (view e) (view e') | _ \<Rightarrow> marks_quiet c (view e) (view e'))"
proof -
  let ?k = "fwmarkServiceKey c n sid"
  obtain r1 e1 where g: "Get E ?k e = (r1, e1)" by force
  then have v1: "view e1 = view e" using Get_view [of ?k e] by simp
  show ?thesis
  proof (cases r1)
    case (Ok kvs)
    have kvs: "kvs = kvs_of (view e) ?k" using Get_Ok g Ok by blast
    show ?thesis
    proof (cases "case kvs of [] \<Rightarrow> None | kv # _ \<Rightarrow> parse_mark (kv_Value kv)")
      case None
      then have "register_mark fuel E rd c sid n e1 = Some (r, e')" using assms(1) g Ok by (simp add: get_mark_def)
      from register_mark_effect [OF assms(2) this] show ?thesis
        by (cases r) (simp_all add: v1 mark_taken_def)
    next
      case (Some w)
      then have "r = Ok w" "e' = e1" using assms(1) g Ok by (auto simp: get_mark_def)
      moreover obtain s where "view e ?k = Some s" "parse_mark s = Some w"
        using Some by (auto simp: kvs kvs_of_def split: option.splits)
      then have "fw_owner c (view e) (n, w) = Some sid" using assms(2,3) by (auto simp: fw_ok_def fw_owner_def)
      ultimately show ?thesis using v1 by (simp add: mark_taken_def)
    qed
  qed (use assms(1) g v1 in \<open>auto simp: get_mark_def marks_quiet_def\<close>)
qed

lemma fwmarks_Get_effect:
  assumes "fwmarks_Get fuel E rd c sid n e = Some (r, e')" "CHR ''/'' \<notin> set n" "fw_ok c (view e)"
  shows "(\<forall>w. r = Ok w \<longrightarrow> mark_taken c sid (n, w) (view e) (view e')) \<and> marks_quiet c (view e) (view e')"
proof -
  consider "view e' = view e" "\<forall>v. r \<noteq> Ok v"
    | e1 e2 rf where "view e1 = view e" "get_mark fuel E rd c sid n e1 = Some (rf, e2)" "view e' = view e2" "r = rf \<or> r = Panic"
    using WithConnection_opt_cases [OF assms(1) [unfolded fwmarks_Get_def]] by blast
  then show ?thesis
  proof cases
    case 1
    then show ?thesis by (simp add: marks_quiet_def)
  next
    case (2 e1 e2 rf)
    from get_mark_effect [OF 2(2) assms(2)] assms(3) 2 show ?thesis
      by (cases rf) (auto dest: mark_taken_quiet)
  qed
qed

end

text \<open>Calls of \<open>Get\<close> on any number of nodes, one after the other.\<close>

inductive marks_run :: "'e etcd \<Rightarrow> etcdClient \<Rightarrow> 'e \<Rightarrow> (string \<times> string \<times> 32 word) list \<Rightarrow> 'e \<Rightarrow> bool" for E c
where
  stop: "marks_run E c e [] e"
| get: "fwmarks_Get fuel E rd c sid n e = Some (r, e1) \<Longrightarrow> CHR ''/'' \<notin> set n \<Longrightarrow> marks_run E c e1 log e' \<Longrightarrow>
    marks_run E c e ((case r of Ok w \<Rightarrow> [(sid, n, w)] | _ \<Rightarrow> []) @ log) e'"

context etcd_service
begin

lemma marks_run_history:
  "marks_run E c e log e' \<Longrightarrow> fw_ok c (view e) \<Longrightarrow>
   \<exists>h. marks.history c h (view e) (view e') \<and> Some ` set log \<subseteq> set h"
proof (induction rule: marks_run.induct)
  case (stop e)
  show ?case by (rule exI [of _ "[]"]) simp
next
  case (get fuel rd sid n e r e1 log e')
  note eff = fwmarks_Get_effect [OF get.hyps(1,2) get.prems]
  then have "fw_ok c (view e1)" using marks_quiet_ok get.prems by blast
  then obtain h where h: "marks.history c h (view e1) (view e')" "Some ` set log \<subseteq> set h" using get.IH by blast
  show ?case
  proof (cases r)
    case (Ok w)
    then show ?thesis using h eff by (intro exI [of _ "Some (sid, n, w) # h"]) auto
  qed (use h eff in \<open>auto intro!: exI [of _ "None # h"]\<close>)
qed

end

section \<open>Calls that return\<close>

text \<open>The mark a service has in the store, if it has one that can be read.\<close>

definition stored_mark :: "etcdClient \<Rightarrow> kv_view \<Rightarrow> string \<Rightarrow> string \<Rightarrow> 32 word option" where
  "stored_mark c m sid n = Option.bind (m (fwmarkServiceKey c n sid)) parse_mark"

context etcd_reliable
begin

lemma register_mark_run:
  "\<exists>kvs r e'. kv_listing (view e) (fwmarksListKey c n) kvs \<and>
    r = GenerateFWMARK rd sid n (existing_marks (fwmarksListKey c n) kvs) \<and>
    register_mark (Suc fuel) E rd c sid n e = Some (r, e') \<and>
    (case r of Ok w \<Rightarrow> view e (fwmarkKey c n (format_mark w)) = None \<and> view e' = mark_written c sid n w (view e)
     | _ \<Rightarrow> view e' = view e)"
proof -
  obtain kvs e1 where l: "GetPrefix E (fwmarksListKey c n) e = (Ok kvs, e1)" using GetPrefix_ok by blast
  note ls = GetPrefix_Ok [OF l]
  have v1: "view e1 = view e" using l GetPrefix_view [of "fwmarksListKey c n" e] by simp
  let ?g = "GenerateFWMARK rd sid n (existing_marks (fwmarksListKey c n) kvs)"
  show ?thesis
  proof (cases ?g)
    case (Ok w)
    have free: "view e (fwmarkKey c n (format_mark w)) = None"
      using listed_mark [OF ls, of w] generate_fresh [of rd sid] Ok by (fastforce simp: GenerateFWMARK_def)
    let ?key = "fwmarkKey c n (format_mark w)" and ?put = "[OpPut (fwmarkServiceKey c n sid) (format_mark w), OpPut (fwmarkKey c n (format_mark w)) sid]"
    obtain br e2 where t: "Txn E [CreateRevisionIs0 ?key] ?put [] e1 = (Ok br, e2)" using Txn_ok by blast
    obtain b rs where br: "br = (b, rs)" by force
    from Txn_Ok [OF t [unfolded br]] have b: b "view e2 = mark_written c sid n w (view e)"
      using free v1 by (auto simp: mark_written_def)
    have "register_mark (Suc fuel) E rd c sid n e = Some (Ok w, e2)"
      using l Ok t br b(1) by (simp add: Let_def)
    then show ?thesis using ls Ok free b(2)
      by (intro exI [of _ kvs] exI [of _ "Ok w"] exI [of _ e2]) simp
  next
    case (Err er)
    then show ?thesis using ls l v1 by (intro exI [of _ kvs] exI [of _ "Err er"] exI [of _ e1]) (simp add: Let_def)
  next
    case Panic
    then show ?thesis using ls l v1 by (intro exI [of _ kvs] exI [of _ Panic] exI [of _ e1]) (simp add: Let_def)
  qed
qed

lemma get_mark_run:
  "\<exists>r e'. get_mark (Suc fuel) E rd c sid n e = Some (r, e') \<and>
    (case stored_mark c (view e) sid n of
       Some w \<Rightarrow> r = Ok w \<and> view e' = view e
     | None \<Rightarrow> (\<exists>marks. r = GenerateFWMARK rd sid n marks)
         \<and> (case r of Ok w \<Rightarrow> view e (fwmarkKey c n (format_mark w)) = None \<and> view e' = mark_written c sid n w (view e)
            | _ \<Rightarrow> view e' = view e))"
proof -
  let ?k = "fwmarkServiceKey c n sid"
  obtain kvs e1 where g: "Get E ?k e = (Ok kvs, e1)" using Get_ok by blast
  have kvs: "kvs = kvs_of (view e) ?k" and v1: "view e1 = view e" using Get_Ok [OF g] Get_view [of ?k e] g by simp_all
  have sm: "(case kvs of [] \<Rightarrow> None | kv # _ \<Rightarrow> parse_mark (kv_Value kv)) = stored_mark c (view e) sid n"
    by (simp add: kvs kvs_of_def stored_mark_def split: option.splits)
  show ?thesis
  proof (cases "stored_mark c (view e) sid n")
    case None
    then have "get_mark (Suc fuel) E rd c sid n e = register_mark (Suc fuel) E rd c sid n e1"
      using g sm by (simp add: get_mark_def)
    moreover obtain r e' where "register_mark (Suc fuel) E rd c sid n e1 = Some (r, e')"
      "\<exists>marks. r = GenerateFWMARK rd sid n marks"
      "case r of Ok w \<Rightarrow> view e (fwmarkKey c n (format_mark w)) = None \<and> view e' = mark_written c sid n w (view e)
         | _ \<Rightarrow> view e' = view e"
      using register_mark_run [of e1 c n rd sid fuel] unfolding v1 by blast
    ultimately show ?thesis using None by auto
  next
    case (Some w)
    then show ?thesis using g sm v1 by (simp add: get_mark_def)
  qed
qed

lemma WithConnection_opt_run:
  assumes "\<And>e1. view e1 = view e \<Longrightarrow> \<exists>r e2. fn e1 = Some (r, e2) \<and> P r (view e2)"
  shows "\<exists>r e'. WithConnection_opt E fn e = Some (r, e') \<and> P r (view e')"
proof -
  obtain e1 where n: "New E e = (Ok (), e1)" using New_ok by blast
  then have "view e1 = view e" using New_view [of e] by simp
  then obtain r e2 where f: "fn e1 = Some (r, e2)" "P r (view e2)" using assms by blast
  obtain rc e3 where c: "Close E e2 = (rc, e3)" by force
  then have "rc \<noteq> Panic" "view e3 = view e2" using Close_no_panic [of e2] Close_view [of e2] by simp_all
  then show ?thesis using n f c
    by (cases rc) (simp_all add: WithConnection_opt_def NewConnection_def connection_Close_def)
qed

lemma fwmarks_Get_run:
  "\<exists>r e'. fwmarks_Get (Suc fuel) E rd c sid n e = Some (r, e') \<and>
    (case stored_mark c (view e) sid n of
       Some w \<Rightarrow> r = Ok w \<and> view e' = view e
     | None \<Rightarrow> (\<exists>marks. r = GenerateFWMARK rd sid n marks)
         \<and> (case r of Ok w \<Rightarrow> view e (fwmarkKey c n (format_mark w)) = None \<and> view e' = mark_written c sid n w (view e)
            | _ \<Rightarrow> view e' = view e))"
  unfolding fwmarks_Get_def
proof (rule WithConnection_opt_run)
  fix e1
  assume v: "view e1 = view e"
  show "\<exists>r e2. get_mark (Suc fuel) E rd c sid n e1 = Some (r, e2) \<and>
    (case stored_mark c (view e) sid n of
       Some w \<Rightarrow> r = Ok w \<and> view e2 = view e
     | None \<Rightarrow> (\<exists>marks. r = GenerateFWMARK rd sid n marks)
         \<and> (case r of Ok w \<Rightarrow> view e (fwmarkKey c n (format_mark w)) = None \<and> view e2 = mark_written c sid n w (view e)
            | _ \<Rightarrow> view e2 = view e))"
    using get_mark_run [of fuel rd c sid n e1] unfolding v .
qed

lemma fwmarks_Release_run:
  "\<exists>e'. fwmarks_Release E c sid n w e = (Ok (), e') \<and>
    view e' = (if view e (fwmarkServiceKey c n sid) = Some (format_mark w) \<and> view e (fwmarkKey c n (format_mark w)) = Some sid
      then (view e)(fwmarkServiceKey c n sid := None, fwmarkKey c n (format_mark w) := None) else view e)"
proof -
  let ?s = "fwmarkServiceKey c n sid" and ?k = "fwmarkKey c n (format_mark w)"
  obtain r e' where r: "fwmarks_Release E c sid n w e = (r, e')" by force
  obtain e1 e2 where v: "view e1 = view e" "view e' = view e2" and
    t: "(case Txn E [ValueEq ?s (format_mark w), ValueEq ?k sid] [OpDelete ?s, OpDelete ?k] [] e1 of
            (Err er, e) \<Rightarrow> (Err (Errorf ''etcd transaction failed''), e)
          | (Panic, e) \<Rightarrow> (Panic, e)
          | (Ok (succeeded, _), e) \<Rightarrow> (Ok (), e)) = (r, e2)"
    using WithConnection_run [OF r [unfolded fwmarks_Release_def Let_def]] by blast
  obtain br e3 where x: "Txn E [ValueEq ?s (format_mark w), ValueEq ?k sid] [OpDelete ?s, OpDelete ?k] [] e1 = (Ok br, e3)"
    using Txn_ok by blast
  obtain b rs where br: "br = (b, rs)" by force
  from Txn_Ok [OF x [unfolded br]] show ?thesis using t x br v r by (auto split: if_splits)
qed

end

section \<open>Properties\<close>


definition demo_fw :: etcdClient where
  "demo_fw = NewEtcdClient [] 5 ''/fw''"

definition demo_marks :: mem where
  "demo_marks =
     [(fwmarkKey demo_fw ''n'' (format_mark 7), ''a''), (fwmarkServiceKey demo_fw ''n'' ''a'', format_mark 7),
      (fwmarkKey demo_fw ''n'' (format_mark 8), ''b''), (fwmarkServiceKey demo_fw ''n'' ''b'', format_mark 8)]"

lemma demo_marks_ok: "fw_ok demo_fw (map_of demo_marks)"
proof -
  let ?m = "mark_written demo_fw ''b'' ''n'' 8 Map.empty"
  have "fw_ok demo_fw ?m"
    by (rule new_mark_ok [where m = Map.empty and nw = "(''n'', 8)" and sid = "''b''"]) (auto simp: fw_ok_def new_mark_def fw_owner_def)
  then have "fw_ok demo_fw (mark_written demo_fw ''a'' ''n'' 7 ?m)"
    by (rule new_mark_ok [where nw = "(''n'', 7)" and sid = "''a''"]) (simp add: new_mark_def fw_owner_written, simp add: fw_owner_def)
  moreover have "map_of demo_marks = mark_written demo_fw ''a'' ''n'' 7 ?m"
    by (simp add: demo_marks_def mark_written_def)
  ultimately show ?thesis by simp
qed

lemma demo_stored:
  "stored_mark demo_fw (map_of demo_marks) ''a'' ''n'' = Some 7" "stored_mark demo_fw (map_of demo_marks) ''b'' ''n'' = Some 8"
  by (simp_all add: stored_mark_def demo_marks_def mark_keys_inject)


text \<open>
  On a reliable etcd \<open>Get\<close> returns in the first round of its loop. A service that has a mark
  gets it again and nothing changes; otherwise a mark is generated, and unless the generation
  fails it is one that no service of the network has, and it is stored for this service.
\<close>

theorem fwmarks_Get_spec:
  assumes "etcd_reliable E view"
  shows "\<exists>r e'. fwmarks_Get (Suc fuel) E rand_Read c sid n e = Some (r, e') \<and>
    (case stored_mark c (view e) sid n of
       Some w \<Rightarrow> r = Ok w \<and> view e' = view e
     | None \<Rightarrow> (\<exists>marks. r = GenerateFWMARK rand_Read sid n marks)
         \<and> (case r of Ok w \<Rightarrow> view e (fwmarkKey c n (format_mark w)) = None \<and> view e' = mark_written c sid n w (view e)
            | _ \<Rightarrow> view e' = view e))"
  by (rule etcd_reliable.fwmarks_Get_run [OF assms])

lemma fwmarks_Get_spec_witness:
  "\<exists>e'. fwmarks_Get 1 mem_etcd (\<lambda>_. None) demo_fw ''a'' ''n'' demo_marks = Some (Ok 7, e')"
  using fwmarks_Get_spec [OF mem.etcd_reliable_axioms, of 0 "\<lambda>_. None" demo_fw "''a''" "''n''" demo_marks] demo_stored(1)
  by auto

text \<open>
  \<open>Release\<close> reports success whatever happened: the keys of the mark are removed only when both
  name this service and this mark, but the answer is the same when they do not and nothing is
  removed.
\<close>

theorem fwmarks_Release_always_succeeds:
  assumes "etcd_reliable E view"
  shows "\<exists>e'. fwmarks_Release E c sid n w e = (Ok (), e') \<and>
    view e' = (if view e (fwmarkServiceKey c n sid) = Some (format_mark w) \<and> view e (fwmarkKey c n (format_mark w)) = Some sid
      then (view e)(fwmarkServiceKey c n sid := None, fwmarkKey c n (format_mark w) := None) else view e)"
  by (rule etcd_reliable.fwmarks_Release_run [OF assms])

lemma fwmarks_Release_always_succeeds_witness:
  "\<exists>e'. fwmarks_Release mem_etcd demo_fw ''a'' ''n'' 8 demo_marks = (Ok (), e') \<and> map_of e' = map_of demo_marks"
proof -
  have "map_of demo_marks (fwmarkKey demo_fw ''n'' (format_mark 8)) \<noteq> Some ''a''"
    by (simp add: demo_marks_def mark_keys_inject)
  then show ?thesis
    using fwmarks_Release_always_succeeds [OF mem.etcd_reliable_axioms, of demo_fw "''a''" "''n''" 8 demo_marks] by auto
qed

end
