(* ===== verification/Etcd_Sharded.thy ===== *)
theory Etcd_Sharded
  imports Etcd_Stores
begin

text \<open>
  \<open>plugin/pkg/etcd/sharded_distributed_store.go\<close>: a store whose items are grouped by the key of
  the node (shard) that owns them. The local shard is written by this node, the others are
  followed through etcd. The concurrent maps of the shards are owned by the outer map, so an
  update of a shard is an update of the outer map at its key. Operations return the handler
  calls they make, in order.
\<close>

section \<open>State\<close>

record 'a ShardItem =
  shi_ShardKey :: string
  shi_ID :: string
  shi_Value :: 'a

record 'a ShardItemChange =
  shc_ShardKey :: string
  shc_ID :: string
  shc_Previous :: 'a
  shc_Current :: 'a

record ShardItemsHandlers =
  sh_has_OnChanged :: bool
  sh_has_OnAdded :: bool
  sh_has_OnRemoved :: bool

datatype 'a shard_call =
  ShOnChanged "'a ShardItemChange list"
| ShOnAdded "'a ShardItem list"
| ShOnRemoved "'a ShardItem list"

record 'a shardedDistributedStore =
  ss_client :: etcdClient
  localShardKey :: string
  ss_handlers :: ShardItemsHandlers
  shardedData :: "(string, (string, 'a) ConcurrentMap) ConcurrentMap"
  ss_data :: "(string, 'a) ConcurrentMap"
  itemToShardKey :: "(string, string) ConcurrentMap"

type_synonym 'a shard_changes = "'a ShardItemChange list \<times> 'a ShardItem list \<times> 'a ShardItem list"

type_synonym ('a, 'e) sharded_result =
  "(unit res \<times> 'a shard_call list) \<times> 'a shardedDistributedStore \<times> 'e"

definition NewShardedDistributedStore ::
  "etcdClient \<Rightarrow> string \<Rightarrow> ShardItemsHandlers \<Rightarrow> 'a shardedDistributedStore"
where
  "NewShardedDistributedStore client key h =
     \<lparr>ss_client = client, localShardKey = key, ss_handlers = h,
      shardedData = cm_Set NewConcurrentMap key NewConcurrentMap,
      ss_data = NewConcurrentMap, itemToShardKey = NewConcurrentMap\<rparr>"

section \<open>Reading\<close>

text \<open>The copy of a shard: a map made from its keys one by one.\<close>

definition copy_shard :: "(string, 'a) ConcurrentMap \<Rightarrow> (string, 'a) gomap" where
  "copy_shard items = gomap_collect (\<lambda>i. map_option (Pair i) (cm_Get items i)) (cm_Keys items)"

definition sh_GetAll :: "'a shardedDistributedStore \<Rightarrow> (string, (string, 'a) gomap) gomap" where
  "sh_GetAll s =
     gomap_collect (\<lambda>key. map_option (\<lambda>items. (key, copy_shard items)) (cm_Get (shardedData s) key))
       (cm_Keys (shardedData s))"

definition GetLocalShardKey :: "'a shardedDistributedStore \<Rightarrow> string" where
  "GetLocalShardKey s = localShardKey s"

definition GetShard :: "'a shardedDistributedStore \<Rightarrow> string \<Rightarrow> (string, 'a) gomap option" where
  "GetShard s key = map_option copy_shard (cm_Get (shardedData s) key)"

text \<open>The shard key of an item without one is the zero value of its type, the empty string.\<close>

definition sh_GetItem :: "'a shardedDistributedStore \<Rightarrow> string \<Rightarrow> string \<times> 'a option" where
  "sh_GetItem s itemID =
     ((case cm_Get (itemToShardKey s) itemID of Some k \<Rightarrow> k | None \<Rightarrow> []), cm_Get (ss_data s) itemID)"

section \<open>Items in etcd\<close>

definition sh_storeItem ::
  "'e etcd \<Rightarrow> 'a codec \<Rightarrow> etcdClient \<Rightarrow> string \<Rightarrow> string \<Rightarrow> 'a \<Rightarrow> 'e \<Rightarrow> bool res \<times> 'e"
where
  "sh_storeItem E C client shardKey itemID item e =
     (case Marshal C item of
        None \<Rightarrow> (Err (Errorf ''Failed to serialize item''), e)
      | Some bytes \<Rightarrow> PutIfNewOrChanged E (GetKey client [shardKey, itemID]) bytes e)"

text \<open>\<open>None\<close>: the key is ignored.\<close>

definition parseItemKey :: "string \<Rightarrow> string \<Rightarrow> (string \<times> string) option" where
  "parseItemKey kvKey p =
     (let key = TrimLeft CHR ''/'' (TrimPrefix kvKey p); parts = split_on CHR ''/'' key
      in if length parts \<noteq> 2 then None else Some (parts ! 0, parts ! 1))"

definition sh_parseItem :: "'a codec \<Rightarrow> KeyValue \<Rightarrow> 'a res" where
  "sh_parseItem C kv =
     (case Unmarshal C (kv_Value kv) of
        None \<Rightarrow> Err (Errorf ''error parsing item'')
      | Some item \<Rightarrow> Ok item)"

definition setShardedItem ::
  "(string, (string, 'a) gomap) gomap \<Rightarrow> string \<Rightarrow> string \<Rightarrow> 'a \<Rightarrow> (string, (string, 'a) gomap) gomap"
where
  "setShardedItem dst shardKey itemID item =
     (let shard = (case map_of dst shardKey of Some shard \<Rightarrow> shard | None \<Rightarrow> [])
      in gomap_set dst shardKey (gomap_set shard itemID item))"

fun sh_collect ::
  "'a codec \<Rightarrow> string \<Rightarrow> KeyValue list \<Rightarrow> (string, (string, 'a) gomap) gomap \<Rightarrow>
   (string, (string, 'a) gomap) gomap res"
where
  "sh_collect C p [] result = Ok result"
| "sh_collect C p (kv # kvs) result =
     (case parseItemKey (kv_Key kv) p of
        None \<Rightarrow> sh_collect C p kvs result
      | Some (shardKey, itemID) \<Rightarrow>
          (case sh_parseItem C kv of
             Ok item \<Rightarrow> sh_collect C p kvs (setShardedItem result shardKey itemID item)
           | Err er \<Rightarrow> Err er
           | Panic \<Rightarrow> Panic))"

definition sh_loadData ::
  "'e etcd \<Rightarrow> 'a codec \<Rightarrow> etcdClient \<Rightarrow> 'e \<Rightarrow> (string, (string, 'a) gomap) gomap res \<times> 'e"
where
  "sh_loadData E C client e =
     (let p = GetKey client []
      in res_bind (res_wrap ''Error getting data from etcd for prefix'' (GetPrefix E p e))
           (\<lambda>kvs e. (sh_collect C p kvs [], e)))"

section \<open>Changes of the local shard\<close>

text \<open>The local shard's map is a pointer: without it (nil) the calls on it panic.\<close>

definition sh_finish ::
  "unit res \<times> 'e \<Rightarrow> 'a shardedDistributedStore \<Rightarrow> 'a shard_call list \<Rightarrow> ('a, 'e) sharded_result"
where
  "sh_finish r s calls =
     (case r of
        (Ok _, e) \<Rightarrow> ((Ok (), calls), s, e)
      | (Err er, e) \<Rightarrow> ((Err er, []), s, e)
      | (Panic, e) \<Rightarrow> ((Panic, []), s, e))"

definition sh_AddOrUpdateItem ::
  "'e etcd \<Rightarrow> 'a codec \<Rightarrow> ('a \<Rightarrow> 'a \<Rightarrow> bool) \<Rightarrow> 'a shardedDistributedStore \<Rightarrow> string \<Rightarrow> 'a \<Rightarrow> 'e \<Rightarrow>
   ('a, 'e) sharded_result"
where
  "sh_AddOrUpdateItem E C Equals s itemID item e =
     (let shardKey = localShardKey s
      in case cm_Get (shardedData s) shardKey of
           None \<Rightarrow> ((Panic, []), s, e)
         | Some shardItems \<Rightarrow>
             let previousItem = cm_Get shardItems itemID;
                 s = s\<lparr>shardedData := cm_Set (shardedData s) shardKey (cm_Set shardItems itemID item),
                       ss_data := cm_Set (ss_data s) itemID item,
                       itemToShardKey := cm_Set (itemToShardKey s) itemID shardKey\<rparr>;
                 r = WithConnection E (\<lambda>e.
                       res_bind (res_wrap ''failed to store item''
                           (sh_storeItem E C (ss_client s) shardKey itemID item e))
                         (\<lambda>_ e. (Ok (), e))) e
             in sh_finish r s
                  (case previousItem of
                     Some previous \<Rightarrow>
                       if \<not> Equals previous item \<and> sh_has_OnChanged (ss_handlers s)
                       then [ShOnChanged [\<lparr>shc_ShardKey = shardKey, shc_ID = itemID,
                               shc_Previous = previous, shc_Current = item\<rparr>]] else []
                   | None \<Rightarrow>
                       if sh_has_OnAdded (ss_handlers s)
                       then [ShOnAdded [\<lparr>shi_ShardKey = shardKey, shi_ID = itemID, shi_Value = item\<rparr>]]
                       else []))"

definition sh_DeleteItem ::
  "'e etcd \<Rightarrow> 'a shardedDistributedStore \<Rightarrow> string \<Rightarrow> 'e \<Rightarrow> ('a, 'e) sharded_result"
where
  "sh_DeleteItem E s itemID e =
     (let shardKey = localShardKey s
      in case cm_Get (shardedData s) shardKey of
           None \<Rightarrow> ((Panic, []), s, e)
         | Some shardItems \<Rightarrow>
             (case cm_TryRemove shardItems itemID of (previousItem, shardItems) \<Rightarrow>
                let s = s\<lparr>shardedData := cm_Set (shardedData s) shardKey shardItems,
                          ss_data := cm_Remove (ss_data s) itemID,
                          itemToShardKey := cm_Remove (itemToShardKey s) itemID\<rparr>;
                    r = WithConnection E (\<lambda>e.
                          res_wrap ''failed to delete item''
                            (Delete E (GetKey (ss_client s) [shardKey, itemID]) e)) e
                in sh_finish r s
                     (case previousItem of
                        Some previous \<Rightarrow>
                          if sh_has_OnRemoved (ss_handlers s)
                          then [ShOnRemoved [\<lparr>shi_ShardKey = shardKey, shi_ID = itemID,
                                  shi_Value = previous\<rparr>]] else []
                      | None \<Rightarrow> [])))"

section \<open>Synchronisation\<close>

text \<open>The flat map and the owners are rebuilt from the shards; the map of owners keeps what it
  had for ids that are no longer there.\<close>

definition rebuild_item ::
  "string \<Rightarrow> (string, 'a) ConcurrentMap \<Rightarrow> 'a shardedDistributedStore \<Rightarrow> string \<Rightarrow>
   'a shardedDistributedStore"
where
  "rebuild_item shardKey shardItems s i =
     (case cm_Get shardItems i of
        None \<Rightarrow> s
      | Some item \<Rightarrow> s\<lparr>ss_data := cm_Set (ss_data s) i item,
                       itemToShardKey := cm_Set (itemToShardKey s) i shardKey\<rparr>)"

definition rebuild_shard ::
  "'a shardedDistributedStore \<Rightarrow> string \<Rightarrow> 'a shardedDistributedStore"
where
  "rebuild_shard s shardKey =
     (case cm_Get (shardedData s) shardKey of
        None \<Rightarrow> s
      | Some shardItems \<Rightarrow> foldl (rebuild_item shardKey shardItems) s (cm_Keys shardItems))"

definition sh_syncToInternalState ::
  "'a lo_fns \<Rightarrow> ('a \<Rightarrow> 'a \<Rightarrow> bool) \<Rightarrow> 'a shardedDistributedStore \<Rightarrow> string \<Rightarrow> (string, 'a) gomap \<Rightarrow>
   'a shard_changes \<times> 'a shardedDistributedStore"
where
  "sh_syncToInternalState L Equals s shardKey truth =
     (case cm_GetOrAdd (shardedData s) shardKey (\<lambda>u. (Ok NewConcurrentMap, u)) () of (r, sd, _) \<Rightarrow>
        let shardItems = fst (the_ok r);
            changes = concat (map (\<lambda>(i, item).
              case cm_Get shardItems i of
                Some previousItem \<Rightarrow>
                  if \<not> Equals previousItem item
                  then [\<lparr>shc_ShardKey = shardKey, shc_ID = i, shc_Previous = previousItem,
                         shc_Current = item\<rparr>] else []
              | None \<Rightarrow> []) truth);
            added = concat (map (\<lambda>(i, item).
              case cm_Get shardItems i of
                Some _ \<Rightarrow> []
              | None \<Rightarrow> [\<lparr>shi_ShardKey = shardKey, shi_ID = i, shi_Value = item\<rparr>]) truth);
            toBeDeletedFromInternalState =
              fst (lo_Difference L (cm_Keys shardItems) (lo_Keys L truth));
            removed = map (\<lambda>i. \<lparr>shi_ShardKey = shardKey, shi_ID = i,
                                 shi_Value = the (cm_Get shardItems i)\<rparr>) toBeDeletedFromInternalState;
            clonedTruth = foldl (\<lambda>m (k, v). cm_Set m k v) NewConcurrentMap truth;
            s = s\<lparr>shardedData := cm_Set sd shardKey clonedTruth, ss_data := NewConcurrentMap\<rparr>
        in ((changes, added, removed), foldl rebuild_shard s (cm_Keys (shardedData s))))"

fun sh_storeItems ::
  "'e etcd \<Rightarrow> 'a codec \<Rightarrow> etcdClient \<Rightarrow> string \<Rightarrow> (string \<times> 'a) list \<Rightarrow> 'e \<Rightarrow> unit res \<times> 'e"
where
  "sh_storeItems E C client shardKey [] e = (Ok (), e)"
| "sh_storeItems E C client shardKey ((i, item) # rest) e =
     res_bind (res_wrap ''failed to store item'' (sh_storeItem E C client shardKey i item e))
       (\<lambda>_ e. sh_storeItems E C client shardKey rest e)"

fun sh_deleteItems ::
  "'e etcd \<Rightarrow> etcdClient \<Rightarrow> string \<Rightarrow> string list \<Rightarrow> 'e \<Rightarrow> unit res \<times> 'e"
where
  "sh_deleteItems E client shardKey [] e = (Ok (), e)"
| "sh_deleteItems E client shardKey (i # rest) e =
     res_bind (res_wrap ''failed to delete item'' (Delete E (GetKey client [shardKey, i]) e))
       (\<lambda>_ e. sh_deleteItems E client shardKey rest e)"

text \<open>
  The loop over the shards found in etcd. It changes the store and the lists of changes as it
  goes, also when it ends with an error.
\<close>

fun sync_shards ::
  "'e etcd \<Rightarrow> 'a codec \<Rightarrow> 'a lo_fns \<Rightarrow> ('a \<Rightarrow> 'a \<Rightarrow> bool) \<Rightarrow> (string, 'a) gomap \<Rightarrow>
   (string, (string, 'a) gomap) gomap \<Rightarrow> 'a shard_changes \<Rightarrow> 'a shardedDistributedStore \<Rightarrow> 'e \<Rightarrow>
   unit res \<times> ('a shard_changes \<times> 'a shardedDistributedStore) \<times> 'e"
where
  "sync_shards E C L Equals localShardItems [] chs s e = (Ok (), (chs, s), e)"
| "sync_shards E C L Equals localShardItems ((shardKey, shardItems) # rest) chs s e =
     (if shardKey \<noteq> localShardKey s
      then (case sh_syncToInternalState L Equals s shardKey shardItems of
              ((localChanges, localAdded, localRemoved), s) \<Rightarrow>
                (case chs of (changes, added, removed) \<Rightarrow>
                   sync_shards E C L Equals localShardItems rest
                     (changes @ localChanges, added @ localAdded, removed @ localRemoved) s e))
      else (let toBeDeletedFromEtcd =
                  fst (lo_Difference L (lo_Keys L shardItems) (lo_Keys L localShardItems))
            in case res_bind (sh_storeItems E C (ss_client s) shardKey localShardItems e)
                      (\<lambda>_ e. sh_deleteItems E (ss_client s) shardKey toBeDeletedFromEtcd e) of
                 (Ok _, e) \<Rightarrow> sync_shards E C L Equals localShardItems rest chs s e
               | (Err er, e) \<Rightarrow> (Err er, (chs, s), e)
               | (Panic, e) \<Rightarrow> (Panic, (chs, s), e)))"

definition sync_body ::
  "'e etcd \<Rightarrow> 'a codec \<Rightarrow> 'a lo_fns \<Rightarrow> ('a \<Rightarrow> 'a \<Rightarrow> bool) \<Rightarrow> (string, 'a) gomap \<Rightarrow>
   'a shard_changes \<Rightarrow> 'a shardedDistributedStore \<Rightarrow> 'e \<Rightarrow>
   unit res \<times> ('a shard_changes \<times> 'a shardedDistributedStore) \<times> 'e"
where
  "sync_body E C L Equals localShardItems chs s e =
     (case sh_loadData E C (ss_client s) e of
        (Ok etcdData, e) \<Rightarrow> sync_shards E C L Equals localShardItems etcdData chs s e
      | (Err er, e) \<Rightarrow> (Err er, (chs, s), e)
      | (Panic, e) \<Rightarrow> (Panic, (chs, s), e))"

definition sh_sync_calls :: "ShardItemsHandlers \<Rightarrow> 'a shard_changes \<Rightarrow> 'a shard_call list" where
  "sh_sync_calls h chs =
     (case chs of (changes, added, removed) \<Rightarrow>
        (if length added > 0 \<and> sh_has_OnAdded h then [ShOnAdded added] else [])
        @ (if length changes > 0 \<and> sh_has_OnChanged h then [ShOnChanged changes] else [])
        @ (if length removed > 0 \<and> sh_has_OnRemoved h then [ShOnRemoved removed] else []))"

text \<open>The closure given to \<open>WithConnection\<close> hands its error on together with the changed store.\<close>

definition sh_sync ::
  "'e etcd \<Rightarrow> 'a codec \<Rightarrow> 'a lo_fns \<Rightarrow> ('a \<Rightarrow> 'a \<Rightarrow> bool) \<Rightarrow> 'a shardedDistributedStore \<Rightarrow>
   (string, 'a) gomap \<Rightarrow> bool \<Rightarrow> 'e \<Rightarrow> ('a, 'e) sharded_result"
where
  "sh_sync E C L Equals s localShardItems callHandlers e =
     (case sh_syncToInternalState L Equals s (localShardKey s) localShardItems of (chs, s) \<Rightarrow>
        (case WithConnection E (\<lambda>e. case sync_body E C L Equals localShardItems chs s e of
                (r, st, e) \<Rightarrow> (Ok (r, st), e)) e of
           (Ok (r, chs, s), e) \<Rightarrow>
             sh_finish (r, e) s (if callHandlers then sh_sync_calls (ss_handlers s) chs else [])
         | (Err er, e) \<Rightarrow> ((Err er, []), s, e)
         | (Panic, e) \<Rightarrow> ((Panic, []), s, e)))"

definition sh_Sync ::
  "'e etcd \<Rightarrow> 'a codec \<Rightarrow> 'a lo_fns \<Rightarrow> ('a \<Rightarrow> 'a \<Rightarrow> bool) \<Rightarrow> 'a shardedDistributedStore \<Rightarrow>
   (string, 'a) gomap \<Rightarrow> 'e \<Rightarrow> ('a, 'e) sharded_result"
where
  "sh_Sync E C L Equals s localShardItems e = sh_sync E C L Equals s localShardItems True e"

definition sh_Init ::
  "'e etcd \<Rightarrow> 'a codec \<Rightarrow> 'a lo_fns \<Rightarrow> ('a \<Rightarrow> 'a \<Rightarrow> bool) \<Rightarrow> 'a shardedDistributedStore \<Rightarrow>
   (string, 'a) gomap \<Rightarrow> 'e \<Rightarrow> ('a, 'e) sharded_result"
where
  "sh_Init E C L Equals s localShardItems e =
     (case sh_sync E C L Equals s localShardItems False e of
        ((Ok _, calls), s, e) \<Rightarrow>
          sh_finish (res_wrap ''Couldn't start watcher'' (client_Watch E e)) s calls
      | ((Err er, calls), s, e) \<Rightarrow> ((Err er, calls), s, e)
      | ((Panic, calls), s, e) \<Rightarrow> ((Panic, calls), s, e))"

section \<open>Watching\<close>

definition sh_put_event ::
  "('a \<Rightarrow> 'a \<Rightarrow> bool) \<Rightarrow> 'a shardedDistributedStore \<Rightarrow> string \<Rightarrow> string \<Rightarrow> 'a \<Rightarrow>
   'a shardedDistributedStore \<times> 'a shard_call list"
where
  "sh_put_event Equals s shardKey itemID item =
     (let shardedItems = (case cm_Get (shardedData s) shardKey of
                            Some items \<Rightarrow> items | None \<Rightarrow> NewConcurrentMap);
          previousItem = cm_Get shardedItems itemID;
          s = s\<lparr>shardedData := cm_Set (shardedData s) shardKey (cm_Set shardedItems itemID item),
                ss_data := cm_Set (ss_data s) itemID item\<rparr>
      in (s, case previousItem of
               Some previous \<Rightarrow>
                 if sh_has_OnChanged (ss_handlers s) \<and> \<not> Equals previous item
                 then [ShOnChanged [\<lparr>shc_ShardKey = shardKey, shc_ID = itemID,
                         shc_Previous = previous, shc_Current = item\<rparr>]] else []
             | None \<Rightarrow>
                 if sh_has_OnAdded (ss_handlers s)
                 then [ShOnAdded [\<lparr>shi_ShardKey = shardKey, shi_ID = itemID, shi_Value = item\<rparr>]]
                 else []))"

definition sh_delete_event ::
  "'a shardedDistributedStore \<Rightarrow> string \<Rightarrow> string \<Rightarrow> 'a shardedDistributedStore \<times> 'a shard_call list"
where
  "sh_delete_event s shardKey itemID =
     (let sd = (case cm_Get (shardedData s) shardKey of
                  Some items \<Rightarrow> cm_Set (shardedData s) shardKey (cm_Remove items itemID)
                | None \<Rightarrow> shardedData s)
      in case cm_TryRemove (ss_data s) itemID of (item, data) \<Rightarrow>
           let s = s\<lparr>shardedData := sd, ss_data := data,
                     itemToShardKey := cm_Remove (itemToShardKey s) itemID\<rparr>
           in (s, case item of
                    Some v \<Rightarrow>
                      if sh_has_OnRemoved (ss_handlers s)
                      then [ShOnRemoved [\<lparr>shi_ShardKey = shardKey, shi_ID = itemID, shi_Value = v\<rparr>]]
                      else []
                  | None \<Rightarrow> []))"

definition sh_watchEvent ::
  "'a codec \<Rightarrow> ('a \<Rightarrow> 'a \<Rightarrow> bool) \<Rightarrow> string \<Rightarrow> 'a shardedDistributedStore \<Rightarrow> watch_event \<Rightarrow>
   'a shardedDistributedStore \<times> 'a shard_call list"
where
  "sh_watchEvent C Equals p s ev =
     (case parseItemKey (case ev of PutEvent kv \<Rightarrow> kv_Key kv | DeleteEvent k \<Rightarrow> k) p of
        None \<Rightarrow> (s, [])
      | Some (shardKey, itemID) \<Rightarrow>
          if shardKey = localShardKey s then (s, [])
          else (case ev of
                  DeleteEvent _ \<Rightarrow> sh_delete_event s shardKey itemID
                | PutEvent kv \<Rightarrow>
                    (case sh_parseItem C kv of
                       Ok item \<Rightarrow> sh_put_event Equals s shardKey itemID item
                     | _ \<Rightarrow> (s, []))))"

fun sh_handleWatchEvents ::
  "'a codec \<Rightarrow> ('a \<Rightarrow> 'a \<Rightarrow> bool) \<Rightarrow> string \<Rightarrow> 'a shardedDistributedStore \<Rightarrow> watch_event list \<Rightarrow>
   'a shardedDistributedStore \<times> 'a shard_call list"
where
  "sh_handleWatchEvents C Equals p s [] = (s, [])"
| "sh_handleWatchEvents C Equals p s (ev # evs) =
     (case sh_watchEvent C Equals p s ev of (s, calls) \<Rightarrow>
        case sh_handleWatchEvents C Equals p s evs of (s, calls') \<Rightarrow> (s, calls @ calls'))"

section \<open>The shards in memory\<close>

lemma cm_get_simps [simp]:
  "cm_Get (cm_Set m k v) = (cm_Get m)(k \<mapsto> v)" "cm_Get (cm_Remove m k) = (cm_Get m)(k := None)"
  "cm_Get NewConcurrentMap = Map.empty"
  by (simp_all add: cm_Get_def cm_Set_def cm_Remove_def NewConcurrentMap_def fun_eq_iff)

lemma cm_TryRemove_simps [simp]:
  "fst (cm_TryRemove m k) = cm_Get m k" "cm_Get (snd (cm_TryRemove m k)) = (cm_Get m)(k := None)"
  by (auto simp: cm_TryRemove_def cm_Get_def fun_eq_iff split: option.splits)

lemma set_cm_Keys: "set (cm_Keys m) = dom (cm_Get m)"
  by (simp add: cm_Keys_def cm_Get_def [abs_def] dom_map_of_conv_image_fst)

lemma map_of_copy_shard: "map_of (copy_shard items) = cm_Get items"
proof
  fix i
  have "map_of (copy_shard items) i = Some x \<longleftrightarrow> cm_Get items i = Some x" for x
  proof -
    have "map_of (copy_shard items) i = Some x \<longleftrightarrow>
        (\<exists>j \<in> set (cm_Keys items). map_option (Pair j) (cm_Get items j) = Some (i, x))"
      unfolding copy_shard_def by (rule gomap_collect_iff) auto
    then show ?thesis by (auto simp: set_cm_Keys)
  qed
  then show "map_of (copy_shard items) i = cm_Get items i" by (metis not_Some_eq)
qed

text \<open>The items of a shard, as a reader of the store sees them.\<close>

definition shard_items :: "'a shardedDistributedStore \<Rightarrow> string \<Rightarrow> string \<rightharpoonup> 'a" where
  "shard_items s k = (case GetShard s k of None \<Rightarrow> Map.empty | Some items \<Rightarrow> map_of items)"

lemma shard_items_eq:
  "shard_items s k = (case cm_Get (shardedData s) k of None \<Rightarrow> Map.empty | Some items \<Rightarrow> cm_Get items)"
  by (simp add: shard_items_def GetShard_def map_of_copy_shard split: option.split)

lemma shard_items_set:
  "cm_Get (shardedData s') = (cm_Get (shardedData s))(k \<mapsto> items) \<Longrightarrow>
   shard_items s' = (shard_items s)(k := cm_Get items)"
  by (simp add: shard_items_eq fun_eq_iff)

lemma shard_items_New [simp]: "shard_items (NewShardedDistributedStore c k h) = (\<lambda>_. Map.empty)"
  by (simp add: shard_items_eq NewShardedDistributedStore_def fun_eq_iff)

text \<open>Rebuilding the flat map leaves the shards alone and finds every item of every shard.\<close>

definition same_shards :: "'a shardedDistributedStore \<Rightarrow> 'a shardedDistributedStore \<Rightarrow> bool" where
  "same_shards s t \<longleftrightarrow> shardedData t = shardedData s \<and> ss_client t = ss_client s
     \<and> localShardKey t = localShardKey s \<and> ss_handlers t = ss_handlers s"

lemma rebuild_items:
  "same_shards s (foldl (rebuild_item k m) s is)
   \<and> cm_Get (ss_data (foldl (rebuild_item k m) s is)) =
       cm_Get (ss_data s) ++ cm_Get m |` set is
   \<and> cm_Get (itemToShardKey (foldl (rebuild_item k m) s is)) =
       cm_Get (itemToShardKey s) ++ (\<lambda>i. if i \<in> set is \<and> cm_Get m i \<noteq> None then Some k else None)"
proof (induction "is" arbitrary: s)
  case (Cons i "is")
  show ?case
    using Cons.IH [of "rebuild_item k m s i"]
    by (cases "cm_Get m i")
      (auto simp: rebuild_item_def same_shards_def map_add_def restrict_map_def fun_eq_iff
        split: option.splits)
qed (simp add: same_shards_def restrict_map_def map_add_def)

lemma rebuild_shard_step:
  "same_shards s (rebuild_shard s k)
   \<and> cm_Get (ss_data (rebuild_shard s k)) = cm_Get (ss_data s) ++ shard_items s k
   \<and> cm_Get (itemToShardKey (rebuild_shard s k)) =
       cm_Get (itemToShardKey s) ++ (\<lambda>i. if shard_items s k i \<noteq> None then Some k else None)"
proof (cases "cm_Get (shardedData s) k")
  case (Some m)
  have "cm_Get m |` set (cm_Keys m) = cm_Get m"
    "(\<lambda>i. if i \<in> set (cm_Keys m) \<and> cm_Get m i \<noteq> None then Some k else None) =
     (\<lambda>i. if cm_Get m i \<noteq> None then Some k else None)"
    by (auto simp: set_cm_Keys restrict_map_def fun_eq_iff domIff)
  then show ?thesis
    using rebuild_items [of s k m "cm_Keys m"] Some by (simp add: rebuild_shard_def shard_items_eq)
qed (simp_all add: rebuild_shard_def shard_items_eq same_shards_def map_add_def)

lemma same_shards_items: "same_shards s t \<Longrightarrow> shard_items t = shard_items s"
  by (simp add: same_shards_def shard_items_eq fun_eq_iff)

lemma rebuild_shards:
  "same_shards s (foldl rebuild_shard s ks)
   \<and> (\<forall>i. if \<exists>k \<in> set ks. shard_items s k i \<noteq> None
          then \<exists>k \<in> set ks. shard_items s k i \<noteq> None
            \<and> sh_GetItem (foldl rebuild_shard s ks) i = (k, shard_items s k i)
          else cm_Get (ss_data (foldl rebuild_shard s ks)) i = cm_Get (ss_data s) i)"
proof (induction ks rule: rev_induct)
  case (snoc k ks)
  let ?t = "foldl rebuild_shard s ks"
  have t: "same_shards s ?t" using snoc.IH by blast
  note st = rebuild_shard_step [of ?t k] and it = same_shards_items [OF t]
  have "same_shards s (rebuild_shard ?t k)"
    using st t by (auto simp: same_shards_def)
  moreover have "sh_GetItem (rebuild_shard ?t k) i =
      (if shard_items s k i = None then sh_GetItem ?t i else (k, shard_items s k i))"
    "shard_items s k i = None \<Longrightarrow> cm_Get (ss_data (rebuild_shard ?t k)) i = cm_Get (ss_data ?t) i" for i
    using st by (auto simp: it sh_GetItem_def map_add_def split: option.splits)
  ultimately show ?case
  proof (intro conjI allI, goal_cases)
    case (2 i)
    have "if \<exists>k \<in> set ks. shard_items s k i \<noteq> None
      then \<exists>k \<in> set ks. shard_items s k i \<noteq> None \<and> sh_GetItem ?t i = (k, shard_items s k i)
      else cm_Get (ss_data ?t) i = cm_Get (ss_data s) i" using snoc.IH by blast
    then show ?case using 2(2,3) [of i] by (cases "shard_items s k i") (auto split: if_splits)
  qed simp
qed (simp add: same_shards_def)

lemma map_of_rev: "distinct (map fst xs) \<Longrightarrow> map_of (rev xs) = map_of xs"
  by (rule map_of_eqI) (auto simp: rev_map [symmetric])

lemma map_of_clone:
  "gomap_ok truth \<Longrightarrow> cm_Get (foldl (\<lambda>m (k, v). cm_Set m k v) NewConcurrentMap truth) = map_of truth"
  using cm.put_all [OF cm.inv_new, of truth] map_of_rev [of truth]
  by (simp add: gomap_ok_def)

text \<open>Synchronising one shard replaces its items and leaves all other shards as they are.\<close>

lemma sh_syncToInternalState_shards:
  assumes "gomap_ok truth" "sh_syncToInternalState L Equals s k truth = (chs, s')"
  shows "shard_items s' = (shard_items s)(k := map_of truth)" "ss_client s' = ss_client s"
    "localShardKey s' = localShardKey s" "ss_handlers s' = ss_handlers s"
    "\<forall>i. if \<exists>k. shard_items s' k i \<noteq> None
         then \<exists>k. shard_items s' k i \<noteq> None \<and> sh_GetItem s' i = (k, shard_items s' k i)
         else snd (sh_GetItem s' i) = None"
proof -
  obtain r sd u where g: "cm_GetOrAdd (shardedData s) k (\<lambda>u. (Ok NewConcurrentMap, u)) () = (r, sd, u)"
    using prod_cases3 by blast
  have sd: "cm_Get (cm_Set sd k m) = (cm_Get (shardedData s))(k \<mapsto> m)" for m
    using g by (auto simp: cm_GetOrAdd_def cm_GetOrAdd_locked_def cm_Set_def cm_Get_def fun_eq_iff
        split: option.splits)
  let ?m = "foldl (\<lambda>m (k, v). cm_Set m k v) NewConcurrentMap truth"
  define t where "t = s\<lparr>shardedData := cm_Set sd k ?m, ss_data := NewConcurrentMap\<rparr>"
  have s': "s' = foldl rebuild_shard t (cm_Keys (shardedData t))"
    using assms(2) g by (auto simp: sh_syncToInternalState_def Let_def t_def)
  note rb = rebuild_shards [of t "cm_Keys (shardedData t)", folded s']
  have it: "shard_items t = (shard_items s)(k := map_of truth)"
    using shard_items_set [of t s k ?m] sd map_of_clone [OF assms(1)] by (simp add: t_def)
  have st: "shard_items s' = shard_items t" using rb same_shards_items by blast
  show "shard_items s' = (shard_items s)(k := map_of truth)" using it st by simp
  show "ss_client s' = ss_client s" "localShardKey s' = localShardKey s" "ss_handlers s' = ss_handlers s"
    using rb by (simp_all add: same_shards_def t_def)
  have ks: "shard_items t j i \<noteq> None \<Longrightarrow> j \<in> set (cm_Keys (shardedData t))" for i j
    by (auto simp: shard_items_eq set_cm_Keys domIff split: option.splits)
  show "\<forall>i. if \<exists>k. shard_items s' k i \<noteq> None
      then \<exists>k. shard_items s' k i \<noteq> None \<and> sh_GetItem s' i = (k, shard_items s' k i)
      else snd (sh_GetItem s' i) = None"
    unfolding st
  proof
    fix i
    have "if \<exists>j \<in> set (cm_Keys (shardedData t)). shard_items t j i \<noteq> None
      then \<exists>j \<in> set (cm_Keys (shardedData t)). shard_items t j i \<noteq> None
        \<and> sh_GetItem s' i = (j, shard_items t j i)
      else cm_Get (ss_data s') i = cm_Get (ss_data t) i" using rb by blast
    moreover have "cm_Get (ss_data t) i = None" by (simp add: t_def)
    moreover have "(\<exists>j \<in> set (cm_Keys (shardedData t)). shard_items t j i \<noteq> None) \<longleftrightarrow>
        (\<exists>j. shard_items t j i \<noteq> None)" using ks [of _ i] by blast
    ultimately show "if \<exists>k. shard_items t k i \<noteq> None
      then \<exists>k. shard_items t k i \<noteq> None \<and> sh_GetItem s' i = (k, shard_items t k i)
      else snd (sh_GetItem s' i) = None"
      by (cases "\<exists>k. shard_items t k i \<noteq> None") (simp only: if_True, blast, simp add: sh_GetItem_def)
  qed
qed

section \<open>The shards in etcd\<close>

definition shard_id :: "string \<Rightarrow> bool" where
  "shard_id k \<longleftrightarrow> k \<noteq> [] \<and> simple_id k"

text \<open>A shard is a store of its own below the key of the shard.\<close>

definition shard_client :: "etcdClient \<Rightarrow> string \<Rightarrow> etcdClient" where
  "shard_client c k = c\<lparr>prefix := GetKey c [k]\<rparr>"

lemma GetKey_shard: "GetKey c [k, i] = GetKey (shard_client c k) [i]"
  by (simp add: GetKey_def shard_client_def)

lemma GetKey_shard_eq: "GetKey c [k, i] = prefix c @ CHR ''/'' # k @ CHR ''/'' # i"
  by (simp add: GetKey_def)

lemma split_on_slash: "CHR ''/'' \<notin> set k \<Longrightarrow> CHR ''/'' \<notin> set j \<Longrightarrow>
  k @ CHR ''/'' # i = j @ CHR ''/'' # l \<Longrightarrow> k = j \<and> i = l"
proof (induction k arbitrary: j)
  case Nil
  then show ?case by (cases j) auto
next
  case (Cons x k)
  then show ?case by (cases j) auto
qed

lemma GetKey_shard_inject:
  "simple_id k \<Longrightarrow> simple_id j \<Longrightarrow> GetKey c [k, i] = GetKey c [j, l] \<longleftrightarrow> k = j \<and> i = l"
  using split_on_slash [of k j i l] by (auto simp: GetKey_shard_eq simple_id_def)

lemma parseItemKey_iff:
  assumes "t = [] \<or> hd t \<noteq> CHR ''/''"
  shows "parseItemKey (prefix c @ CHR ''/'' # t) (prefix c) = Some (k, i) \<longleftrightarrow>
    t = k @ CHR ''/'' # i \<and> shard_id k \<and> simple_id i"
proof -
  have "TrimLeft CHR ''/'' (TrimPrefix (prefix c @ CHR ''/'' # t) (prefix c)) = t"
    using assms by (simp add: TrimLeft_id)
  then have *: "parseItemKey (prefix c @ CHR ''/'' # t) (prefix c) = Some (k, i) \<longleftrightarrow>
      split_on CHR ''/'' t = [k, i]"
    by (auto simp: parseItemKey_def Let_def numeral_2_eq_2 length_Suc_conv)
  show ?thesis
  proof
    assume "parseItemKey (prefix c @ CHR ''/'' # t) (prefix c) = Some (k, i)"
    then have sp: "split_on CHR ''/'' t = [k, i]" using * by simp
    then have "t = k @ CHR ''/'' # i" using join_split_on [of "CHR ''/''" t] by simp
    moreover have "simple_id k" "simple_id i"
      using split_on_parts_free [of _ "CHR ''/''" t] sp by (auto simp: simple_id_def)
    ultimately show "t = k @ CHR ''/'' # i \<and> shard_id k \<and> simple_id i"
      using assms by (auto simp: shard_id_def)
  next
    assume "t = k @ CHR ''/'' # i \<and> shard_id k \<and> simple_id i"
    then show "parseItemKey (prefix c @ CHR ''/'' # t) (prefix c) = Some (k, i)"
      using * by (auto simp: shard_id_def simple_id_def split_on_append split_on_free)
  qed
qed

lemma parseItemKey_shard:
  "shard_id k \<Longrightarrow> simple_id i \<Longrightarrow> parseItemKey (GetKey c [k, i]) (prefix c) = Some (k, i)"
  unfolding GetKey_shard_eq
  by (subst parseItemKey_iff) (auto simp: shard_id_def simple_id_def hd_append dest: hd_in_set)

lemma parseItemKey_wf:
  assumes "wf_keys (prefix c) m" "m key = Some v" "HasPrefix key (prefix c)"
  shows "parseItemKey key (prefix c) = Some (k, i) \<longleftrightarrow>
    key = GetKey c [k, i] \<and> shard_id k \<and> simple_id i"
proof -
  obtain t where t: "key = prefix c @ CHR ''/'' # t" "t = [] \<or> hd t \<noteq> CHR ''/''"
    using assms by (auto simp: wf_keys_def)
  show ?thesis unfolding t(1) parseItemKey_iff [OF t(2)] GetKey_shard_eq by auto
qed

definition sharded_decoded :: "'a codec \<Rightarrow> etcdClient \<Rightarrow> kv_view \<Rightarrow> string \<Rightarrow> string \<rightharpoonup> 'a" where
  "sharded_decoded C c m k i =
     (if shard_id k \<and> simple_id i then Option.bind (m (GetKey c [k, i])) (Unmarshal C) else None)"

subsection \<open>Loading\<close>

definition nested :: "(string, (string, 'a) gomap) gomap \<Rightarrow> string \<Rightarrow> string \<rightharpoonup> 'a" where
  "nested d k = (case map_of d k of None \<Rightarrow> Map.empty | Some m \<Rightarrow> map_of m)"

definition nested_ok :: "(string, (string, 'a) gomap) gomap \<Rightarrow> bool" where
  "nested_ok d \<longleftrightarrow> gomap_ok d \<and> (\<forall>k m. map_of d k = Some m \<longrightarrow> gomap_ok m \<and> m \<noteq> [])"

lemma nested_set: "nested (setShardedItem d k i x) = (nested d)(k := (nested d k)(i \<mapsto> x))"
  by (auto simp: nested_def setShardedItem_def Let_def fun_eq_iff split: option.splits)

lemma update_nonempty [simp]: "gomap_set m k v \<noteq> []"
  by (cases m) (auto split: prod.splits)

lemma nested_ok_set: "nested_ok d \<Longrightarrow> nested_ok (setShardedItem d k i x)"
  by (auto simp: nested_ok_def setShardedItem_def Let_def split: option.splits if_splits)

lemma nested_empty: "nested_ok d \<Longrightarrow> nested d k = Map.empty \<longleftrightarrow> map_of d k = None"
proof (cases "map_of d k")
  case (Some m)
  assume "nested_ok d"
  then have "m \<noteq> []" using Some by (auto simp: nested_ok_def)
  then obtain a m' where "m = a # m'" by (cases m) auto
  then have "map_of m (fst a) \<noteq> None" by (cases a) simp
  then show ?thesis using Some by (auto simp: nested_def)
qed (simp add: nested_def)

lemma sh_collect_nested:
  assumes "sh_collect C p kvs d = Ok d'" "nested_ok d"
    "distinct (map (\<lambda>kv. parseItemKey (kv_Key kv) p)
       (filter (\<lambda>kv. parseItemKey (kv_Key kv) p \<noteq> None) kvs))"
  shows "nested_ok d' \<and> nested d' k i =
      (case find (\<lambda>kv. parseItemKey (kv_Key kv) p = Some (k, i)) kvs of
         None \<Rightarrow> nested d k i | Some kv \<Rightarrow> Unmarshal C (kv_Value kv))
    \<and> (\<forall>kv \<in> set kvs. parseItemKey (kv_Key kv) p \<noteq> None \<longrightarrow> Unmarshal C (kv_Value kv) \<noteq> None)"
  using assms
proof (induction kvs arbitrary: d)
  case (Cons kv kvs)
  show ?case
  proof (cases "parseItemKey (kv_Key kv) p")
    case None
    then show ?thesis using Cons by simp
  next
    case (Some kj)
    obtain k0 i0 where kj: "kj = (k0, i0)" by force
    obtain x where x: "Unmarshal C (kv_Value kv) = Some x"
      "sh_collect C p kvs (setShardedItem d k0 i0 x) = Ok d'"
      using Cons.prems(1) Some by (auto simp: kj sh_parseItem_def split: option.splits)
    have "find (\<lambda>kv. parseItemKey (kv_Key kv) p = Some (k0, i0)) kvs = None"
      using Cons.prems(3) Some by (force simp: kj find_None_iff)
    then show ?thesis
      using Cons.IH [OF x(2) nested_ok_set [OF Cons.prems(2)]] Cons.prems(3) Some x(1)
      by (auto simp: kj nested_set split: option.splits)
  qed
qed simp

text \<open>Keys below the prefix are well formed: what is loaded are the shards that etcd holds.\<close>

lemma sh_collect_decoded:
  assumes "kv_listing m (prefix c) kvs" "wf_keys (prefix c) m" "sh_collect C (prefix c) kvs [] = Ok d"
  shows "nested_ok d" "nested d = sharded_decoded C c m"
    "shard_id k \<Longrightarrow> simple_id i \<Longrightarrow> m (GetKey c [k, i]) = Some v \<Longrightarrow> Unmarshal C v \<noteq> None"
proof -
  have pk: "parseItemKey (kv_Key kv) (prefix c) = Some (k, i) \<longleftrightarrow>
      kv_Key kv = GetKey c [k, i] \<and> shard_id k \<and> simple_id i" if "kv \<in> set kvs" for kv k i
    using parseItemKey_wf [OF assms(2), of "kv_Key kv" "kv_Value kv" k i]
      kv_listingD [OF assms(1), of kv] that by simp
  have "distinct (map kv_Key kvs)"
    using assms(1) strict_sorted_iff [of "map kv_Key kvs"] by (simp add: kv_listing_def)
  then have "distinct (map kv_Key (filter (\<lambda>kv. parseItemKey (kv_Key kv) (prefix c) \<noteq> None) kvs))"
    using distinct_map_filter by blast
  moreover have "inj_on (\<lambda>kv. parseItemKey (kv_Key kv) (prefix c))
      {kv \<in> set kvs. parseItemKey (kv_Key kv) (prefix c) \<noteq> None}"
  proof (rule inj_onI)
    fix a b
    assume *: "a \<in> {kv \<in> set kvs. parseItemKey (kv_Key kv) (prefix c) \<noteq> None}"
      "b \<in> {kv \<in> set kvs. parseItemKey (kv_Key kv) (prefix c) \<noteq> None}"
      "parseItemKey (kv_Key a) (prefix c) = parseItemKey (kv_Key b) (prefix c)"
    then obtain k i where "parseItemKey (kv_Key a) (prefix c) = Some (k, i)" by auto
    then have "kv_Key a = kv_Key b" using pk [of a k i] pk [of b k i] * by simp
    then show "a = b" using * kv_listingD [OF assms(1), of a] kv_listingD [OF assms(1), of b] by simp
  qed
  ultimately have dist: "distinct (map (\<lambda>kv. parseItemKey (kv_Key kv) (prefix c))
      (filter (\<lambda>kv. parseItemKey (kv_Key kv) (prefix c) \<noteq> None) kvs))"
    using distinct_map [of kv_Key] by (auto simp: distinct_map)
  have ok: "nested_ok []" by (simp add: nested_ok_def)
  note sc = sh_collect_nested [OF assms(3) ok dist]
  show "nested_ok d" using sc by blast
  have mem: "\<lparr>kv_Key = GetKey c [k, i], kv_Value = v\<rparr> \<in> set kvs \<longleftrightarrow> m (GetKey c [k, i]) = Some v" for k i v
    using kv_listingD [OF assms(1), of "\<lparr>kv_Key = GetKey c [k, i], kv_Value = v\<rparr>"]
    by (simp add: GetKey_def)
  show "Unmarshal C v \<noteq> None" if "shard_id k" "simple_id i" "m (GetKey c [k, i]) = Some v"
    using sc pk [of "\<lparr>kv_Key = GetKey c [k, i], kv_Value = v\<rparr>" k i] mem [of k i v] that by fastforce
  show "nested d = sharded_decoded C c m"
  proof (intro ext)
    fix k i
    let ?P = "\<lambda>kv. parseItemKey (kv_Key kv) (prefix c) = Some (k, i)"
    show "nested d k i = sharded_decoded C c m k i"
    proof (cases "find ?P kvs")
      case None
      have "m (GetKey c [k, i]) = None" if "shard_id k \<and> simple_id i"
      proof (rule ccontr)
        assume "m (GetKey c [k, i]) \<noteq> None"
        then obtain v where "\<lparr>kv_Key = GetKey c [k, i], kv_Value = v\<rparr> \<in> set kvs"
          using mem by blast
        then show False using pk [of "\<lparr>kv_Key = GetKey c [k, i], kv_Value = v\<rparr>" k i] that None
          by (auto simp: find_None_iff)
      qed
      moreover have "nested d k i = None" using sc [of k i] None by (simp add: nested_def)
      ultimately show ?thesis by (auto simp: sharded_decoded_def)
    next
      case (Some kv)
      then have kv: "kv \<in> set kvs" "?P kv" by (auto simp: find_Some_iff)
      then have "m (GetKey c [k, i]) = Some (kv_Value kv)" "shard_id k" "simple_id i"
        using pk [of kv k i] kv_listingD [OF assms(1), of kv] by auto
      then show ?thesis using sc [of k i] Some by (simp add: sharded_decoded_def)
    qed
  qed
qed

subsection \<open>Writing the local shard\<close>

lemma sh_storeItem_eq: "sh_storeItem E C c k i x e = storeItem E C (shard_client c k) i x e"
  unfolding sh_storeItem_def storeItem_def GetKey_shard ..

lemma sh_storeItems_eq: "sh_storeItems E C c k items = storeItems E C (shard_client c k) items"
  by (induction items) (auto intro!: ext simp: sh_storeItem_eq)

lemma sh_deleteItems_eq: "sh_deleteItems E c k ids = deleteItems E (shard_client c k) ids"
  by (induction ids) (auto intro!: ext simp: GetKey_shard)

text \<open>What a synchronisation makes of the local shard's keys when etcd knows the shard.\<close>

definition local_written ::
  "'a codec \<Rightarrow> 'a lo_fns \<Rightarrow> etcdClient \<Rightarrow> string \<Rightarrow> (string, 'a) gomap \<Rightarrow> (string, 'a) gomap \<Rightarrow>
   kv_view \<Rightarrow> kv_view"
where
  "local_written C L c k items old m =
     remove_all_items (shard_client c k) (fst (lo_Difference L (lo_Keys L old) (lo_Keys L items)))
       (encode_all C (shard_client c k) items m)"

lemma local_written_item:
  assumes "lo_law L" "gomap_ok items"
  shows "local_written C L c k items old m (GetKey c [k, i]) =
    (case map_of items i of
       Some x \<Rightarrow> Some (the (Marshal C x))
     | None \<Rightarrow> if map_of old i = None then m (GetKey c [k, i]) else None)"
  using assms(1) encode_all_item [OF assms(2), of C "shard_client c k" m i]
  by (auto simp: local_written_def remove_all_items_apply GetKey_shard image_iff lo_law_def
      lo_Difference_law_def domIff split: option.splits)

lemma local_written_other:
  "\<forall>i. key \<noteq> GetKey c [k, i] \<Longrightarrow> local_written C L c k items old m key = m key"
  using encode_all_other [of key "shard_client c k"]
  by (auto simp: local_written_def remove_all_items_apply GetKey_shard)

context etcd_service
begin

lemma sh_loadData_Ok:
  assumes "sh_loadData E C c e = (Ok d, e')" "wf_keys (prefix c) (view e)"
  shows "nested_ok d" "nested d = sharded_decoded C c (view e)" "view e' = view e"
    "shard_id k \<Longrightarrow> simple_id i \<Longrightarrow> view e (GetKey c [k, i]) = Some v \<Longrightarrow> Unmarshal C v \<noteq> None"
proof -
  obtain kvs where g: "GetPrefix E (prefix c) e = (Ok kvs, e')"
    and d: "sh_collect C (prefix c) kvs [] = Ok d"
    using assms(1) by (auto simp: sh_loadData_def res_bind_Ok_iff Let_def)
  note cd = sh_collect_decoded [OF GetPrefix_Ok [OF g] assms(2) d]
  show "nested_ok d" "nested d = sharded_decoded C c (view e)" by (fact cd)+
  show "view e' = view e" using GetPrefix_view [of "prefix c" e] g by simp
  show "Unmarshal C v \<noteq> None" if "shard_id k" "simple_id i" "view e (GetKey c [k, i]) = Some v"
    using cd(3) that by blast
qed

lemma sync_shards_Ok:
  assumes "sync_shards E C L Equals items shards chs s e = (Ok u, (chs', s'), e')" "nested_ok shards"
  shows "ss_client s' = ss_client s \<and> localShardKey s' = localShardKey s
    \<and> shard_items s' = (\<lambda>k. if k \<noteq> localShardKey s \<and> map_of shards k \<noteq> None
         then nested shards k else shard_items s k)
    \<and> view e' = (case map_of shards (localShardKey s) of
         None \<Rightarrow> view e
       | Some old \<Rightarrow> local_written C L (ss_client s) (localShardKey s) items old (view e))"
  using assms
proof (induction shards arbitrary: chs s e)
  case (Cons km shards)
  obtain k m where km: "km = (k, m)" by force
  have ok: "nested_ok shards" "gomap_ok m" "map_of shards k = None"
    using Cons.prems(2)
    by (auto simp: km nested_ok_def gomap_ok_def map_of_eq_None_iff split: if_splits dest: map_of_SomeD)
      (metis image_eqI fst_conv map_of_SomeD)
  show ?case
  proof (cases "k = localShardKey s")
    case False
    obtain ch s1 where s1: "sh_syncToInternalState L Equals s k m = (ch, s1)"
      by (metis surj_pair)
    note sy = sh_syncToInternalState_shards [OF ok(2) s1]
    obtain chs1 where "sync_shards E C L Equals items shards chs1 s1 e = (Ok u, (chs', s'), e')"
      using Cons.prems(1) False s1 by (auto simp: km split: prod.splits)
    from Cons.IH [OF this ok(1)] sy(1) False ok(3) show ?thesis
      unfolding sy(2,3) by (auto simp: km nested_def fun_eq_iff)
  next
    case True
    let ?del = "fst (lo_Difference L (lo_Keys L m) (lo_Keys L items))"
    obtain e1 e2 where st: "storeItems E C (shard_client (ss_client s) k) items e = (Ok (), e1)"
      "deleteItems E (shard_client (ss_client s) k) ?del e1 = (Ok (), e2)"
      and r: "sync_shards E C L Equals items shards chs s e2 = (Ok u, (chs', s'), e')"
      using Cons.prems(1) True
      by (auto simp: km Let_def sh_storeItems_eq sh_deleteItems_eq res_bind_Ok_iff
          split: prod.splits res.splits)
    have "view e2 = local_written C L (ss_client s) k items m (view e)"
      using storeItems_Ok [OF st(1)] deleteItems_Ok [OF st(2)] by (simp add: local_written_def)
    with Cons.IH [OF r ok(1)] ok(3) True show ?thesis by (auto simp: km nested_def fun_eq_iff)
  qed
qed (simp add: nested_def)

lemma sh_sync_Ok:
  assumes sync: "sh_sync E C L Equals s items h e = ((Ok u, calls), s', e')"
    and ok: "gomap_ok items" and wf: "wf_keys (prefix (ss_client s)) (view e)"
  shows "ss_client s' = ss_client s \<and> localShardKey s' = localShardKey s"
    "shard_items s' = (\<lambda>k. if k = localShardKey s then map_of items
       else if sharded_decoded C (ss_client s) (view e) k = Map.empty then shard_items s k
       else sharded_decoded C (ss_client s) (view e) k)"
    "\<exists>old. map_of old = sharded_decoded C (ss_client s) (view e) (localShardKey s)
       \<and> view e' = (if map_of old = Map.empty then view e
           else local_written C L (ss_client s) (localShardKey s) items old (view e))"
    "shard_id k \<Longrightarrow> simple_id i \<Longrightarrow> view e (GetKey (ss_client s) [k, i]) = Some v \<Longrightarrow>
       Unmarshal C v \<noteq> None"
proof -
  obtain ch s1 where s1: "sh_syncToInternalState L Equals s (localShardKey s) items = (ch, s1)"
    by (metis surj_pair)
  note sy = sh_syncToInternalState_shards [OF ok s1]
  obtain u' chs where w: "WithConnection E (\<lambda>e. case sync_body E C L Equals items ch s1 e of
      (r, st, e) \<Rightarrow> (Ok (r, st), e)) e = (Ok (Ok u', chs, s'), e')"
    using sync s1 by (auto simp: sh_sync_def sh_finish_def split: prod.splits res.splits)
  obtain e1 e2 where e: "view e1 = view e" "view e' = view e2"
    and b1: "(case sync_body E C L Equals items ch s1 e1 of (r, st, e) \<Rightarrow> (Ok (r, st), e)) =
      (Ok (Ok u', chs, s'), e2)"
    using WithConnection_Ok [OF w] by blast
  then have b: "sync_body E C L Equals items ch s1 e1 = (Ok u', (chs, s'), e2)"
    by (cases "sync_body E C L Equals items ch s1 e1") simp
  obtain d e3 where l: "sh_loadData E C (ss_client s) e1 = (Ok d, e3)"
    and r: "sync_shards E C L Equals items d ch s1 e3 = (Ok u', (chs, s'), e2)"
    using b sy(2) by (auto simp: sync_body_def split: prod.splits res.splits)
  have wf1: "wf_keys (prefix (ss_client s)) (view e1)" using wf e(1) by simp
  note ld = sh_loadData_Ok [OF l wf1, unfolded e(1)]
  note ss = sync_shards_Ok [OF r ld(1), unfolded sy(2,3) ld(3)]
  note em = nested_empty [OF ld(1), unfolded ld(2)]
  show "ss_client s' = ss_client s \<and> localShardKey s' = localShardKey s" using ss by simp
  show "shard_items s' = (\<lambda>k. if k = localShardKey s then map_of items
       else if sharded_decoded C (ss_client s) (view e) k = Map.empty then shard_items s k
       else sharded_decoded C (ss_client s) (view e) k)"
  proof (rule ext)
    fix k
    show "shard_items s' k = (if k = localShardKey s then map_of items
       else if sharded_decoded C (ss_client s) (view e) k = Map.empty then shard_items s k
       else sharded_decoded C (ss_client s) (view e) k)"
      using ss sy(1) em [of k] ld(2) by simp
  qed
  show "\<exists>old. map_of old = sharded_decoded C (ss_client s) (view e) (localShardKey s)
       \<and> view e' = (if map_of old = Map.empty then view e
           else local_written C L (ss_client s) (localShardKey s) items old (view e))"
  proof (cases "map_of d (localShardKey s)")
    case None
    then have "sharded_decoded C (ss_client s) (view e) (localShardKey s) = Map.empty" by (simp add: em)
    then show ?thesis using ss None e(2) by (intro exI [of _ "[]"]) simp
  next
    case (Some old)
    then have o: "map_of old = sharded_decoded C (ss_client s) (view e) (localShardKey s)"
      using ld(2) [THEN fun_cong, of "localShardKey s"] by (simp add: nested_def)
    have ne: "map_of old \<noteq> Map.empty" unfolding o em using Some by simp
    have "view e' = local_written C L (ss_client s) (localShardKey s) items old (view e)"
      using ss Some e(2) by simp
    then show ?thesis using o ne by (intro exI [of _ old] conjI) (assumption, simp only: if_False)
  qed
  show "Unmarshal C v \<noteq> None" if "shard_id k" "simple_id i" "view e (GetKey (ss_client s) [k, i]) = Some v"
    using ld(4) that by blast
qed

lemma sh_Init_Ok:
  assumes "sh_Init E C L Equals s items e = ((Ok u, calls), s', e')"
  shows "\<exists>u calls e1. sh_sync E C L Equals s items False e = ((Ok u, calls), s', e1) \<and> view e' = view e1"
proof -
  obtain u1 c1 s1 e1 where s: "sh_sync E C L Equals s items False e = ((Ok u1, c1), s1, e1)"
    and w: "sh_finish (res_wrap ''Couldn't start watcher'' (client_Watch E e1)) s1 c1 = ((Ok u, calls), s', e')"
    using assms by (auto simp: sh_Init_def split: prod.splits res.splits)
  have "s' = s1 \<and> view e' = view e1"
    using w New_view [of e1]
    by (cases "New E e1"; cases "fst (New E e1)")
      (auto simp: sh_finish_def client_Watch_def NewConnection_def)
  then show ?thesis using s by blast
qed

end

section \<open>Following the other shards\<close>

text \<open>An event of a well-formed key below the prefix; a value that is put can be read.\<close>

definition shard_event :: "'a codec \<Rightarrow> etcdClient \<Rightarrow> watch_event \<Rightarrow> bool" where
  "shard_event C c ev \<longleftrightarrow>
     (\<exists>t. event_key ev = prefix c @ CHR ''/'' # t \<and> (t = [] \<or> hd t \<noteq> CHR ''/''))
     \<and> (case ev of PutEvent kv \<Rightarrow> Unmarshal C (kv_Value kv) \<noteq> None | DeleteEvent _ \<Rightarrow> True)"

lemma shard_items_put_event:
  "shard_items (fst (sh_put_event Equals s k i x)) = (shard_items s)(k := (shard_items s k)(i \<mapsto> x))"
  "ss_client (fst (sh_put_event Equals s k i x)) = ss_client s"
  "localShardKey (fst (sh_put_event Equals s k i x)) = localShardKey s"
  by (simp_all add: sh_put_event_def Let_def shard_items_eq fun_eq_iff split: option.split)

lemma shard_items_delete_event:
  "shard_items (fst (sh_delete_event s k i)) = (shard_items s)(k := (shard_items s k)(i := None))"
  "ss_client (fst (sh_delete_event s k i)) = ss_client s"
  "localShardKey (fst (sh_delete_event s k i)) = localShardKey s"
  by (simp_all add: sh_delete_event_def Let_def shard_items_eq fun_eq_iff split: option.split prod.split)

definition follows :: "'a codec \<Rightarrow> 'a shardedDistributedStore \<Rightarrow> kv_view \<Rightarrow> bool" where
  "follows C s m \<longleftrightarrow>
     (\<forall>k. k \<noteq> localShardKey s \<longrightarrow> shard_items s k = sharded_decoded C (ss_client s) m k)"

lemma sh_watchEvent_follows:
  assumes "shard_event C (ss_client s) ev" "follows C s m"
    "sh_watchEvent C Equals (prefix (ss_client s)) s ev = (s', calls)"
  shows "follows C s' (apply_event ev m)" "ss_client s' = ss_client s"
    "localShardKey s' = localShardKey s"
    "shard_items s' (localShardKey s) = shard_items s (localShardKey s)"
proof -
  let ?c = "ss_client s"
  obtain t where t: "event_key ev = prefix ?c @ CHR ''/'' # t" "t = [] \<or> hd t \<noteq> CHR ''/''"
    using assms(1) by (auto simp: shard_event_def)
  have key: "(case ev of PutEvent kv \<Rightarrow> kv_Key kv | DeleteEvent k \<Rightarrow> k) = event_key ev"
    by (cases ev) simp_all
  have pk: "parseItemKey (event_key ev) (prefix ?c) = Some (k, i) \<longleftrightarrow>
      event_key ev = GetKey ?c [k, i] \<and> shard_id k \<and> simple_id i" for k i
    unfolding t(1) parseItemKey_iff [OF t(2)] GetKey_shard_eq by auto
  have dec: "sharded_decoded C ?c (apply_event ev m) k i =
      (if parseItemKey (event_key ev) (prefix ?c) = Some (k, i)
       then (case ev of PutEvent kv \<Rightarrow> Unmarshal C (kv_Value kv) | DeleteEvent _ \<Rightarrow> None)
       else sharded_decoded C ?c m k i)" for k i
    unfolding pk by (cases ev) (auto simp: sharded_decoded_def simp del: GetKey_Nil GetKey_single)
  have "follows C s' (apply_event ev m) \<and> ss_client s' = ss_client s \<and> localShardKey s' = localShardKey s
    \<and> shard_items s' (localShardKey s) = shard_items s (localShardKey s)"
  proof (cases "parseItemKey (event_key ev) (prefix ?c)")
    case None
    then have "s' = s" using assms(3) by (simp add: sh_watchEvent_def key)
    then show ?thesis using assms(2) dec None by (simp add: follows_def fun_eq_iff)
  next
    case (Some ki)
    obtain k i where ki: "ki = (k, i)" by force
    consider "k = localShardKey s" | kv x where "k \<noteq> localShardKey s" "ev = PutEvent kv"
        "Unmarshal C (kv_Value kv) = Some x"
      | key where "k \<noteq> localShardKey s" "ev = DeleteEvent key"
      using assms(1) by (cases ev) (auto simp: shard_event_def)
    then show ?thesis
    proof cases
      case 1
      then have "s' = s" using assms(3) Some by (simp add: sh_watchEvent_def key ki)
      then show ?thesis using assms(2) dec Some ki 1 by (simp add: follows_def fun_eq_iff)
    next
      case 2
      then have "s' = fst (sh_put_event Equals s k i x)"
        using assms(3) Some by (simp add: sh_watchEvent_def ki sh_parseItem_def)
      then show ?thesis
        using assms(2) dec Some ki 2
        by (auto simp: shard_items_put_event follows_def fun_eq_iff)
    next
      case 3
      then have "s' = fst (sh_delete_event s k i)"
        using assms(3) Some by (simp add: sh_watchEvent_def ki)
      then show ?thesis
        using assms(2) dec Some ki 3
        by (auto simp: shard_items_delete_event follows_def fun_eq_iff)
    qed
  qed
  then show "follows C s' (apply_event ev m)" "ss_client s' = ss_client s"
    "localShardKey s' = localShardKey s"
    "shard_items s' (localShardKey s) = shard_items s (localShardKey s)" by blast+
qed

lemma sh_handleWatchEvents_follows:
  "list_all (shard_event C (ss_client s)) evs \<Longrightarrow> follows C s m \<Longrightarrow>
   sh_handleWatchEvents C Equals (prefix (ss_client s)) s evs = (s', calls) \<Longrightarrow>
   follows C s' (fold apply_event evs m) \<and> ss_client s' = ss_client s
   \<and> localShardKey s' = localShardKey s
   \<and> shard_items s' (localShardKey s) = shard_items s (localShardKey s)"
proof (induction evs arbitrary: s m calls)
  case (Cons ev evs)
  obtain s1 c1 where 1: "sh_watchEvent C Equals (prefix (ss_client s)) s ev = (s1, c1)" by force
  have ev: "shard_event C (ss_client s) ev" using Cons.prems(1) by simp
  note st = sh_watchEvent_follows [OF ev Cons.prems(2) 1]
  obtain c2 where "sh_handleWatchEvents C Equals (prefix (ss_client s1)) s1 evs = (s', c2)"
    using Cons.prems(3) 1 st(2) by (auto split: prod.splits)
  from Cons.IH [OF _ st(1) this] Cons.prems(1) st(2-4) show ?case by simp
qed simp

context etcd_reliable
begin

text \<open>Without keys below the prefix nothing is loaded, so nothing is written.\<close>

lemma sync_body_empty:
  assumes "\<forall>k. HasPrefix k (prefix (ss_client s)) \<longrightarrow> view e k = None"
  shows "\<exists>e'. sync_body E C L Equals items chs s e = (Ok (), (chs, s), e') \<and> view e' = view e"
proof -
  obtain kvs e1 where g: "GetPrefix E (prefix (ss_client s)) e = (Ok kvs, e1)" using GetPrefix_ok by blast
  have "kv \<notin> set kvs" for kv using kv_listingD [OF GetPrefix_Ok [OF g], of kv] assms by auto
  then have "kvs = []" by (cases kvs) auto
  then show ?thesis
    using g GetPrefix_view [of "prefix (ss_client s)" e] by (simp add: sync_body_def sh_loadData_def)
qed

lemma sh_Init_empty:
  assumes "gomap_ok items" "\<forall>k. HasPrefix k (prefix (ss_client s)) \<longrightarrow> view e k = None"
  shows "\<exists>s' e'. sh_Init E C L Equals s items e = ((Ok (), []), s', e') \<and> view e' = view e
    \<and> shard_items s' = (shard_items s)(localShardKey s := map_of items)"
proof -
  obtain ch s1 where s1: "sh_syncToInternalState L Equals s (localShardKey s) items = (ch, s1)"
    by (metis surj_pair)
  note sy = sh_syncToInternalState_shards [OF assms(1) s1]
  let ?fn = "\<lambda>e. case sync_body E C L Equals items ch s1 e of (r, st, e) \<Rightarrow> (Ok (r, st), e)"
  obtain r e1 where w: "WithConnection E ?fn e = (r, e1)" by force
  obtain e2 e3 where e: "view e2 = view e" "?fn e2 = (r, e3)" "view e1 = view e3"
    using WithConnection_run [OF w] by blast
  obtain e4 where "sync_body E C L Equals items ch s1 e2 = (Ok (), (ch, s1), e4)" "view e4 = view e2"
    using sync_body_empty [of s1 e2 C L Equals items ch] assms(2) sy(2) e(1) by auto
  then have r: "r = Ok (Ok (), ch, s1)" "view e1 = view e" using e by auto
  obtain e5 where n: "New E e1 = (Ok (), e5)" using New_ok by blast
  then have "view e5 = view e" using New_view [of e1] r(2) by simp
  moreover have "sh_Init E C L Equals s items e = ((Ok (), []), s1, e5)"
    using w s1 r(1) n by (simp add: sh_Init_def sh_sync_def sh_finish_def client_Watch_def NewConnection_def)
  ultimately show ?thesis using sy(1) by blast
qed

end

section \<open>Properties\<close>

text \<open>A two-node cluster to apply the properties to: this node is \<open>a\<close>, etcd knows node \<open>b\<close>.\<close>

definition demo_sharded :: "string shardedDistributedStore" where
  "demo_sharded = NewShardedDistributedStore \<lparr>dialTimeout = 5, prefix = ''/s'', endpoints = []\<rparr> ''a''
     \<lparr>sh_has_OnChanged = True, sh_has_OnAdded = True, sh_has_OnRemoved = True\<rparr>"

definition demo_quoted :: "string \<Rightarrow> string" where
  "demo_quoted x = CHR 0x22 # x @ [CHR 0x22]"

definition demo_sharded_etcd :: mem where
  "demo_sharded_etcd = [(''/s/b/i'', demo_quoted ''1'')]"

lemma demo_sharded_facts:
  "ss_client demo_sharded = \<lparr>dialTimeout = 5, prefix = ''/s'', endpoints = []\<rparr>"
  "localShardKey demo_sharded = ''a''"
  by (simp_all add: demo_sharded_def NewShardedDistributedStore_def)

text \<open>
  C34: After a successful \<open>Init\<close> a new store shows its own items as the local shard, and every
  other shard exactly as etcd holds it; it still does after any number of events for changes
  below its prefix have been handled, and none of them changes the local shard.
\<close>

theorem sharded_store_follows:
  fixes C :: "'a codec"
  assumes "etcd_service E view" "lo_law L" "gomap_ok items" "wf_keys (prefix c) (view e)" "shard_id k0"
    "sh_Init E C L Equals (NewShardedDistributedStore c k0 h) items e = ((Ok (), calls), s, e')"
    "list_all (shard_event C c) evs"
    "sh_handleWatchEvents C Equals (GetKey c []) s evs = (s', calls')"
  shows "shard_items s' k =
    (if k = k0 then map_of items else sharded_decoded C c (fold apply_event evs (view e')) k)"
proof -
  let ?s0 = "NewShardedDistributedStore c k0 h :: 'a shardedDistributedStore"
  have s0: "ss_client ?s0 = c" "localShardKey ?s0 = k0"
    by (simp_all add: NewShardedDistributedStore_def)
  obtain u cs e1 where sy: "sh_sync E C L Equals ?s0 items False e = ((Ok u, cs), s, e1)"
    and e1: "view e' = view e1" using etcd_service.sh_Init_Ok [OF assms(1,6)] by blast
  have wf: "wf_keys (prefix (ss_client ?s0)) (view e)" using assms(4) s0 by simp
  note ok = etcd_service.sh_sync_Ok [OF assms(1) sy assms(3) wf, unfolded s0]
  obtain old where old: "view e1 = (if map_of old = Map.empty then view e
      else local_written C L c k0 items old (view e))" using ok(3) by blast
  have "view e1 (GetKey c [j, i]) = view e (GetKey c [j, i])" if "shard_id j" "j \<noteq> k0" for i j
    using local_written_other [of "GetKey c [j, i]" c k0 C L items old "view e"] that assms(5)
    by (simp add: old shard_id_def GetKey_shard_inject)
  then have "sharded_decoded C c (view e1) j = sharded_decoded C c (view e) j" if "j \<noteq> k0" for j
    using that by (auto simp: sharded_decoded_def fun_eq_iff)
  then have f: "follows C s (view e')" "shard_items s k0 = map_of items"
    using ok(1,2) by (simp_all add: follows_def e1)
  have evs: "list_all (shard_event C (ss_client s)) evs" and
    h: "sh_handleWatchEvents C Equals (prefix (ss_client s)) s evs = (s', calls')"
    using assms(7,8) ok(1) by simp_all
  show ?thesis using sh_handleWatchEvents_follows [OF evs f(1) h] ok(1) f(2) by (auto simp: follows_def)
qed

lemma sharded_store_follows_witness:
  "case sh_Init mem_etcd quote_codec lo_ref (=) demo_sharded [(''x'', ''0'')] demo_sharded_etcd of (r, s, e') \<Rightarrow>
     shard_items (fst (sh_handleWatchEvents quote_codec (=) ''/s'' s [DeleteEvent ''/s/b/i'',
       PutEvent \<lparr>kv_Key = ''/s/b/j'', kv_Value = demo_quoted ''2''\<rparr>])) ''b'' = [''j'' \<mapsto> ''2'']"
proof -
  let ?c = "\<lparr>dialTimeout = 5, prefix = ''/s'', endpoints = []\<rparr>"
  let ?evs = "[DeleteEvent ''/s/b/i'', PutEvent \<lparr>kv_Key = ''/s/b/j'', kv_Value = demo_quoted ''2''\<rparr>]"
  obtain r calls s e' where i: "sh_Init mem_etcd quote_codec lo_ref (=) demo_sharded [(''x'', ''0'')]
      demo_sharded_etcd = ((r, calls), s, e')" by (metis surj_pair)
  have "fst (fst (sh_Init mem_etcd quote_codec lo_ref (=) demo_sharded [(''x'', ''0'')] demo_sharded_etcd)) = Ok ()
    \<and> snd (snd (sh_Init mem_etcd quote_codec lo_ref (=) demo_sharded [(''x'', ''0'')] demo_sharded_etcd)) =
      demo_sharded_etcd"
    by code_simp
  then have e: "r = Ok ()" "e' = demo_sharded_etcd" using i by simp_all
  obtain s' calls' where h: "sh_handleWatchEvents quote_codec (=) (GetKey ?c []) s ?evs = (s', calls')" by force
  have ok: "gomap_ok [(''x'', ''0'')]" by (simp add: gomap_ok_def)
  have wf: "wf_keys (prefix ?c) (map_of demo_sharded_etcd)"
    by (auto simp: wf_keys_def demo_sharded_etcd_def split: if_splits)
  have ev: "list_all (shard_event quote_codec ?c) ?evs"
    by (simp add: shard_event_def quote_codec_def demo_quoted_def)
  have "shard_id ''a''" by (simp add: shard_id_def simple_id_def)
  note th = sharded_store_follows [OF mem.etcd_service_axioms lo_ref_law ok wf this
      i [unfolded e demo_sharded_def] ev h, of "''b''"]
  have "sharded_decoded quote_codec ?c (fold apply_event ?evs (map_of demo_sharded_etcd)) ''b'' j =
      [''j'' \<mapsto> ''2''] j" for j
    by (auto simp: sharded_decoded_def shard_id_def simple_id_def GetKey_def demo_sharded_etcd_def
        quote_codec_def demo_quoted_def)
  then show ?thesis using th h by (simp add: i fun_eq_iff)
qed

text \<open>
  After a successful \<open>Sync\<close> the store shows the given items as the local shard and the shards
  of etcd as the others; a shard that has disappeared from etcd keeps its items. In etcd the keys
  of the local shard hold exactly the given items, but only if the shard had a key there before:
  otherwise nothing is written. No other key changes.
\<close>

theorem sh_Sync_spec:
  assumes "etcd_service E view" "lo_law L" "codec_law C" "gomap_ok items"
    "wf_keys (prefix (ss_client s)) (view e)" "shard_id (localShardKey s)"
    "sh_Sync E C L Equals s items e = ((Ok (), calls), s', e')"
  shows "shard_items s' = (\<lambda>k. if k = localShardKey s then map_of items
       else if sharded_decoded C (ss_client s) (view e) k = Map.empty then shard_items s k
       else sharded_decoded C (ss_client s) (view e) k)
    \<and> (\<forall>i. simple_id i \<longrightarrow> view e' (GetKey (ss_client s) [localShardKey s, i]) =
         (if \<forall>j. simple_id j \<longrightarrow> view e (GetKey (ss_client s) [localShardKey s, j]) = None then None
          else Option.bind (map_of items i) (Marshal C)))
    \<and> (\<forall>key. (\<forall>i. key \<noteq> GetKey (ss_client s) [localShardKey s, i]) \<longrightarrow> view e' key = view e key)"
proof -
  let ?c = "ss_client s" and ?k = "localShardKey s"
  note ok = etcd_service.sh_sync_Ok [OF assms(1) assms(7) [unfolded sh_Sync_def] assms(4,5)]
  obtain old where old: "map_of old = sharded_decoded C ?c (view e) ?k"
    "view e' = (if map_of old = Map.empty then view e else local_written C L ?c ?k items old (view e))"
    using ok(3) by blast
  have none: "map_of old i = None \<longleftrightarrow> view e (GetKey ?c [?k, i]) = None" if "simple_id i" for i
    using ok(4) [OF assms(6) that] assms(6) that
    by (cases "view e (GetKey ?c [?k, i])") (auto simp: old(1) sharded_decoded_def)
  have em: "map_of old = Map.empty \<longleftrightarrow> (\<forall>j. simple_id j \<longrightarrow> view e (GetKey ?c [?k, j]) = None)"
  proof -
    have "map_of old i = None" if "\<not> simple_id i" for i using that by (simp add: old(1) sharded_decoded_def)
    then have "map_of old = Map.empty \<longleftrightarrow> (\<forall>j. simple_id j \<longrightarrow> map_of old j = None)"
      by (auto simp: fun_eq_iff)
    then show ?thesis using none by blast
  qed
  have wr: "view e' (GetKey ?c [?k, i]) = Option.bind (map_of items i) (Marshal C)"
    if "simple_id i" "map_of old \<noteq> Map.empty" for i
  proof -
    have "Some (the (Marshal C x)) = Marshal C x" for x
      using assms(3) by (metis codec_law_def option.sel)
    then show ?thesis
      using local_written_item [OF assms(2,4), of C ?c ?k old "view e" i] none [OF that(1)] that(2)
      by (auto simp: old(2) split: option.splits)
  qed
  have oth: "\<forall>i. key \<noteq> GetKey ?c [?k, i] \<Longrightarrow> view e' key = view e key" for key
    using local_written_other [of key ?c ?k C L items old "view e"] by (simp add: old(2))
  have "view e' (GetKey ?c [?k, i]) =
      (if \<forall>j. simple_id j \<longrightarrow> view e (GetKey ?c [?k, j]) = None then None
       else Option.bind (map_of items i) (Marshal C))" if "simple_id i" for i
    using wr [OF that] none [OF that] old(2) unfolding em [symmetric]
    by (cases "map_of old = Map.empty") simp_all
  then show ?thesis using ok(2) oth by blast
qed

lemma sh_Sync_spec_witness:
  "let e = (''/s/a/y'', demo_quoted ''9'') # demo_sharded_etcd;
       e' = snd (snd (sh_Sync mem_etcd quote_codec lo_ref (=) demo_sharded [(''x'', ''0'')] e))
   in map_of e' ''/s/a/x'' = Some (demo_quoted ''0'') \<and> map_of e' ''/s/a/y'' = None"
proof -
  let ?e = "(''/s/a/y'', demo_quoted ''9'') # demo_sharded_etcd"
  obtain r calls s' e' where s: "sh_Sync mem_etcd quote_codec lo_ref (=) demo_sharded [(''x'', ''0'')] ?e =
      ((r, calls), s', e')" by (metis surj_pair)
  have "fst (fst (sh_Sync mem_etcd quote_codec lo_ref (=) demo_sharded [(''x'', ''0'')] ?e)) = Ok ()"
    by code_simp
  then have r: "r = Ok ()" using s by simp
  have ok: "gomap_ok [(''x'', ''0'')]" by (simp add: gomap_ok_def)
  have wf: "wf_keys (prefix (ss_client demo_sharded)) (map_of ?e)"
    by (auto simp: demo_sharded_facts wf_keys_def demo_sharded_etcd_def split: if_splits)
  have "shard_id (localShardKey demo_sharded)" by (simp add: demo_sharded_facts shard_id_def simple_id_def)
  note th = sh_Sync_spec [OF mem.etcd_service_axioms lo_ref_law quote_codec_law ok wf this s [unfolded r]]
  have ids: "simple_id ''x''" "simple_id ''y''" by (simp_all add: simple_id_def)
  have ne: "\<not> (\<forall>j. simple_id j \<longrightarrow> map_of ?e (GetKey (ss_client demo_sharded) [localShardKey demo_sharded, j]) = None)"
    using ids(2) by (auto simp: demo_sharded_facts GetKey_def intro!: exI [of _ "''y''"])
  have "map_of e' ''/s/a/x'' = Some (demo_quoted ''0'')" "map_of e' ''/s/a/y'' = None"
    using th [THEN conjunct2, THEN conjunct1, rule_format, OF ids(1)]
      th [THEN conjunct2, THEN conjunct1, rule_format, OF ids(2)]
    unfolding if_not_P [OF ne]
    by (simp_all add: demo_sharded_facts GetKey_def quote_codec_def demo_quoted_def)
  then show ?thesis by (simp add: Let_def s)
qed

text \<open>
  The first node of a cluster never writes its items: \<open>Init\<close> of a new store on a reliable
  etcd that has no key below the prefix succeeds, shows the items as the local shard, and leaves
  etcd as it was, so no other node sees them.
\<close>

theorem sh_Init_first_node:
  assumes "etcd_reliable E view" "gomap_ok items" "\<forall>k. HasPrefix k (prefix c) \<longrightarrow> view e k = None"
  shows "\<exists>s e'. sh_Init E C L Equals (NewShardedDistributedStore c k0 h) items e = ((Ok (), []), s, e')
    \<and> view e' = view e \<and> shard_items s k0 = map_of items"
  using etcd_reliable.sh_Init_empty [OF assms(1,2), of "NewShardedDistributedStore c k0 h" e C L Equals]
    assms(3) by (auto simp: NewShardedDistributedStore_def)

lemma sh_Init_first_node_witness:
  "\<exists>s e'. sh_Init mem_etcd quote_codec lo_ref (=) demo_sharded [(''x'', ''0'')] [(''/other'', ''1'')] = ((Ok (), []), s, e')
    \<and> map_of e' = map_of [(''/other'', ''1'')] \<and> shard_items s ''a'' = map_of [(''x'', ''0'')]"
  unfolding demo_sharded_def
  by (rule sh_Init_first_node [OF mem.etcd_reliable_axioms]) (auto simp: gomap_ok_def HasPrefix_def)

text \<open>
  The shard of an item that another node adds while the store runs is not known to \<open>GetItem\<close>:
  after the event it returns the item with the empty shard key.
\<close>

theorem sh_put_event_no_owner:
  assumes "shard_id k" "simple_id i" "k \<noteq> localShardKey s" "Unmarshal C v = Some x"
    "sh_GetItem s i = ([], None)"
  shows "sh_GetItem (fst (sh_watchEvent C Equals (GetKey (ss_client s) []) s
      (PutEvent \<lparr>kv_Key = GetKey (ss_client s) [k, i], kv_Value = v\<rparr>))) i = ([], Some x)"
  using assms parseItemKey_shard [OF assms(1,2), of "ss_client s"]
  by (simp add: sh_watchEvent_def sh_parseItem_def sh_put_event_def Let_def sh_GetItem_def)

lemma sh_put_event_no_owner_witness:
  "sh_GetItem (fst (sh_watchEvent quote_codec (=) ''/s'' demo_sharded
      (PutEvent \<lparr>kv_Key = ''/s/b/i'', kv_Value = demo_quoted ''1''\<rparr>))) ''i'' = ([], Some ''1'')"
  using sh_put_event_no_owner [of "''b''" "''i''" demo_sharded quote_codec "demo_quoted ''1''" "''1''" "(=)"]
  by (simp add: demo_sharded_facts shard_id_def simple_id_def quote_codec_def demo_quoted_def GetKey_def
      sh_GetItem_def) (simp add: demo_sharded_def NewShardedDistributedStore_def)

end
