(* ===== verification/Docker_Data.thy ===== *)
theory Docker_Data
  imports Etcd_Sharded
begin

text \<open>
  \<open>plugin/pkg/docker\<close>: what the plugin knows of the networks, services and containers of Docker
  (\<open>types.go\<close>, \<open>networks.go\<close>, \<open>services.go\<close>, \<open>containers.go\<close>, \<open>events.go\<close>, \<open>data.go\<close>). The
  Docker daemon is the record \<open>docker\<close> of its answers during a call; only the fields that the
  code reads are kept. On a manager node the networks and services are in write-only stores, on
  a worker in read-only ones; containers are in a sharded store whose local shard is the host.
\<close>

section \<open>Types\<close>

record docker_ContainerInfo = ContainerInfo +
  ci_IpamIPs :: "(string, net_ip) gomap"

record docker_ServiceInfo =
  si_ID :: string
  si_Name :: string
  si_EndpointMode :: string
  si_Networks :: "string list"
  si_IpamVIPs :: "(string, net_ip) gomap"

text \<open>The maps are made by the code that builds the value, so they are never nil.\<close>

definition docker_ContainerInfo_Equals :: "docker_ContainerInfo \<Rightarrow> docker_ContainerInfo \<Rightarrow> bool" where
  "docker_ContainerInfo_Equals c o' \<longleftrightarrow>
     \<not> (ci_ID c \<noteq> ci_ID o' \<or> ci_Name c \<noteq> ci_Name o' \<or> ci_ServiceID c \<noteq> ci_ServiceID o'
        \<or> ci_ServiceName c \<noteq> ci_ServiceName o' \<or> ci_SandboxKey c \<noteq> ci_SandboxKey o')
     \<and> CompareIPMaps (Some (ci_IPs c)) (Some (ci_IPs o'))
     \<and> CompareIPMaps (Some (ci_IpamIPs c)) (Some (ci_IpamIPs o'))
     \<and> CompareStringMaps (Some (ci_Endpoints c)) (Some (ci_Endpoints o'))
     \<and> CompareStringArrayMaps (Some (ci_DNSNames c)) (Some (ci_DNSNames o'))"

definition docker_ServiceInfo_Equals :: "docker_ServiceInfo \<Rightarrow> docker_ServiceInfo \<Rightarrow> bool" where
  "docker_ServiceInfo_Equals c o' \<longleftrightarrow>
     \<not> (si_ID c \<noteq> si_ID o' \<or> si_Name c \<noteq> si_Name o')
     \<and> CompareIPMaps (Some (si_IpamVIPs c)) (Some (si_IpamVIPs o'))"

section \<open>The Docker daemon and the packages\<close>

record EndpointSettings =
  es_NetworkID :: string
  es_IPAddress :: string
  es_IPAMConfig :: "string option"
  es_DNSNames :: "string list"
  es_EndpointID :: string

record ContainerJSON =
  cj_Running :: bool
  cj_FinishedAt :: string
  cj_Labels :: "(string, string) gomap"
  cj_Name :: string
  cj_SandboxKey :: string
  cj_Networks :: "(string, EndpointSettings) gomap"

record swarm_Service =
  sw_Name :: string
  sw_EndpointSpec :: "string option"
  sw_Targets :: "string list"
  sw_VirtualIPs :: "(string \<times> string) list"

record network_Inspect =
  nr_Name :: string
  nr_Options :: "(string, string) gomap"
  nr_Subnets :: "string list"

text \<open>\<open>docker_Info\<close> says whether the node is a manager; \<open>docker_late\<close> whether the daemon took
  longer than the 30 seconds the code waits for it.\<close>

record docker =
  os_Hostname :: "string res"
  docker_New :: "unit res"
  docker_Info :: "bool res"
  docker_late :: bool
  ContainerList :: "string list res"
  ContainerInspect :: "string \<Rightarrow> ContainerJSON res"
  ServiceList :: "string list res"
  ServiceInspect :: "string \<Rightarrow> swarm_Service res"
  NetworkList :: "string list res"
  NetworkInspect :: "string \<Rightarrow> network_Inspect res"

text \<open>JSON for the three item types, the functions of package \<open>lo\<close> at the types they are used
  at, and whether \<open>time.Parse\<close> accepts a text.\<close>

record docker_pkgs =
  json_containers :: "docker_ContainerInfo codec"
  json_services :: "docker_ServiceInfo codec"
  json_networks :: "NetworkInfo codec"
  lo_containers :: "docker_ContainerInfo lo_fns"
  lo_services :: "docker_ServiceInfo lo_fns"
  lo_networks :: "NetworkInfo lo_fns"
  lo_Map_targets :: "(string \<Rightarrow> string) \<Rightarrow> string list \<Rightarrow> string list"
  lo_PickBy_ids :: "(string \<Rightarrow> string \<Rightarrow> bool) \<Rightarrow> (string, string) gomap \<Rightarrow> (string, string) gomap"
  lo_PickBy_ips :: "(string \<Rightarrow> net_ip \<Rightarrow> bool) \<Rightarrow> (string, net_ip) gomap \<Rightarrow> (string, net_ip) gomap"
  lo_PickBy_names :: "(string \<Rightarrow> string list \<Rightarrow> bool) \<Rightarrow> (string, string list) gomap \<Rightarrow> (string, string list) gomap"
  lo_MapToSlice_networks :: "(string \<Rightarrow> NetworkInfo \<Rightarrow> NetworkInfo Item) \<Rightarrow> (string, NetworkInfo) gomap \<Rightarrow> NetworkInfo Item list"
  lo_MapToSlice_services :: "(string \<Rightarrow> docker_ServiceInfo \<Rightarrow> docker_ServiceInfo Item) \<Rightarrow>
    (string, docker_ServiceInfo) gomap \<Rightarrow> docker_ServiceInfo Item list"
  lo_MapToSlice_containers :: "(string \<Rightarrow> docker_ContainerInfo \<Rightarrow> docker_ContainerInfo ShardItem) \<Rightarrow>
    (string, docker_ContainerInfo) gomap \<Rightarrow> docker_ContainerInfo ShardItem list"
  lo_MapToSlice_shards :: "(string \<Rightarrow> (string, docker_ContainerInfo) gomap \<Rightarrow> docker_ContainerInfo ShardItem list) \<Rightarrow>
    (string, (string, docker_ContainerInfo) gomap) gomap \<Rightarrow> docker_ContainerInfo ShardItem list list"
  lo_Flatten_containers :: "docker_ContainerInfo ShardItem list list \<Rightarrow> docker_ContainerInfo ShardItem list"
  time_Parse_ok :: "string \<Rightarrow> bool"

section \<open>State\<close>

text \<open>The dynamic type of an \<open>etcd.Store\<close>: asserting the other one panics.\<close>

datatype 'a any_store = ReadOnly "'a storeBase" | WriteOnly "'a storeBase"

fun base :: "'a any_store \<Rightarrow> 'a storeBase" where
  "base (ReadOnly s) = s"
| "base (WriteOnly s) = s"

record data =
  da_etcdClient :: etcdClient
  da_hostname :: string
  da_containers :: "docker_ContainerInfo shardedDistributedStore"
  da_services :: "docker_ServiceInfo any_store"
  da_networks :: "NetworkInfo any_store"
  isManagerNode :: bool

datatype data_call =
  ContainersCall "docker_ContainerInfo shard_call"
| ServicesCall "docker_ServiceInfo handler_call"
| NetworksCall "NetworkInfo handler_call"

type_synonym 'e data_result = "(unit res \<times> data_call list) \<times> data \<times> 'e"

definition all_handlers :: ItemsHandlers where
  "all_handlers = \<lparr>has_OnChanged = True, has_OnAdded = True, has_OnRemoved = True\<rparr>"

definition all_shard_handlers :: ShardItemsHandlers where
  "all_shard_handlers = \<lparr>sh_has_OnChanged = True, sh_has_OnAdded = True, sh_has_OnRemoved = True\<rparr>"

text \<open>The driver gives all nine handlers. \<open>log.Fatalf\<close> ends the process, as a panic does.\<close>

definition NewData :: "docker \<Rightarrow> etcdClient \<Rightarrow> data res" where
  "NewData D etcdClient =
     (case os_Hostname D of
        Err er \<Rightarrow> Err (WithMessage er ''error getting hostname'')
      | Panic \<Rightarrow> Panic
      | Ok hostname \<Rightarrow>
          (case docker_New D of
             Err er \<Rightarrow> Err (WithMessage er ''error creating docker client'')
           | Panic \<Rightarrow> Panic
           | Ok _ \<Rightarrow>
               if docker_late D then Panic
               else (case docker_Info D of
                 Err er \<Rightarrow> Err (WithMessage er ''Error getting docker info'')
               | Panic \<Rightarrow> Panic
               | Ok manager \<Rightarrow>
                   Ok \<lparr>da_etcdClient = etcdClient, da_hostname = hostname,
                        da_containers = NewShardedDistributedStore
                          (CreateSubClient etcdClient [''containers'']) hostname all_shard_handlers,
                        da_services = (if manager
                          then WriteOnly (NewStore (CreateSubClient etcdClient [''services'']) all_handlers)
                          else ReadOnly (NewStore (CreateSubClient etcdClient [''services'']) all_handlers)),
                        da_networks = (if manager
                          then WriteOnly (NewStore (CreateSubClient etcdClient [''networks'']) all_handlers)
                          else ReadOnly (NewStore (CreateSubClient etcdClient [''networks'']) all_handlers)),
                        isManagerNode = manager\<rparr>)))"

definition services_result ::
  "(docker_ServiceInfo storeBase \<Rightarrow> docker_ServiceInfo any_store) \<Rightarrow> (goerr \<Rightarrow> goerr) \<Rightarrow> data \<Rightarrow>
   (docker_ServiceInfo, 'e) store_result \<Rightarrow> 'e data_result"
where
  "services_result mk wrap d r =
     (case r of ((x, calls), s, e) \<Rightarrow>
        ((case x of Err er \<Rightarrow> Err (wrap er) | y \<Rightarrow> y, map ServicesCall calls), d\<lparr>da_services := mk s\<rparr>, e))"

definition networks_result ::
  "(NetworkInfo storeBase \<Rightarrow> NetworkInfo any_store) \<Rightarrow> (goerr \<Rightarrow> goerr) \<Rightarrow> data \<Rightarrow>
   (NetworkInfo, 'e) store_result \<Rightarrow> 'e data_result"
where
  "networks_result mk wrap d r =
     (case r of ((x, calls), s, e) \<Rightarrow>
        ((case x of Err er \<Rightarrow> Err (wrap er) | y \<Rightarrow> y, map NetworksCall calls), d\<lparr>da_networks := mk s\<rparr>, e))"

definition containers_result ::
  "(goerr \<Rightarrow> goerr) \<Rightarrow> data \<Rightarrow> (docker_ContainerInfo, 'e) sharded_result \<Rightarrow> 'e data_result"
where
  "containers_result wrap d r =
     (case r of ((x, calls), s, e) \<Rightarrow>
        ((case x of Err er \<Rightarrow> Err (wrap er) | y \<Rightarrow> y, map ContainersCall calls), d\<lparr>da_containers := s\<rparr>, e))"

text \<open>A look-up in a Go map of strings yields the empty string for a missing key.\<close>

definition lookup_string :: "(string, string) gomap \<Rightarrow> string \<Rightarrow> string" where
  "lookup_string m k = (case map_of m k of Some v \<Rightarrow> v | None \<Rightarrow> [])"

section \<open>Networks\<close>

definition getNetworkInfoFromDocker :: "docker \<Rightarrow> string \<Rightarrow> NetworkInfo res" where
  "getNetworkInfoFromDocker D dockerNetworkID =
     (case NetworkInspect D dockerNetworkID of
        Err er \<Rightarrow> Err (WithMessage er ''Error inspecting docker network'')
      | Panic \<Rightarrow> Panic
      | Ok network \<Rightarrow>
          Ok \<lparr>ni_DockerID = dockerNetworkID, ni_FlannelID = lookup_string (nr_Options network) ''flannel-id'',
              ni_Subnet = (if length (nr_Subnets network) > 0 then nr_Subnets network ! 0 else []),
              ni_Name = nr_Name network\<rparr>)"

text \<open>An item whose inspection fails is left out; a panic is not caught.\<close>

fun collect_infos ::
  "('i \<Rightarrow> 'a option res) \<Rightarrow> ('a \<Rightarrow> string) \<Rightarrow> 'i list \<Rightarrow> (string, 'a) gomap \<Rightarrow> (string, 'a) gomap res"
where
  "collect_infos f key [] m = Ok m"
| "collect_infos f key (i # rest) m =
     (case f i of
        Ok (Some info) \<Rightarrow> collect_infos f key rest (gomap_set m (key info) info)
      | Ok None \<Rightarrow> collect_infos f key rest m
      | Err _ \<Rightarrow> collect_infos f key rest m
      | Panic \<Rightarrow> Panic)"

definition res_Some :: "'a res \<Rightarrow> 'a option res" where
  "res_Some r = (case r of Ok a \<Rightarrow> Ok (Some a) | Err er \<Rightarrow> Err er | Panic \<Rightarrow> Panic)"

definition getNetworksInfosFromDocker :: "docker \<Rightarrow> (string, NetworkInfo) gomap res" where
  "getNetworksInfosFromDocker D =
     (case NetworkList D of
        Err er \<Rightarrow> Err (WithMessage er ''Error listing docker services'')
      | Panic \<Rightarrow> Panic
      | Ok rawNetworks \<Rightarrow>
          collect_infos (\<lambda>i. res_Some (getNetworkInfoFromDocker D i)) ni_DockerID rawNetworks [])"

text \<open>The error of the listing is overwritten by that of the store; what remains of it is the
  nil map that came with it.\<close>

fun or_nil :: "(string, 'a) gomap res \<Rightarrow> (string, 'a) gomap option" where
  "or_nil (Ok m) = Some m"
| "or_nil (Err _) = Some []"
| "or_nil Panic = None"

definition initNetworks :: "docker_pkgs \<Rightarrow> 'e etcd \<Rightarrow> docker \<Rightarrow> data \<Rightarrow> 'e \<Rightarrow> 'e data_result" where
  "initNetworks P E D d e =
     (let wrap = (\<lambda>er. WithMessage er ''Error initializing networks'')
      in if isManagerNode d
         then (case (or_nil (getNetworksInfosFromDocker D), da_networks d) of
                 (Some networksInfos, WriteOnly s) \<Rightarrow>
                   networks_result WriteOnly wrap d
                     (wo_Init E (json_networks P) (lo_networks P) NetworkInfo_Equals s networksInfos e)
               | _ \<Rightarrow> ((Panic, []), d, e))
         else (case da_networks d of
                 ReadOnly s \<Rightarrow>
                   networks_result ReadOnly wrap d
                     (ro_Init E (json_networks P) (lo_networks P) NetworkInfo_Equals s e)
               | WriteOnly _ \<Rightarrow> ((Panic, []), d, e)))"

definition syncNetworks :: "docker_pkgs \<Rightarrow> 'e etcd \<Rightarrow> docker \<Rightarrow> data \<Rightarrow> 'e \<Rightarrow> 'e data_result" where
  "syncNetworks P E D d e =
     (let wrap = (\<lambda>er. WithMessage er ''Error syncing networks'')
      in if isManagerNode d
         then (case (or_nil (getNetworksInfosFromDocker D), da_networks d) of
                 (Some networksInfos, WriteOnly s) \<Rightarrow>
                   networks_result WriteOnly wrap d
                     (wo_Sync E (json_networks P) (lo_networks P) NetworkInfo_Equals s networksInfos e)
               | _ \<Rightarrow> ((Panic, []), d, e))
         else (case da_networks d of
                 ReadOnly s \<Rightarrow>
                   networks_result ReadOnly wrap d
                     (ro_Sync E (json_networks P) (lo_networks P) NetworkInfo_Equals s e)
               | WriteOnly _ \<Rightarrow> ((Panic, []), d, e)))"

definition handleNetwork :: "docker_pkgs \<Rightarrow> 'e etcd \<Rightarrow> docker \<Rightarrow> data \<Rightarrow> string \<Rightarrow> 'e \<Rightarrow> 'e data_result" where
  "handleNetwork P E D d dockerNetworkID e =
     (case getNetworkInfoFromDocker D dockerNetworkID of
        Err er \<Rightarrow> ((Err (WithMessage er ''Error inspecting docker network''), []), d, e)
      | Panic \<Rightarrow> ((Panic, []), d, e)
      | Ok networkInfo \<Rightarrow>
          (case da_networks d of
             WriteOnly s \<Rightarrow>
               networks_result WriteOnly (\<lambda>er. WithMessage er ''Error adding or updating network info'') d
                 (wo_AddOrUpdateItem E (json_networks P) NetworkInfo_Equals s dockerNetworkID networkInfo e)
           | ReadOnly _ \<Rightarrow> ((Panic, []), d, e)))"

definition handleDeletedNetwork :: "'e etcd \<Rightarrow> data \<Rightarrow> string \<Rightarrow> 'e \<Rightarrow> 'e data_result" where
  "handleDeletedNetwork E d dockerNetworkID e =
     (case da_networks d of
        WriteOnly s \<Rightarrow> networks_result WriteOnly (\<lambda>er. er) d (wo_DeleteItem E s dockerNetworkID e)
      | ReadOnly _ \<Rightarrow> ((Panic, []), d, e))"

section \<open>Services\<close>

fun add_vips :: "(string \<times> string) list \<Rightarrow> docker_ServiceInfo \<Rightarrow> docker_ServiceInfo res" where
  "add_vips [] info = Ok info"
| "add_vips ((networkID, addr) # rest) info =
     (if addr = [] then add_vips rest info
      else case ParseCIDR addr of
             None \<Rightarrow> Err (Errorf ''error parsing IP address'')
           | Some (ip, _) \<Rightarrow>
               add_vips rest (info\<lparr>si_IpamVIPs := gomap_set (si_IpamVIPs info) networkID ip\<rparr>))"

text \<open>\<open>Ok None\<close>: the service is ignored. A service without an endpoint specification is a nil
  dereference.\<close>

definition getServiceInfoFromDocker :: "docker_pkgs \<Rightarrow> docker \<Rightarrow> string \<Rightarrow> docker_ServiceInfo option res" where
  "getServiceInfoFromDocker P D serviceID =
     (case ServiceInspect D serviceID of
        Err er \<Rightarrow> Err (WithMessage er ''Error inspecting docker service'')
      | Panic \<Rightarrow> Panic
      | Ok service \<Rightarrow>
          let networks = lo_Map_targets P (\<lambda>item. item) (sw_Targets service)
          in case sw_EndpointSpec service of
               None \<Rightarrow> Panic
             | Some mode \<Rightarrow>
                 (case add_vips (sw_VirtualIPs service)
                         \<lparr>si_ID = serviceID, si_Name = sw_Name service, si_EndpointMode = mode,
                          si_Networks = networks, si_IpamVIPs = []\<rparr> of
                    Err er \<Rightarrow> Err er
                  | Panic \<Rightarrow> Panic
                  | Ok info \<Rightarrow>
                      if length (si_IpamVIPs info) = 0 \<and> si_EndpointMode info = ServiceEndpointModeVip
                      then Ok None else Ok (Some info)))"

definition getServicesInfosFromDocker :: "docker_pkgs \<Rightarrow> docker \<Rightarrow> (string, docker_ServiceInfo) gomap res" where
  "getServicesInfosFromDocker P D =
     (case ServiceList D of
        Err er \<Rightarrow> Err (WithMessage er ''Error listing docker services'')
      | Panic \<Rightarrow> Panic
      | Ok rawServices \<Rightarrow> collect_infos (getServiceInfoFromDocker P D) si_ID rawServices [])"

definition initServices :: "docker_pkgs \<Rightarrow> 'e etcd \<Rightarrow> docker \<Rightarrow> data \<Rightarrow> 'e \<Rightarrow> 'e data_result" where
  "initServices P E D d e =
     (let wrap = (\<lambda>er. WithMessage er ''Error initializing services'')
      in if isManagerNode d
         then (case (or_nil (getServicesInfosFromDocker P D), da_services d) of
                 (Some servicesInfos, WriteOnly s) \<Rightarrow>
                   services_result WriteOnly wrap d
                     (wo_Init E (json_services P) (lo_services P) docker_ServiceInfo_Equals s servicesInfos e)
               | _ \<Rightarrow> ((Panic, []), d, e))
         else (case da_services d of
                 ReadOnly s \<Rightarrow>
                   services_result ReadOnly wrap d
                     (ro_Init E (json_services P) (lo_services P) docker_ServiceInfo_Equals s e)
               | WriteOnly _ \<Rightarrow> ((Panic, []), d, e)))"

definition syncServices :: "docker_pkgs \<Rightarrow> 'e etcd \<Rightarrow> docker \<Rightarrow> data \<Rightarrow> 'e \<Rightarrow> 'e data_result" where
  "syncServices P E D d e =
     (let wrap = (\<lambda>er. WithMessage er ''Error syncing services'')
      in if isManagerNode d
         then (case (or_nil (getServicesInfosFromDocker P D), da_services d) of
                 (Some servicesInfos, WriteOnly s) \<Rightarrow>
                   services_result WriteOnly wrap d
                     (wo_Sync E (json_services P) (lo_services P) docker_ServiceInfo_Equals s servicesInfos e)
               | _ \<Rightarrow> ((Panic, []), d, e))
         else (case da_services d of
                 ReadOnly s \<Rightarrow>
                   services_result ReadOnly wrap d
                     (ro_Sync E (json_services P) (lo_services P) docker_ServiceInfo_Equals s e)
               | WriteOnly _ \<Rightarrow> ((Panic, []), d, e)))"

definition handleService :: "docker_pkgs \<Rightarrow> 'e etcd \<Rightarrow> docker \<Rightarrow> data \<Rightarrow> string \<Rightarrow> 'e \<Rightarrow> 'e data_result" where
  "handleService P E D d serviceID e =
     (case getServiceInfoFromDocker P D serviceID of
        Err er \<Rightarrow> ((Err (WithMessage er ''Error inspecting docker service''), []), d, e)
      | Panic \<Rightarrow> ((Panic, []), d, e)
      | Ok None \<Rightarrow> ((Ok (), []), d, e)
      | Ok (Some serviceInfo) \<Rightarrow>
          (case da_services d of
             WriteOnly s \<Rightarrow>
               services_result WriteOnly (\<lambda>er. WithMessage er ''Error adding or updating service info'') d
                 (wo_AddOrUpdateItem E (json_services P) docker_ServiceInfo_Equals s serviceID serviceInfo e)
           | ReadOnly _ \<Rightarrow> ((Panic, []), d, e)))"

definition handleDeletedService :: "'e etcd \<Rightarrow> data \<Rightarrow> string \<Rightarrow> 'e \<Rightarrow> 'e data_result" where
  "handleDeletedService E d serviceID e =
     (case da_services d of
        WriteOnly s \<Rightarrow> services_result WriteOnly (\<lambda>er. er) d (wo_DeleteItem E s serviceID e)
      | ReadOnly _ \<Rightarrow> ((Panic, []), d, e))"

section \<open>Containers\<close>

definition add_endpoint ::
  "docker_ContainerInfo \<Rightarrow> string \<times> EndpointSettings \<Rightarrow> docker_ContainerInfo"
where
  "add_endpoint info entry =
     (case entry of (networkName, networkData) \<Rightarrow>
        let networkID = es_NetworkID networkData; ip = ParseIP (es_IPAddress networkData)
        in if networkName = ''host'' \<or> es_IPAddress networkData = [] \<or> ip = [] then info
           else info\<lparr>ci_IPs := gomap_set (ci_IPs info) networkID ip,
             ci_DNSNames := gomap_set (ci_DNSNames info) networkID (es_DNSNames networkData),
             ci_Endpoints := gomap_set (ci_Endpoints info) networkID (es_EndpointID networkData),
             ci_IpamIPs := (case es_IPAMConfig networkData of
                Some a \<Rightarrow> if a \<noteq> [] then gomap_set (ci_IpamIPs info) networkID (ParseIP a) else ci_IpamIPs info
              | None \<Rightarrow> ci_IpamIPs info)\<rparr>)"

definition getContainerInfoFromDocker :: "docker_pkgs \<Rightarrow> docker \<Rightarrow> string \<Rightarrow> docker_ContainerInfo res" where
  "getContainerInfoFromDocker P D containerID =
     (case ContainerInspect D containerID of
        Err er \<Rightarrow> Err (WithMessage er ''Error inspecting docker container'')
      | Panic \<Rightarrow> Panic
      | Ok container \<Rightarrow>
          if \<not> cj_Running container
          then (if time_Parse_ok P (cj_FinishedAt container)
                then Err (Errorf ''container is not running. It stopped %s ago'')
                else Err (Errorf ''container is not running. Parsing the finished date failed''))
          else Ok (foldl add_endpoint
                 \<lparr>ci_ID = containerID, ci_Name = TrimLeft CHR ''/'' (cj_Name container),
                  ci_ServiceID = lookup_string (cj_Labels container) ''com.docker.swarm.service.id'',
                  ci_ServiceName = lookup_string (cj_Labels container) ''com.docker.swarm.service.name'',
                  ci_SandboxKey = cj_SandboxKey container, ci_IPs = [], ci_DNSNames = [], ci_Endpoints = [],
                  ci_IpamIPs = []\<rparr> (cj_Networks container)))"

definition getContainersInfosFromDocker ::
  "docker_pkgs \<Rightarrow> docker \<Rightarrow> (string, docker_ContainerInfo) gomap res"
where
  "getContainersInfosFromDocker P D =
     (case ContainerList D of
        Err er \<Rightarrow> Err (WithMessage er ''Error listing docker containers'')
      | Panic \<Rightarrow> Panic
      | Ok rawContainers \<Rightarrow>
          collect_infos (\<lambda>i. case getContainerInfoFromDocker P D i of
              Ok info \<Rightarrow> if length (ci_IPs info) = 0 then Ok None else Ok (Some info)
            | Err er \<Rightarrow> Err er
            | Panic \<Rightarrow> Panic) ci_ID rawContainers [])"

definition initContainers :: "docker_pkgs \<Rightarrow> 'e etcd \<Rightarrow> docker \<Rightarrow> data \<Rightarrow> 'e \<Rightarrow> 'e data_result" where
  "initContainers P E D d e =
     (case or_nil (getContainersInfosFromDocker P D) of
        None \<Rightarrow> ((Panic, []), d, e)
      | Some containerInfos \<Rightarrow>
          containers_result (\<lambda>er. WithMessage er ''Error initializing containers'') d
            (sh_Init E (json_containers P) (lo_containers P) docker_ContainerInfo_Equals
               (da_containers d) containerInfos e))"

definition syncContainers :: "docker_pkgs \<Rightarrow> 'e etcd \<Rightarrow> docker \<Rightarrow> data \<Rightarrow> 'e \<Rightarrow> 'e data_result" where
  "syncContainers P E D d e =
     (case or_nil (getContainersInfosFromDocker P D) of
        None \<Rightarrow> ((Panic, []), d, e)
      | Some containerInfos \<Rightarrow>
          containers_result (\<lambda>er. WithMessage er ''Error syncing containers'') d
            (sh_Sync E (json_containers P) (lo_containers P) docker_ContainerInfo_Equals
               (da_containers d) containerInfos e))"

definition handleContainer :: "docker_pkgs \<Rightarrow> 'e etcd \<Rightarrow> docker \<Rightarrow> data \<Rightarrow> string \<Rightarrow> 'e \<Rightarrow> 'e data_result" where
  "handleContainer P E D d containerID e =
     (case getContainerInfoFromDocker P D containerID of
        Err er \<Rightarrow> ((Err er, []), d, e)
      | Panic \<Rightarrow> ((Panic, []), d, e)
      | Ok containerInfo \<Rightarrow>
          if length (ci_IPs containerInfo) = 0 then ((Ok (), []), d, e)
          else containers_result (\<lambda>er. WithMessage er ''Error adding or updating container info'') d
                 (sh_AddOrUpdateItem E (json_containers P) docker_ContainerInfo_Equals
                    (da_containers d) containerID containerInfo e))"

definition handleDeletedContainer :: "'e etcd \<Rightarrow> data \<Rightarrow> string \<Rightarrow> 'e \<Rightarrow> 'e data_result" where
  "handleDeletedContainer E d containerID e =
     containers_result (\<lambda>er. er) d (sh_DeleteItem E (da_containers d) containerID e)"

definition without_network :: "docker_pkgs \<Rightarrow> string \<Rightarrow> docker_ContainerInfo \<Rightarrow> docker_ContainerInfo" where
  "without_network P networkID c =
     c\<lparr>ci_Endpoints := lo_PickBy_ids P (\<lambda>key _. key \<noteq> networkID) (ci_Endpoints c),
       ci_IPs := lo_PickBy_ips P (\<lambda>key _. key \<noteq> networkID) (ci_IPs c),
       ci_IpamIPs := lo_PickBy_ips P (\<lambda>key _. key \<noteq> networkID) (ci_IpamIPs c),
       ci_DNSNames := lo_PickBy_names P (\<lambda>key _. key \<noteq> networkID) (ci_DNSNames c)\<rparr>"

definition handleDisconnectedContainer ::
  "docker_pkgs \<Rightarrow> 'e etcd \<Rightarrow> data \<Rightarrow> string \<Rightarrow> string \<Rightarrow> 'e \<Rightarrow> 'e data_result"
where
  "handleDisconnectedContainer P E d networkID containerID e =
     (case sh_GetItem (da_containers d) containerID of
        (_, None) \<Rightarrow> ((Err (Errorf ''container does not exist''), []), d, e)
      | (shardKey, Some container) \<Rightarrow>
          if shardKey \<noteq> GetLocalShardKey (da_containers d)
          then ((Err (Errorf ''container is not from the local node. This is a bug''), []), d, e)
          else containers_result
                 (\<lambda>er. WithMessage er ''Error updating container info after network disconnection'') d
                 (sh_AddOrUpdateItem E (json_containers P) docker_ContainerInfo_Equals
                    (da_containers d) containerID (without_network P networkID container) e))"

section \<open>Events\<close>

datatype event_type = NetworkEventType | ContainerEventType | ServiceEventType | OtherEventType

datatype event_action =
  ActionUpdate | ActionRemove | ActionConnect | ActionDisconnect | ActionKill | ActionDie
| ActionDestroy | ActionCreate | OtherAction

record docker_event =
  ev_Type :: event_type
  ev_Action :: event_action
  ev_ActorID :: string
  ev_Attributes :: "(string, string) gomap"

definition handleEvent :: "docker_pkgs \<Rightarrow> 'e etcd \<Rightarrow> docker \<Rightarrow> data \<Rightarrow> docker_event \<Rightarrow> 'e \<Rightarrow> 'e data_result" where
  "handleEvent P E D d event e =
     (let actor = ev_ActorID event; container = lookup_string (ev_Attributes event) ''container''
      in case (ev_Type event, ev_Action event) of
           (NetworkEventType, ActionUpdate) \<Rightarrow> handleNetwork P E D d actor e
         | (NetworkEventType, ActionRemove) \<Rightarrow> handleDeletedNetwork E d actor e
         | (NetworkEventType, ActionConnect) \<Rightarrow> handleContainer P E D d container e
         | (NetworkEventType, ActionDisconnect) \<Rightarrow> handleDisconnectedContainer P E d actor container e
         | (ContainerEventType, ActionDie) \<Rightarrow> handleDeletedContainer E d actor e
         | (ContainerEventType, ActionDestroy) \<Rightarrow> handleDeletedContainer E d actor e
         | (ServiceEventType, ActionCreate) \<Rightarrow> handleService P E D d actor e
         | (ServiceEventType, ActionUpdate) \<Rightarrow> handleService P E D d actor e
         | (ServiceEventType, ActionRemove) \<Rightarrow> handleDeletedService E d actor e
         | _ \<Rightarrow> ((Ok (), []), d, e))"

text \<open>\<open>Init\<close> fills the stores without calling handlers and then announces everything as added.\<close>

definition announce_all :: "docker_pkgs \<Rightarrow> data \<Rightarrow> data_call list" where
  "announce_all P d =
     [NetworksCall (OnAdded (lo_MapToSlice_networks P (\<lambda>key v. \<lparr>it_ID = key, it_Value = v\<rparr>)
        (GetAll (base (da_networks d))))),
      ServicesCall (OnAdded (lo_MapToSlice_services P (\<lambda>key v. \<lparr>it_ID = key, it_Value = v\<rparr>)
        (GetAll (base (da_services d))))),
      ContainersCall (ShOnAdded (lo_Flatten_containers P (lo_MapToSlice_shards P (\<lambda>shardKey shardValues.
        lo_MapToSlice_containers P (\<lambda>key v. \<lparr>shi_ShardKey = shardKey, shi_ID = key, shi_Value = v\<rparr>) shardValues)
        (sh_GetAll (da_containers d)))))]"

definition data_then :: "'e data_result \<Rightarrow> (data \<Rightarrow> 'e \<Rightarrow> 'e data_result) \<Rightarrow> 'e data_result" where
  "data_then r f =
     (case r of
        ((Ok _, calls), d, e) \<Rightarrow> (case f d e of ((x, calls'), d, e) \<Rightarrow> ((x, calls @ calls'), d, e))
      | ((Err er, calls), d, e) \<Rightarrow> ((Err er, calls), d, e)
      | ((Panic, calls), d, e) \<Rightarrow> ((Panic, calls), d, e))"

definition data_Init :: "docker_pkgs \<Rightarrow> 'e etcd \<Rightarrow> docker \<Rightarrow> data \<Rightarrow> 'e \<Rightarrow> 'e data_result" where
  "data_Init P E D d e =
     data_then (initNetworks P E D d e)
       (\<lambda>d e. data_then (initServices P E D d e)
          (\<lambda>d e. data_then (initContainers P E D d e)
             (\<lambda>d e. ((Ok (), announce_all P d), d, e))))"

section \<open>Which kind of store a node has\<close>

fun writable :: "'a any_store \<Rightarrow> bool" where
  "writable (WriteOnly _) \<longleftrightarrow> True"
| "writable (ReadOnly _) \<longleftrightarrow> False"

text \<open>The types behind the interfaces fit the role of the node, and the node's own shard is there.\<close>

definition data_ok :: "data \<Rightarrow> bool" where
  "data_ok d \<longleftrightarrow> (writable (da_services d) \<longleftrightarrow> isManagerNode d)
     \<and> (writable (da_networks d) \<longleftrightarrow> isManagerNode d)
     \<and> localShardKey (da_containers d) = da_hostname d
     \<and> cm_Get (shardedData (da_containers d)) (da_hostname d) \<noteq> None"

definition same_node :: "data \<Rightarrow> data \<Rightarrow> bool" where
  "same_node d d' \<longleftrightarrow> isManagerNode d' = isManagerNode d \<and> da_hostname d' = da_hostname d
     \<and> (data_ok d \<longrightarrow> data_ok d')"

lemma same_node_refl [simp]: "same_node d d"
  by (simp add: same_node_def)

lemma same_node_ok: "same_node d d' \<Longrightarrow> data_ok d \<Longrightarrow> data_ok d'"
  by (simp add: same_node_def)

lemma same_node_trans: "same_node a b \<Longrightarrow> same_node b c \<Longrightarrow> same_node a c"
  by (simp add: same_node_def)

lemma services_result_node:
  "writable (mk undefined) = writable (da_services d) \<Longrightarrow> (\<And>s. writable (mk s) = writable (mk undefined)) \<Longrightarrow>
   same_node d (fst (snd (services_result mk wrap d r)))"
  by (simp add: services_result_def same_node_def data_ok_def split: prod.splits)

lemma networks_result_node:
  "writable (mk undefined) = writable (da_networks d) \<Longrightarrow> (\<And>s. writable (mk s) = writable (mk undefined)) \<Longrightarrow>
   same_node d (fst (snd (networks_result mk wrap d r)))"
  by (simp add: networks_result_def same_node_def data_ok_def split: prod.splits)

text \<open>What an operation of the sharded store leaves: the key of the local shard, and the shard.\<close>

definition keeps_local :: "'a shardedDistributedStore \<Rightarrow> 'a shardedDistributedStore \<Rightarrow> bool" where
  "keeps_local s s' \<longleftrightarrow> localShardKey s' = localShardKey s
     \<and> (cm_Get (shardedData s) (localShardKey s) \<noteq> None \<longrightarrow> cm_Get (shardedData s') (localShardKey s) \<noteq> None)"

lemma keeps_local_refl [simp]: "keeps_local s s"
  by (simp add: keeps_local_def)

lemma keeps_local_trans: "keeps_local a b \<Longrightarrow> keeps_local b c \<Longrightarrow> keeps_local a c"
  by (simp add: keeps_local_def)

lemma containers_result_node:
  "keeps_local (da_containers d) (fst (snd r)) \<Longrightarrow> same_node d (fst (snd (containers_result wrap d r)))"
  by (auto simp: containers_result_def same_node_def data_ok_def keeps_local_def split: prod.splits)

lemma sh_finish_store [simp]: "fst (snd (sh_finish r s calls)) = s"
  by (simp add: sh_finish_def split: prod.splits res.splits)

lemma sh_AddOrUpdateItem_local: "keeps_local s (fst (snd (sh_AddOrUpdateItem E C Equals s i x e)))"
  by (simp add: sh_AddOrUpdateItem_def keeps_local_def Let_def split: option.splits)

lemma sh_DeleteItem_local: "keeps_local s (fst (snd (sh_DeleteItem E s i e)))"
  by (auto simp: sh_DeleteItem_def keeps_local_def Let_def split: option.splits prod.splits)

lemma sh_syncToInternalState_local: "keeps_local s (snd (sh_syncToInternalState L Equals s k truth))"
proof -
  obtain r sd u where g: "cm_GetOrAdd (shardedData s) k (\<lambda>u. (Ok NewConcurrentMap, u)) () = (r, sd, u)"
    using prod_cases3 by blast
  let ?m = "foldl (\<lambda>m (k, v). cm_Set m k v) NewConcurrentMap truth"
  define t where "t = s\<lparr>shardedData := cm_Set sd k ?m, ss_data := NewConcurrentMap\<rparr>"
  have "cm_Get (cm_Set sd k m) = (cm_Get (shardedData s))(k \<mapsto> m)" for m
    using g by (auto simp: cm_GetOrAdd_def cm_GetOrAdd_locked_def cm_Set_def cm_Get_def fun_eq_iff
        split: option.splits)
  then have "keeps_local s t" by (simp add: keeps_local_def t_def)
  moreover have "snd (sh_syncToInternalState L Equals s k truth) = foldl rebuild_shard t (cm_Keys (shardedData t))"
    using g by (simp add: sh_syncToInternalState_def Let_def t_def)
  ultimately show ?thesis
    using rebuild_shards [of t "cm_Keys (shardedData t)"] by (simp add: keeps_local_def same_shards_def)
qed

lemma sync_shards_local:
  "keeps_local s (snd (fst (snd (sync_shards E C L Equals items etcdData chs s e))))"
proof (induction E C L Equals items etcdData chs s e rule: sync_shards.induct)
  case (2 E C L Equals items k v rest chs s e)
  show ?case
    using 2 sh_syncToInternalState_local [of s L Equals k v]
    by (auto simp: Let_def split: prod.splits res.splits intro: keeps_local_trans)
qed simp

lemma sync_body_local: "keeps_local s (snd (fst (snd (sync_body E C L Equals items chs s e))))"
  by (simp add: sync_body_def sync_shards_local split: prod.splits res.splits)

lemma WithConnection_result: "WithConnection E fn e = (Ok a, e') \<Longrightarrow> \<exists>e1. fst (fn e1) = Ok a"
  by (auto simp: WithConnection_def split: prod.splits res.splits) (metis fst_conv)+

lemma sh_sync_local: "keeps_local s (fst (snd (sh_sync E C L Equals s items h e)))"
proof -
  obtain chs t where t: "sh_syncToInternalState L Equals s (localShardKey s) items = (chs, t)" by (metis surj_pair)
  let ?fn = "\<lambda>e. case sync_body E C L Equals items chs t e of (r, st, e) \<Rightarrow> (Ok (r, st), e)"
  have st: "keeps_local s t" using sh_syncToInternalState_local [of s L Equals "localShardKey s" items] t by simp
  have "keeps_local t (snd st)" if w: "WithConnection E ?fn e = (Ok (r, st), e')" for r st e'
  proof -
    obtain e1 where "fst (?fn e1) = Ok (r, st)" using WithConnection_result [OF w] by blast
    then show ?thesis using sync_body_local [of t E C L Equals items chs e1] by (auto split: prod.splits)
  qed
  then show ?thesis
    using st by (auto simp: sh_sync_def t split: prod.splits res.splits intro: keeps_local_trans)
qed

lemma sh_Init_local: "keeps_local s (fst (snd (sh_Init E C L Equals s items e)))"
  using sh_sync_local [of s E C L Equals items False e] by (auto simp: sh_Init_def split: prod.splits res.splits)

lemmas result_node = services_result_node networks_result_node containers_result_node
  sh_AddOrUpdateItem_local sh_DeleteItem_local sh_Init_local

lemmas any_store_splits = any_store.splits option.splits prod.splits res.splits

lemma init_node:
  "same_node d (fst (snd (initNetworks P E D d e)))" "same_node d (fst (snd (initServices P E D d e)))"
  "same_node d (fst (snd (initContainers P E D d e)))"
  by (simp_all add: initNetworks_def initServices_def initContainers_def Let_def result_node split: any_store_splits)

lemma sync_node:
  "same_node d (fst (snd (syncNetworks P E D d e)))" "same_node d (fst (snd (syncServices P E D d e)))"
  "same_node d (fst (snd (syncContainers P E D d e)))"
  by (simp_all add: syncNetworks_def syncServices_def syncContainers_def sh_Sync_def sh_sync_local Let_def
      result_node split: any_store_splits)

lemma handle_node:
  "same_node d (fst (snd (handleNetwork P E D d i e)))" "same_node d (fst (snd (handleDeletedNetwork E d i e)))"
  "same_node d (fst (snd (handleService P E D d i e)))" "same_node d (fst (snd (handleDeletedService E d i e)))"
  "same_node d (fst (snd (handleContainer P E D d i e)))" "same_node d (fst (snd (handleDeletedContainer E d i e)))"
  "same_node d (fst (snd (handleDisconnectedContainer P E d n i e)))"
  by (simp_all add: handleNetwork_def handleDeletedNetwork_def handleService_def handleDeletedService_def
      handleContainer_def handleDeletedContainer_def handleDisconnectedContainer_def Let_def
      result_node split: any_store_splits)

lemma handleEvent_node: "same_node d (fst (snd (handleEvent P E D d ev e)))"
  by (simp add: handleEvent_def Let_def handle_node split: event_type.split event_action.split)

lemma data_then_node:
  "same_node d (fst (snd r)) \<Longrightarrow> (\<And>d e. same_node d (fst (snd (f d e)))) \<Longrightarrow>
   same_node d (fst (snd (data_then r f)))"
  by (auto simp: data_then_def split: prod.splits res.splits) (metis fst_conv snd_conv same_node_trans)

lemma data_Init_node: "same_node d (fst (snd (data_Init P E D d e)))"
  unfolding data_Init_def by (intro data_then_node init_node) simp

text \<open>The life of the data: it is made, and from then on initialised, synchronised and told of events,
  with whatever the daemon answers at that time.\<close>

inductive data_reachable :: "docker_pkgs \<Rightarrow> 'e etcd \<Rightarrow> etcdClient \<Rightarrow> data \<Rightarrow> bool"
  for P :: docker_pkgs and E :: "'e etcd" and c :: etcdClient
where
  reach_New: "NewData D c = Ok d \<Longrightarrow> data_reachable P E c d"
| reach_Init: "data_reachable P E c d \<Longrightarrow> data_reachable P E c (fst (snd (data_Init P E D d e)))"
| reach_syncNetworks: "data_reachable P E c d \<Longrightarrow> data_reachable P E c (fst (snd (syncNetworks P E D d e)))"
| reach_syncServices: "data_reachable P E c d \<Longrightarrow> data_reachable P E c (fst (snd (syncServices P E D d e)))"
| reach_syncContainers: "data_reachable P E c d \<Longrightarrow> data_reachable P E c (fst (snd (syncContainers P E D d e)))"
| reach_event: "data_reachable P E c d \<Longrightarrow> data_reachable P E c (fst (snd (handleEvent P E D d ev e)))"

lemma NewData_ok: "NewData D c = Ok d \<Longrightarrow> data_ok d"
  by (auto simp: NewData_def data_ok_def NewShardedDistributedStore_def split: res.splits if_splits)

lemma data_reachable_ok: "data_reachable P E c d \<Longrightarrow> data_ok d"
proof (induction rule: data_reachable.induct)
  case (reach_New D d)
  then show ?case by (rule NewData_ok)
qed (blast intro: same_node_ok data_Init_node sync_node handleEvent_node)+

section \<open>What the packages promise\<close>

definition pick_law :: "((string \<Rightarrow> 'v \<Rightarrow> bool) \<Rightarrow> (string, 'v) gomap \<Rightarrow> (string, 'v) gomap) \<Rightarrow> bool" where
  "pick_law pick \<longleftrightarrow> (\<forall>f m. gomap_ok m \<longrightarrow> gomap_ok (pick f m)
     \<and> (\<forall>k. map_of (pick f m) k = (case map_of m k of Some v \<Rightarrow> if f k v then Some v else None | None \<Rightarrow> None)))"

definition docker_pkgs_law :: "docker_pkgs \<Rightarrow> bool" where
  "docker_pkgs_law P \<longleftrightarrow> codec_law (json_containers P) \<and> codec_law (json_services P) \<and> codec_law (json_networks P)
     \<and> lo_law (lo_containers P) \<and> lo_law (lo_services P) \<and> lo_law (lo_networks P)
     \<and> (\<forall>f xs. lo_Map_targets P f xs = map f xs)
     \<and> pick_law (lo_PickBy_ids P) \<and> pick_law (lo_PickBy_ips P) \<and> pick_law (lo_PickBy_names P)"

text \<open>The daemon's client does not panic, and the daemon gives every service an endpoint specification.\<close>

definition daemon_ok :: "docker \<Rightarrow> bool" where
  "daemon_ok D \<longleftrightarrow> ContainerList D \<noteq> Panic \<and> ServiceList D \<noteq> Panic \<and> NetworkList D \<noteq> Panic
     \<and> (\<forall>i. ContainerInspect D i \<noteq> Panic \<and> ServiceInspect D i \<noteq> Panic \<and> NetworkInspect D i \<noteq> Panic)
     \<and> (\<forall>i s. ServiceInspect D i = Ok s \<longrightarrow> sw_EndpointSpec s \<noteq> None)"

subsection \<open>Packages that keep the promises\<close>

definition network_codec :: "NetworkInfo codec" where
  "network_codec = codec_of (\<lambda>n. [ni_DockerID n, ni_FlannelID n, ni_Subnet n, ni_Name n])
     (\<lambda>f. \<lparr>ni_DockerID = f ! 0, ni_FlannelID = f ! 1, ni_Subnet = f ! 2, ni_Name = f ! 3\<rparr>)"

definition service_codec :: "docker_ServiceInfo codec" where
  "service_codec = codec_of
     (\<lambda>s. [si_ID s, si_Name s, si_EndpointMode s, enc_fields (si_Networks s), enc_map enc_ip (si_IpamVIPs s)])
     (\<lambda>f. \<lparr>si_ID = f ! 0, si_Name = f ! 1, si_EndpointMode = f ! 2, si_Networks = dec (f ! 3),
           si_IpamVIPs = dec_map dec_ip (f ! 4)\<rparr>)"

definition container_codec :: "docker_ContainerInfo codec" where
  "container_codec = codec_of
     (\<lambda>c. [ci_ID c, ci_Name c, ci_ServiceID c, ci_ServiceName c, ci_SandboxKey c, enc_map enc_ip (ci_IPs c),
           enc_map enc_fields (ci_DNSNames c), enc_map id (ci_Endpoints c), enc_map enc_ip (ci_IpamIPs c)])
     (\<lambda>f. \<lparr>ci_ID = f ! 0, ci_Name = f ! 1, ci_ServiceID = f ! 2, ci_ServiceName = f ! 3,
           ci_SandboxKey = f ! 4, ci_IPs = dec_map dec_ip (f ! 5), ci_DNSNames = dec_map dec (f ! 6),
           ci_Endpoints = dec_map id (f ! 7), ci_IpamIPs = dec_map dec_ip (f ! 8)\<rparr>)"

lemma codec_laws: "codec_law network_codec" "codec_law service_codec" "codec_law container_codec"
  unfolding network_codec_def service_codec_def container_codec_def
  by (rule codec_of_law; simp add: dec_enc_map)+

definition pick_ref :: "(string \<Rightarrow> 'v \<Rightarrow> bool) \<Rightarrow> (string, 'v) gomap \<Rightarrow> (string, 'v) gomap" where
  "pick_ref f m = filter (\<lambda>(k, v). f k v) m"

lemma pick_ref_law: "pick_law pick_ref"
proof -
  have "map_of (pick_ref f m) k = (case map_of m k of Some v \<Rightarrow> if f k v then Some v else None | None \<Rightarrow> None)"
    if "gomap_ok m" for f k and m :: "(string, 'a) gomap"
    using that by (induction m) (auto simp: pick_ref_def gomap_ok_def map_of_eq_None_iff split: option.splits dest: map_of_SomeD)
  moreover have "gomap_ok (pick_ref f m)" if "gomap_ok m" for f and m :: "(string, 'a) gomap"
    using that by (auto simp: pick_ref_def gomap_ok_def intro: distinct_map_filter)
  ultimately show ?thesis by (simp add: pick_law_def)
qed

definition ref_pkgs :: docker_pkgs where
  "ref_pkgs =
     \<lparr>json_containers = container_codec, json_services = service_codec, json_networks = network_codec,
      lo_containers = lo_ref, lo_services = lo_ref, lo_networks = lo_ref, lo_Map_targets = map,
      lo_PickBy_ids = pick_ref, lo_PickBy_ips = pick_ref, lo_PickBy_names = pick_ref,
      lo_MapToSlice_networks = \<lambda>f m. map (\<lambda>(k, v). f k v) m,
      lo_MapToSlice_services = \<lambda>f m. map (\<lambda>(k, v). f k v) m,
      lo_MapToSlice_containers = \<lambda>f m. map (\<lambda>(k, v). f k v) m,
      lo_MapToSlice_shards = \<lambda>f m. map (\<lambda>(k, v). f k v) m,
      lo_Flatten_containers = concat, time_Parse_ok = \<lambda>_. True\<rparr>"

lemma ref_pkgs_law: "docker_pkgs_law ref_pkgs"
  by (simp add: docker_pkgs_law_def ref_pkgs_def codec_laws lo_ref_law pick_ref_law)

section \<open>Operations on a reliable etcd\<close>

context etcd_reliable
begin

lemma wo_AddOrUpdateItem_run:
  assumes "codec_law C"
  shows "\<exists>e'. wo_AddOrUpdateItem E C Equals s i x e =
    ((Ok (), invokeAddOrChangedHandler Equals (s\<lparr>sb_data := gomap_set (sb_data s) i x\<rparr>) i (map_of (sb_data s) i) x),
     s\<lparr>sb_data := gomap_set (sb_data s) i x\<rparr>, e')"
proof -
  let ?fn = "\<lambda>e. res_bind (res_wrap ''failed to store item'' (storeItem E C (sb_client s) i x e)) (\<lambda>_ e. (Ok (), e))"
  obtain v where "Marshal C x = Some v" using assms unfolding codec_law_def by blast
  then have "\<exists>a e'. ?fn e = (Ok a, e')" for e
    using storeItem_run [of C x v "sb_client s" i e] by auto
  from WithConnection_Ok_run [of ?fn e, OF this] show ?thesis
    by (fastforce simp: wo_AddOrUpdateItem_def Let_def finish_op_def)
qed

lemma wo_DeleteItem_run: "\<exists>calls s' e'. wo_DeleteItem E s i e = ((Ok (), calls), s', e')"
proof -
  let ?fn = "\<lambda>e. res_wrap ''failed to delete item'' (Delete E (GetKey (sb_client s) [i]) e)"
  have "\<exists>a e'. ?fn e = (Ok a, e')" for e
    using Delete_ok [of "GetKey (sb_client s) [i]" e] by auto
  from WithConnection_Ok_run [of ?fn e, OF this] show ?thesis
    by (fastforce simp: wo_DeleteItem_def Let_def finish_op_def)
qed

lemma sh_AddOrUpdateItem_run:
  assumes "codec_law C" "cm_Get (shardedData s) (localShardKey s) \<noteq> None"
  shows "\<exists>calls s' e'. sh_AddOrUpdateItem E C Equals s i x e = ((Ok (), calls), s', e')
    \<and> sh_GetItem s' i = (localShardKey s, Some x)
    \<and> view e' = (view e)(GetKey (ss_client s) [localShardKey s, i] := Marshal C x)
    \<and> (\<forall>y. shard_items s (localShardKey s) i = Some y \<longrightarrow> \<not> Equals y x \<longrightarrow> sh_has_OnChanged (ss_handlers s) \<longrightarrow>
         calls = [ShOnChanged [\<lparr>shc_ShardKey = localShardKey s, shc_ID = i, shc_Previous = y, shc_Current = x\<rparr>]])"
proof -
  let ?fn = "\<lambda>e. res_bind (res_wrap ''failed to store item''
    (sh_storeItem E C (ss_client s) (localShardKey s) i x e)) (\<lambda>_ e. (Ok (), e))"
  obtain v where "Marshal C x = Some v" using assms(1) unfolding codec_law_def by blast
  then have fn: "\<exists>e'. ?fn e = (Ok (), e') \<and> view e' = (view e)(GetKey (ss_client s) [localShardKey s, i] := Marshal C x)" for e
    using PutIfNewOrChanged_run [of "GetKey (ss_client s) [localShardKey s, i]" v e]
    by (auto simp: sh_storeItem_def)
  obtain a e' where w: "WithConnection E ?fn e = (Ok a, e')"
    using WithConnection_Ok_run [of ?fn e] fn by blast
  have "view e' = (view e)(GetKey (ss_client s) [localShardKey s, i] := Marshal C x)"
    using WithConnection_Ok [OF w] fn by (metis snd_conv)
  then show ?thesis
    using assms(2) w
    by (auto simp: sh_AddOrUpdateItem_def Let_def sh_finish_def sh_GetItem_def shard_items_eq)
qed

lemma sh_DeleteItem_run:
  assumes "cm_Get (shardedData s) (localShardKey s) \<noteq> None"
  shows "\<exists>calls s' e'. sh_DeleteItem E s i e = ((Ok (), calls), s', e')"
proof -
  let ?fn = "\<lambda>e. res_wrap ''failed to delete item'' (Delete E (GetKey (ss_client s) [localShardKey s, i]) e)"
  have "\<exists>a e'. ?fn e = (Ok a, e')" for e
    using Delete_ok [of "GetKey (ss_client s) [localShardKey s, i]" e] by auto
  from WithConnection_Ok_run [of ?fn e, OF this] show ?thesis
    using assms by (fastforce simp: sh_DeleteItem_def Let_def sh_finish_def split: prod.splits)
qed

lemma handle_no_panic:
  assumes "data_ok d" "isManagerNode d" "docker_pkgs_law P" "daemon_ok D"
  shows "fst (fst (handleNetwork P E D d i e)) \<noteq> Panic" "fst (fst (handleDeletedNetwork E d i e)) \<noteq> Panic"
    "fst (fst (handleService P E D d i e)) \<noteq> Panic" "fst (fst (handleDeletedService E d i e)) \<noteq> Panic"
    "fst (fst (handleContainer P E D d i e)) \<noteq> Panic" "fst (fst (handleDeletedContainer E d i e)) \<noteq> Panic"
    "fst (fst (handleDisconnectedContainer P E d n i e)) \<noteq> Panic"
proof -
  obtain ns ss where st: "da_networks d = WriteOnly ns" "da_services d = WriteOnly ss"
    using assms(1,2) unfolding data_ok_def by (metis writable.elims(2))
  have C: "codec_law (json_containers P)" "codec_law (json_services P)" "codec_law (json_networks P)"
    using assms(3) by (simp_all add: docker_pkgs_law_def)
  have sh: "cm_Get (shardedData (da_containers d)) (localShardKey (da_containers d)) \<noteq> None"
    using assms(1) by (simp add: data_ok_def)
  have vips: "add_vips vs info \<noteq> Panic" for vs info
    by (induction vs info rule: add_vips.induct) (auto split: option.splits)
  have spec: "ServiceInspect D i = Ok x \<Longrightarrow> sw_EndpointSpec x \<noteq> None" "ServiceInspect D i \<noteq> Panic" for x
    using assms(4) by (simp_all add: daemon_ok_def)
  have svc: "getServiceInfoFromDocker P D i \<noteq> Panic"
    using spec by (cases "ServiceInspect D i")
      (auto simp: getServiceInfoFromDocker_def vips Let_def split: res.splits option.splits)
  have net: "getNetworkInfoFromDocker D i \<noteq> Panic"
    using assms(4) by (simp add: getNetworkInfoFromDocker_def daemon_ok_def split: res.splits)
  have con: "getContainerInfoFromDocker P D i \<noteq> Panic"
    using assms(4) by (simp add: getContainerInfoFromDocker_def daemon_ok_def split: res.splits)
  have upd: "fst (fst (networks_result mk w d (wo_AddOrUpdateItem E (json_networks P) q ns i n e))) \<noteq> Panic"
    "fst (fst (services_result mk' w d (wo_AddOrUpdateItem E (json_services P) q' ss i s e))) \<noteq> Panic"
    "fst (fst (containers_result w d (sh_AddOrUpdateItem E (json_containers P) q'' (da_containers d) i c e))) \<noteq> Panic"
    for mk mk' w q q' q'' n s c
    using wo_AddOrUpdateItem_run [OF C(3), of q ns i n e] wo_AddOrUpdateItem_run [OF C(2), of q' ss i s e]
      sh_AddOrUpdateItem_run [OF C(1) sh, of q'' i c e]
    by (auto simp: networks_result_def services_result_def containers_result_def)
  show "fst (fst (handleNetwork P E D d i e)) \<noteq> Panic"
    using net by (cases "getNetworkInfoFromDocker D i") (simp_all add: handleNetwork_def st upd)
  show "fst (fst (handleDeletedNetwork E d i e)) \<noteq> Panic"
    using wo_DeleteItem_run [of ns i e] by (auto simp: handleDeletedNetwork_def st networks_result_def)
  show "fst (fst (handleService P E D d i e)) \<noteq> Panic"
    using svc by (simp add: handleService_def st upd split: res.split option.split)
  show "fst (fst (handleDeletedService E d i e)) \<noteq> Panic"
    using wo_DeleteItem_run [of ss i e] by (auto simp: handleDeletedService_def st services_result_def)
  show "fst (fst (handleContainer P E D d i e)) \<noteq> Panic"
    using con by (cases "getContainerInfoFromDocker P D i") (simp_all add: handleContainer_def upd)
  show "fst (fst (handleDeletedContainer E d i e)) \<noteq> Panic"
    using sh_DeleteItem_run [OF sh, of i e] by (auto simp: handleDeletedContainer_def containers_result_def)
  show "fst (fst (handleDisconnectedContainer P E d n i e)) \<noteq> Panic"
    by (simp add: handleDisconnectedContainer_def upd split: prod.split option.split)
qed

end

section \<open>Properties\<close>


definition demo_daemon :: "bool \<Rightarrow> docker" where
  "demo_daemon manager =
     \<lparr>os_Hostname = Ok ''node1'', docker_New = Ok (), docker_Info = Ok manager, docker_late = False,
      ContainerList = Ok [], ContainerInspect = \<lambda>_. Err (Errorf ''no such container''),
      ServiceList = Err (Errorf ''timeout''),
      ServiceInspect = \<lambda>_. Ok \<lparr>sw_Name = ''web'', sw_EndpointSpec = Some ''dnsrr'', sw_Targets = [''n1''],
        sw_VirtualIPs = []\<rparr>,
      NetworkList = Ok [], NetworkInspect = \<lambda>_. Ok \<lparr>nr_Name = ''net'', nr_Options = [], nr_Subnets = []\<rparr>\<rparr>"

lemma demo_daemon_ok: "daemon_ok (demo_daemon m)"
  by (simp add: daemon_ok_def demo_daemon_def)

definition demo_data :: "bool \<Rightarrow> data" where
  "demo_data manager = the_ok (NewData (demo_daemon manager) (NewEtcdClient [] 5 ''/f''))"

lemma demo_data_New: "NewData (demo_daemon m) (NewEtcdClient [] 5 ''/f'') = Ok (demo_data m)"
  by (simp add: demo_data_def NewData_def demo_daemon_def)

lemma demo_data_fields: "isManagerNode (demo_data m) = m"
  by (simp add: demo_data_def NewData_def demo_daemon_def)


text \<open>
  On a worker the networks and services are in read-only stores, but the handlers of events
  assert that they can be written: the removal of any network, such as a local bridge, makes the
  process panic, and so does the update of one that can be inspected.
\<close>

theorem worker_network_event_panics:
  assumes "data_reachable P E c d" "\<not> isManagerNode d" "ev_Type ev = NetworkEventType"
    "ev_Action ev = ActionRemove \<or> (ev_Action ev = ActionUpdate \<and> NetworkInspect D (ev_ActorID ev) = Ok n)"
  shows "handleEvent P E D d ev e = ((Panic, []), d, e)"
proof -
  obtain s where "da_networks d = ReadOnly s"
    using data_reachable_ok [OF assms(1)] assms(2) unfolding data_ok_def by (metis writable.elims(3))
  then show ?thesis
    using assms(3,4) by (auto simp: handleEvent_def handleNetwork_def handleDeletedNetwork_def
        getNetworkInfoFromDocker_def Let_def)
qed

lemma worker_network_event_panics_witness:
  "handleEvent ref_pkgs mem_etcd (demo_daemon False) (demo_data False)
     \<lparr>ev_Type = NetworkEventType, ev_Action = ActionRemove, ev_ActorID = ''bridge'', ev_Attributes = []\<rparr> []
   = ((Panic, []), demo_data False, [])"
  by (rule worker_network_event_panics [OF reach_New [OF demo_data_New]]) (simp_all add: demo_data_fields)

text \<open>
  C24: When Docker fails to list the services, \<open>initServices\<close> of a manager reports success: the
  error is overwritten, and the empty map that came with it is written, so that every service
  known to the cluster is deleted from memory and from etcd.
\<close>

theorem failed_listing_deletes_services:
  assumes "etcd_reliable E view" "docker_pkgs_law P" "da_services d = WriteOnly s" "isManagerNode d"
    "ServiceList D = Err er" "wf_keys (prefix (sb_client s)) (view e)"
  shows "\<exists>e'. initServices P E D d e = ((Ok (), []), d\<lparr>da_services := WriteOnly (s\<lparr>sb_data := []\<rparr>)\<rparr>, e')
    \<and> decoded (json_services P) (sb_client s) (view e') = Map.empty"
proof -
  let ?C = "json_services P" and ?L = "lo_services P"
  have laws: "codec_law ?C" "lo_law ?L" using assms(2) by (simp_all add: docker_pkgs_law_def)
  have sv: "etcd_service E view" using assms(1) by (simp add: etcd_reliable_def)
  obtain calls s' e' where r: "wo_sync E ?C ?L docker_ServiceInfo_Equals s [] False e = ((Ok (), calls), s', e')"
    using etcd_reliable.wo_sync_run [OF assms(1) laws(1)] by blast
  obtain e1 e2 where *: "s' = s\<lparr>sb_data := []\<rparr>" "view e1 = view e" "view e' = view e2"
    "wo_sync_etcd E ?C ?L (sb_client s) [] e1 = (Ok (), e2)"
    using etcd_service.wo_sync_Ok [OF sv r] by blast
  have "calls = []"
    using r by (auto simp: wo_sync_def finish_op_def Let_def split: prod.splits res.splits)
  moreover have "decoded ?C (sb_client s) (view e') = Map.empty"
    using etcd_service.wo_sync_etcd_decoded(1) [OF sv *(4) laws(2,1)] assms(6) * by simp
  ultimately show ?thesis
    using r *(1) assms(3-5)
    by (simp add: initServices_def getServicesInfosFromDocker_def wo_Init_def services_result_def Let_def)
qed

definition demo_service_client :: etcdClient where
  "demo_service_client = CreateSubClient (NewEtcdClient [] 5 ''/f'') [''services'']"

lemma demo_service_client_prefix: "prefix demo_service_client = ''/f/services''"
  by code_simp

definition demo_service :: "string \<Rightarrow> docker_ServiceInfo" where
  "demo_service mode = \<lparr>si_ID = ''s1'', si_Name = ''web'', si_EndpointMode = mode, si_Networks = [''n1''],
     si_IpamVIPs = []\<rparr>"

definition demo_service_etcd :: mem where
  "demo_service_etcd = [(''/f/services/s1'', the (Marshal service_codec (demo_service ''dnsrr'')))]"

lemma demo_service_wf: "wf_keys (prefix demo_service_client) (map_of demo_service_etcd)"
  unfolding wf_keys_def demo_service_client_prefix by (auto simp: demo_service_etcd_def split: if_splits)

lemma demo_service_decoded:
  "decoded service_codec demo_service_client (map_of demo_service_etcd) ''s1'' = Some (demo_service ''dnsrr'')"
proof -
  obtain t where t: "Marshal service_codec (demo_service ''dnsrr'') = Some t"
    "Unmarshal service_codec t = Some (demo_service ''dnsrr'')"
    using codec_laws(2) unfolding codec_law_def by blast
  then show ?thesis by (simp add: decoded_def demo_service_etcd_def demo_service_client_prefix simple_id_def)
qed

lemma demo_data_services: "da_services (demo_data True) = WriteOnly (NewStore demo_service_client all_handlers)"
  by (simp add: demo_data_def NewData_def demo_daemon_def demo_service_client_def)

lemma failed_listing_deletes_services_witness:
  "decoded service_codec demo_service_client (map_of demo_service_etcd) ''s1'' = Some (demo_service ''dnsrr'')
   \<and> (\<exists>d' e'. initServices ref_pkgs mem_etcd (demo_daemon True) (demo_data True) demo_service_etcd = ((Ok (), []), d', e')
        \<and> decoded service_codec demo_service_client (map_of e') ''s1'' = None)"
proof -
  let ?st = "NewStore demo_service_client all_handlers :: docker_ServiceInfo storeBase"
  have "wf_keys (prefix (sb_client ?st)) (map_of demo_service_etcd)"
    using demo_service_wf by (simp add: NewStore_def)
  moreover have "ServiceList (demo_daemon True) = Err (Errorf ''timeout'')" by (simp add: demo_daemon_def)
  ultimately obtain d' e' where
    "initServices ref_pkgs mem_etcd (demo_daemon True) (demo_data True) demo_service_etcd = ((Ok (), []), d', e')"
    "decoded (json_services ref_pkgs) (sb_client ?st) (map_of e') = Map.empty"
    using failed_listing_deletes_services [OF mem.etcd_reliable_axioms ref_pkgs_law demo_data_services]
      demo_data_fields [of True] by blast
  then show ?thesis using demo_service_decoded by (simp add: NewStore_def ref_pkgs_def)
qed

text \<open>
  \<open>ServiceInfo.Equals\<close> compares neither the endpoint mode nor the networks. An update that
  changes only those is stored in memory and written to etcd, but no handler is called: the rest of
  the plugin never hears of it.
\<close>

theorem service_update_unnoticed:
  assumes "etcd_reliable E view" "docker_pkgs_law P" "da_services d = WriteOnly s"
    "getServiceInfoFromDocker P D i = Ok (Some new)" "GetItem s i = Some old"
    "si_ID new = si_ID old" "si_Name new = si_Name old" "si_IpamVIPs new = si_IpamVIPs old"
    "gomap_ok (si_IpamVIPs old)"
  shows "\<exists>e'. handleService P E D d i e =
    ((Ok (), []), d\<lparr>da_services := WriteOnly (s\<lparr>sb_data := gomap_set (sb_data s) i new\<rparr>)\<rparr>, e')"
proof -
  have "codec_law (json_services P)" using assms(2) by (simp add: docker_pkgs_law_def)
  from etcd_reliable.wo_AddOrUpdateItem_run [OF assms(1) this, of docker_ServiceInfo_Equals s i new e]
  obtain e' where r: "wo_AddOrUpdateItem E (json_services P) docker_ServiceInfo_Equals s i new e =
    ((Ok (), invokeAddOrChangedHandler docker_ServiceInfo_Equals (s\<lparr>sb_data := gomap_set (sb_data s) i new\<rparr>) i
       (map_of (sb_data s) i) new), s\<lparr>sb_data := gomap_set (sb_data s) i new\<rparr>, e')" by blast
  have "ip_Equal a a" for a by (simp add: ip_Equal_def)
  then have "CompareIPMaps (Some (si_IpamVIPs old)) (Some (si_IpamVIPs new))"
    using assms(8,9) by (simp add: CompareIPMaps_def compare_maps_iff option.rel_refl)
  then have "docker_ServiceInfo_Equals old new" using assms(6,7) by (simp add: docker_ServiceInfo_Equals_def)
  then show ?thesis
    using r assms(3-5)
    by (simp add: handleService_def services_result_def GetItem_def invokeAddOrChangedHandler_def)
qed

definition demo_service_store :: "string \<Rightarrow> docker_ServiceInfo storeBase" where
  "demo_service_store mode = \<lparr>sb_client = demo_service_client, sb_data = [(''s1'', demo_service mode)],
     sb_handlers = all_handlers\<rparr>"

lemma service_update_unnoticed_witness:
  "let d = (demo_data True)\<lparr>da_services := WriteOnly (demo_service_store ''vip'')\<rparr>
   in \<exists>e'. handleService ref_pkgs mem_etcd (demo_daemon True) d ''s1'' []
        = ((Ok (), []), d\<lparr>da_services := WriteOnly (demo_service_store ''dnsrr'')\<rparr>, e')"
proof -
  let ?s = "demo_service_store ''vip''"
  let ?d = "(demo_data True)\<lparr>da_services := WriteOnly ?s\<rparr>"
  have info: "getServiceInfoFromDocker ref_pkgs (demo_daemon True) ''s1'' = Ok (Some (demo_service ''dnsrr''))"
    by (simp add: getServiceInfoFromDocker_def demo_daemon_def ref_pkgs_def demo_service_def ServiceEndpointModeVip_def)
  have st: "?s\<lparr>sb_data := gomap_set (sb_data ?s) ''s1'' (demo_service ''dnsrr'')\<rparr> = demo_service_store ''dnsrr''"
    by (simp add: demo_service_store_def)
  have "\<exists>e'. handleService ref_pkgs mem_etcd (demo_daemon True) ?d ''s1'' [] =
    ((Ok (), []), ?d\<lparr>da_services := WriteOnly (?s\<lparr>sb_data := gomap_set (sb_data ?s) ''s1'' (demo_service ''dnsrr'')\<rparr>)\<rparr>, e')"
    by (rule service_update_unnoticed [OF mem.etcd_reliable_axioms ref_pkgs_law _ info, of _ _ "demo_service ''vip''"])
      (simp_all add: demo_service_store_def demo_service_def GetItem_def)
  then show ?thesis unfolding Let_def st by simp
qed

definition container_maps_ok :: "docker_ContainerInfo \<Rightarrow> bool" where
  "container_maps_ok c \<longleftrightarrow> gomap_ok (ci_IPs c) \<and> gomap_ok (ci_IpamIPs c) \<and> gomap_ok (ci_Endpoints c)
     \<and> gomap_ok (ci_DNSNames c)"

text \<open>
  C36: \<open>ContainerInfo.Equals\<close> decides whether two containers are the same: exactly when the five
  texts are equal and the four maps have the same keys, with the same addresses, end points and
  lists of names, in whatever order they are ranged over.
\<close>

theorem ContainerInfo_Equals_iff:
  assumes "container_maps_ok a" "container_maps_ok b"
  shows "docker_ContainerInfo_Equals a b \<longleftrightarrow>
    (ci_ID a, ci_Name a, ci_ServiceID a, ci_ServiceName a, ci_SandboxKey a)
      = (ci_ID b, ci_Name b, ci_ServiceID b, ci_ServiceName b, ci_SandboxKey b)
    \<and> (\<forall>k. rel_option ip_Equal (map_of (ci_IPs a) k) (map_of (ci_IPs b) k))
    \<and> (\<forall>k. rel_option ip_Equal (map_of (ci_IpamIPs a) k) (map_of (ci_IpamIPs b) k))
    \<and> map_of (ci_Endpoints a) = map_of (ci_Endpoints b) \<and> map_of (ci_DNSNames a) = map_of (ci_DNSNames b)"
proof -
  have eq: "(\<forall>k. rel_option (=) (m k) (n k)) \<longleftrightarrow> m = n" for m n :: "string \<rightharpoonup> 'b"
    by (simp add: option.rel_eq fun_eq_iff)
  have sl: "compareStringSlices = (=)" by (simp add: fun_eq_iff)
  show ?thesis
    using assms
    by (simp add: docker_ContainerInfo_Equals_def container_maps_ok_def CompareIPMaps_def CompareStringMaps_def
        CompareStringArrayMaps_def compare_maps_iff eq sl) blast
qed

definition demo_container :: "(string, net_ip) gomap \<Rightarrow> docker_ContainerInfo" where
  "demo_container ips = \<lparr>ci_ID = ''c1'', ci_Name = ''web.1'', ci_ServiceID = ''s1'', ci_ServiceName = ''web'',
     ci_SandboxKey = ''/sb'', ci_IPs = ips, ci_DNSNames = [], ci_Endpoints = [], ci_IpamIPs = []\<rparr>"

lemma demo_container_ok: "gomap_ok ips \<Longrightarrow> container_maps_ok (demo_container ips)"
  by (simp add: container_maps_ok_def demo_container_def)

lemma ContainerInfo_Equals_iff_witness:
  "docker_ContainerInfo_Equals (demo_container [(''n'', [10, 0, 0, 1]), (''m'', [10, 0, 1, 1])])
     (demo_container [(''m'', v4InV6Prefix @ [10, 0, 1, 1]), (''n'', [10, 0, 0, 1])])"
  by (subst ContainerInfo_Equals_iff)
    (auto simp: gomap_ok_def demo_container_def container_maps_ok_def ip_Equal_def)

text \<open>
  C9: When a container of this node leaves a network, exactly that network is taken out of its
  addresses, end points and names; the others stay. The result is stored in memory and in etcd, and
  the change is announced.
\<close>

theorem handleDisconnectedContainer_spec:
  assumes "etcd_reliable E view" "docker_pkgs_law P" "data_ok d" "s = da_containers d" "container_maps_ok c"
    "sh_GetItem s i = (localShardKey s, Some c)" "shard_items s (localShardKey s) i = Some c"
    "map_of (ci_IPs c) n \<noteq> None" "sh_has_OnChanged (ss_handlers s)"
  shows "\<exists>c' s' e'. handleDisconnectedContainer P E d n i e =
      ((Ok (), [ContainersCall (ShOnChanged [\<lparr>shc_ShardKey = localShardKey s, shc_ID = i, shc_Previous = c, shc_Current = c'\<rparr>])]),
       d\<lparr>da_containers := s'\<rparr>, e')
    \<and> sh_GetItem s' i = (localShardKey s, Some c')
    \<and> view e' = (view e)(GetKey (ss_client s) [localShardKey s, i] := Marshal (json_containers P) c')
    \<and> map_of (ci_IPs c') = (map_of (ci_IPs c))(n := None) \<and> map_of (ci_IpamIPs c') = (map_of (ci_IpamIPs c))(n := None)
    \<and> map_of (ci_Endpoints c') = (map_of (ci_Endpoints c))(n := None)
    \<and> map_of (ci_DNSNames c') = (map_of (ci_DNSNames c))(n := None)"
proof -
  have laws: "codec_law (json_containers P)" "pick_law (lo_PickBy_ids P)" "pick_law (lo_PickBy_ips P)"
    "pick_law (lo_PickBy_names P)" using assms(2) by (simp_all add: docker_pkgs_law_def)
  have pick: "gomap_ok (p (\<lambda>key _. key \<noteq> n) m) \<and> map_of (p (\<lambda>key _. key \<noteq> n) m) = (map_of m)(n := None)"
    if "pick_law p" "gomap_ok m" for p :: "(string \<Rightarrow> 'v \<Rightarrow> bool) \<Rightarrow> (string, 'v) gomap \<Rightarrow> (string, 'v) gomap" and m
    using that by (auto simp: pick_law_def fun_eq_iff split: option.splits)
  let ?c = "without_network P n c"
  have maps: "map_of (ci_IPs ?c) = (map_of (ci_IPs c))(n := None)"
    "map_of (ci_IpamIPs ?c) = (map_of (ci_IpamIPs c))(n := None)"
    "map_of (ci_Endpoints ?c) = (map_of (ci_Endpoints c))(n := None)"
    "map_of (ci_DNSNames ?c) = (map_of (ci_DNSNames c))(n := None)" "container_maps_ok ?c"
    using assms(5) pick [OF laws(2)] pick [OF laws(3)] pick [OF laws(4)]
    by (simp_all add: without_network_def container_maps_ok_def)
  have "\<not> rel_option ip_Equal (map_of (ci_IPs c) n) (map_of (ci_IPs ?c) n)" using assms(8) maps(1) by auto
  then have ne: "\<not> docker_ContainerInfo_Equals c ?c"
    using assms(5) maps(5) by (auto simp: docker_ContainerInfo_Equals_def CompareIPMaps_def compare_maps_iff container_maps_ok_def)
  have sh: "cm_Get (shardedData s) (localShardKey s) \<noteq> None" using assms(3,4) by (simp add: data_ok_def)
  from etcd_reliable.sh_AddOrUpdateItem_run [OF assms(1) laws(1) sh, of docker_ContainerInfo_Equals i ?c e]
  obtain s' e' where r: "sh_AddOrUpdateItem E (json_containers P) docker_ContainerInfo_Equals s i ?c e =
      ((Ok (), [ShOnChanged [\<lparr>shc_ShardKey = localShardKey s, shc_ID = i, shc_Previous = c, shc_Current = ?c\<rparr>]]), s', e')"
    "sh_GetItem s' i = (localShardKey s, Some ?c)"
    "view e' = (view e)(GetKey (ss_client s) [localShardKey s, i] := Marshal (json_containers P) ?c)"
    using assms(7,9) ne by blast
  show ?thesis
    using r maps(1-4) assms(4,6)
    by (intro exI [of _ ?c] exI [of _ s'] exI [of _ e'])
      (simp add: handleDisconnectedContainer_def containers_result_def GetLocalShardKey_def)
qed

definition demo_containers :: "docker_ContainerInfo \<Rightarrow> docker_ContainerInfo shardedDistributedStore" where
  "demo_containers c =
     \<lparr>ss_client = NewEtcdClient [] 5 ''/f/containers'', localShardKey = ''node1'', ss_handlers = all_shard_handlers,
      shardedData = cm_Set NewConcurrentMap ''node1'' (cm_Set NewConcurrentMap ''c1'' c),
      ss_data = cm_Set NewConcurrentMap ''c1'' c, itemToShardKey = cm_Set NewConcurrentMap ''c1'' ''node1''\<rparr>"

lemma handleDisconnectedContainer_spec_witness:
  "let c = demo_container [(''n'', [10, 0, 0, 1]), (''m'', [10, 0, 1, 1])];
       d = (demo_data True)\<lparr>da_containers := demo_containers c\<rparr>
   in \<exists>calls c' s' e'. handleDisconnectedContainer ref_pkgs mem_etcd d ''n'' ''c1'' [] = ((Ok (), calls), d\<lparr>da_containers := s'\<rparr>, e')
        \<and> sh_GetItem s' ''c1'' = (''node1'', Some c')
        \<and> map_of (ci_IPs c') = [''m'' \<mapsto> [10, 0, 1, 1]]"
proof -
  define c where "c = demo_container [(''n'', [10, 0, 0, 1]), (''m'', [10, 0, 1, 1])]"
  define d where "d = (demo_data True)\<lparr>da_containers := demo_containers c\<rparr>"
  have s: "demo_containers c = da_containers d" by (simp add: d_def)
  have host: "da_hostname (demo_data True) = ''node1''" by (simp add: demo_data_def NewData_def demo_daemon_def)
  have d: "data_ok d"
    using data_reachable_ok [OF reach_New [OF demo_data_New, of ref_pkgs mem_etcd True]]
    by (simp add: d_def data_ok_def demo_containers_def host)
  have c: "container_maps_ok c" by (simp add: c_def demo_container_ok gomap_ok_def)
  have g: "sh_GetItem (demo_containers c) ''c1'' = (localShardKey (demo_containers c), Some c)"
    "shard_items (demo_containers c) (localShardKey (demo_containers c)) ''c1'' = Some c"
    by (simp_all add: demo_containers_def sh_GetItem_def shard_items_eq)
  have k: "localShardKey (demo_containers c) = ''node1''" "sh_has_OnChanged (ss_handlers (demo_containers c))"
    "map_of (ci_IPs c) ''n'' \<noteq> None" "(map_of (ci_IPs c))(''n'' := None) = [''m'' \<mapsto> [10, 0, 1, 1]]"
    by (auto simp: demo_containers_def all_shard_handlers_def c_def demo_container_def)
  show ?thesis
    using handleDisconnectedContainer_spec [OF mem.etcd_reliable_axioms ref_pkgs_law d s c g k(3,2), of "[]"]
    unfolding Let_def c_def [symmetric] d_def [symmetric] k by blast
qed

end
