(* ===== verification/Networking.thy ===== *)
theory Networking
  imports Net_IP
begin

text \<open>
  \<open>plugin/pkg/networking/iptables.go\<close> and \<open>interface_management.go\<close>. The kernel, reached through
  the packages \<open>go-iptables\<close>, \<open>netlink\<close> and \<open>ipvs\<close>, is not part of the sources: it is the record
  \<open>kernel\<close> of state-passing calls, an argument of every definition that uses it. The locale
  \<open>kernel_service\<close> states the documented effect of the calls that succeed, in terms of what is
  visible of the kernel: rules, links, addresses, and virtual services with their destinations.
  \<open>mem_kernel\<close> is a concrete kernel that satisfies it.
\<close>

section \<open>The kernel\<close>

record IptablesRule =
  Table :: string
  Chain :: string
  RuleSpec :: "string list"

text \<open>The attributes of a link that the code reads or sets.\<close>

record Link =
  l_Name :: string
  l_Type :: string
  l_MTU :: int
  l_Up :: bool

record Addr =
  addr_IPNet :: ipnet
  addr_Label :: string

record ipvs_Service =
  FWMark :: "32 word"
  SchedName :: string
  svc_AddressFamily :: nat
  svc_Flags :: "32 word"
  svc_Timeout :: "32 word"
  PEName :: string

record ipvs_Destination =
  d_AddressFamily :: nat
  d_Address :: net_ip
  d_Port :: nat
  d_Weight :: int
  d_ConnectionFlags :: "32 word"

text \<open>
  The constants and calls of the three packages; \<open>ParseAddr\<close> is a pure function, \<open>IsServicePresent\<close> returns no
  error, and \<open>Close\<close> of an IPVS handle has no result.
\<close>

record 'k kernel =
  AF_INET :: nat
  ConnectionFlagMasq :: "32 word"
  iptables_New :: "'k \<Rightarrow> unit res \<times> 'k"
  AppendUnique :: "string \<Rightarrow> string \<Rightarrow> string list \<Rightarrow> 'k \<Rightarrow> unit res \<times> 'k"
  ipt_Delete :: "string \<Rightarrow> string \<Rightarrow> string list \<Rightarrow> 'k \<Rightarrow> unit res \<times> 'k"
  LinkByName :: "string \<Rightarrow> 'k \<Rightarrow> Link res \<times> 'k"
  LinkAdd :: "Link \<Rightarrow> 'k \<Rightarrow> unit res \<times> 'k"
  LinkSetMTU :: "Link \<Rightarrow> int \<Rightarrow> 'k \<Rightarrow> unit res \<times> 'k"
  LinkSetDown :: "Link \<Rightarrow> 'k \<Rightarrow> unit res \<times> 'k"
  LinkSetUp :: "Link \<Rightarrow> 'k \<Rightarrow> unit res \<times> 'k"
  ParseAddr :: "string \<Rightarrow> Addr res"
  AddrReplace :: "Link \<Rightarrow> Addr \<Rightarrow> 'k \<Rightarrow> unit res \<times> 'k"
  AddrList :: "Link \<Rightarrow> 'k \<Rightarrow> Addr list res \<times> 'k"
  AddrDel :: "Link \<Rightarrow> Addr \<Rightarrow> 'k \<Rightarrow> unit res \<times> 'k"
  ipvs_New :: "'k \<Rightarrow> unit res \<times> 'k"
  ipvs_Close :: "'k \<Rightarrow> 'k"
  IsServicePresent :: "ipvs_Service \<Rightarrow> 'k \<Rightarrow> bool \<times> 'k"
  NewService :: "ipvs_Service \<Rightarrow> 'k \<Rightarrow> unit res \<times> 'k"
  GetService :: "ipvs_Service \<Rightarrow> 'k \<Rightarrow> ipvs_Service res \<times> 'k"
  UpdateService :: "ipvs_Service \<Rightarrow> 'k \<Rightarrow> unit res \<times> 'k"
  DelService :: "ipvs_Service \<Rightarrow> 'k \<Rightarrow> unit res \<times> 'k"
  NewDestination :: "ipvs_Service \<Rightarrow> ipvs_Destination \<Rightarrow> 'k \<Rightarrow> unit res \<times> 'k"
  UpdateDestination :: "ipvs_Service \<Rightarrow> ipvs_Destination \<Rightarrow> 'k \<Rightarrow> unit res \<times> 'k"
  DelDestination :: "ipvs_Service \<Rightarrow> ipvs_Destination \<Rightarrow> 'k \<Rightarrow> unit res \<times> 'k"
  GetDestinations :: "ipvs_Service \<Rightarrow> 'k \<Rightarrow> ipvs_Destination list res \<times> 'k"

section \<open>Iptables\<close>

fun apply_rules ::
  "(string \<Rightarrow> string \<Rightarrow> string list \<Rightarrow> 'k \<Rightarrow> unit res \<times> 'k) \<Rightarrow> IptablesRule list \<Rightarrow> 'k \<Rightarrow> unit res \<times> 'k"
where
  "apply_rules a [] k = (Ok (), k)"
| "apply_rules a (rule # rules) k =
     res_bind (a (Table rule) (Chain rule) (RuleSpec rule) k) (\<lambda>_ k. apply_rules a rules k)"

definition ApplyIpTablesRules ::
  "'k kernel \<Rightarrow> IptablesRule list \<Rightarrow> string \<Rightarrow> 'k \<Rightarrow> unit res \<times> 'k"
where
  "ApplyIpTablesRules K rules action k =
     res_bind (iptables_New K k)
       (\<lambda>_ k. if action = ''create'' then apply_rules (AppendUnique K) rules k
              else if action = ''delete'' then apply_rules (ipt_Delete K) rules k
              else (Err (Errorf ''invalid action''), k))"

section \<open>Interfaces\<close>

fun str_Contains :: "string \<Rightarrow> string \<Rightarrow> bool" where
  "str_Contains [] sub \<longleftrightarrow> HasPrefix [] sub"
| "str_Contains (c # s) sub \<longleftrightarrow> HasPrefix (c # s) sub \<or> str_Contains s sub"

text \<open>The text of an error that a library returned.\<close>

fun error_text :: "goerr \<Rightarrow> string" where
  "error_text (Foreign m) = m"
| "error_text (Errorf m) = m"
| "error_text (WithMessage er m) = m @ '': '' @ error_text er"

definition interfaceExists :: "'k kernel \<Rightarrow> string \<Rightarrow> string \<Rightarrow> 'k \<Rightarrow> bool res \<times> 'k" where
  "interfaceExists K name interfaceType k =
     (case LinkByName K name k of
        (Err er, k) \<Rightarrow>
          if str_Contains (error_text er) ''Link not found'' then (Ok False, k)
          else (Err (Errorf ''failed to check %s interface existence''), k)
      | (Ok link, k) \<Rightarrow>
          if l_Type link = interfaceType then (Ok True, k)
          else (Err (Errorf ''existing interface %s is not a %s''), k)
      | (Panic, k) \<Rightarrow> (Panic, k))"

definition maxInterfaceNameLength :: nat where
  "maxInterfaceNameLength = 15"

definition GetInterfaceName :: "string \<Rightarrow> string \<Rightarrow> string \<Rightarrow> string" where
  "GetInterfaceName pfx separator networkID =
     (let name = pfx @ separator @ networkID
      in if length name > maxInterfaceNameLength then take maxInterfaceNameLength name else name)"

definition addressesEqual :: "Addr \<Rightarrow> Addr \<Rightarrow> bool" where
  "addressesEqual a b \<longleftrightarrow> ipnet_String (addr_IPNet a) = ipnet_String (addr_IPNet b)"

definition with_mask :: "string \<Rightarrow> string" where
  "with_mask ip = (if \<not> str_Contains ip ''/'' then ip @ ''/32'' else ip)"

fun parse_addrs :: "'k kernel \<Rightarrow> string list \<Rightarrow> Addr list res" where
  "parse_addrs K [] = Ok []"
| "parse_addrs K (ip # ips) =
     (case ParseAddr K (with_mask ip) of
        Ok addr \<Rightarrow>
          (case parse_addrs K ips of Ok addrs \<Rightarrow> Ok (addr # addrs) | Err er \<Rightarrow> Err er | Panic \<Rightarrow> Panic)
      | Err er \<Rightarrow> Err er
      | Panic \<Rightarrow> Panic)"

fun replace_addrs :: "'k kernel \<Rightarrow> Link \<Rightarrow> Addr list \<Rightarrow> 'k \<Rightarrow> unit res \<times> 'k" where
  "replace_addrs K link [] k = (Ok (), k)"
| "replace_addrs K link (addr # addrs) k =
     res_bind (AddrReplace K link addr k) (\<lambda>_ k. replace_addrs K link addrs k)"

fun delete_other_addrs :: "'k kernel \<Rightarrow> Link \<Rightarrow> Addr list \<Rightarrow> Addr list \<Rightarrow> 'k \<Rightarrow> unit res \<times> 'k" where
  "delete_other_addrs K link parsedIPs [] k = (Ok (), k)"
| "delete_other_addrs K link parsedIPs (a # addrs) k =
     (if \<not> list_ex (addressesEqual a) parsedIPs
      then res_bind (AddrDel K link a k) (\<lambda>_ k. delete_other_addrs K link parsedIPs addrs k)
      else delete_other_addrs K link parsedIPs addrs k)"

definition ReplaceIPsOfInterface :: "'k kernel \<Rightarrow> Link \<Rightarrow> string list \<Rightarrow> 'k \<Rightarrow> unit res \<times> 'k" where
  "ReplaceIPsOfInterface K link ips k =
     res_bind (parse_addrs K ips, k)
       (\<lambda>parsedIPs k. res_bind (replace_addrs K link parsedIPs k)
          (\<lambda>_ k. res_bind (AddrList K link k)
             (\<lambda>addrs k. delete_other_addrs K link parsedIPs addrs k)))"

definition EnsureInterfaceListensOnAddress :: "'k kernel \<Rightarrow> Link \<Rightarrow> string \<Rightarrow> 'k \<Rightarrow> unit res \<times> 'k" where
  "EnsureInterfaceListensOnAddress K link ip k =
     res_bind (res_wrap ''Failed to parse IP address'' (ParseAddr K (with_mask ip), k))
       (\<lambda>addr k. res_wrap ''Failed to add IP address'' (AddrReplace K link addr k))"

definition StopListeningOnAddress :: "'k kernel \<Rightarrow> Link \<Rightarrow> string \<Rightarrow> 'k \<Rightarrow> unit res \<times> 'k" where
  "StopListeningOnAddress K link ip k =
     res_bind (res_wrap ''Failed to parse IP address'' (ParseAddr K (with_mask ip), k))
       (\<lambda>addr k. res_wrap ''Failed to remove IP address'' (AddrDel K link addr k))"

text \<open>The link that is returned has the attributes from before the last two adjustments.\<close>

definition add_interface :: "'k kernel \<Rightarrow> string \<Rightarrow> string \<Rightarrow> int \<Rightarrow> bool \<Rightarrow> 'k \<Rightarrow> unit res \<times> 'k" where
  "add_interface K name interfaceType mtu up k =
     (if interfaceType = ''dummy'' \<or> interfaceType = ''bridge''
      then res_wrap ''Error adding interface''
             (LinkAdd K \<lparr>l_Name = name, l_Type = interfaceType, l_MTU = mtu, l_Up = up\<rparr> k)
      else (Err (Errorf ''unknown interface type''), k))"

definition set_link_state :: "'k kernel \<Rightarrow> Link \<Rightarrow> bool \<Rightarrow> 'k \<Rightarrow> unit res \<times> 'k" where
  "set_link_state K link up k =
     (if l_Up link \<and> \<not> up then res_wrap ''Couldn't bring interface down'' (LinkSetDown K link k)
      else if \<not> l_Up link \<and> up then res_wrap ''Couldn't bring interface up'' (LinkSetUp K link k)
      else (Ok (), k))"

definition EnsureInterface ::
  "'k kernel \<Rightarrow> string \<Rightarrow> string \<Rightarrow> int \<Rightarrow> bool \<Rightarrow> 'k \<Rightarrow> Link res \<times> 'k"
where
  "EnsureInterface K name interfaceType mtu up k =
     res_bind (interfaceExists K name interfaceType k)
       (\<lambda>exists k. res_bind (if \<not> exists then add_interface K name interfaceType mtu up k else (Ok (), k))
          (\<lambda>_ k. res_bind (res_wrap ''Error getting interface by name'' (LinkByName K name k))
             (\<lambda>link k. res_bind
                (if l_MTU link \<noteq> mtu
                 then res_wrap ''Couldn't set mtu'' (LinkSetMTU K link mtu k) else (Ok (), k))
                (\<lambda>_ k. res_bind (set_link_state K link up k) (\<lambda>_ k. (Ok link, k))))))"

section \<open>What the kernel promises\<close>

record kview =
  kv_rules :: "IptablesRule set"
  kv_links :: "string \<rightharpoonup> Link"
  kv_addrs :: "string \<Rightarrow> string set"
  kv_services :: "32 word \<rightharpoonup> ipvs_Service"
  kv_dests :: "32 word \<Rightarrow> string set"

definition addr_text :: "Addr \<Rightarrow> string" where
  "addr_text a = ipnet_String (addr_IPNet a)"

abbreviation the_rule :: "string \<Rightarrow> string \<Rightarrow> string list \<Rightarrow> IptablesRule" where
  "the_rule t c spec \<equiv> \<lparr>Table = t, Chain = c, RuleSpec = spec\<rparr>"

definition set_addrs :: "string \<Rightarrow> (string set \<Rightarrow> string set) \<Rightarrow> kview \<Rightarrow> kview" where
  "set_addrs n f v = v\<lparr>kv_addrs := (kv_addrs v)(n := f (kv_addrs v n))\<rparr>"

definition set_dests :: "32 word \<Rightarrow> (string set \<Rightarrow> string set) \<Rightarrow> kview \<Rightarrow> kview" where
  "set_dests w f v = v\<lparr>kv_dests := (kv_dests v)(w := f (kv_dests v w))\<rparr>"

lemma set_same_link: "kv_links v n = Some l \<Longrightarrow> v\<lparr>kv_links := (kv_links v)(n \<mapsto> l)\<rparr> = v"
  by (cases v) (simp add: fun_upd_idem)

locale kernel_service =
  fixes K :: "'k kernel" and view :: "'k \<Rightarrow> kview"
  assumes iptables_New_view: "view (snd (iptables_New K k)) = view k"
    and AppendUnique_Ok: "AppendUnique K t c spec k = (Ok u, k') \<Longrightarrow>
      view k' = (view k)\<lparr>kv_rules := insert (the_rule t c spec) (kv_rules (view k))\<rparr>"
    and ipt_Delete_Ok: "ipt_Delete K t c spec k = (Ok u, k') \<Longrightarrow>
      view k' = (view k)\<lparr>kv_rules := kv_rules (view k) - {the_rule t c spec}\<rparr>"
    and LinkByName_Ok: "LinkByName K n k = (Ok l, k') \<Longrightarrow> kv_links (view k) n = Some l \<and> l_Name l = n"
    and LinkByName_view: "view (snd (LinkByName K n k)) = view k"
    and LinkAdd_Ok: "LinkAdd K l k = (Ok u, k') \<Longrightarrow>
      view k' = (view k)\<lparr>kv_links := (kv_links (view k))(l_Name l \<mapsto> l)\<rparr>"
    and LinkSetMTU_Ok: "LinkSetMTU K l mtu k = (Ok u, k') \<Longrightarrow> view k' =
      (view k)\<lparr>kv_links := (kv_links (view k))(l_Name l :=
        map_option (l_MTU_update (\<lambda>_. mtu)) (kv_links (view k) (l_Name l)))\<rparr>"
    and LinkSetDown_Ok: "LinkSetDown K l k = (Ok u, k') \<Longrightarrow> view k' =
      (view k)\<lparr>kv_links := (kv_links (view k))(l_Name l :=
        map_option (l_Up_update (\<lambda>_. False)) (kv_links (view k) (l_Name l)))\<rparr>"
    and LinkSetUp_Ok: "LinkSetUp K l k = (Ok u, k') \<Longrightarrow> view k' =
      (view k)\<lparr>kv_links := (kv_links (view k))(l_Name l :=
        map_option (l_Up_update (\<lambda>_. True)) (kv_links (view k) (l_Name l)))\<rparr>"
    and ParseAddr_ip4: "length bs = 4 \<Longrightarrow>
      \<exists>a. ParseAddr K (ip4_String bs @ ''/32'') = Ok a \<and> addr_text a = ip4_String bs @ ''/32''"
    and AddrReplace_Ok: "AddrReplace K l a k = (Ok u, k') \<Longrightarrow>
      view k' = set_addrs (l_Name l) (insert (addr_text a)) (view k)"
    and AddrList_Ok: "AddrList K l k = (Ok addrs, k') \<Longrightarrow>
      view k' = view k \<and> addr_text ` set addrs = kv_addrs (view k) (l_Name l)"
    and AddrDel_Ok: "AddrDel K l a k = (Ok u, k') \<Longrightarrow>
      view k' = set_addrs (l_Name l) (\<lambda>as. as - {addr_text a}) (view k)"
    and ipvs_New_view: "view (snd (ipvs_New K k)) = view k"
    and ipvs_Close_view: "view (ipvs_Close K k) = view k"
    and IsServicePresent_True: "IsServicePresent K s k = (True, k') \<Longrightarrow> FWMark s \<in> dom (kv_services (view k))"
    and IsServicePresent_view: "view (snd (IsServicePresent K s k)) = view k"
    and NewService_Ok: "NewService K s k = (Ok u, k') \<Longrightarrow> kv_services (view k) (FWMark s) = None \<and>
      view k' = (view k)\<lparr>kv_services := (kv_services (view k))(FWMark s \<mapsto> s),
        kv_dests := (kv_dests (view k))(FWMark s := {})\<rparr>"
    and GetService_Ok: "GetService K s k = (Ok s', k') \<Longrightarrow> kv_services (view k) (FWMark s) = Some s'"
    and GetService_view: "view (snd (GetService K s k)) = view k"
    and UpdateService_Ok: "UpdateService K s k = (Ok u, k') \<Longrightarrow>
      view k' = (view k)\<lparr>kv_services := (kv_services (view k))(FWMark s \<mapsto> s)\<rparr>"
    and DelService_Ok: "DelService K s k = (Ok u, k') \<Longrightarrow>
      view k' = (view k)\<lparr>kv_services := (kv_services (view k))(FWMark s := None),
        kv_dests := (kv_dests (view k))(FWMark s := {})\<rparr>"
    and NewDestination_Ok: "NewDestination K s d k = (Ok u, k') \<Longrightarrow>
      view k' = set_dests (FWMark s) (insert (ip_String (d_Address d))) (view k)"
    and NewDestination_Err: "NewDestination K s d k = (Err er, k') \<Longrightarrow> view k' = view k"
    and UpdateDestination_Ok: "UpdateDestination K s d k = (Ok u, k') \<Longrightarrow>
      view k' = view k \<and> ip_String (d_Address d) \<in> kv_dests (view k) (FWMark s)"
    and DelDestination_Ok: "DelDestination K s d k = (Ok u, k') \<Longrightarrow>
      view k' = set_dests (FWMark s) (\<lambda>ds. ds - {ip_String (d_Address d)}) (view k)"
    and GetDestinations_Ok: "GetDestinations K s k = (Ok ds, k') \<Longrightarrow> view k' = view k \<and>
      (\<lambda>d. ip_String (d_Address d)) ` set ds = kv_dests (view k) (FWMark s)"
begin

lemma apply_rules_create:
  "apply_rules (AppendUnique K) rules k = (Ok u, k') \<Longrightarrow>
   view k' = (view k)\<lparr>kv_rules := kv_rules (view k) \<union> set rules\<rparr>"
proof (induction rules arbitrary: k)
  case (Cons r rules)
  obtain v k1 where 1: "AppendUnique K (Table r) (Chain r) (RuleSpec r) k = (Ok v, k1)"
    "apply_rules (AppendUnique K) rules k1 = (Ok u, k')"
    using Cons.prems by (auto simp: res_bind_Ok_iff)
  show ?case using Cons.IH [OF 1(2)] AppendUnique_Ok [OF 1(1)] by (cases r) simp
qed simp

lemma apply_rules_delete:
  "apply_rules (ipt_Delete K) rules k = (Ok u, k') \<Longrightarrow>
   view k' = (view k)\<lparr>kv_rules := kv_rules (view k) - set rules\<rparr>"
proof (induction rules arbitrary: k)
  case (Cons r rules)
  obtain v k1 where 1: "ipt_Delete K (Table r) (Chain r) (RuleSpec r) k = (Ok v, k1)"
    "apply_rules (ipt_Delete K) rules k1 = (Ok u, k')"
    using Cons.prems by (auto simp: res_bind_Ok_iff)
  have "kv_rules (view k) - {r} - set rules = kv_rules (view k) - set (r # rules)" by auto
  then show ?case using Cons.IH [OF 1(2)] ipt_Delete_Ok [OF 1(1)] by (cases r) simp
qed simp

lemma ApplyIpTablesRules_Ok:
  assumes "ApplyIpTablesRules K rules action k = (Ok u, k')"
  shows "action \<in> {''create'', ''delete''}"
    "action = ''create'' \<Longrightarrow> view k' = (view k)\<lparr>kv_rules := kv_rules (view k) \<union> set rules\<rparr>"
    "action = ''delete'' \<Longrightarrow> view k' = (view k)\<lparr>kv_rules := kv_rules (view k) - set rules\<rparr>"
proof -
  obtain v k1 where n: "iptables_New K k = (Ok v, k1)"
    and a: "(if action = ''create'' then apply_rules (AppendUnique K) rules k1
      else if action = ''delete'' then apply_rules (ipt_Delete K) rules k1
      else (Err (Errorf ''invalid action''), k1)) = (Ok u, k')"
    using assms by (auto simp: ApplyIpTablesRules_def res_bind_Ok_iff)
  have "view k1 = view k" using iptables_New_view [of k] n by simp
  then show "action \<in> {''create'', ''delete''}"
    "action = ''create'' \<Longrightarrow> view k' = (view k)\<lparr>kv_rules := kv_rules (view k) \<union> set rules\<rparr>"
    "action = ''delete'' \<Longrightarrow> view k' = (view k)\<lparr>kv_rules := kv_rules (view k) - set rules\<rparr>"
    using a apply_rules_create [of rules k1 u k'] apply_rules_delete [of rules k1 u k']
    by (auto split: if_splits)
qed

lemma EnsureInterfaceListensOnAddress_Ok:
  assumes "EnsureInterfaceListensOnAddress K l ip k = (Ok u, k')"
  shows "\<exists>a. ParseAddr K (with_mask ip) = Ok a
    \<and> view k' = set_addrs (l_Name l) (insert (addr_text a)) (view k)"
  using assms AddrReplace_Ok by (auto simp: EnsureInterfaceListensOnAddress_def res_bind_Ok_iff)

lemma StopListeningOnAddress_Ok:
  assumes "StopListeningOnAddress K l ip k = (Ok u, k')"
  shows "\<exists>a. ParseAddr K (with_mask ip) = Ok a
    \<and> view k' = set_addrs (l_Name l) (\<lambda>as. as - {addr_text a}) (view k)"
  using assms AddrDel_Ok by (auto simp: StopListeningOnAddress_def res_bind_Ok_iff)

lemma replace_addrs_Ok:
  "replace_addrs K l addrs k = (Ok u, k') \<Longrightarrow>
   view k' = set_addrs (l_Name l) (\<lambda>as. as \<union> addr_text ` set addrs) (view k)"
proof (induction addrs arbitrary: k)
  case (Cons a addrs)
  obtain v k1 where 1: "AddrReplace K l a k = (Ok v, k1)" "replace_addrs K l addrs k1 = (Ok u, k')"
    using Cons.prems by (auto simp: res_bind_Ok_iff)
  show ?case using Cons.IH [OF 1(2)] AddrReplace_Ok [OF 1(1)] by (simp add: set_addrs_def)
qed (simp add: set_addrs_def)

lemma delete_other_addrs_Ok:
  "delete_other_addrs K l parsed addrs k = (Ok u, k') \<Longrightarrow>
   view k' = set_addrs (l_Name l) (\<lambda>as. as - (addr_text ` set addrs - addr_text ` set parsed)) (view k)"
proof (induction addrs arbitrary: k)
  case (Cons a addrs)
  have ex: "list_ex (addressesEqual a) parsed \<longleftrightarrow> addr_text a \<in> addr_text ` set parsed"
    by (auto simp: list_ex_iff addressesEqual_def addr_text_def)
  show ?case
  proof (cases "addr_text a \<in> addr_text ` set parsed")
    case True
    then have "addr_text ` set (a # addrs) - addr_text ` set parsed =
        addr_text ` set addrs - addr_text ` set parsed" by auto
    then show ?thesis using Cons.IH Cons.prems True ex by simp
  next
    case False
    then obtain v k1 where 1: "AddrDel K l a k = (Ok v, k1)"
      "delete_other_addrs K l parsed addrs k1 = (Ok u, k')"
      using Cons.prems ex by (auto simp: res_bind_Ok_iff)
    have "x \<notin> P \<Longrightarrow> A - {x} - (S - P) = A - (insert x S - P)" for x :: string and A S P by blast
    from this [OF False] have "A - {addr_text a} - (addr_text ` set addrs - addr_text ` set parsed) =
        A - (addr_text ` set (a # addrs) - addr_text ` set parsed)" for A by simp
    then show ?thesis using Cons.IH [OF 1(2)] AddrDel_Ok [OF 1(1)] by (simp add: set_addrs_def)
  qed
qed (simp add: set_addrs_def)

lemma ReplaceIPsOfInterface_Ok:
  assumes "ReplaceIPsOfInterface K l ips k = (Ok u, k')"
  shows "\<exists>parsed. parse_addrs K ips = Ok parsed
    \<and> view k' = set_addrs (l_Name l) (\<lambda>_. addr_text ` set parsed) (view k)"
proof -
  obtain parsed k1 addrs k2 v where *: "parse_addrs K ips = Ok parsed"
    "replace_addrs K l parsed k = (Ok v, k1)" "AddrList K l k1 = (Ok addrs, k2)"
    "delete_other_addrs K l parsed addrs k2 = (Ok u, k')"
    using assms by (auto simp: ReplaceIPsOfInterface_def res_bind_Ok_iff)
  note 1 = replace_addrs_Ok [OF *(2)] AddrList_Ok [OF *(3)] delete_other_addrs_Ok [OF *(4)]
  have "A \<union> P - (A \<union> P - P) = P" for A P :: "string set" by blast
  then have "view k' = set_addrs (l_Name l) (\<lambda>_. addr_text ` set parsed) (view k)"
    using 1 by (simp add: set_addrs_def)
  then show ?thesis using *(1) by blast
qed

lemma EnsureInterface_Ok:
  assumes "EnsureInterface K name ty mtu up k = (Ok link, k')"
  shows "\<exists>l. kv_links (view k') name = Some l \<and> l_Name l = name \<and> l_MTU l = mtu \<and> l_Up l = up
      \<and> view k' = (view k)\<lparr>kv_links := (kv_links (view k))(name \<mapsto> l)\<rparr>"
    and "l_Name link = name"
proof -
  obtain b k1 v2 k2 k3 v4 k4 v5 where
    e: "interfaceExists K name ty k = (Ok b, k1)"
    and a: "(if \<not> b then add_interface K name ty mtu up k1 else (Ok (), k1)) = (Ok v2, k2)"
    and g: "LinkByName K name k2 = (Ok link, k3)"
    and m: "(if l_MTU link \<noteq> mtu then res_wrap ''Couldn't set mtu'' (LinkSetMTU K link mtu k3)
        else (Ok (), k3)) = (Ok v4, k4)"
    and s: "set_link_state K link up k4 = (Ok v5, k')"
    using assms unfolding EnsureInterface_def res_bind_Ok_iff by auto
  have v1: "view k1 = view k"
    using e LinkByName_view [of name k]
    by (auto simp: interfaceExists_def split: prod.splits res.splits if_splits)
  have v2: "\<exists>f. view k2 = (view k)\<lparr>kv_links := (kv_links (view k))(name := f)\<rparr>"
  proof (cases b)
    case True
    then show ?thesis using a v1 by (intro exI [of _ "kv_links (view k) name"]) simp
  next
    case False
    then show ?thesis
      using a v1 LinkAdd_Ok by (fastforce simp: add_interface_def split: if_splits)
  qed
  have v3: "view k3 = view k2" "kv_links (view k2) name = Some link" "l_Name link = name"
    using LinkByName_view [of name k2] LinkByName_Ok [OF g] g by simp_all
  have v4: "view k4 = (view k3)\<lparr>kv_links := (kv_links (view k3))(name \<mapsto> link\<lparr>l_MTU := mtu\<rparr>)\<rparr>"
    using m v3 LinkSetMTU_Ok [of link mtu k3 v4 k4] set_same_link [of "view k3" name link]
    by (auto split: if_splits)
  have same: "link\<lparr>l_MTU := mtu, l_Up := l_Up link\<rparr> = link\<lparr>l_MTU := mtu\<rparr>" by (cases link) simp
  have "view k' = (view k4)\<lparr>kv_links := (kv_links (view k4))(name \<mapsto> link\<lparr>l_MTU := mtu, l_Up := up\<rparr>)\<rparr>"
    using s v3 v4 LinkSetDown_Ok [of link k4 v5 k'] LinkSetUp_Ok [of link k4 v5 k']
    by (cases "up = l_Up link") (auto simp: set_link_state_def same split: if_splits)
  then show "\<exists>l. kv_links (view k') name = Some l \<and> l_Name l = name \<and> l_MTU l = mtu \<and> l_Up l = up
      \<and> view k' = (view k)\<lparr>kv_links := (kv_links (view k))(name \<mapsto> l)\<rparr>"
    using v2 v3 v4 by (intro exI [of _ "link\<lparr>l_MTU := mtu, l_Up := up\<rparr>"]) auto
  show "l_Name link = name" by (fact v3(3))
qed

end

lemma str_Contains_char: "str_Contains s [c] \<longleftrightarrow> c \<in> set s"
  by (induction s) (auto simp: HasPrefix_def)

lemma with_mask_ip: "with_mask (ip_String ip) = ip_String ip @ ''/32''"
  using ip_String_slash [of ip] by (simp add: with_mask_def str_Contains_char)

section \<open>A concrete kernel\<close>

text \<open>A kernel in memory. Deleting a rule or an address that is not there fails, as does adding a
  link, a virtual service or a destination that is.\<close>

record kmem =
  km_rules :: "IptablesRule list"
  km_links :: "(string, Link) gomap"
  km_addrs :: "(string \<times> Addr) list"
  km_services :: "(32 word, ipvs_Service) gomap"
  km_dests :: "(32 word \<times> ipvs_Destination) list"

definition kmem_empty :: kmem where
  "kmem_empty = \<lparr>km_rules = [], km_links = [], km_addrs = [], km_services = [], km_dests = []\<rparr>"

definition when_ok :: "bool \<Rightarrow> string \<Rightarrow> 'k \<Rightarrow> 'k \<Rightarrow> unit res \<times> 'k" where
  "when_ok b msg k' k = (if b then (Ok (), k') else (Err (Foreign msg), k))"

definition mem_link_map :: "string \<Rightarrow> (Link \<Rightarrow> Link) \<Rightarrow> kmem \<Rightarrow> unit res \<times> kmem" where
  "mem_link_map n f k =
     (case map_of (km_links k) n of
        None \<Rightarrow> (Err (Foreign ''Link not found''), k)
      | Some l \<Rightarrow> (Ok (), k\<lparr>km_links := gomap_set (km_links k) n (f l)\<rparr>))"

definition mem_ParseAddr :: "string \<Rightarrow> Addr res" where
  "mem_ParseAddr s =
     (case ParseCIDR s of
        None \<Rightarrow> Err (Foreign ''invalid CIDR address'')
      | Some (ip, n) \<Rightarrow> Ok \<lparr>addr_IPNet = n\<lparr>ipnet_IP := ip\<rparr>, addr_Label = []\<rparr>)"

abbreviation dest_text :: "ipvs_Destination \<Rightarrow> string" where
  "dest_text d \<equiv> ip_String (d_Address d)"

definition has_dest :: "kmem \<Rightarrow> 32 word \<Rightarrow> ipvs_Destination \<Rightarrow> bool" where
  "has_dest k w d \<longleftrightarrow> list_ex (\<lambda>(v, x). v = w \<and> dest_text x = dest_text d) (km_dests k)"

definition mem_kernel :: "kmem kernel" where
  "mem_kernel = \<lparr>
     AF_INET = 2, ConnectionFlagMasq = 0,
     iptables_New = \<lambda>k. (Ok (), k),
     AppendUnique = \<lambda>t c spec k.
       (Ok (), if the_rule t c spec \<in> set (km_rules k) then k
               else k\<lparr>km_rules := km_rules k @ [the_rule t c spec]\<rparr>),
     ipt_Delete = \<lambda>t c spec k. when_ok (the_rule t c spec \<in> set (km_rules k)) ''Bad rule''
       (k\<lparr>km_rules := filter (\<lambda>r. r \<noteq> the_rule t c spec) (km_rules k)\<rparr>) k,
     LinkByName = \<lambda>n k. (case map_of (km_links k) n of
         None \<Rightarrow> Err (Foreign ''Link not found'')
       | Some l \<Rightarrow> if l_Name l = n then Ok l else Err (Foreign ''Link not found''), k),
     LinkAdd = \<lambda>l k. when_ok (map_of (km_links k) (l_Name l) = None) ''file exists''
       (k\<lparr>km_links := gomap_set (km_links k) (l_Name l) l\<rparr>) k,
     LinkSetMTU = \<lambda>l mtu. mem_link_map (l_Name l) (l_MTU_update (\<lambda>_. mtu)),
     LinkSetDown = \<lambda>l. mem_link_map (l_Name l) (l_Up_update (\<lambda>_. False)),
     LinkSetUp = \<lambda>l. mem_link_map (l_Name l) (l_Up_update (\<lambda>_. True)),
     ParseAddr = mem_ParseAddr,
     AddrReplace = \<lambda>l a k. (Ok (), k\<lparr>km_addrs := (l_Name l, a) # km_addrs k\<rparr>),
     AddrList = \<lambda>l k. (Ok (map snd (filter (\<lambda>(n, a). n = l_Name l) (km_addrs k))), k),
     AddrDel = \<lambda>l a k. when_ok (list_ex (\<lambda>(n, b). n = l_Name l \<and> addr_text b = addr_text a) (km_addrs k))
       ''cannot assign requested address''
       (k\<lparr>km_addrs := filter (\<lambda>(n, b). \<not> (n = l_Name l \<and> addr_text b = addr_text a)) (km_addrs k)\<rparr>) k,
     ipvs_New = \<lambda>k. (Ok (), k),
     ipvs_Close = \<lambda>k. k,
     IsServicePresent = \<lambda>s k. (map_of (km_services k) (FWMark s) \<noteq> None, k),
     NewService = \<lambda>s k. when_ok (map_of (km_services k) (FWMark s) = None) ''file exists''
       (k\<lparr>km_services := gomap_set (km_services k) (FWMark s) s,
          km_dests := filter (\<lambda>(w, d). w \<noteq> FWMark s) (km_dests k)\<rparr>) k,
     GetService = \<lambda>s k. (case map_of (km_services k) (FWMark s) of
         None \<Rightarrow> Err (Foreign ''no such process'') | Some s' \<Rightarrow> Ok s', k),
     UpdateService = \<lambda>s k. (Ok (), k\<lparr>km_services := gomap_set (km_services k) (FWMark s) s\<rparr>),
     DelService = \<lambda>s k. when_ok (map_of (km_services k) (FWMark s) \<noteq> None) ''no such process''
       (k\<lparr>km_services := gomap_delete (km_services k) (FWMark s),
          km_dests := filter (\<lambda>(w, d). w \<noteq> FWMark s) (km_dests k)\<rparr>) k,
     NewDestination = \<lambda>s d k. when_ok (\<not> has_dest k (FWMark s) d) ''file exists''
       (k\<lparr>km_dests := (FWMark s, d) # km_dests k\<rparr>) k,
     UpdateDestination = \<lambda>s d k. when_ok (has_dest k (FWMark s) d) ''no such file'' k k,
     DelDestination = \<lambda>s d k. when_ok (has_dest k (FWMark s) d) ''no such file''
       (k\<lparr>km_dests := filter (\<lambda>(w, x). \<not> (w = FWMark s \<and> dest_text x = dest_text d)) (km_dests k)\<rparr>) k,
     GetDestinations = \<lambda>s k. (Ok (map snd (filter (\<lambda>(w, d). w = FWMark s) (km_dests k))), k)\<rparr>"

definition mem_kview :: "kmem \<Rightarrow> kview" where
  "mem_kview k = \<lparr>kv_rules = set (km_rules k), kv_links = map_of (km_links k),
     kv_addrs = \<lambda>n. {addr_text a |a. (n, a) \<in> set (km_addrs k)},
     kv_services = map_of (km_services k),
     kv_dests = \<lambda>w. {dest_text d |d. (w, d) \<in> set (km_dests k)}\<rparr>"

lemma mem_ParseAddr_ip4:
  assumes "length bs = 4"
  shows "\<exists>a. mem_ParseAddr (ip4_String bs @ ''/32'') = Ok a \<and> addr_text a = ip4_String bs @ ''/32''"
proof -
  have 32: "''/32'' = CHR ''/'' # FormatUint 32" by code_simp
  have "addr_text \<lparr>addr_IPNet = \<lparr>ipnet_IP = v4InV6Prefix @ bs, ipnet_Mask = CIDRMask 32 32\<rparr>, addr_Label = []\<rparr> =
      ip4_String bs @ ''/32''"
    using assms
    by (auto simp: addr_text_def ipnet_String_def networkNumberAndMask_def To4_def Let_def 32
        simpleMaskLength_CIDRMask ip_String_ip4)
  then show ?thesis
    unfolding 32 mem_ParseAddr_def ParseCIDR_ip4 [OF assms order_refl] by simp
qed

interpretation mem_kernel: kernel_service mem_kernel mem_kview
proof unfold_locales
  fix bs :: "byte list"
  assume "length bs = 4"
  then show "\<exists>a. ParseAddr mem_kernel (ip4_String bs @ ''/32'') = Ok a \<and> addr_text a = ip4_String bs @ ''/32''"
    using mem_ParseAddr_ip4 [of bs] by (simp add: mem_kernel_def)
qed (auto simp: mem_kernel_def mem_kview_def when_ok_def mem_link_map_def set_addrs_def set_dests_def
    has_dest_def list_ex_iff fun_eq_iff image_image split: option.splits if_splits;
    (force | metis))+

section \<open>Properties\<close>



text \<open>
  After a successful \<open>ReplaceIPsOfInterface\<close> the interface has exactly the given addresses (a
  text without a mask stands for a single host); the addresses of other interfaces and the rest
  of the kernel are as before.
\<close>

theorem ReplaceIPsOfInterface_exact:
  assumes "kernel_service K view" "\<forall>bs \<in> set ips. length bs = 4"
    "ReplaceIPsOfInterface K link (map ip_String ips) k = (Ok (), k')"
  shows "view k' = set_addrs (l_Name link) (\<lambda>_. {ip_String bs @ ''/32'' |bs. bs \<in> set ips}) (view k)"
proof -
  obtain parsed where p: "parse_addrs K (map ip_String ips) = Ok parsed"
    "view k' = set_addrs (l_Name link) (\<lambda>_. addr_text ` set parsed) (view k)"
    using kernel_service.ReplaceIPsOfInterface_Ok [OF assms(1,3)] by blast
  have "addr_text ` set parsed = {ip_String bs @ ''/32'' |bs. bs \<in> set ips}"
    using p(1) assms(2)
  proof (induction ips arbitrary: parsed)
    case (Cons bs ips)
    have len: "length bs = 4" using Cons.prems(2) by simp
    obtain a where a: "ParseAddr K (ip_String bs @ ''/32'') = Ok a" "addr_text a = ip_String bs @ ''/32''"
      using kernel_service.ParseAddr_ip4 [OF assms(1) len] len by (auto simp: ip_String_ip4)
    obtain rest where r: "parse_addrs K (map ip_String ips) = Ok rest" "parsed = a # rest"
      using Cons.prems(1) a(1) by (auto simp: with_mask_ip split: res.splits)
    show ?case using Cons.IH [OF r(1)] Cons.prems(2) r(2) a(2) by auto
  qed simp
  then show ?thesis using p(2) by simp
qed

lemma ReplaceIPsOfInterface_exact_witness:
  "let l = \<lparr>l_Name = ''lbf_n'', l_Type = ''dummy'', l_MTU = 1450, l_Up = True\<rparr>;
       a = the_ok (mem_ParseAddr (ip_String [10, 0, 0, 9] @ ''/32''));
       k = kmem_empty\<lparr>km_addrs := [(''lbf_n'', a)]\<rparr>
   in kv_addrs (mem_kview (snd (ReplaceIPsOfInterface mem_kernel l [ip_String [10, 0, 0, 7]] k))) ''lbf_n'' =
      {ip_String [10, 0, 0, 7] @ ''/32''}"
proof -
  let ?l = "\<lparr>l_Name = ''lbf_n'', l_Type = ''dummy'', l_MTU = 1450, l_Up = True\<rparr>"
  let ?k = "kmem_empty\<lparr>km_addrs := [(''lbf_n'', the_ok (mem_ParseAddr (ip_String [10, 0, 0, 9] @ ''/32'')))]\<rparr>"
  obtain r k' where r: "ReplaceIPsOfInterface mem_kernel ?l [ip_String [10, 0, 0, 7]] ?k = (r, k')" by force
  have "fst (ReplaceIPsOfInterface mem_kernel ?l [ip_String [10, 0, 0, 7]] ?k) = Ok ()" by code_simp
  then have "ReplaceIPsOfInterface mem_kernel ?l (map ip_String [[10, 0, 0, 7]]) ?k = (Ok (), k')"
    using r by simp
  from ReplaceIPsOfInterface_exact [OF mem_kernel.kernel_service_axioms _ this]
  show ?thesis by (simp add: Let_def r set_addrs_def)
qed

end
