(* ===== verification/Service_Lb.thy ===== *)
theory Service_Lb
  imports Networking
begin

text \<open>
  \<open>plugin/pkg/service_lb/network_specific_service_lb.go\<close>: the load balancer of a service in one
  network. Its traffic carries a firewall mark that three iptables rules set, and an IPVS
  service of the kernel for the mark distributes it to the backends. The kernel and \<open>lo.Filter\<close>
  are arguments. A method returns its error together with the load balancer it leaves behind.
\<close>

section \<open>State\<close>

record serviceLb =
  slb_dockerNetworkID :: string
  slb_serviceID :: string
  slb_fwmark :: "32 word"
  frontendIP :: net_ip
  backendIPs :: "net_ip list"
  iptablesRules :: "IptablesRule list"
  slb_link :: Link

type_synonym 'k slb_result = "(unit res \<times> serviceLb) \<times> 'k"

definition NewNetworkSpecificServiceLb :: "Link \<Rightarrow> string \<Rightarrow> string \<Rightarrow> 32 word \<Rightarrow> serviceLb" where
  "NewNetworkSpecificServiceLb link dockerNetworkID serviceID fwmark =
     \<lparr>slb_dockerNetworkID = dockerNetworkID, slb_serviceID = serviceID, slb_fwmark = fwmark,
      frontendIP = [], backendIPs = [], iptablesRules = [], slb_link = link\<rparr>"

definition GetFrontendIP :: "serviceLb \<Rightarrow> net_ip" where
  "GetFrontendIP slb = frontendIP slb"

definition GetFwmark :: "serviceLb \<Rightarrow> 32 word" where
  "GetFwmark slb = slb_fwmark slb"

section \<open>The virtual service\<close>

text \<open>Every method opens an IPVS handle and closes it when it returns.\<close>

definition with_ipvs :: "'k kernel \<Rightarrow> ('k \<Rightarrow> 'a res \<times> 'k) \<Rightarrow> 'k \<Rightarrow> 'a res \<times> 'k" where
  "with_ipvs K fn k =
     (case ipvs_New K k of
        (Ok _, k) \<Rightarrow> (case fn k of (r, k) \<Rightarrow> (r, ipvs_Close K k))
      | (Err _, k) \<Rightarrow> (Err (Errorf ''failed to initialize IPVS handle''), k)
      | (Panic, k) \<Rightarrow> (Panic, k))"

definition wanted_service :: "'k kernel \<Rightarrow> serviceLb \<Rightarrow> ipvs_Service" where
  "wanted_service K slb =
     \<lparr>FWMark = slb_fwmark slb, SchedName = ''rr'', svc_AddressFamily = AF_INET K,
      svc_Flags = 0, svc_Timeout = 0, PEName = []\<rparr>"

definition ensureIpvsService :: "'k kernel \<Rightarrow> serviceLb \<Rightarrow> 'k \<Rightarrow> ipvs_Service res \<times> 'k" where
  "ensureIpvsService K slb k =
     with_ipvs K (\<lambda>k.
       let svc = wanted_service K slb
       in case IsServicePresent K svc k of (exists, k) \<Rightarrow>
            if \<not> exists
            then (case NewService K svc k of
                    (Ok _, k) \<Rightarrow> (Ok svc, k)
                  | (Err _, k) \<Rightarrow> (Err (Errorf ''failed to create IPVS service''), k)
                  | (Panic, k) \<Rightarrow> (Panic, k))
            else (case GetService K svc k of
                    (Ok existingSvc, k) \<Rightarrow>
                      if SchedName existingSvc \<noteq> SchedName svc \<or> svc_Flags existingSvc \<noteq> svc_Flags svc
                         \<or> svc_Timeout existingSvc \<noteq> svc_Timeout svc \<or> PEName existingSvc \<noteq> PEName svc
                      then (case UpdateService K svc k of
                              (Ok _, k) \<Rightarrow> (Ok svc, k)
                            | (Err _, k) \<Rightarrow> (Err (Errorf ''failed to update existing IPVS service''), k)
                            | (Panic, k) \<Rightarrow> (Panic, k))
                      else (Ok svc, k)
                  | (Err _, k) \<Rightarrow> (Err (Errorf ''failed to get existing IPVS service''), k)
                  | (Panic, k) \<Rightarrow> (Panic, k))) k"

text \<open>The beginning of the methods for backends: the service is ensured, a second handle is
  opened, and the service must be there.\<close>

definition with_present_service ::
  "'k kernel \<Rightarrow> serviceLb \<Rightarrow> (ipvs_Service \<Rightarrow> 'k \<Rightarrow> 'a res \<times> 'k) \<Rightarrow> 'k \<Rightarrow> 'a res \<times> 'k"
where
  "with_present_service K slb fn k =
     res_bind (ensureIpvsService K slb k)
       (\<lambda>svc k. with_ipvs K (\<lambda>k.
          case IsServicePresent K svc k of (exists, k) \<Rightarrow>
            if \<not> exists then (Err (Errorf ''IPVS service does not exist''), k) else fn svc k) k)"

definition finish_slb :: "'a res \<times> 'k \<Rightarrow> serviceLb \<Rightarrow> ('a \<Rightarrow> serviceLb) \<Rightarrow> 'k slb_result" where
  "finish_slb r slb f =
     (case r of
        (Ok a, k) \<Rightarrow> ((Ok (), f a), k)
      | (Err er, k) \<Rightarrow> ((Err er, slb), k)
      | (Panic, k) \<Rightarrow> ((Panic, slb), k))"

section \<open>Backends\<close>

definition backend :: "'k kernel \<Rightarrow> net_ip \<Rightarrow> ipvs_Destination" where
  "backend K ip = \<lparr>d_AddressFamily = AF_INET K, d_Address = ip, d_Port = 0, d_Weight = 1,
     d_ConnectionFlags = 0\<rparr>"

text \<open>A destination that cannot be added is updated; then the list of backends stays as it is.\<close>

definition AddBackend :: "'k kernel \<Rightarrow> serviceLb \<Rightarrow> net_ip \<Rightarrow> 'k \<Rightarrow> 'k slb_result" where
  "AddBackend K slb ip k =
     finish_slb
       (with_present_service K slb (\<lambda>svc k.
          case NewDestination K svc (backend K ip) k of
            (Ok _, k) \<Rightarrow> (Ok True, k)
          | (Err _, k) \<Rightarrow>
              res_bind (res_wrap ''Error updating IPVS'' (UpdateDestination K svc (backend K ip) k))
                (\<lambda>_ k. (Ok False, k))
          | (Panic, k) \<Rightarrow> (Panic, k)) k)
       slb (\<lambda>added. if added then slb\<lparr>backendIPs := backendIPs slb @ [ip]\<rparr> else slb)"

type_synonym ip_filter = "(net_ip \<Rightarrow> bool) \<Rightarrow> net_ip list \<Rightarrow> net_ip list"

definition RemoveBackend ::
  "'k kernel \<Rightarrow> ip_filter \<Rightarrow> serviceLb \<Rightarrow> net_ip \<Rightarrow> 'k \<Rightarrow> 'k slb_result"
where
  "RemoveBackend K lo_Filter slb ip k =
     finish_slb
       (with_present_service K slb (\<lambda>svc k.
          res_wrap ''error deleting backend'' (DelDestination K svc (backend K ip) k)) k)
       slb (\<lambda>_. slb\<lparr>backendIPs := lo_Filter (\<lambda>item. \<not> ip_Equal item ip) (backendIPs slb)\<rparr>)"

fun add_destinations ::
  "'k kernel \<Rightarrow> ipvs_Service \<Rightarrow> (string, ipvs_Destination) gomap \<Rightarrow> (string \<times> net_ip) list \<Rightarrow> 'k \<Rightarrow>
   unit res \<times> 'k"
where
  "add_destinations K svc existing [] k = (Ok (), k)"
| "add_destinations K svc existing ((ipStr, ip) # rest) k =
     (if map_of existing ipStr = None
      then res_bind (res_wrap ''failed to add backend ip'' (NewDestination K svc
               \<lparr>d_AddressFamily = 0, d_Address = ip, d_Port = 0, d_Weight = 1,
                d_ConnectionFlags = ConnectionFlagMasq K\<rparr> k))
             (\<lambda>_ k. add_destinations K svc existing rest k)
      else add_destinations K svc existing rest k)"

fun delete_destinations ::
  "'k kernel \<Rightarrow> ipvs_Service \<Rightarrow> (string, net_ip) gomap \<Rightarrow> (string \<times> ipvs_Destination) list \<Rightarrow> 'k \<Rightarrow>
   unit res \<times> 'k"
where
  "delete_destinations K svc desired [] k = (Ok (), k)"
| "delete_destinations K svc desired ((ipStr, dest) # rest) k =
     (if map_of desired ipStr = None
      then res_bind (res_wrap ''failed to delete backend ip'' (DelDestination K svc dest k))
             (\<lambda>_ k. delete_destinations K svc desired rest k)
      else delete_destinations K svc desired rest k)"

definition set_destinations ::
  "'k kernel \<Rightarrow> net_ip list \<Rightarrow> ipvs_Service \<Rightarrow> 'k \<Rightarrow> unit res \<times> 'k"
where
  "set_destinations K ips svc k =
     (case GetDestinations K svc k of
        (Ok existingDests, k) \<Rightarrow>
          let existingIPs = gomap_collect (\<lambda>dest. Some (ip_String (d_Address dest), dest)) existingDests;
              desiredIPs = gomap_collect (\<lambda>ip. Some (ip_String ip, ip)) ips
          in res_bind (add_destinations K svc existingIPs desiredIPs k)
               (\<lambda>_ k. delete_destinations K svc desiredIPs existingIPs k)
      | (Err _, k) \<Rightarrow> (Err (Errorf ''failed to get existing destinations''), k)
      | (Panic, k) \<Rightarrow> (Panic, k))"

definition SetBackends :: "'k kernel \<Rightarrow> serviceLb \<Rightarrow> net_ip list \<Rightarrow> 'k \<Rightarrow> 'k slb_result" where
  "SetBackends K slb ips k =
     finish_slb (with_present_service K slb (set_destinations K ips) k) slb (\<lambda>_. slb\<lparr>backendIPs := ips\<rparr>)"

section \<open>The frontend\<close>

definition frontend_rules :: "string \<Rightarrow> string \<Rightarrow> IptablesRule list" where
  "frontend_rules vip fwmarkStr =
     [\<lparr>Table = ''nat'', Chain = ''POSTROUTING'',
       RuleSpec = [''-d'', vip, ''-m'', ''mark'', ''--mark'', fwmarkStr, ''-j'', ''MASQUERADE'']\<rparr>,
      \<lparr>Table = ''mangle'', Chain = ''PREROUTING'',
       RuleSpec = [''-d'', vip, ''-p'', ''udp'', ''-j'', ''MARK'', ''--set-mark'', fwmarkStr]\<rparr>,
      \<lparr>Table = ''mangle'', Chain = ''PREROUTING'',
       RuleSpec = [''-d'', vip, ''-p'', ''tcp'', ''-j'', ''MARK'', ''--set-mark'', fwmarkStr]\<rparr>]"

text \<open>The builtin \<open>copy\<close> fills the destination as far as it reaches and never makes it longer.\<close>

definition go_copy :: "'a list \<Rightarrow> 'a list \<Rightarrow> 'a list" where
  "go_copy dst src =
     (let n = min (length dst) (length src) in take n src @ drop n dst)"

definition ensureServiceLoadBalancerFrontend :: "'k kernel \<Rightarrow> serviceLb \<Rightarrow> 'k \<Rightarrow> 'k slb_result" where
  "ensureServiceLoadBalancerFrontend K slb k =
     (let vip = ip_String (frontendIP slb)
      in if ParseIP vip = [] then ((Err (Errorf ''invalid VIP address''), slb), k)
         else case ensureIpvsService K slb k of
           (Err er, k) \<Rightarrow> ((Err er, slb), k)
         | (Panic, k) \<Rightarrow> ((Panic, slb), k)
         | (Ok _, k) \<Rightarrow>
             let fwmarkStr = FormatUint (unat (slb_fwmark slb));
                 previousIptablesRules =
                   (if length (iptablesRules slb) > 0 then go_copy [] (iptablesRules slb) else []);
                 slb = slb\<lparr>iptablesRules := frontend_rules vip fwmarkStr\<rparr>;
                 r = res_bind (res_wrap ''failed to setup IP Tables rules''
                         (ApplyIpTablesRules K (iptablesRules slb) ''create'' k))
                       (\<lambda>_ k. if length previousIptablesRules > 0
                              then res_wrap ''failed to setup IP Tables rules''
                                     (ApplyIpTablesRules K previousIptablesRules ''delete'' k)
                              else (Ok (), k))
             in finish_slb r slb (\<lambda>_. slb))"

definition UpdateFrontendIP :: "'k kernel \<Rightarrow> serviceLb \<Rightarrow> net_ip \<Rightarrow> 'k \<Rightarrow> 'k slb_result" where
  "UpdateFrontendIP K slb ip k =
     (case res_wrap ''Failed to ensure load balancer interface listening''
             (EnsureInterfaceListensOnAddress K (slb_link slb) (ip_String ip) k) of
        (Err er, k) \<Rightarrow> ((Err er, slb), k)
      | (Panic, k) \<Rightarrow> ((Panic, slb), k)
      | (Ok _, k) \<Rightarrow>
          let oldFrontendIP = frontendIP slb
          in case ensureServiceLoadBalancerFrontend K (slb\<lparr>frontendIP := ip\<rparr>) k of
               ((Err er, slb), k) \<Rightarrow>
                 ((Err (WithMessage er ''error creating frontend of service load balancer''), slb), k)
             | ((Panic, slb), k) \<Rightarrow> ((Panic, slb), k)
             | ((Ok _, slb), k) \<Rightarrow>
                 if oldFrontendIP \<noteq> [] \<and> ip_String oldFrontendIP \<noteq> ip_String (frontendIP slb)
                 then finish_slb (res_wrap ''error stopping interface listening''
                        (StopListeningOnAddress K (slb_link slb) (ip_String oldFrontendIP) k)) slb (\<lambda>_. slb)
                 else ((Ok (), slb), k))"

definition slb_Delete :: "'k kernel \<Rightarrow> serviceLb \<Rightarrow> 'k \<Rightarrow> unit res \<times> 'k" where
  "slb_Delete K slb k =
     res_bind (res_wrap ''failed to remove IP Tables rules''
         (ApplyIpTablesRules K (iptablesRules slb) ''delete'' k))
       (\<lambda>_ k. with_ipvs K (\<lambda>k.
          res_bind (res_wrap ''failed to delete IPVS service'' (DelService K (wanted_service K slb) k))
            (\<lambda>_ k. res_wrap ''failed to remove IP from interface''
               (StopListeningOnAddress K (slb_link slb) (ip_String (frontendIP slb)) k))) k)"

section \<open>Effects on the kernel\<close>

definition v4 :: "net_ip \<Rightarrow> bool" where
  "v4 ip \<longleftrightarrow> length (To4 ip) = 4"

lemma ip_String_v4: "v4 ip \<Longrightarrow> ip_String ip = ip4_String (To4 ip)"
  by (auto simp: v4_def To4_def ip_String_def split: if_splits)

text \<open>What ensuring the virtual service makes of the visible state: the service is there with
  the wanted scheduler, its destinations are kept when it was there before.\<close>

definition ensured :: "32 word \<Rightarrow> ipvs_Service \<Rightarrow> kview \<Rightarrow> kview" where
  "ensured w s v = v\<lparr>kv_services := (kv_services v)(w \<mapsto> s),
     kv_dests := (kv_dests v)(w := if kv_services v w = None then {} else kv_dests v w)\<rparr>"

lemma ensured_same: "kv_services v w = Some s \<Longrightarrow> ensured w s v = v"
  by (cases v) (simp add: ensured_def fun_upd_idem)

lemma ensured_simps [simp]:
  "kv_rules (ensured w s v) = kv_rules v" "kv_addrs (ensured w s v) = kv_addrs v"
  "kv_links (ensured w s v) = kv_links v" "kv_services (ensured w s v) = (kv_services v)(w \<mapsto> s)"
  by (simp_all add: ensured_def)

lemma set_addrs_simps [simp]:
  "kv_rules (set_addrs n f v) = kv_rules v" "kv_services (set_addrs n f v) = kv_services v"
  "kv_dests (set_addrs n f v) = kv_dests v" "kv_links (set_addrs n f v) = kv_links v"
  "kv_addrs (set_addrs n f v) = (kv_addrs v)(n := f (kv_addrs v n))"
  by (simp_all add: set_addrs_def)

lemma set_dests_simps [simp]:
  "kv_rules (set_dests w f v) = kv_rules v" "kv_services (set_dests w f v) = kv_services v"
  "kv_addrs (set_dests w f v) = kv_addrs v" "kv_links (set_dests w f v) = kv_links v"
  "kv_dests (set_dests w f v) = (kv_dests v)(w := f (kv_dests v w))"
  by (simp_all add: set_dests_def)

lemma set_dests_id [simp]: "set_dests w (\<lambda>ds. ds) v = v"
  by (simp add: set_dests_def)

lemma set_dests_set_dests [simp]: "set_dests w f (set_dests w g v) = set_dests w (\<lambda>ds. f (g ds)) v"
  by (simp add: set_dests_def)

lemma finish_slb_Ok:
  "finish_slb r slb f = ((Ok u, slb'), k') \<longleftrightarrow> (\<exists>a. r = (Ok a, k') \<and> slb' = f a)"
  by (auto simp: finish_slb_def split: prod.splits res.splits)

context kernel_service
begin

lemma with_ipvs_Ok:
  assumes "with_ipvs K fn k = (Ok a, k')"
  shows "\<exists>k1 k2. view k1 = view k \<and> fn k1 = (Ok a, k2) \<and> view k' = view k2"
proof -
  obtain k1 where n: "ipvs_New K k = (Ok (), k1)"
    using assms by (auto simp: with_ipvs_def split: prod.splits res.splits)
  obtain r k2 where f: "fn k1 = (r, k2)" by force
  have "r = Ok a \<and> k' = ipvs_Close K k2" using assms n f by (simp add: with_ipvs_def)
  then show ?thesis using f n ipvs_New_view [of k] ipvs_Close_view [of k2] by auto
qed

lemma ensureIpvsService_Ok:
  assumes "ensureIpvsService K slb k = (Ok svc, k')"
  shows "svc = wanted_service K slb"
    "\<exists>s. SchedName s = ''rr'' \<and> view k' = ensured (slb_fwmark slb) s (view k)"
proof -
  let ?w = "wanted_service K slb"
  have w: "FWMark ?w = slb_fwmark slb" "SchedName ?w = ''rr''" by (simp_all add: wanted_service_def)
  obtain k1 k2 where v: "view k1 = view k" "view k' = view k2" and
    f: "(case IsServicePresent K ?w k1 of (exists, k) \<Rightarrow>
            if \<not> exists
            then (case NewService K ?w k of
                    (Ok _, k) \<Rightarrow> (Ok ?w, k)
                  | (Err _, k) \<Rightarrow> (Err (Errorf ''failed to create IPVS service''), k)
                  | (Panic, k) \<Rightarrow> (Panic, k))
            else (case GetService K ?w k of
                    (Ok existingSvc, k) \<Rightarrow>
                      if SchedName existingSvc \<noteq> SchedName ?w \<or> svc_Flags existingSvc \<noteq> svc_Flags ?w
                         \<or> svc_Timeout existingSvc \<noteq> svc_Timeout ?w \<or> PEName existingSvc \<noteq> PEName ?w
                      then (case UpdateService K ?w k of
                              (Ok _, k) \<Rightarrow> (Ok ?w, k)
                            | (Err _, k) \<Rightarrow> (Err (Errorf ''failed to update existing IPVS service''), k)
                            | (Panic, k) \<Rightarrow> (Panic, k))
                      else (Ok ?w, k)
                  | (Err _, k) \<Rightarrow> (Err (Errorf ''failed to get existing IPVS service''), k)
                  | (Panic, k) \<Rightarrow> (Panic, k))) = (Ok svc, k2)"
    using with_ipvs_Ok [OF assms [unfolded ensureIpvsService_def Let_def]] by blast
  obtain b k3 where p: "IsServicePresent K ?w k1 = (b, k3)" by force
  have v3: "view k3 = view k" using IsServicePresent_view [of ?w k1] p v(1) by simp
  consider u where "NewService K ?w k3 = (Ok u, k2)" "svc = ?w"
    | s where "GetService K ?w k3 = (Ok s, k2)" "svc = ?w" "SchedName s = ''rr''"
    | s k4 u where "GetService K ?w k3 = (Ok s, k4)" "UpdateService K ?w k4 = (Ok u, k2)" "svc = ?w"
    using f p w by (auto split: prod.splits res.splits if_splits)
  then have "svc = ?w \<and> (\<exists>s. SchedName s = ''rr'' \<and> view k2 = ensured (slb_fwmark slb) s (view k))"
  proof cases
    case 1
    then show ?thesis using NewService_Ok [OF 1(1)] v3 w by (auto simp: ensured_def)
  next
    case 2
    then have "view k2 = view k" "kv_services (view k) (slb_fwmark slb) = Some s"
      using GetService_view [of ?w k3] GetService_Ok [OF 2(1)] v3 w by simp_all
    then show ?thesis using 2 ensured_same [of "view k" "slb_fwmark slb" s] by auto
  next
    case 3
    then have "view k4 = view k" "kv_services (view k) (slb_fwmark slb) = Some s"
      using GetService_view [of ?w k3] GetService_Ok [OF 3(1)] v3 w by simp_all
    then have "view k2 = ensured (slb_fwmark slb) ?w (view k)"
      using UpdateService_Ok [OF 3(2)] w by (simp add: ensured_def)
    then show ?thesis using 3(3) w(2) by blast
  qed
  then show "svc = ?w" "\<exists>s. SchedName s = ''rr'' \<and> view k' = ensured (slb_fwmark slb) s (view k)"
    using v by simp_all
qed

lemma with_present_service_Ok:
  assumes "with_present_service K slb fn k = (Ok a, k')"
  shows "\<exists>s k1 k2. SchedName s = ''rr'' \<and> view k1 = ensured (slb_fwmark slb) s (view k)
    \<and> fn (wanted_service K slb) k1 = (Ok a, k2) \<and> view k' = view k2"
proof -
  obtain svc k1 where e: "ensureIpvsService K slb k = (Ok svc, k1)"
    and w: "with_ipvs K (\<lambda>k. case IsServicePresent K svc k of (exists, k) \<Rightarrow>
      if \<not> exists then (Err (Errorf ''IPVS service does not exist''), k) else fn svc k) k1 = (Ok a, k')"
    using assms by (auto simp: with_present_service_def res_bind_Ok_iff)
  obtain k2 k3 where v: "view k2 = view k1" "view k' = view k3"
    and f: "(case IsServicePresent K svc k2 of (exists, k) \<Rightarrow>
      if \<not> exists then (Err (Errorf ''IPVS service does not exist''), k) else fn svc k) = (Ok a, k3)"
    using with_ipvs_Ok [OF w] by blast
  obtain b k4 where p: "IsServicePresent K svc k2 = (b, k4)" by force
  then have "view k4 = view k1" "fn svc k4 = (Ok a, k3)"
    using IsServicePresent_view [of svc k2] v(1) f by (auto split: if_splits)
  then show ?thesis using ensureIpvsService_Ok [OF e] v by metis
qed

lemma add_destinations_Ok:
  "add_destinations K svc existing desired k = (Ok u, k') \<Longrightarrow>
   \<forall>(a, ip) \<in> set desired. a = ip_String ip \<Longrightarrow>
   view k' = set_dests (FWMark svc) (\<lambda>ds. ds \<union> (fst ` set desired - dom (map_of existing))) (view k)"
proof (induction desired arbitrary: k)
  case (Cons ai desired)
  obtain a ip where ai: "ai = (a, ip)" by force
  show ?case
  proof (cases "map_of existing a")
    case None
    then obtain v k1 where 1: "NewDestination K svc \<lparr>d_AddressFamily = 0, d_Address = ip, d_Port = 0,
        d_Weight = 1, d_ConnectionFlags = ConnectionFlagMasq K\<rparr> k = (Ok v, k1)"
      "add_destinations K svc existing desired k1 = (Ok u, k')"
      using Cons.prems(1) by (auto simp: ai res_bind_Ok_iff)
    have "insert a A \<union> (fst ` set desired - dom (map_of existing)) =
        A \<union> (fst ` set (ai # desired) - dom (map_of existing))" for A
      using None by (auto simp: ai)
    then show ?thesis
      using Cons.IH [OF 1(2)] NewDestination_Ok [OF 1(1)] Cons.prems(2) by (simp add: ai)
  next
    case (Some d)
    then have "fst ` set (ai # desired) - dom (map_of existing) = fst ` set desired - dom (map_of existing)"
      by (auto simp: ai)
    then show ?thesis using Cons Some by (simp add: ai)
  qed
qed simp

lemma delete_destinations_Ok:
  "delete_destinations K svc desired existing k = (Ok u, k') \<Longrightarrow>
   \<forall>(a, d) \<in> set existing. a = ip_String (d_Address d) \<Longrightarrow>
   view k' = set_dests (FWMark svc) (\<lambda>ds. ds - (fst ` set existing - dom (map_of desired))) (view k)"
proof (induction existing arbitrary: k)
  case (Cons ad existing)
  obtain a d where ad: "ad = (a, d)" by force
  show ?case
  proof (cases "map_of desired a")
    case None
    then obtain v k1 where 1: "DelDestination K svc d k = (Ok v, k1)"
      "delete_destinations K svc desired existing k1 = (Ok u, k')"
      using Cons.prems(1) by (auto simp: ad res_bind_Ok_iff)
    have "A - {a} - (fst ` set existing - dom (map_of desired)) =
        A - (fst ` set (ad # existing) - dom (map_of desired))" for A
      using None by (auto simp: ad)
    then show ?thesis
      using Cons.IH [OF 1(2)] DelDestination_Ok [OF 1(1)] Cons.prems(2) by (simp add: ad)
  next
    case (Some d)
    then have "fst ` set (ad # existing) - dom (map_of desired) = fst ` set existing - dom (map_of desired)"
      by (auto simp: ad)
    then show ?thesis using Cons Some by (simp add: ad)
  qed
qed simp

end

text \<open>A map filled from a list by a key function.\<close>

lemma collect_get:
  "map_of (gomap_collect (\<lambda>x. Some (f x, x)) xs) a = Some y \<Longrightarrow> y \<in> set xs \<and> a = f y"
  by (induction xs rule: rev_induct) (auto simp: gomap_collect_def split: if_splits)

lemma collect_dom: "dom (map_of (gomap_collect (\<lambda>x. Some (f x, x)) xs)) = f ` set xs"
proof (induction xs rule: rev_induct)
  case (snoc x xs)
  have "map_of (gomap_collect (\<lambda>x. Some (f x, x)) (xs @ [x])) =
      (map_of (gomap_collect (\<lambda>x. Some (f x, x)) xs))(f x \<mapsto> x)"
    unfolding gomap_collect_snoc by simp
  then show ?case by (simp only: dom_fun_upd snoc.IH) simp
qed (simp add: gomap_collect_def)

lemma collect_entries: "(a, y) \<in> set (gomap_collect (\<lambda>x. Some (f x, x)) xs) \<Longrightarrow> a = f y"
  using collect_get [of f xs a y] gomap_mem_iff [OF gomap_collect_ok, of a y "\<lambda>x. Some (f x, x)" xs]
  by blast

context kernel_service
begin

lemma set_destinations_Ok:
  assumes "set_destinations K ips svc k = (Ok u, k')"
  shows "view k' = set_dests (FWMark svc) (\<lambda>_. ip_String ` set ips) (view k)"
proof -
  let ?ex = "gomap_collect (\<lambda>dest. Some (ip_String (d_Address dest), dest))"
  let ?de = "gomap_collect (\<lambda>ip. Some (ip_String ip, ip)) ips"
  obtain ds k1 k2 where g: "GetDestinations K svc k = (Ok ds, k1)"
    and a: "add_destinations K svc (?ex ds) ?de k1 = (Ok (), k2)"
    and d: "delete_destinations K svc ?de (?ex ds) k2 = (Ok u, k')"
    using assms by (auto simp: set_destinations_def Let_def res_bind_Ok_iff split: prod.splits res.splits)
  have ex: "dom (map_of (?ex ds)) = kv_dests (view k) (FWMark svc)" "view k1 = view k"
    using GetDestinations_Ok [OF g] collect_dom [of "\<lambda>d. ip_String (d_Address d)" ds] by auto
  have de: "dom (map_of ?de) = ip_String ` set ips" by (rule collect_dom)
  have fs: "fst ` set (?ex ds) = kv_dests (view k) (FWMark svc)" "fst ` set ?de = ip_String ` set ips"
    unfolding dom_map_of_conv_image_fst [symmetric] ex(1) de by simp_all
  have "\<forall>(a, ip) \<in> set ?de. a = ip_String ip" "\<forall>(a, d) \<in> set (?ex ds). a = ip_String (d_Address d)"
    using collect_entries [of _ _ ip_String ips] collect_entries [of _ _ "\<lambda>d. ip_String (d_Address d)" ds]
    by blast+
  then have "view k' = set_dests (FWMark svc) (\<lambda>A. A \<union> (ip_String ` set ips - kv_dests (view k) (FWMark svc))
      - (kv_dests (view k) (FWMark svc) - ip_String ` set ips)) (view k)"
    using add_destinations_Ok [OF a] delete_destinations_Ok [OF d] by (simp add: ex de fs)
  moreover have "A \<union> (P - A) - (A - P) = P" for A P :: "string set" by blast
  ultimately show ?thesis by (simp add: set_dests_def)
qed

lemma SetBackends_Ok:
  assumes "SetBackends K slb ips k = ((Ok u, slb'), k')"
  shows "slb' = slb\<lparr>backendIPs := ips\<rparr>
    \<and> (\<exists>s. SchedName s = ''rr'' \<and> view k' =
        set_dests (slb_fwmark slb) (\<lambda>_. ip_String ` set ips) (ensured (slb_fwmark slb) s (view k)))"
proof -
  obtain a where w: "with_present_service K slb (set_destinations K ips) k = (Ok a, k')"
    and s: "slb' = slb\<lparr>backendIPs := ips\<rparr>"
    using assms by (auto simp: SetBackends_def finish_slb_Ok)
  obtain s k1 k2 where *: "SchedName s = ''rr''" "view k1 = ensured (slb_fwmark slb) s (view k)"
    "set_destinations K ips (wanted_service K slb) k1 = (Ok a, k2)" "view k' = view k2"
    using with_present_service_Ok [OF w] by blast
  have "FWMark (wanted_service K slb) = slb_fwmark slb" by (simp add: wanted_service_def)
  then show ?thesis using set_destinations_Ok [OF *(3)] *(1,2,4) s by auto
qed

lemma ensureServiceLoadBalancerFrontend_Ok:
  assumes "ensureServiceLoadBalancerFrontend K slb k = ((Ok u, slb'), k')"
  defines "rules \<equiv> frontend_rules (ip_String (frontendIP slb)) (FormatUint (unat (slb_fwmark slb)))"
  shows "slb' = slb\<lparr>iptablesRules := rules\<rparr>"
    "\<exists>s. SchedName s = ''rr'' \<and> view k' =
       (ensured (slb_fwmark slb) s (view k))\<lparr>kv_rules := kv_rules (view k) \<union> set rules\<rparr>"
proof -
  obtain svc k1 where e: "ensureIpvsService K slb k = (Ok svc, k1)"
    and r: "ApplyIpTablesRules K rules ''create'' k1 = (Ok (), k')"
    and s: "slb' = slb\<lparr>iptablesRules := rules\<rparr>"
    using assms(1) unfolding rules_def
    by (auto simp: ensureServiceLoadBalancerFrontend_def Let_def go_copy_def finish_slb_Ok res_bind_Ok_iff
        split: prod.splits res.splits if_splits)
  show "slb' = slb\<lparr>iptablesRules := rules\<rparr>" by (fact s)
  show "\<exists>s. SchedName s = ''rr'' \<and> view k' =
      (ensured (slb_fwmark slb) s (view k))\<lparr>kv_rules := kv_rules (view k) \<union> set rules\<rparr>"
    using ensureIpvsService_Ok(2) [OF e] ApplyIpTablesRules_Ok(2) [OF r] by auto
qed

lemma ParseAddr_v4: "v4 ip \<Longrightarrow> \<exists>a. ParseAddr K (with_mask (ip_String ip)) = Ok a \<and> addr_text a = ip_String ip @ ''/32''"
  using ParseAddr_ip4 [of "To4 ip"] unfolding with_mask_ip by (simp add: ip_String_v4 v4_def)

lemma UpdateFrontendIP_Ok:
  assumes "UpdateFrontendIP K slb ip k = ((Ok u, slb'), k')" "v4 ip" "frontendIP slb = [] \<or> v4 (frontendIP slb)"
  defines "rules \<equiv> frontend_rules (ip_String ip) (FormatUint (unat (slb_fwmark slb)))"
    and "gone \<equiv> (if frontendIP slb \<noteq> [] \<and> ip_String (frontendIP slb) \<noteq> ip_String ip
                  then {ip_String (frontendIP slb) @ ''/32''} else {})"
  shows "slb' = slb\<lparr>frontendIP := ip, iptablesRules := rules\<rparr>
    \<and> (\<exists>s. SchedName s = ''rr'' \<and> view k' =
        set_addrs (l_Name (slb_link slb)) (\<lambda>as. insert (ip_String ip @ ''/32'') as - gone)
          ((ensured (slb_fwmark slb) s (view k))\<lparr>kv_rules := kv_rules (view k) \<union> set rules\<rparr>))"
proof -
  obtain k1 slb1 k2 where l: "EnsureInterfaceListensOnAddress K (slb_link slb) (ip_String ip) k = (Ok (), k1)"
    and f: "ensureServiceLoadBalancerFrontend K (slb\<lparr>frontendIP := ip\<rparr>) k1 = ((Ok (), slb1), k2)"
    and s: "(if frontendIP slb \<noteq> [] \<and> ip_String (frontendIP slb) \<noteq> ip_String (frontendIP slb1)
        then finish_slb (res_wrap ''error stopping interface listening''
          (StopListeningOnAddress K (slb_link slb1) (ip_String (frontendIP slb)) k2)) slb1 (\<lambda>_. slb1)
        else ((Ok (), slb1), k2)) = ((Ok u, slb'), k')"
    using assms(1) by (auto simp: UpdateFrontendIP_def Let_def split: prod.splits res.splits)
  have v1: "view k1 = set_addrs (l_Name (slb_link slb)) (insert (ip_String ip @ ''/32'')) (view k)"
    using EnsureInterfaceListensOnAddress_Ok [OF l] ParseAddr_v4 [OF assms(2)] by auto
  note fo = ensureServiceLoadBalancerFrontend_Ok [OF f]
  have slb1: "slb1 = slb\<lparr>frontendIP := ip, iptablesRules := rules\<rparr>" using fo(1) by (simp add: rules_def)
  obtain sv where sv: "SchedName sv = ''rr''" "view k2 =
      (ensured (slb_fwmark slb) sv (view k1))\<lparr>kv_rules := kv_rules (view k1) \<union> set rules\<rparr>"
    using fo(2) by (auto simp: rules_def)
  have s': "slb' = slb1" using s by (auto simp: finish_slb_Ok split: if_splits)
  have "view k' = set_addrs (l_Name (slb_link slb)) (\<lambda>as. as - gone) (view k2)"
  proof (cases "frontendIP slb \<noteq> [] \<and> ip_String (frontendIP slb) \<noteq> ip_String ip")
    case True
    then have "StopListeningOnAddress K (slb_link slb) (ip_String (frontendIP slb)) k2 = (Ok (), k')"
      using s by (auto simp: slb1 finish_slb_Ok)
    from StopListeningOnAddress_Ok [OF this] ParseAddr_v4 [of "frontendIP slb"] assms(3) True
    show ?thesis by (auto simp: gone_def)
  next
    case False
    then have "k' = k2" "gone = {}" using s by (auto simp: slb1 gone_def)
    then show ?thesis by (simp add: set_addrs_def)
  qed
  moreover have "\<dots> = set_addrs (l_Name (slb_link slb)) (\<lambda>as. insert (ip_String ip @ ''/32'') as - gone)
      ((ensured (slb_fwmark slb) sv (view k))\<lparr>kv_rules := kv_rules (view k) \<union> set rules\<rparr>)"
    by (simp add: sv(2) v1 set_addrs_def ensured_def)
  ultimately show ?thesis using s' slb1 sv(1) by auto
qed

lemma slb_Delete_Ok:
  assumes "slb_Delete K slb k = (Ok u, k')"
  shows "kv_rules (view k') = kv_rules (view k) - set (iptablesRules slb)"
    "kv_services (view k') = (kv_services (view k))(slb_fwmark slb := None)"
proof -
  obtain k1 where a: "ApplyIpTablesRules K (iptablesRules slb) ''delete'' k = (Ok (), k1)"
    and w: "with_ipvs K (\<lambda>k. res_bind (res_wrap ''failed to delete IPVS service''
        (DelService K (wanted_service K slb) k)) (\<lambda>_ k. res_wrap ''failed to remove IP from interface''
        (StopListeningOnAddress K (slb_link slb) (ip_String (frontendIP slb)) k))) k1 = (Ok u, k')"
    using assms by (auto simp: slb_Delete_def res_bind_Ok_iff)
  obtain k2 k3 k4 where v: "view k2 = view k1" "view k' = view k4"
    and d: "DelService K (wanted_service K slb) k2 = (Ok (), k3)"
    and s: "StopListeningOnAddress K (slb_link slb) (ip_String (frontendIP slb)) k3 = (Ok u, k4)"
    using with_ipvs_Ok [OF w] by (auto simp: res_bind_Ok_iff)
  obtain f where f: "view k4 = set_addrs (l_Name (slb_link slb)) f (view k3)"
    using StopListeningOnAddress_Ok [OF s] by blast
  have "kv_rules (view k1) = kv_rules (view k) - set (iptablesRules slb)"
    "kv_services (view k1) = kv_services (view k)"
    using ApplyIpTablesRules_Ok(3) [OF a] by simp_all
  then show "kv_rules (view k') = kv_rules (view k) - set (iptablesRules slb)"
    "kv_services (view k') = (kv_services (view k))(slb_fwmark slb := None)"
    using DelService_Ok [OF d] v f by (simp_all add: wanted_service_def)
qed

end

lemma frontend_rules_disjoint:
  "vip \<noteq> vip' \<Longrightarrow> set (frontend_rules vip m) \<inter> set (frontend_rules vip' m') = {}"
  by (auto simp: frontend_rules_def)

section \<open>Properties\<close>

definition demo_link :: Link where
  "demo_link = \<lparr>l_Name = ''lbf_n'', l_Type = ''dummy'', l_MTU = 1450, l_Up = True\<rparr>"

definition demo_slb :: serviceLb where
  "demo_slb = NewNetworkSpecificServiceLb demo_link ''n'' ''s'' 7"

text \<open>
  C30: After a successful \<open>SetBackends\<close> the virtual service of the load balancer's mark exists with
  the round-robin scheduler and has exactly the given addresses as destinations, whatever it had
  before; no other service, no rule and no address of the kernel changes.
\<close>

theorem SetBackends_exact:
  assumes "kernel_service K view" "SetBackends K slb ips k = ((Ok (), slb'), k')"
  shows "backendIPs slb' = ips
    \<and> kv_dests (view k') = (kv_dests (view k))(slb_fwmark slb := ip_String ` set ips)
    \<and> (\<exists>s. SchedName s = ''rr'' \<and> kv_services (view k') = (kv_services (view k))(slb_fwmark slb \<mapsto> s))
    \<and> kv_rules (view k') = kv_rules (view k) \<and> kv_addrs (view k') = kv_addrs (view k)"
  using kernel_service.SetBackends_Ok [OF assms] by (auto simp: ensured_def)

lemma SetBackends_exact_witness:
  "let k = snd (AddBackend mem_kernel demo_slb [10, 0, 0, 9] kmem_empty)
   in kv_dests (mem_kview k) 7 = {''10.0.0.9''}
      \<and> kv_dests (mem_kview (snd (SetBackends mem_kernel demo_slb [[10, 0, 0, 7], [10, 0, 0, 8]] k))) 7 =
          {ip_String [10, 0, 0, 7], ip_String [10, 0, 0, 8]}"
proof -
  define k where "k = snd (AddBackend mem_kernel demo_slb [10, 0, 0, 9] kmem_empty)"
  have k: "km_dests k = [(7, backend mem_kernel [10, 0, 0, 9])]" unfolding k_def by code_simp
  have "ip_String [10, 0, 0, 9] = ''10.0.0.9''" by code_simp
  then have 1: "kv_dests (mem_kview k) 7 = {''10.0.0.9''}" by (simp add: mem_kview_def k backend_def)
  obtain r slb' k' where s: "SetBackends mem_kernel demo_slb [[10, 0, 0, 7], [10, 0, 0, 8]] k = ((r, slb'), k')"
    by (metis surj_pair)
  have "fst (fst (SetBackends mem_kernel demo_slb [[10, 0, 0, 7], [10, 0, 0, 8]]
      (snd (AddBackend mem_kernel demo_slb [10, 0, 0, 9] kmem_empty)))) = Ok ()" by code_simp
  then have "r = Ok ()" using s by (simp add: k_def [symmetric])
  with s have "SetBackends mem_kernel demo_slb [[10, 0, 0, 7], [10, 0, 0, 8]] k = ((Ok (), slb'), k')" by simp
  from SetBackends_exact [OF mem_kernel.kernel_service_axioms this]
  have "kv_dests (mem_kview k') 7 = {ip_String [10, 0, 0, 7], ip_String [10, 0, 0, 8]}"
    by (simp add: demo_slb_def NewNetworkSpecificServiceLb_def)
  then show ?thesis using 1 s by (simp add: k_def [symmetric])
qed

text \<open>
  C31: What a successful \<open>UpdateFrontendIP\<close> changes: the interface listens on the new address and no
  longer on a different old one, the virtual service exists, and the three rules for the new
  address are added; no rule is removed, not even those of the old address.
\<close>

theorem UpdateFrontendIP_spec:
  assumes "kernel_service K view" "UpdateFrontendIP K slb ip k = ((Ok (), slb'), k')" "v4 ip"
    "frontendIP slb = [] \<or> v4 (frontendIP slb)"
  shows "slb' = slb\<lparr>frontendIP := ip,
      iptablesRules := frontend_rules (ip_String ip) (FormatUint (unat (slb_fwmark slb)))\<rparr>
    \<and> kv_rules (view k') = kv_rules (view k) \<union> set (iptablesRules slb')
    \<and> kv_addrs (view k') = (kv_addrs (view k))(l_Name (slb_link slb) :=
         insert (ip_String ip @ ''/32'') (kv_addrs (view k) (l_Name (slb_link slb)))
         - (if frontendIP slb \<noteq> [] \<and> ip_String (frontendIP slb) \<noteq> ip_String ip
            then {ip_String (frontendIP slb) @ ''/32''} else {}))
    \<and> (\<exists>s. SchedName s = ''rr'' \<and> kv_services (view k') = (kv_services (view k))(slb_fwmark slb \<mapsto> s))"
  using kernel_service.UpdateFrontendIP_Ok [OF assms] by auto

lemma UpdateFrontendIP_spec_witness:
  "case UpdateFrontendIP mem_kernel demo_slb [10, 0, 0, 7] kmem_empty of ((r, slb'), k') \<Rightarrow>
     r = Ok () \<and> kv_addrs (mem_kview k') ''lbf_n'' = {ip_String [10, 0, 0, 7] @ ''/32''}
     \<and> kv_rules (mem_kview k') = set (frontend_rules (ip_String [10, 0, 0, 7]) (FormatUint 7))"
proof -
  obtain r slb' k' where s: "UpdateFrontendIP mem_kernel demo_slb [10, 0, 0, 7] kmem_empty = ((r, slb'), k')"
    by (metis surj_pair)
  have "fst (fst (UpdateFrontendIP mem_kernel demo_slb [10, 0, 0, 7] kmem_empty)) = Ok ()" by code_simp
  then have r: "r = Ok ()" using s by simp
  have d: "frontendIP demo_slb = []" "slb_fwmark demo_slb = 7" "slb_link demo_slb = demo_link"
    by (simp_all add: demo_slb_def NewNetworkSpecificServiceLb_def)
  have e: "kv_rules (mem_kview kmem_empty) = {}" "kv_addrs (mem_kview kmem_empty) n = {}" for n
    by (simp_all add: mem_kview_def kmem_empty_def)
  have "v4 [10, 0, 0, 7]" by (simp add: v4_def)
  from UpdateFrontendIP_spec [OF mem_kernel.kernel_service_axioms s [unfolded r] this]
  show ?thesis by (simp add: s r d e demo_link_def)
qed

text \<open>
  A load balancer that has changed its address leaves rules behind: after \<open>UpdateFrontendIP\<close> to
  one address, then to another, and \<open>Delete\<close>, all of them successful, the three rules for the
  first address are still in the kernel, while those of the second are gone.
\<close>

theorem frontend_rules_leak:
  assumes "kernel_service K view" "v4 a" "v4 b" "ip_String a \<noteq> ip_String b"
    "frontendIP slb = [] \<or> v4 (frontendIP slb)"
    "UpdateFrontendIP K slb a k = ((Ok (), slb1), k1)" "UpdateFrontendIP K slb1 b k1 = ((Ok (), slb2), k2)"
    "slb_Delete K slb2 k2 = (Ok (), k3)"
  shows "set (iptablesRules slb1) \<subseteq> kv_rules (view k3) \<and> set (iptablesRules slb2) \<inter> kv_rules (view k3) = {}
    \<and> iptablesRules slb1 \<noteq> []"
proof -
  note 1 = kernel_service.UpdateFrontendIP_Ok [OF assms(1,6,2,5)]
  then have s1: "slb1 = slb\<lparr>frontendIP := a,
      iptablesRules := frontend_rules (ip_String a) (FormatUint (unat (slb_fwmark slb)))\<rparr>" by blast
  have f1: "frontendIP slb1 = [] \<or> v4 (frontendIP slb1)" using assms(2) by (simp add: s1)
  note 2 = kernel_service.UpdateFrontendIP_Ok [OF assms(1,7,3) f1]
  have r: "set (iptablesRules slb1) \<subseteq> kv_rules (view k2)" using 1 2 by auto
  have "iptablesRules slb2 = frontend_rules (ip_String b) (FormatUint (unat (slb_fwmark slb)))"
    using 2 s1 by simp
  then have "set (iptablesRules slb1) \<inter> set (iptablesRules slb2) = {}"
    using frontend_rules_disjoint [OF assms(4)] by (simp add: s1)
  then show ?thesis
    using kernel_service.slb_Delete_Ok(1) [OF assms(1,8)] r by (auto simp: s1 frontend_rules_def)
qed

definition demo_leak :: "(unit res \<times> serviceLb) \<times> (unit res \<times> serviceLb) \<times> unit res \<times> kmem" where
  "demo_leak =
     (case UpdateFrontendIP mem_kernel demo_slb [10, 0, 0, 7] kmem_empty of (s1, k1) \<Rightarrow>
        case UpdateFrontendIP mem_kernel (snd s1) [10, 0, 0, 8] k1 of (s2, k2) \<Rightarrow>
          case slb_Delete mem_kernel (snd s2) k2 of (r, k3) \<Rightarrow> (s1, s2, r, k3))"

lemma frontend_rules_leak_witness:
  "case demo_leak of ((r1, slb1), (r2, slb2), r3, k3) \<Rightarrow>
     r1 = Ok () \<and> r2 = Ok () \<and> r3 = Ok () \<and> set (iptablesRules slb1) \<subseteq> kv_rules (mem_kview k3)
     \<and> iptablesRules slb1 \<noteq> []"
proof -
  obtain r1 slb1 k1 where 1: "UpdateFrontendIP mem_kernel demo_slb [10, 0, 0, 7] kmem_empty = ((r1, slb1), k1)"
    by (metis surj_pair)
  obtain r2 slb2 k2 where 2: "UpdateFrontendIP mem_kernel slb1 [10, 0, 0, 8] k1 = ((r2, slb2), k2)"
    by (metis surj_pair)
  obtain r3 k3 where 3: "slb_Delete mem_kernel slb2 k2 = (r3, k3)" by (metis surj_pair)
  have d: "demo_leak = ((r1, slb1), (r2, slb2), r3, k3)" by (simp add: demo_leak_def 1 2 3)
  have "fst (fst demo_leak) = Ok () \<and> fst (fst (snd demo_leak)) = Ok () \<and> fst (snd (snd demo_leak)) = Ok ()"
    by code_simp
  then have r: "r1 = Ok ()" "r2 = Ok ()" "r3 = Ok ()" by (simp_all add: d)
  have v: "v4 [10, 0, 0, 7]" "v4 [10, 0, 0, 8]" "ip_String [10, 0, 0, 7] \<noteq> ip_String [10, 0, 0, 8]"
    by code_simp+
  have "frontendIP demo_slb = []" by (simp add: demo_slb_def NewNetworkSpecificServiceLb_def)
  with frontend_rules_leak [OF mem_kernel.kernel_service_axioms v _ 1 [unfolded r(1)] 2 [unfolded r(2)]
      3 [unfolded r(3)]]
  show ?thesis by (simp add: d r)
qed

end
