(* ===== verification/Bridge.thy ===== *)
theory Bridge
  imports Networking
begin

text \<open>
  \<open>plugin/pkg/bridge\<close>: the bridge of a network on this host with its address, its route and its
  iptables rules (\<open>bridge.go\<close>), and the pairs of virtual Ethernet interfaces that connect
  containers to it (\<open>veth.go\<close>). The calls of the packages \<open>netlink\<close> and \<open>iptables\<close> that go beyond
  the record \<open>kernel\<close> are the record \<open>netlink\<close>; \<open>netlink_service\<close> states what they promise.
\<close>

section \<open>The kernel\<close>

record FlannelNetworkInfo =
  fi_FlannelID :: string
  fi_MTU :: int
  fi_Network :: ipnet
  fi_HostSubnet :: ipnet
  fi_LocalGateway :: net_ip

record Route =
  rt_Dst :: ipnet
  rt_Src :: net_ip
  rt_LinkIndex :: int
  rt_Scope :: nat
  rt_Protocol :: nat

text \<open>An entry of \<open>LinkList\<close>; a veth knows the name of its peer.\<close>

record LinkEntry =
  le_Name :: string
  le_Index :: int
  le_MasterIndex :: int
  le_Veth :: "string option"

text \<open>The attributes that the request of \<open>patchBridge\<close> sets.\<close>

record LinkPatch =
  lp_Index :: int
  lp_Kind :: string
  lp_Up :: bool
  lp_AgeingTime :: "32 word"
  lp_GroupFwdMask :: "16 word"

text \<open>\<open>VethAdd\<close> is \<open>LinkAdd\<close> of a veth: name, hardware address, MTU and the name of the peer.\<close>

record 'k netlink =
  SCOPE_LINK :: nat
  RTPROT_KERNEL :: nat
  LinkIndex :: "Link \<Rightarrow> int"
  RouteAdd :: "Route \<Rightarrow> 'k \<Rightarrow> unit res \<times> 'k"
  RouteReplace :: "Route \<Rightarrow> 'k \<Rightarrow> unit res \<times> 'k"
  RouteDel :: "Route \<Rightarrow> 'k \<Rightarrow> unit res \<times> 'k"
  LinkDel :: "string \<Rightarrow> 'k \<Rightarrow> unit res \<times> 'k"
  LinkList :: "'k \<Rightarrow> LinkEntry list res \<times> 'k"
  LinkSetMaster :: "Link \<Rightarrow> Link \<Rightarrow> 'k \<Rightarrow> unit res \<times> 'k"
  VethAdd :: "string \<Rightarrow> byte list \<Rightarrow> int \<Rightarrow> string \<Rightarrow> 'k \<Rightarrow> unit res \<times> 'k"
  ExecuteLinkPatch :: "LinkPatch \<Rightarrow> 'k \<Rightarrow> unit res \<times> 'k"
  ipt_List :: "string \<Rightarrow> string \<Rightarrow> 'k \<Rightarrow> string list res \<times> 'k"

section \<open>The bridge\<close>

record bridgeInterface =
  bi_interfaceName :: string
  bi_iptablesRules :: "IptablesRule list"
  bi_network :: FlannelNetworkInfo
  bi_route :: Route

definition getBridgeInterfaceName :: "string \<Rightarrow> string" where
  "getBridgeInterfaceName flannelNetworkID = GetInterfaceName ''fl'' ''-'' flannelNetworkID"

definition getIptablesRules :: "string \<Rightarrow> ipnet \<Rightarrow> IptablesRule list" where
  "getIptablesRules interfaceName hostSubnet =
     [the_rule ''nat'' ''POSTROUTING''
        [''-s'', ipnet_String hostSubnet, ''!'', ''-o'', interfaceName, ''-j'', ''MASQUERADE''],
      the_rule ''nat'' ''DOCKER'' [''-i'', interfaceName, ''-j'', ''RETURN''],
      the_rule ''filter'' ''FORWARD'' [''-i'', interfaceName, ''-o'', interfaceName, ''-j'', ''ACCEPT''],
      the_rule ''filter'' ''FORWARD'' [''-i'', interfaceName, ''!'', ''-o'', interfaceName, ''-j'', ''ACCEPT''],
      the_rule ''filter'' ''FORWARD'' [''-o'', interfaceName, ''-j'', ''DOCKER''],
      the_rule ''filter'' ''FORWARD''
        [''-o'', interfaceName, ''-m'', ''conntrack'', ''--ctstate'', ''RELATED,ESTABLISHED'', ''-j'', ''ACCEPT''],
      the_rule ''filter'' ''DOCKER-ISOLATION-STAGE-1''
        [''-i'', interfaceName, ''!'', ''-o'', interfaceName, ''-j'', ''DOCKER-ISOLATION-STAGE-2''],
      the_rule ''filter'' ''DOCKER-ISOLATION-STAGE-2'' [''-o'', interfaceName, ''-j'', ''DROP'']]"

text \<open>The route is the zero value until the bridge is ensured.\<close>

definition no_route :: Route where
  "no_route = \<lparr>rt_Dst = \<lparr>ipnet_IP = [], ipnet_Mask = []\<rparr>, rt_Src = [], rt_LinkIndex = 0, rt_Scope = 0, rt_Protocol = 0\<rparr>"

definition NewBridgeInterface :: "FlannelNetworkInfo \<Rightarrow> bridgeInterface" where
  "NewBridgeInterface network =
     (let interfaceName = getBridgeInterfaceName (fi_FlannelID network)
      in \<lparr>bi_interfaceName = interfaceName,
          bi_iptablesRules = getIptablesRules interfaceName (fi_HostSubnet network),
          bi_network = network, bi_route = no_route\<rparr>)"

definition getRoute :: "'k netlink \<Rightarrow> FlannelNetworkInfo \<Rightarrow> Link \<Rightarrow> Route" where
  "getRoute N network bridge =
     \<lparr>rt_Dst = fi_HostSubnet network, rt_Src = fi_LocalGateway network, rt_LinkIndex = LinkIndex N bridge,
      rt_Scope = SCOPE_LINK N, rt_Protocol = RTPROT_KERNEL N\<rparr>"

definition Hydrate ::
  "'k kernel \<Rightarrow> 'k netlink \<Rightarrow> FlannelNetworkInfo \<Rightarrow> 'k \<Rightarrow> bridgeInterface res \<times> 'k"
where
  "Hydrate K N network k =
     (let b = NewBridgeInterface network
      in res_bind (res_wrap ''cannot find bridge interface'' (LinkByName K (bi_interfaceName b) k))
           (\<lambda>link k. (Ok (b\<lparr>bi_route := getRoute N network link\<rparr>), k)))"

definition GetNetworkInfo :: "bridgeInterface \<Rightarrow> FlannelNetworkInfo" where
  "GetNetworkInfo b = bi_network b"

definition patchBridge :: "'k netlink \<Rightarrow> Link \<Rightarrow> 'k \<Rightarrow> unit res \<times> 'k" where
  "patchBridge N bridge k =
     ExecuteLinkPatch N \<lparr>lp_Index = LinkIndex N bridge, lp_Kind = l_Type bridge, lp_Up = True,
       lp_AgeingTime = 0, lp_GroupFwdMask = 0xfff8\<rparr> k"

text \<open>An error of \<open>RouteAdd\<close> other than that the route exists is dropped.\<close>

definition set_route :: "'k netlink \<Rightarrow> Route \<Rightarrow> 'k \<Rightarrow> unit res \<times> 'k" where
  "set_route N route k =
     (case RouteAdd N route k of
        (Err er, k) \<Rightarrow> if str_Contains (error_text er) ''file exists'' then RouteReplace N route k else (Ok (), k)
      | (Ok _, k) \<Rightarrow> (Ok (), k)
      | (Panic, k) \<Rightarrow> (Panic, k))"

definition bridge_Ensure ::
  "'k kernel \<Rightarrow> 'k netlink \<Rightarrow> bridgeInterface \<Rightarrow> 'k \<Rightarrow> (unit res \<times> bridgeInterface) \<times> 'k"
where
  "bridge_Ensure K N b k =
     (case res_bind (EnsureInterface K (bi_interfaceName b) ''bridge'' (fi_MTU (bi_network b)) True k)
             (\<lambda>bridge k.
                let ones = fst (mask_Size (ipnet_Mask (fi_HostSubnet (bi_network b))));
                    ip = ip_String (fi_LocalGateway (bi_network b)) @ ''/'' @ FormatUint ones;
                    route = getRoute N (bi_network b) bridge
                in res_bind (ReplaceIPsOfInterface K bridge [ip] k)
                     (\<lambda>_ k. res_bind (patchBridge N bridge k)
                        (\<lambda>_ k. res_bind (set_route N route k) (\<lambda>_ k. (Ok route, k))))) of
        (Ok route, k) \<Rightarrow>
          (case res_wrap ''failed to setup IP Tables rules for bridge interface''
                  (ApplyIpTablesRules K (bi_iptablesRules b) ''create'' k) of
             (r, k) \<Rightarrow> ((r, b\<lparr>bi_route := route\<rparr>), k))
      | (Err er, k) \<Rightarrow> ((Err er, b), k)
      | (Panic, k) \<Rightarrow> ((Panic, b), k))"

definition bridge_Delete :: "'k kernel \<Rightarrow> 'k netlink \<Rightarrow> bridgeInterface \<Rightarrow> 'k \<Rightarrow> unit res \<times> 'k" where
  "bridge_Delete K N b k =
     res_bind (LinkByName K (bi_interfaceName b) k)
       (\<lambda>bridge k. res_bind
          (res_wrap ''failed to delete IP Tables rules for bridge interface''
             (ApplyIpTablesRules K (bi_iptablesRules b) ''delete'' k))
          (\<lambda>_ k. res_bind (RouteDel N (bi_route b) k) (\<lambda>_ k. LinkDel N (l_Name bridge) k)))"

section \<open>Stale interfaces\<close>

text \<open>\<open>strings.Fields\<close> on the white space of ASCII.\<close>

definition is_space :: "char \<Rightarrow> bool" where
  "is_space c \<longleftrightarrow> c \<in> {CHR '' '', CHR 0x09, CHR 0x0A, CHR 0x0B, CHR 0x0C, CHR 0x0D}"

fun str_Fields_from :: "string \<Rightarrow> string \<Rightarrow> string list" where
  "str_Fields_from cur [] = (if cur = [] then [] else [rev cur])"
| "str_Fields_from cur (c # s) =
     (if is_space c then (if cur = [] then str_Fields_from [] s else rev cur # str_Fields_from [] s)
      else str_Fields_from (c # cur) s)"

definition str_Fields :: "string \<Rightarrow> string list" where
  "str_Fields s = str_Fields_from [] s"

text \<open>\<open>strings.Fields(rawRule)[2:]\<close> panics when there are fewer than two fields.\<close>

definition raw_rule_spec :: "string \<Rightarrow> string list res" where
  "raw_rule_spec rawRule =
     (let fields = str_Fields rawRule in if length fields < 2 then Panic else Ok (drop 2 fields))"

definition rule_fields :: "string \<Rightarrow> string list" where
  "rule_fields rule =
     (let fields = str_Fields rule in if length fields > 2 \<and> fields ! 0 = ''-A'' then drop 2 fields else fields)"

fun delete_rules ::
  "'k kernel \<Rightarrow> string \<Rightarrow> string \<Rightarrow> string \<Rightarrow> string list \<Rightarrow> 'k \<Rightarrow> unit res \<times> 'k"
where
  "delete_rules K interfaceName table chain [] k = (Ok (), k)"
| "delete_rules K interfaceName table chain (rule # rules) k =
     (if str_Contains rule interfaceName
      then (case ipt_Delete K table chain (rule_fields rule) k of
              (Ok _, k) \<Rightarrow> delete_rules K interfaceName table chain rules k
            | (Err _, k) \<Rightarrow> (Err (Errorf ''failed to delete rule''), k)
            | (Panic, k) \<Rightarrow> (Panic, k))
      else delete_rules K interfaceName table chain rules k)"

fun delete_chain_rules ::
  "'k kernel \<Rightarrow> 'k netlink \<Rightarrow> string \<Rightarrow> (string \<times> string) list \<Rightarrow> 'k \<Rightarrow> unit res \<times> 'k"
where
  "delete_chain_rules K N interfaceName [] k = (Ok (), k)"
| "delete_chain_rules K N interfaceName ((table, chain) # rest) k =
     (case ipt_List N table chain k of
        (Ok rules, k) \<Rightarrow>
          res_bind (delete_rules K interfaceName table chain rules k)
            (\<lambda>_ k. delete_chain_rules K N interfaceName rest k)
      | (Err _, k) \<Rightarrow> (Err (Errorf ''failed to list iptables rules''), k)
      | (Panic, k) \<Rightarrow> (Panic, k))"

definition tableChains :: "(string \<times> string list) list" where
  "tableChains = [(''nat'', [''POSTROUTING'', ''DOCKER'']),
     (''filter'', [''FORWARD'', ''DOCKER-ISOLATION-STAGE-1'', ''DOCKER-ISOLATION-STAGE-2''])]"

definition deleteIptablesRules :: "'k kernel \<Rightarrow> 'k netlink \<Rightarrow> string \<Rightarrow> 'k \<Rightarrow> unit res \<times> 'k" where
  "deleteIptablesRules K N interfaceName k =
     (case iptables_New K k of
        (Ok _, k) \<Rightarrow>
          delete_chain_rules K N interfaceName
            (concat (map (\<lambda>(table, chains). map (Pair table) chains) tableChains)) k
      | (Err _, k) \<Rightarrow> (Err (Errorf ''failed to initialize iptables''), k)
      | (Panic, k) \<Rightarrow> (Panic, k))"

text \<open>Errors are logged and dropped; a panic is not caught.\<close>

definition drop_err :: "'a res \<times> 'k \<Rightarrow> ('k \<Rightarrow> unit res \<times> 'k) \<Rightarrow> unit res \<times> 'k" where
  "drop_err r f = (case r of (Panic, k) \<Rightarrow> (Panic, k) | (_, k) \<Rightarrow> f k)"

fun delete_veths ::
  "'k kernel \<Rightarrow> 'k netlink \<Rightarrow> int \<Rightarrow> LinkEntry list \<Rightarrow> 'k \<Rightarrow> unit res \<times> 'k"
where
  "delete_veths K N bridgeIndex [] k = (Ok (), k)"
| "delete_veths K N bridgeIndex (maybeVeth # rest) k =
     (if le_MasterIndex maybeVeth = bridgeIndex
      then (case le_Veth maybeVeth of
              None \<Rightarrow> delete_veths K N bridgeIndex rest k
            | Some peerName \<Rightarrow>
                (case LinkByName K peerName k of
                   (Ok peerLink, k) \<Rightarrow>
                     drop_err (LinkDel N (le_Name maybeVeth) k)
                       (\<lambda>k. drop_err (LinkDel N (l_Name peerLink) k)
                          (\<lambda>k. delete_veths K N bridgeIndex rest k))
                 | (Err _, k) \<Rightarrow> delete_veths K N bridgeIndex rest k
                 | (Panic, k) \<Rightarrow> (Panic, k)))
      else delete_veths K N bridgeIndex rest k)"

definition stale_bridge :: "(string list \<Rightarrow> string list \<Rightarrow> bool) \<Rightarrow> string list \<Rightarrow> LinkEntry \<Rightarrow> bool" where
  "stale_bridge lo_Some validBridgeInterfaces link \<longleftrightarrow>
     HasPrefix (le_Name link) ''fl-'' \<and> \<not> lo_Some validBridgeInterfaces [le_Name link]"

fun delete_stale_bridges ::
  "'k kernel \<Rightarrow> 'k netlink \<Rightarrow> (string list \<Rightarrow> string list \<Rightarrow> bool) \<Rightarrow> string list \<Rightarrow> LinkEntry list \<Rightarrow>
   LinkEntry list \<Rightarrow> 'k \<Rightarrow> unit res \<times> 'k"
where
  "delete_stale_bridges K N lo_Some valid links [] k = (Ok (), k)"
| "delete_stale_bridges K N lo_Some valid links (link # rest) k =
     (if stale_bridge lo_Some valid link
      then drop_err (delete_veths K N (le_Index link) links k)
             (\<lambda>k. drop_err (LinkDel N (le_Name link) k)
                (\<lambda>k. drop_err (deleteIptablesRules K N (le_Name link) k)
                   (\<lambda>k. delete_stale_bridges K N lo_Some valid links rest k)))
      else delete_stale_bridges K N lo_Some valid links rest k)"

definition CleanUpStaleInterfaces ::
  "'k kernel \<Rightarrow> 'k netlink \<Rightarrow> (string list \<Rightarrow> string list \<Rightarrow> bool) \<Rightarrow>
   ((string \<Rightarrow> string) \<Rightarrow> string list \<Rightarrow> string list) \<Rightarrow> string list \<Rightarrow> 'k \<Rightarrow> unit res \<times> 'k"
where
  "CleanUpStaleInterfaces K N lo_Some lo_Map validFlannelNetworkIDs k =
     res_bind (res_wrap ''error listing network interfaces when cleaning up stale networks'' (LinkList N k))
       (\<lambda>links k. delete_stale_bridges K N lo_Some (lo_Map getBridgeInterfaceName validFlannelNetworkIDs)
          links links k)"

section \<open>Pairs of virtual interfaces\<close>

record vethPair =
  vp_insideName :: string
  vp_outsideName :: string

text \<open>\<open>net.ParseMAC\<close>: 6, 8 or 20 bytes, each pair of digits after a colon or hyphen, or two pairs
  after a dot.\<close>

definition xtoi2 :: "string \<Rightarrow> char option \<Rightarrow> byte option" where
  "xtoi2 s e =
     (if length s > 2 \<and> (case e of None \<Rightarrow> True | Some c \<Rightarrow> s ! 2 \<noteq> c) then None
      else if length s \<ge> 2 \<and> list_all is_hex (take 2 s) then Some (of_nat (hex_value (take 2 s))) else None)"

fun mac_pairs :: "nat \<Rightarrow> char \<Rightarrow> string \<Rightarrow> byte list option" where
  "mac_pairs 0 sep s = Some []"
| "mac_pairs (Suc n) sep s =
     (case (xtoi2 s (Some sep), mac_pairs n sep (drop 3 s)) of
        (Some b, Some bs) \<Rightarrow> Some (b # bs) | _ \<Rightarrow> None)"

fun mac_quads :: "nat \<Rightarrow> string \<Rightarrow> byte list option" where
  "mac_quads 0 s = Some []"
| "mac_quads (Suc n) s =
     (case (xtoi2 (take 2 s) None, xtoi2 (drop 2 s) (Some CHR ''.''), mac_quads n (drop 5 s)) of
        (Some a, Some b, Some bs) \<Rightarrow> Some (a # b # bs) | _ \<Rightarrow> None)"

definition ParseMAC :: "string \<Rightarrow> byte list option" where
  "ParseMAC s =
     (if length s < 14 then None
      else if s ! 2 = CHR '':'' \<or> s ! 2 = CHR ''-''
      then (let n = (length s + 1) div 3
            in if (length s + 1) mod 3 \<noteq> 0 \<or> n \<notin> {6, 8, 20} then None else mac_pairs n (s ! 2) s)
      else if s ! 4 = CHR ''.''
      then (let n = 2 * (length s + 1) div 5
            in if (length s + 1) mod 5 \<noteq> 0 \<or> n \<notin> {6, 8, 20} then None else mac_quads (n div 2) s)
      else None)"

text \<open>The text of a random UUID is an argument; cutting a shorter text panics.\<close>

definition randomVethName :: "string \<Rightarrow> string res" where
  "randomVethName uuid =
     (let hex = filter (\<lambda>c. c \<noteq> CHR ''-'') uuid
      in if length hex < 8 then Panic else Ok (''veth'' @ take 8 hex))"

definition HydrateVethPair :: "string \<Rightarrow> string \<Rightarrow> vethPair" where
  "HydrateVethPair insideName outsideName = \<lparr>vp_insideName = insideName, vp_outsideName = outsideName\<rparr>"

definition attachInterfaceToBridge ::
  "'k kernel \<Rightarrow> 'k netlink \<Rightarrow> bridgeInterface \<Rightarrow> string \<Rightarrow> 'k \<Rightarrow> unit res \<times> 'k"
where
  "attachInterfaceToBridge K N b interfaceName k =
     (case LinkByName K (bi_interfaceName b) k of
        (Err er, k) \<Rightarrow>
          (case LinkList N k of
             (Panic, k) \<Rightarrow> (Panic, k) | (_, k) \<Rightarrow> (Err (WithMessage er ''failed to find bridge interface''), k))
      | (Panic, k) \<Rightarrow> (Panic, k)
      | (Ok bridge, k) \<Rightarrow>
          res_bind (res_wrap ''failed to find interface'' (LinkByName K interfaceName k))
            (\<lambda>iface k. res_bind
               (res_wrap ''failed to set master of interface'' (LinkSetMaster N iface bridge k))
               (\<lambda>_ k. res_wrap ''failed to set interface as UP'' (LinkSetUp K iface k))))"

definition CreateAttachedVethPair ::
  "'k kernel \<Rightarrow> 'k netlink \<Rightarrow> string \<Rightarrow> string \<Rightarrow> bridgeInterface \<Rightarrow> string \<Rightarrow> 'k \<Rightarrow> vethPair res \<times> 'k"
where
  "CreateAttachedVethPair K N uuid1 uuid2 b macAddress k =
     (case (randomVethName uuid1, randomVethName uuid2) of
        (Ok vethInsideName, Ok vethOutsideName) \<Rightarrow>
          (case ParseMAC macAddress of
             None \<Rightarrow> (Err (Foreign ''invalid MAC address''), k)
           | Some parsedMacAddress \<Rightarrow>
               res_bind (res_wrap ''failed to create veth pair''
                   (VethAdd N vethInsideName parsedMacAddress (fi_MTU (bi_network b)) vethOutsideName k))
                 (\<lambda>_ k. case attachInterfaceToBridge K N b vethOutsideName k of
                    (Ok _, k) \<Rightarrow> (Ok (HydrateVethPair vethInsideName vethOutsideName), k)
                  | (Err er, k) \<Rightarrow>
                      (case LinkDel N vethInsideName k of
                         (Panic, k) \<Rightarrow> (Panic, k)
                       | (_, k) \<Rightarrow> (Err (WithMessage er ''failed to attach veth to bridge''), k))
                  | (Panic, k) \<Rightarrow> (Panic, k)))
      | _ \<Rightarrow> (Panic, k))"

definition veth_Delete :: "'k kernel \<Rightarrow> 'k netlink \<Rightarrow> vethPair \<Rightarrow> 'k \<Rightarrow> unit res \<times> 'k" where
  "veth_Delete K N v k =
     res_bind (res_wrap ''failed to find interface'' (LinkByName K (vp_outsideName v) k))
       (\<lambda>iface k. res_wrap ''failed to delete interface'' (LinkDel N (l_Name iface) k))"

section \<open>What the further calls promise\<close>

definition rule_text :: "IptablesRule \<Rightarrow> string" where
  "rule_text r = join_with '' '' (''-A'' # Chain r # RuleSpec r)"

locale netlink_service = kernel_service K view for K :: "'k kernel" and view :: "'k \<Rightarrow> kview" +
  fixes N :: "'k netlink"
  assumes RouteAdd_view: "view (snd (RouteAdd N r k)) = view k"
    and RouteReplace_view: "view (snd (RouteReplace N r k)) = view k"
    and RouteDel_view: "view (snd (RouteDel N r k)) = view k"
    and LinkDel_Ok: "LinkDel N n k = (Ok u, k') \<Longrightarrow>
      kv_links (view k') n = None \<and> kv_rules (view k') = kv_rules (view k)"
    and ExecuteLinkPatch_Ok: "ExecuteLinkPatch N p k = (Ok u, k') \<Longrightarrow> view k' =
      (view k)\<lparr>kv_links := \<lambda>n. map_option (\<lambda>l. if LinkIndex N l = lp_Index p \<and> lp_Up p then l\<lparr>l_Up := True\<rparr> else l)
        (kv_links (view k) n)\<rparr>"
    and ipt_List_Ok: "ipt_List N t c k = (Ok lines, k') \<Longrightarrow> view k' = view k
      \<and> (\<forall>r \<in> kv_rules (view k). Table r = t \<and> Chain r = c \<longrightarrow> rule_text r \<in> set lines)"
begin

lemma set_route_Ok: "set_route N r k = (Ok u, k') \<Longrightarrow> view k' = view k"
  using RouteAdd_view [of r k] RouteReplace_view [of r]
  by (auto simp: set_route_def split: prod.splits res.splits if_splits) (metis snd_conv)+

lemma bridge_Ensure_Ok:
  assumes "bridge_Ensure K N b k = ((Ok u, b'), k')"
  shows "\<exists>l a. kv_links (view k') (bi_interfaceName b) = Some l \<and> l_Name l = bi_interfaceName b \<and> l_MTU l = fi_MTU (bi_network b) \<and> l_Up l
      \<and> ParseAddr K (ip_String (fi_LocalGateway (bi_network b)) @ ''/''
            @ FormatUint (fst (mask_Size (ipnet_Mask (fi_HostSubnet (bi_network b)))))) = Ok a
      \<and> kv_addrs (view k') (bi_interfaceName b) = {addr_text a}"
    and "kv_rules (view k') = kv_rules (view k) \<union> set (bi_iptablesRules b)"
    and "\<exists>r. b' = b\<lparr>bi_route := r\<rparr>"
proof -
  let ?ip = "ip_String (fi_LocalGateway (bi_network b)) @ ''/''
    @ FormatUint (fst (mask_Size (ipnet_Mask (fi_HostSubnet (bi_network b)))))"
  obtain bridge k1 u2 k2 u3 k3 u4 k4 where
    1: "EnsureInterface K (bi_interfaceName b) ''bridge'' (fi_MTU (bi_network b)) True k = (Ok bridge, k1)"
    and 2: "ReplaceIPsOfInterface K bridge [?ip] k1 = (Ok u2, k2)"
    and 3: "patchBridge N bridge k2 = (Ok u3, k3)"
    and 4: "set_route N (getRoute N (bi_network b) bridge) k3 = (Ok u4, k4)"
    and 5: "ApplyIpTablesRules K (bi_iptablesRules b) ''create'' k4 = (Ok u, k')"
    and b': "b' = b\<lparr>bi_route := getRoute N (bi_network b) bridge\<rparr>"
    using assms unfolding bridge_Ensure_def Let_def
    by (auto simp: res_bind_Ok_iff split: prod.splits res.splits)
  obtain l where l: "kv_links (view k1) (bi_interfaceName b) = Some l" "l_Name l = bi_interfaceName b" "l_MTU l = fi_MTU (bi_network b)" "l_Up l"
    "view k1 = (view k)\<lparr>kv_links := (kv_links (view k))(bi_interfaceName b \<mapsto> l)\<rparr>"
    using EnsureInterface_Ok(1) [OF 1] by auto
  note nm = EnsureInterface_Ok(2) [OF 1]
  obtain parsed where p: "parse_addrs K [?ip] = Ok parsed"
    "view k2 = set_addrs (l_Name bridge) (\<lambda>_. addr_text ` set parsed) (view k1)"
    using ReplaceIPsOfInterface_Ok [OF 2] by blast
  have slash: "with_mask ?ip = ?ip" by (simp add: with_mask_def str_Contains_char)
  obtain a where a: "ParseAddr K ?ip = Ok a" "parsed = [a]"
    using p(1) unfolding parse_addrs.simps slash by (auto split: res.splits)
  note v3 = ExecuteLinkPatch_Ok [OF 3 [unfolded patchBridge_def]] and v4 = set_route_Ok [OF 4]
    and v5 = ApplyIpTablesRules_Ok(2) [OF 5 refl]
  show "\<exists>l a. kv_links (view k') (bi_interfaceName b) = Some l \<and> l_Name l = bi_interfaceName b \<and> l_MTU l = fi_MTU (bi_network b) \<and> l_Up l
      \<and> ParseAddr K ?ip = Ok a \<and> kv_addrs (view k') (bi_interfaceName b) = {addr_text a}"
    using l p(2) v3 v4 v5 a nm by (auto simp: set_addrs_def)
  show "kv_rules (view k') = kv_rules (view k) \<union> set (bi_iptablesRules b)"
    using l(5) p(2) v3 v4 v5 by (simp add: set_addrs_def)
  show "\<exists>r. b' = b\<lparr>bi_route := r\<rparr>" using b' by blast
qed

lemma bridge_Delete_Ok:
  assumes "bridge_Delete K N b k = (Ok u, k')"
  shows "kv_rules (view k') = kv_rules (view k) - set (bi_iptablesRules b)"
    "kv_links (view k') (bi_interfaceName b) = None"
proof -
  obtain bridge k1 u2 k2 u3 k3 where 1: "LinkByName K (bi_interfaceName b) k = (Ok bridge, k1)"
    and 2: "ApplyIpTablesRules K (bi_iptablesRules b) ''delete'' k1 = (Ok u2, k2)"
    and 3: "RouteDel N (bi_route b) k2 = (Ok u3, k3)" and 4: "LinkDel N (l_Name bridge) k3 = (Ok u, k')"
    using assms by (auto simp: bridge_Delete_def res_bind_Ok_iff)
  have v: "view k1 = view k" "view k3 = view k2" "l_Name bridge = bi_interfaceName b"
    using LinkByName_view [of "bi_interfaceName b" k] RouteDel_view [of "bi_route b" k2] 1 3 LinkByName_Ok [OF 1]
    by simp_all
  show "kv_rules (view k') = kv_rules (view k) - set (bi_iptablesRules b)"
    "kv_links (view k') (bi_interfaceName b) = None"
    using LinkDel_Ok [OF 4] ApplyIpTablesRules_Ok(3) [OF 2 refl] v by simp_all
qed

lemma delete_rules_Ok:
  "delete_rules K n t c rules k = (Ok u, k') \<Longrightarrow>
   kv_rules (view k') \<subseteq> kv_rules (view k)
   \<and> (\<forall>line \<in> set rules. str_Contains line n \<longrightarrow> the_rule t c (rule_fields line) \<notin> kv_rules (view k'))"
proof (induction rules arbitrary: k)
  case (Cons line rules)
  show ?case
  proof (cases "str_Contains line n")
    case True
    then obtain v k1 where 1: "ipt_Delete K t c (rule_fields line) k = (Ok v, k1)"
      "delete_rules K n t c rules k1 = (Ok u, k')"
      using Cons.prems by (auto split: prod.splits res.splits)
    show ?thesis using Cons.IH [OF 1(2)] ipt_Delete_Ok [OF 1(1)] by auto
  next
    case False
    then show ?thesis using Cons.IH Cons.prems by simp
  qed
qed simp

lemma delete_chain_rules_Ok:
  "delete_chain_rules K N n tcs k = (Ok u, k') \<Longrightarrow>
   kv_rules (view k') \<subseteq> kv_rules (view k)
   \<and> (\<forall>r. (Table r, Chain r) \<in> set tcs \<and> str_Contains (rule_text r) n \<and> rule_fields (rule_text r) = RuleSpec r
        \<longrightarrow> r \<notin> kv_rules (view k'))"
proof (induction tcs arbitrary: k)
  case (Cons tc tcs)
  obtain t c where tc: "tc = (t, c)" by force
  obtain lines k1 v k2 where 1: "ipt_List N t c k = (Ok lines, k1)" "delete_rules K n t c lines k1 = (Ok v, k2)"
    "delete_chain_rules K N n tcs k2 = (Ok u, k')"
    using Cons.prems by (auto simp: tc res_bind_Ok_iff split: prod.splits res.splits)
  note L = ipt_List_Ok [OF 1(1)] and D = delete_rules_Ok [OF 1(2)] and R = Cons.IH [OF 1(3)]
  have "r \<notin> kv_rules (view k2)"
    if "Table r = t" "Chain r = c" "str_Contains (rule_text r) n" "rule_fields (rule_text r) = RuleSpec r" for r
  proof
    assume r: "r \<in> kv_rules (view k2)"
    then have "rule_text r \<in> set lines" using L D that(1,2) by auto
    then have "the_rule t c (RuleSpec r) \<notin> kv_rules (view k2)" using D that(3,4) by metis
    then show False using r that(1,2) by (cases r) simp
  qed
  then show ?case using L D R by (auto simp: tc)
qed simp

lemma deleteIptablesRules_Ok:
  assumes "deleteIptablesRules K N n k = (Ok u, k')"
    "(Table r, Chain r) \<in> set (concat (map (\<lambda>(table, chains). map (Pair table) chains) tableChains))"
    "str_Contains (rule_text r) n" "rule_fields (rule_text r) = RuleSpec r"
  shows "r \<notin> kv_rules (view k')"
proof -
  obtain v k1 where "delete_chain_rules K N n
      (concat (map (\<lambda>(table, chains). map (Pair table) chains) tableChains)) k1 = (Ok v, k')"
    using assms(1) by (auto simp: deleteIptablesRules_def split: prod.splits res.splits)
  from delete_chain_rules_Ok [OF this] assms(2-4) show ?thesis by blast
qed

end

section \<open>A concrete kernel\<close>

definition mem_netlink :: "kmem netlink" where
  "mem_netlink = \<lparr>
     SCOPE_LINK = 253, RTPROT_KERNEL = 2, LinkIndex = \<lambda>_. 1,
     RouteAdd = \<lambda>r k. (Ok (), k), RouteReplace = \<lambda>r k. (Ok (), k), RouteDel = \<lambda>r k. (Ok (), k),
     LinkDel = \<lambda>n k. when_ok (map_of (km_links k) n \<noteq> None) ''no such device''
       (k\<lparr>km_links := gomap_delete (km_links k) n\<rparr>) k,
     LinkList = \<lambda>k. (Ok (map (\<lambda>(n, l). \<lparr>le_Name = n, le_Index = 1, le_MasterIndex = 0, le_Veth = None\<rparr>) (km_links k)), k),
     LinkSetMaster = \<lambda>l m k. (Ok (), k),
     VethAdd = \<lambda>n mac mtu peer k. (Ok (), k\<lparr>km_links :=
       gomap_set (gomap_set (km_links k) n \<lparr>l_Name = n, l_Type = ''veth'', l_MTU = mtu, l_Up = False\<rparr>)
         peer \<lparr>l_Name = peer, l_Type = ''veth'', l_MTU = mtu, l_Up = False\<rparr>\<rparr>),
     ExecuteLinkPatch = \<lambda>p k. (Ok (), k\<lparr>km_links := map (\<lambda>(n, l).
       (n, if 1 = lp_Index p \<and> lp_Up p then l\<lparr>l_Up := True\<rparr> else l)) (km_links k)\<rparr>),
     ipt_List = \<lambda>t c k. (Ok ([''-N '' @ c] @ map rule_text (filter (\<lambda>r. Table r = t \<and> Chain r = c) (km_rules k))), k)\<rparr>"

interpretation mem_netlink: netlink_service mem_kernel mem_kview mem_netlink
  by unfold_locales (auto simp: mem_netlink_def mem_kview_def when_ok_def map_of_map fun_eq_iff split: if_splits)

section \<open>Properties\<close>

text \<open>
  C11: The life of a bridge. After \<open>Ensure\<close> the interface is there and up, with the MTU of the
  network, with the gateway as its only address, and with its eight rules; \<open>Delete\<close> then removes the
  interface and exactly these rules, so that a host without them has its rules as before.
\<close>

theorem bridge_lifecycle:
  assumes "netlink_service K view N" "bridge_Ensure K N (NewBridgeInterface info) k = ((Ok (), b), k1)"
    "bridge_Delete K N b k1 = (Ok (), k2)"
    "kv_rules (view k) \<inter> set (getIptablesRules (getBridgeInterfaceName (fi_FlannelID info)) (fi_HostSubnet info)) = {}"
  shows "(\<exists>l a. kv_links (view k1) (getBridgeInterfaceName (fi_FlannelID info)) = Some l
        \<and> l_MTU l = fi_MTU info \<and> l_Up l
        \<and> ParseAddr K (ip_String (fi_LocalGateway info) @ ''/''
             @ FormatUint (fst (mask_Size (ipnet_Mask (fi_HostSubnet info))))) = Ok a
        \<and> kv_addrs (view k1) (getBridgeInterfaceName (fi_FlannelID info)) = {addr_text a})
    \<and> set (getIptablesRules (getBridgeInterfaceName (fi_FlannelID info)) (fi_HostSubnet info)) \<subseteq> kv_rules (view k1)
    \<and> kv_links (view k2) (getBridgeInterfaceName (fi_FlannelID info)) = None
    \<and> kv_rules (view k2) = kv_rules (view k)"
proof -
  let ?b = "NewBridgeInterface info"
  have f: "bi_interfaceName ?b = getBridgeInterfaceName (fi_FlannelID info)" "bi_network ?b = info"
    "bi_iptablesRules ?b = getIptablesRules (getBridgeInterfaceName (fi_FlannelID info)) (fi_HostSubnet info)"
    by (simp_all add: NewBridgeInterface_def Let_def)
  note E = netlink_service.bridge_Ensure_Ok [OF assms(1,2), unfolded f]
    and D = netlink_service.bridge_Delete_Ok [OF assms(1,3)]
  have b: "bi_interfaceName b = bi_interfaceName ?b" "bi_iptablesRules b = bi_iptablesRules ?b" using E(3) by auto
  show ?thesis using E(1,2) D assms(4) unfolding b f by blast
qed

definition demo_info :: "string \<Rightarrow> FlannelNetworkInfo" where
  "demo_info i = \<lparr>fi_FlannelID = i, fi_MTU = 1450, fi_Network = \<lparr>ipnet_IP = [10, 1, 0, 0], ipnet_Mask = [255, 255, 0, 0]\<rparr>,
     fi_HostSubnet = \<lparr>ipnet_IP = [10, 1, 2, 0], ipnet_Mask = [255, 255, 255, 0]\<rparr>, fi_LocalGateway = [10, 1, 2, 1]\<rparr>"

lemma mem_apply_delete:
  "distinct rules \<Longrightarrow> set rules \<subseteq> set (km_rules k) \<Longrightarrow>
   \<exists>k'. apply_rules (ipt_Delete mem_kernel) rules k = (Ok (), k') \<and> km_links k' = km_links k"
proof (induction rules arbitrary: k)
  case (Cons r rules)
  let ?k = "k\<lparr>km_rules := filter (\<lambda>x. x \<noteq> r) (km_rules k)\<rparr>"
  have "ipt_Delete mem_kernel (Table r) (Chain r) (RuleSpec r) k = (Ok (), ?k)"
    using Cons.prems by (cases r) (simp add: mem_kernel_def when_ok_def)
  moreover have "distinct rules" "set rules \<subseteq> set (km_rules ?k)" using Cons.prems by auto
  ultimately show ?case using Cons.IH [of ?k] by simp
qed simp

lemma mem_bridge_Delete_run:
  assumes "map_of (km_links k) (bi_interfaceName b) = Some l" "l_Name l = bi_interfaceName b"
    "distinct (bi_iptablesRules b)" "set (bi_iptablesRules b) \<subseteq> set (km_rules k)"
  shows "\<exists>k'. bridge_Delete mem_kernel mem_netlink b k = (Ok (), k')"
proof -
  obtain k' where "apply_rules (ipt_Delete mem_kernel) (bi_iptablesRules b) k = (Ok (), k')"
    "km_links k' = km_links k"
    using mem_apply_delete [OF assms(3,4)] by blast
  then have "ApplyIpTablesRules mem_kernel (bi_iptablesRules b) ''delete'' k = (Ok (), k')"
    by (simp add: ApplyIpTablesRules_def) (simp add: mem_kernel_def)
  moreover have "LinkByName mem_kernel (bi_interfaceName b) k = (Ok l, k)"
    using assms(1,2) by (simp add: mem_kernel_def)
  ultimately show ?thesis
    using assms(1,2) \<open>km_links k' = km_links k\<close>
    by (simp add: bridge_Delete_def) (simp add: mem_netlink_def when_ok_def)
qed

lemma mem_apply_create: "fst (apply_rules (AppendUnique mem_kernel) rules k) = Ok ()"
  by (induction rules arbitrary: k) (simp_all add: mem_kernel_def)

lemma mem_bridge_Ensure_run:
  assumes "fst (res_bind (EnsureInterface mem_kernel (bi_interfaceName b) ''bridge'' (fi_MTU (bi_network b)) True k)
    (\<lambda>bridge. ReplaceIPsOfInterface mem_kernel bridge [ip_String (fi_LocalGateway (bi_network b)) @ ''/''
      @ FormatUint (fst (mask_Size (ipnet_Mask (fi_HostSubnet (bi_network b)))))])) = Ok ()"
  shows "fst (fst (bridge_Ensure mem_kernel mem_netlink b k)) = Ok ()"
proof -
  let ?ip = "ip_String (fi_LocalGateway (bi_network b)) @ ''/''
    @ FormatUint (fst (mask_Size (ipnet_Mask (fi_HostSubnet (bi_network b)))))"
  obtain bridge k1 k2 where r:
    "EnsureInterface mem_kernel (bi_interfaceName b) ''bridge'' (fi_MTU (bi_network b)) True k = (Ok bridge, k1)"
    "ReplaceIPsOfInterface mem_kernel bridge [?ip] k1 = (Ok (), k2)"
    using assms by (cases "EnsureInterface mem_kernel (bi_interfaceName b) ''bridge'' (fi_MTU (bi_network b)) True k";
      cases "fst (EnsureInterface mem_kernel (bi_interfaceName b) ''bridge'' (fi_MTU (bi_network b)) True k)")
      (auto intro: prod.collapse [symmetric] simp: prod_eq_iff)
  have p: "\<exists>k'. patchBridge mem_netlink bridge k2 = (Ok (), k')"
    by (simp add: patchBridge_def mem_netlink_def)
  then obtain k3 where p: "patchBridge mem_netlink bridge k2 = (Ok (), k3)" by blast
  have s: "set_route mem_netlink route k3 = (Ok (), k3)" for route
    by (simp add: set_route_def mem_netlink_def)
  have a: "fst (ApplyIpTablesRules mem_kernel rules ''create'' k3) = Ok ()" for rules
    using mem_apply_create [of rules k3] by (simp add: ApplyIpTablesRules_def) (simp add: mem_kernel_def)
  obtain k4 where "ApplyIpTablesRules mem_kernel (bi_iptablesRules b) ''create'' k3 = (Ok (), k4)"
    using a by (metis prod.collapse)
  then show ?thesis using r p s unfolding bridge_Ensure_def Let_def by simp
qed

lemma bridge_rules_distinct: "distinct (getIptablesRules n s)"
  by (simp add: getIptablesRules_def)

lemma bridge_lifecycle_witness:
  "\<exists>b k1 k2. bridge_Ensure mem_kernel mem_netlink (NewBridgeInterface (demo_info ''web'')) kmem_empty = ((Ok (), b), k1)
     \<and> bridge_Delete mem_kernel mem_netlink b k1 = (Ok (), k2)
     \<and> kv_links (mem_kview k1) ''fl-web'' \<noteq> None \<and> kv_links (mem_kview k2) ''fl-web'' = None
     \<and> kv_rules (mem_kview k2) = {}"
proof -
  let ?b = "NewBridgeInterface (demo_info ''web'')"
  have "fst (res_bind (EnsureInterface mem_kernel (getBridgeInterfaceName (fi_FlannelID (demo_info ''web''))) ''bridge'' 1450 True kmem_empty)
      (\<lambda>bridge. ReplaceIPsOfInterface mem_kernel bridge
        [ip_String (fi_LocalGateway (demo_info ''web'')) @ ''/''
         @ FormatUint (fst (mask_Size (ipnet_Mask (fi_HostSubnet (demo_info ''web'')))))])) = Ok ()" by code_simp
  then have "fst (fst (bridge_Ensure mem_kernel mem_netlink ?b kmem_empty)) = Ok ()"
    by (intro mem_bridge_Ensure_run) (simp add: NewBridgeInterface_def Let_def, simp add: demo_info_def)
  then obtain b k1 where eb: "bridge_Ensure mem_kernel mem_netlink ?b kmem_empty = ((Ok (), b), k1)"
    by (metis prod.collapse)
  note E = mem_netlink.bridge_Ensure_Ok [OF eb]
  have n: "getBridgeInterfaceName (fi_FlannelID (demo_info ''web'')) = ''fl-web''" by code_simp
  have b: "bi_interfaceName b = bi_interfaceName ?b" "bi_iptablesRules b = bi_iptablesRules ?b" using E(3) by auto
  obtain k2 where dk: "bridge_Delete mem_kernel mem_netlink b k1 = (Ok (), k2)"
    using mem_bridge_Delete_run [of k1 b] E(1,2) b bridge_rules_distinct
    by (auto simp: mem_kview_def NewBridgeInterface_def Let_def)
  have "kv_rules (mem_kview kmem_empty) = {}" by (simp add: mem_kview_def kmem_empty_def)
  then show ?thesis
    using bridge_lifecycle [OF mem_netlink.netlink_service_axioms eb dk] eb dk unfolding n by auto
qed

text \<open>The fields of a rule that was printed are those it was made of, when they are words.\<close>

definition word :: "string \<Rightarrow> bool" where
  "word f \<longleftrightarrow> f \<noteq> [] \<and> \<not> list_ex is_space f"

lemma str_Fields_from_word:
  "\<not> list_ex is_space f \<Longrightarrow> str_Fields_from cur (f @ s) = str_Fields_from (rev f @ cur) s"
  by (induction f arbitrary: cur) simp_all

lemma str_Fields_join: "list_all word fs \<Longrightarrow> str_Fields (join_with '' '' fs) = fs"
proof (induction "'' ''" fs rule: join_with.induct)
  case (2 x)
  then show ?case using str_Fields_from_word [of x "[]" "[]"] by (simp add: str_Fields_def word_def)
next
  case (3 x y zs)
  then show ?case
    using str_Fields_from_word [of x "[]" "CHR '' '' # join_with '' '' (y # zs)"]
    by (simp add: str_Fields_def word_def is_space_def)
qed (simp add: str_Fields_def)

lemma rule_fields_text:
  assumes "list_all word (Chain r # RuleSpec r)" "RuleSpec r \<noteq> []"
  shows "rule_fields (rule_text r) = RuleSpec r"
proof -
  have "word ''-A''" by (simp add: word_def is_space_def)
  then have "str_Fields (rule_text r) = ''-A'' # Chain r # RuleSpec r"
    unfolding rule_text_def using assms(1) by (intro str_Fields_join) simp
  then show ?thesis using assms(2) by (cases "RuleSpec r") (simp_all add: rule_fields_def Let_def)
qed

lemma str_Contains_iff: "str_Contains s sub \<longleftrightarrow> (\<exists>a b. s = a @ sub @ b)"
proof (induction s)
  case Nil
  then show ?case by (auto simp: HasPrefix_iff)
next
  case (Cons c s)
  show ?case
  proof
    assume "str_Contains (c # s) sub"
    then show "\<exists>a b. c # s = a @ sub @ b"
      using Cons.IH by (auto simp: HasPrefix_iff) (metis append_Cons append_Nil)+
  next
    assume "\<exists>a b. c # s = a @ sub @ b"
    then obtain a b where ab: "c # s = a @ sub @ b" by blast
    show "str_Contains (c # s) sub"
    proof (cases a)
      case Nil
      then have "HasPrefix (c # s) sub" using ab by (auto simp: HasPrefix_iff)
      then show ?thesis by simp
    next
      case (Cons d a')
      then show ?thesis using ab \<open>str_Contains s sub \<longleftrightarrow> (\<exists>a b. s = a @ sub @ b)\<close> by auto
    qed
  qed
qed

lemma str_Contains_join:
  assumes "x \<in> set fs" "str_Contains x sub"
  shows "str_Contains (join_with sep fs) sub"
proof -
  have "\<exists>a b. join_with sep fs = a @ x @ b" using assms(1)
  proof (induction sep fs rule: join_with.induct)
    case (3 sep y z zs)
    show ?case
    proof (cases "x = y")
      case True
      then show ?thesis by (metis append_Nil join_with.simps(3))
    next
      case False
      then obtain a b where "join_with sep (z # zs) = a @ x @ b" using 3 by auto
      then show ?thesis by (intro exI [of _ "y @ sep @ a"] exI [of _ b]) simp
    qed
  qed (auto intro: exI [of _ "[]"])
  then show ?thesis using assms(2) unfolding str_Contains_iff by (metis append.assoc)
qed

lemma bridge_rules_listed:
  "list_all (\<lambda>r. (Table r, Chain r) \<in> set (concat (map (\<lambda>(table, chains). map (Pair table) chains) tableChains))
     \<and> n \<in> set (RuleSpec r)) (getIptablesRules n s)"
  by (simp add: getIptablesRules_def tableChains_def)

lemma bridge_rule_words:
  "word n \<Longrightarrow> word (ipnet_String s) \<Longrightarrow>
   list_all (\<lambda>r. list_all word (Chain r # RuleSpec r) \<and> RuleSpec r \<noteq> []) (getIptablesRules n s)"
  by (simp add: getIptablesRules_def word_def is_space_def)

text \<open>
  The clean-up of a stale bridge looks for its name anywhere in the text of a rule. When the
  identifier of a network in use begins with that of the stale one, a successful clean-up deletes
  every rule of the bridge in use.
\<close>

theorem stale_cleanup_hits_other_network:
  assumes "netlink_service K view N" "HasPrefix live stale" "word live" "word (ipnet_String subnet)"
    "deleteIptablesRules K N (getBridgeInterfaceName stale) k = (Ok (), k')"
  shows "set (getIptablesRules (getBridgeInterfaceName live) subnet) \<inter> kv_rules (view k') = {}"
proof -
  have nm: "getBridgeInterfaceName i = take 15 (''fl-'' @ i)" for i
    by (auto simp: getBridgeInterfaceName_def GetInterfaceName_def maxInterfaceNameLength_def Let_def)
  obtain t where t: "live = stale @ t" using assms(2) by (auto simp: HasPrefix_iff)
  have "HasPrefix (getBridgeInterfaceName live) (getBridgeInterfaceName stale)"
    unfolding nm t HasPrefix_iff by (metis append_assoc take_append)
  then have c: "str_Contains (getBridgeInterfaceName live) (getBridgeInterfaceName stale)"
    unfolding str_Contains_iff HasPrefix_iff by (metis append_Nil)
  have w: "word (getBridgeInterfaceName live)"
    using assms(3) unfolding nm word_def list_ex_iff
    by (auto simp: is_space_def dest!: in_set_takeD)
  have "r \<notin> kv_rules (view k')" if r: "r \<in> set (getIptablesRules (getBridgeInterfaceName live) subnet)" for r
  proof (rule netlink_service.deleteIptablesRules_Ok [OF assms(1,5)])
    have L: "(Table r, Chain r) \<in> set (concat (map (\<lambda>(table, chains). map (Pair table) chains) tableChains))"
      "getBridgeInterfaceName live \<in> set (RuleSpec r)"
      using bridge_rules_listed [of "getBridgeInterfaceName live" subnet] r unfolding list_all_iff by blast+
    have W: "list_all word (Chain r # RuleSpec r)" "RuleSpec r \<noteq> []"
      using bridge_rule_words [OF w assms(4)] r unfolding list_all_iff by blast+
    show "(Table r, Chain r) \<in> set (concat (map (\<lambda>(table, chains). map (Pair table) chains) tableChains))"
      by (fact L(1))
    show "str_Contains (rule_text r) (getBridgeInterfaceName stale)"
      unfolding rule_text_def using L by (intro str_Contains_join [OF _ c]) simp
    show "rule_fields (rule_text r) = RuleSpec r"
      by (rule rule_fields_text [OF W])
  qed
  then show ?thesis by blast
qed

definition demo_rule :: IptablesRule where
  "demo_rule = the_rule ''filter'' ''FORWARD'' [''-o'', ''fl-web2'', ''-j'', ''DOCKER'']"

lemma stale_cleanup_hits_other_network_witness:
  "demo_rule \<in> set (getIptablesRules (getBridgeInterfaceName ''web2'') (fi_HostSubnet (demo_info ''web2'')))
   \<and> demo_rule \<notin> kv_rules (mem_kview (snd (deleteIptablesRules mem_kernel mem_netlink (getBridgeInterfaceName ''web'')
       (kmem_empty\<lparr>km_rules := [demo_rule]\<rparr>))))"
proof -
  let ?s = "fi_HostSubnet (demo_info ''web2'')" and ?k = "kmem_empty\<lparr>km_rules := [demo_rule]\<rparr>"
  have "fst (deleteIptablesRules mem_kernel mem_netlink (getBridgeInterfaceName ''web'') ?k) = Ok ()" by code_simp
  then obtain k' where k': "deleteIptablesRules mem_kernel mem_netlink (getBridgeInterfaceName ''web'') ?k = (Ok (), k')"
    by (metis prod.collapse)
  have "ipnet_String ?s = ''10.1.2.0/24''" by code_simp
  then have w: "word (ipnet_String ?s)" "word ''web2''" "HasPrefix ''web2'' ''web''"
    by (simp_all add: word_def is_space_def HasPrefix_def)
  have "getBridgeInterfaceName ''web2'' = ''fl-web2''" by code_simp
  then have r: "demo_rule \<in> set (getIptablesRules (getBridgeInterfaceName ''web2'') ?s)"
    by (simp add: getIptablesRules_def demo_rule_def)
  show ?thesis
    using stale_cleanup_hits_other_network [OF mem_netlink.netlink_service_axioms w(3,2,1) k'] r k' by auto
qed

end
