(* ===== verification/Flannel_Endpoint.thy ===== *)
theory Flannel_Endpoint
  imports Bridge Etcd_Stores
begin

text \<open>
  \<open>plugin/pkg/flannel_network/endpoint.go\<close>: an endpoint of a container in a network, with its record
  in etcd. JSON is the argument \<open>C\<close>; the endpoint's client and bridge are interfaces that are nil in
  a zero value, so a call on them panics then. \<open>maps.Values\<close> and \<open>lo.Map\<close> together are the argument \<open>lo_values\<close>.
\<close>

section \<open>State\<close>

record endpointInfo =
  ei_ID :: string
  ei_IpAddress :: net_ip
  ei_MacAddress :: string
  ei_VethInside :: string
  ei_VethOutside :: string

record endpoint =
  ep_id :: string
  ep_ipAddress :: net_ip
  ep_macAddress :: string
  ep_vethPair :: "vethPair option"
  ep_sandboxKey :: string
  ep_etcdClient :: "etcdClient option"
  ep_bridge :: "bridgeInterface option"

record endpointJson =
  ej_IPAddress :: string
  ej_MacAddress :: string
  ej_VethInside :: string
  ej_VethOutside :: string
  ej_SandboxKey :: string

definition zero_endpoint :: endpoint where
  "zero_endpoint = \<lparr>ep_id = [], ep_ipAddress = [], ep_macAddress = [], ep_vethPair = None, ep_sandboxKey = [],
     ep_etcdClient = None, ep_bridge = None\<rparr>"

definition endpoint_MarshalJSON :: "endpointJson codec \<Rightarrow> endpoint \<Rightarrow> string option" where
  "endpoint_MarshalJSON C ep =
     Marshal C \<lparr>ej_IPAddress = ip_String (ep_ipAddress ep), ej_MacAddress = ep_macAddress ep,
       ej_VethInside = (case ep_vethPair ep of None \<Rightarrow> [] | Some v \<Rightarrow> vp_insideName v),
       ej_VethOutside = (case ep_vethPair ep of None \<Rightarrow> [] | Some v \<Rightarrow> vp_outsideName v),
       ej_SandboxKey = ep_sandboxKey ep\<rparr>"

definition endpointKey :: "etcdClient \<Rightarrow> string \<Rightarrow> string" where
  "endpointKey client i = GetKey client [i]"

definition endpoint_GetInfo :: "endpoint \<Rightarrow> endpointInfo" where
  "endpoint_GetInfo ep =
     \<lparr>ei_ID = ep_id ep, ei_IpAddress = ep_ipAddress ep, ei_MacAddress = ep_macAddress ep,
      ei_VethInside = (case ep_vethPair ep of None \<Rightarrow> [] | Some v \<Rightarrow> vp_insideName v),
      ei_VethOutside = (case ep_vethPair ep of None \<Rightarrow> [] | Some v \<Rightarrow> vp_outsideName v)\<rparr>"

section \<open>The record in etcd\<close>

definition with_client ::
  "'e etcd \<Rightarrow> endpoint \<Rightarrow> (etcdClient \<Rightarrow> 'e \<Rightarrow> 'a res \<times> 'e) \<Rightarrow> 'e \<Rightarrow> 'a res \<times> 'e"
where
  "with_client E ep fn e =
     (case ep_etcdClient ep of None \<Rightarrow> (Panic, e) | Some client \<Rightarrow> WithConnection E (fn client) e)"

definition writeToEtcd :: "'e etcd \<Rightarrow> endpointJson codec \<Rightarrow> endpoint \<Rightarrow> bool \<Rightarrow> 'e \<Rightarrow> unit res \<times> 'e" where
  "writeToEtcd E C ep create e =
     with_client E ep (\<lambda>client e.
       case endpoint_MarshalJSON C ep of
         None \<Rightarrow> (Err (Errorf ''error saving endpoint data as JSON''), e)
       | Some endpointData \<Rightarrow>
           let key = endpointKey client (ep_id ep)
           in if create
              then res_bind (Txn E [CreateRevisionIs0 key] [OpPut key endpointData] [] e)
                     (\<lambda>(succeeded, _) e. if \<not> succeeded then (Err (Errorf ''endpoint key already exists''), e)
                                          else (Ok (), e))
              else Put E key endpointData e) e"

definition NewEndpoint ::
  "'e etcd \<Rightarrow> endpointJson codec \<Rightarrow> etcdClient \<Rightarrow> string \<Rightarrow> net_ip \<Rightarrow> string \<Rightarrow> bridgeInterface option \<Rightarrow> 'e \<Rightarrow>
   endpoint res \<times> 'e"
where
  "NewEndpoint E C etcdClient i ipAddress macAddress bridge e =
     (let ep = \<lparr>ep_id = i, ep_ipAddress = ipAddress, ep_macAddress = macAddress, ep_vethPair = None,
                ep_sandboxKey = [], ep_etcdClient = Some etcdClient, ep_bridge = bridge\<rparr>
      in res_bind (res_wrap ''error storing endpoint info for endpoint'' (writeToEtcd E C ep True e))
           (\<lambda>_ e. (Ok ep, e)))"

section \<open>Joining and leaving a sandbox\<close>

type_synonym ('k, 'e) endpoint_result = "(unit res \<times> endpoint) \<times> 'k \<times> 'e"

text \<open>The endpoint changes before it is stored, and keeps the change when storing fails.\<close>

definition endpoint_Join ::
  "'k kernel \<Rightarrow> 'k netlink \<Rightarrow> 'e etcd \<Rightarrow> endpointJson codec \<Rightarrow> string \<Rightarrow> string \<Rightarrow> endpoint \<Rightarrow> string \<Rightarrow> 'k \<Rightarrow> 'e \<Rightarrow>
   ('k, 'e) endpoint_result"
where
  "endpoint_Join K N E C uuid1 uuid2 ep sandboxKey k e =
     (case ep_bridge ep of
        None \<Rightarrow> ((Panic, ep), k, e)
      | Some bridge \<Rightarrow>
          (case CreateAttachedVethPair K N uuid1 uuid2 bridge (ep_macAddress ep) k of
             (Err er, k) \<Rightarrow> ((Err er, ep), k, e)
           | (Panic, k) \<Rightarrow> ((Panic, ep), k, e)
           | (Ok vethPair, k) \<Rightarrow>
               let ep = ep\<lparr>ep_sandboxKey := sandboxKey, ep_vethPair := Some vethPair\<rparr>
               in case res_wrap ''error storing veth pair for endpoint'' (writeToEtcd E C ep False e) of
                    (r, e) \<Rightarrow> ((r, ep), k, e)))"

definition endpoint_Leave ::
  "'k kernel \<Rightarrow> 'k netlink \<Rightarrow> 'e etcd \<Rightarrow> endpointJson codec \<Rightarrow> endpoint \<Rightarrow> 'k \<Rightarrow> 'e \<Rightarrow> ('k, 'e) endpoint_result"
where
  "endpoint_Leave K N E C ep k e =
     (case ep_vethPair ep of
        None \<Rightarrow> ((Panic, ep), k, e)
      | Some v \<Rightarrow>
          (case veth_Delete K N v k of
             (Err er, k) \<Rightarrow> ((Err er, ep), k, e)
           | (Panic, k) \<Rightarrow> ((Panic, ep), k, e)
           | (Ok _, k) \<Rightarrow>
               let ep = ep\<lparr>ep_sandboxKey := [], ep_vethPair := None\<rparr>
               in case res_wrap ''error storing removed veth pair for endpoint'' (writeToEtcd E C ep False e) of
                    (r, e) \<Rightarrow> ((r, ep), k, e)))"

definition delete_record :: "'e etcd \<Rightarrow> endpointJson codec \<Rightarrow> endpoint \<Rightarrow> 'e \<Rightarrow> unit res \<times> 'e" where
  "delete_record E C ep e =
     res_wrap ''error deleting endpoint info for endpoint'' (with_client E ep (\<lambda>client e.
       case endpoint_MarshalJSON C ep of
         None \<Rightarrow> (Err (Errorf ''error saving endpoint data as JSON''), e)
       | Some endpointData \<Rightarrow>
           let key = endpointKey client (ep_id ep)
           in res_bind (Txn E [ValueEq key endpointData] [OpDelete key] [] e)
                (\<lambda>(succeeded, _) e. if \<not> succeeded then (Err (Errorf ''endpoint key doesn't exist with IP''), e)
                                     else (Ok (), e))) e)"

definition endpoint_Delete ::
  "'k kernel \<Rightarrow> 'k netlink \<Rightarrow> 'e etcd \<Rightarrow> endpointJson codec \<Rightarrow> endpoint \<Rightarrow> 'k \<Rightarrow> 'e \<Rightarrow> ('k, 'e) endpoint_result"
where
  "endpoint_Delete K N E C ep k e =
     (case (if ep_sandboxKey ep \<noteq> [] then endpoint_Leave K N E C ep k e else ((Ok (), ep), k, e)) of
        ((Ok _, ep), k, e) \<Rightarrow> (case delete_record E C ep e of (r, e) \<Rightarrow> ((r, ep), k, e))
      | ((Err er, ep), k, e) \<Rightarrow> ((Err er, ep), k, e)
      | ((Panic, ep), k, e) \<Rightarrow> ((Panic, ep), k, e))"

section \<open>Loading\<close>

text \<open>A record that cannot be read, or a key with more parts, leaves a zero endpoint in the map.\<close>

definition load_endpoint ::
  "endpointJson codec \<Rightarrow> etcdClient \<Rightarrow> bridgeInterface option \<Rightarrow> string \<Rightarrow> (string, endpoint) gomap \<Rightarrow> KeyValue \<Rightarrow>
   (string, endpoint) gomap"
where
  "load_endpoint C etcdClient bridge p found kv =
     (let key = TrimLeft CHR ''/'' (TrimPrefix (kv_Key kv) p); keyParts = split_on CHR ''/'' key;
          i = keyParts ! 0;
          ep = (case map_of found i of Some ep \<Rightarrow> ep | None \<Rightarrow> zero_endpoint);
          found = gomap_set found i ep
      in if length keyParts = 1
         then (case Unmarshal C (kv_Value kv) of
                 None \<Rightarrow> found
               | Some j \<Rightarrow> gomap_set found i
                   \<lparr>ep_id = i, ep_ipAddress = ParseIP (ej_IPAddress j), ep_macAddress = ej_MacAddress j,
                    ep_vethPair = Some (HydrateVethPair (ej_VethInside j) (ej_VethOutside j)),
                    ep_sandboxKey = ej_SandboxKey j, ep_etcdClient = Some etcdClient, ep_bridge = bridge\<rparr>)
         else found)"

definition loadEndpointsFromEtcd ::
  "'e etcd \<Rightarrow> endpointJson codec \<Rightarrow> ((string, endpoint) gomap \<Rightarrow> endpoint list) \<Rightarrow> etcdClient \<Rightarrow>
   bridgeInterface option \<Rightarrow> 'e \<Rightarrow> endpoint list res \<times> 'e"
where
  "loadEndpointsFromEtcd E C lo_values etcdClient bridge e =
     res_wrap ''error getting endpoints from etcd'' (WithConnection E (\<lambda>e.
       let p = GetKey etcdClient []
       in res_bind (GetPrefix E p e)
            (\<lambda>kvs e. (Ok (lo_values (foldl (load_endpoint C etcdClient bridge p) [] kvs)), e))) e)"

section \<open>An endpoint and its record\<close>

text \<open>The record in etcd is the endpoint.\<close>

definition in_sync :: "endpointJson codec \<Rightarrow> endpoint \<Rightarrow> kv_view \<Rightarrow> bool" where
  "in_sync C ep m \<longleftrightarrow> (\<exists>client v. ep_etcdClient ep = Some client \<and> endpoint_MarshalJSON C ep = Some v
     \<and> m (endpointKey client (ep_id ep)) = Some v)"

context etcd_service
begin

lemma writeToEtcd_Ok:
  assumes "writeToEtcd E C ep create e = (Ok u, e')"
  shows "in_sync C ep (view e')"
    "\<forall>client k. ep_etcdClient ep = Some client \<longrightarrow> k \<noteq> endpointKey client (ep_id ep) \<longrightarrow> view e' k = view e k"
    "create \<Longrightarrow> \<exists>client. ep_etcdClient ep = Some client \<and> view e (endpointKey client (ep_id ep)) = None"
proof -
  obtain client where c: "ep_etcdClient ep = Some client"
    using assms by (auto simp: writeToEtcd_def with_client_def split: option.splits)
  let ?key = "endpointKey client (ep_id ep)"
  obtain e1 e2 v where 1: "view e1 = view e" "view e' = view e2" "endpoint_MarshalJSON C ep = Some v"
    and w: "(if create then res_bind (Txn E [CreateRevisionIs0 ?key] [OpPut ?key v] [] e1)
        (\<lambda>(succeeded, _) e. if \<not> succeeded then (Err (Errorf ''endpoint key already exists''), e) else (Ok (), e))
      else Put E ?key v e1) = (Ok u, e2)"
    using assms unfolding writeToEtcd_def with_client_def c option.case Let_def
    by (auto dest!: WithConnection_Ok split: option.splits)
  have "view e2 = (view e)(?key \<mapsto> v) \<and> (create \<longrightarrow> view e ?key = None)"
  proof (cases create)
    case True
    then obtain b rs where t: "Txn E [CreateRevisionIs0 ?key] [OpPut ?key v] [] e1 = (Ok (b, rs), e2)" "b"
      using w by (auto simp: res_bind_Ok_iff split: if_splits)
    show ?thesis using Txn_Ok [OF t(1)] t(2) 1(1) by simp
  next
    case False
    then show ?thesis using w Put_Ok [of ?key v e1 u e2] 1(1) by simp
  qed
  then show "in_sync C ep (view e')"
    "\<forall>client k. ep_etcdClient ep = Some client \<longrightarrow> k \<noteq> endpointKey client (ep_id ep) \<longrightarrow> view e' k = view e k"
    "create \<Longrightarrow> \<exists>client. ep_etcdClient ep = Some client \<and> view e (endpointKey client (ep_id ep)) = None"
    using 1 c by (auto simp: in_sync_def)
qed

lemma NewEndpoint_Ok:
  assumes "NewEndpoint E C c i ip mac b e = (Ok ep, e')"
  shows "in_sync C ep (view e')" "ep_id ep = i" "ep_etcdClient ep = Some c" "ep_sandboxKey ep = []"
    "ep_vethPair ep = None" "ep_ipAddress ep = ip" "ep_macAddress ep = mac"
  using assms writeToEtcd_Ok(1) by (auto simp: NewEndpoint_def Let_def res_bind_Ok_iff)

lemma endpoint_Join_sync:
  "endpoint_Join K N E C u1 u2 ep sb k e = ((Ok u, ep'), k', e') \<Longrightarrow>
   in_sync C ep' (view e') \<and> ep_id ep' = ep_id ep \<and> ep_etcdClient ep' = ep_etcdClient ep"
  using writeToEtcd_Ok(1)
  by (fastforce simp: endpoint_Join_def Let_def split: option.splits prod.splits res.splits)

lemma endpoint_Leave_sync:
  "endpoint_Leave K N E C ep k e = ((Ok u, ep'), k', e') \<Longrightarrow>
   in_sync C ep' (view e') \<and> ep_id ep' = ep_id ep \<and> ep_etcdClient ep' = ep_etcdClient ep \<and> ep_sandboxKey ep' = []"
  using writeToEtcd_Ok(1)
  by (fastforce simp: endpoint_Leave_def Let_def split: option.splits prod.splits res.splits)

end

context etcd_service
begin

lemma delete_record_Ok:
  assumes "delete_record E C ep e = (Ok u, e')" "ep_etcdClient ep = Some c"
  shows "view e' = (view e)(endpointKey c (ep_id ep) := None)"
proof -
  let ?key = "endpointKey c (ep_id ep)"
  obtain e1 e2 v b rs where "view e1 = view e" "view e' = view e2"
    and t: "Txn E [ValueEq ?key v] [OpDelete ?key] [] e1 = (Ok (b, rs), e2)" "b"
    using assms unfolding delete_record_def with_client_def assms(2) option.case Let_def res_wrap_Ok_iff
    by (auto dest!: WithConnection_Ok simp: res_bind_Ok_iff split: option.splits if_splits)
  then show ?thesis using Txn_Ok [OF t(1)] by simp
qed

end

context etcd_reliable
begin

lemma delete_record_run:
  assumes "in_sync C ep (view e)"
  shows "\<exists>e'. delete_record E C ep e = (Ok (), e')"
proof -
  obtain client v where c: "ep_etcdClient ep = Some client" "endpoint_MarshalJSON C ep = Some v"
    "view e (endpointKey client (ep_id ep)) = Some v" using assms by (auto simp: in_sync_def)
  let ?key = "endpointKey client (ep_id ep)"
  let ?fn = "\<lambda>e. res_bind (Txn E [ValueEq ?key v] [OpDelete ?key] [] e)
    (\<lambda>(succeeded, _) e. if \<not> succeeded then (Err (Errorf ''endpoint key doesn't exist with IP''), e) else (Ok (), e))"
  obtain r e' where w: "WithConnection E ?fn e = (r, e')" by force
  obtain e1 e2 where f: "view e1 = view e" "?fn e1 = (r, e2)" using WithConnection_run [OF w] by blast
  obtain e3 where "Txn E [ValueEq ?key v] [OpDelete ?key] [] e1 = (Ok (list_all (cmp_holds (view e1)) [ValueEq ?key v],
      op_responses (if list_all (cmp_holds (view e1)) [ValueEq ?key v] then [OpDelete ?key] else []) (view e1)), e3)"
    using Txn_run by metis
  then have "r = Ok ()" using f c(3) by simp
  then show ?thesis using w c by (simp add: delete_record_def with_client_def Let_def)
qed

end

subsection \<open>Loaded endpoints\<close>

definition loaded_endpoint :: "etcdClient \<Rightarrow> bridgeInterface option \<Rightarrow> string \<Rightarrow> endpointJson \<Rightarrow> endpoint" where
  "loaded_endpoint c b i j =
     \<lparr>ep_id = i, ep_ipAddress = ParseIP (ej_IPAddress j), ep_macAddress = ej_MacAddress j,
      ep_vethPair = Some (HydrateVethPair (ej_VethInside j) (ej_VethOutside j)),
      ep_sandboxKey = ej_SandboxKey j, ep_etcdClient = Some c, ep_bridge = b\<rparr>"

definition strip :: "string \<Rightarrow> KeyValue \<Rightarrow> string" where
  "strip p kv = TrimLeft CHR ''/'' (TrimPrefix (kv_Key kv) p)"

lemma load_endpoint_step:
  assumes "map_of (load_endpoint C c b p m kv) i = Some ep"
  shows "map_of m i = Some ep \<or> ep = zero_endpoint
    \<or> (\<exists>j. strip p kv = i \<and> Unmarshal C (kv_Value kv) = Some j \<and> ep = loaded_endpoint c b i j)"
proof -
  define parts where "parts = split_on CHR ''/'' (strip p kv)"
  define old where "old = (case map_of m (parts ! 0) of Some ep \<Rightarrow> ep | None \<Rightarrow> zero_endpoint)"
  have old: "old = zero_endpoint \<or> map_of m (parts ! 0) = Some old"
    by (simp add: old_def split: option.splits)
  have single: "parts ! 0 = strip p kv" if "length parts = 1"
    using that unfolding parts_def split_on_single_iff by (simp add: split_on_free)
  have "load_endpoint C c b p m kv = (if length parts = 1
      then (case Unmarshal C (kv_Value kv) of None \<Rightarrow> gomap_set m (parts ! 0) old
            | Some j \<Rightarrow> gomap_set (gomap_set m (parts ! 0) old) (parts ! 0) (loaded_endpoint c b (parts ! 0) j))
      else gomap_set m (parts ! 0) old)"
    unfolding load_endpoint_def Let_def strip_def [symmetric] parts_def [symmetric] old_def [symmetric]
      loaded_endpoint_def ..
  then show ?thesis using assms old single by (auto split: if_splits option.splits)
qed

lemma foldl_load_endpoint:
  "map_of (foldl (load_endpoint C c b p) [] kvs) i = Some ep \<Longrightarrow>
   ep = zero_endpoint \<or> (\<exists>kv \<in> set kvs. \<exists>j. strip p kv = i \<and> Unmarshal C (kv_Value kv) = Some j
      \<and> ep = loaded_endpoint c b i j)"
proof (induction kvs arbitrary: ep rule: rev_induct)
  case (snoc kv kvs)
  then show ?case
    using load_endpoint_step [of C c b p "foldl (load_endpoint C c b p) [] kvs" kv i ep] snoc.IH [of ep] by auto
qed simp

lemma loaded_in_sync:
  assumes "codec_law C" "endpoint_MarshalJSON C ep = Some v" "Unmarshal C v = Some j"
    "length (To4 (ep_ipAddress ep)) = 4"
  shows "endpoint_MarshalJSON C (loaded_endpoint c b i j) = Some v"
    "length (To4 (ep_ipAddress (loaded_endpoint c b i j))) = 4"
    "ep_macAddress (loaded_endpoint c b i j) = ep_macAddress ep"
    "ep_sandboxKey (loaded_endpoint c b i j) = ep_sandboxKey ep"
    "endpoint_GetInfo (loaded_endpoint c b (ep_id ep) j) = endpoint_GetInfo (ep\<lparr>ep_ipAddress := v4InV6Prefix @ To4 (ep_ipAddress ep)\<rparr>)"
proof -
  let ?j = "\<lparr>ej_IPAddress = ip_String (ep_ipAddress ep), ej_MacAddress = ep_macAddress ep,
       ej_VethInside = (case ep_vethPair ep of None \<Rightarrow> [] | Some v \<Rightarrow> vp_insideName v),
       ej_VethOutside = (case ep_vethPair ep of None \<Rightarrow> [] | Some v \<Rightarrow> vp_outsideName v),
       ej_SandboxKey = ep_sandboxKey ep\<rparr>"
  have j: "j = ?j"
    using assms(1-3) unfolding endpoint_MarshalJSON_def codec_law_def by (metis option.inject)
  have "ip_String (ep_ipAddress ep) = ip4_String (To4 (ep_ipAddress ep))"
    using assms(4) by (auto simp: To4_def ip_String_def split: if_splits)
  then have ip: "ParseIP (ip_String (ep_ipAddress ep)) = v4InV6Prefix @ To4 (ep_ipAddress ep)"
    "ip_String (v4InV6Prefix @ To4 (ep_ipAddress ep)) = ip_String (ep_ipAddress ep)"
    using assms(4) by (simp_all add: ip_String_ip4)
  show "endpoint_MarshalJSON C (loaded_endpoint c b i j) = Some v"
    using assms(2) ip by (simp add: j loaded_endpoint_def endpoint_MarshalJSON_def HydrateVethPair_def)
  show "length (To4 (ep_ipAddress (loaded_endpoint c b i j))) = 4"
    using assms(4) ip(1) by (simp add: j loaded_endpoint_def)
  show "ep_macAddress (loaded_endpoint c b i j) = ep_macAddress ep"
    "ep_sandboxKey (loaded_endpoint c b i j) = ep_sandboxKey ep"
    by (simp_all add: j loaded_endpoint_def)
  show "endpoint_GetInfo (loaded_endpoint c b (ep_id ep) j) = endpoint_GetInfo (ep\<lparr>ep_ipAddress := v4InV6Prefix @ To4 (ep_ipAddress ep)\<rparr>)"
    by (simp add: j loaded_endpoint_def endpoint_GetInfo_def HydrateVethPair_def ip)
qed

definition values_law :: "((string, endpoint) gomap \<Rightarrow> endpoint list) \<Rightarrow> bool" where
  "values_law f \<longleftrightarrow> (\<forall>m. set (f m) = snd ` set m)"

lemma foldl_load_ok: "gomap_ok m \<Longrightarrow> gomap_ok (foldl (load_endpoint C c b p) m kvs)"
  by (induction kvs arbitrary: m) (simp_all add: load_endpoint_def Let_def split: option.splits)

context etcd_service
begin

lemma loadEndpointsFromEtcd_Ok:
  assumes "loadEndpointsFromEtcd E C f c b e = (Ok eps, e')" "values_law f" "wf_keys (prefix c) (view e)"
    "ep \<in> set eps"
  shows "ep = zero_endpoint \<or> (\<exists>v j. view e (endpointKey c (ep_id ep)) = Some v
      \<and> Unmarshal C v = Some j \<and> ep = loaded_endpoint c b (ep_id ep) j)"
    "view e' = view e"
proof -
  obtain e1 e2 kvs where 1: "view e1 = view e" "GetPrefix E (prefix c) e1 = (Ok kvs, e2)" "view e' = view e2"
    "eps = f (foldl (load_endpoint C c b (prefix c)) [] kvs)"
    using assms(1) unfolding loadEndpointsFromEtcd_def res_wrap_Ok_iff
    by (auto dest!: WithConnection_Ok simp: Let_def res_bind_Ok_iff)
  show "view e' = view e" using 1 GetPrefix_view [of "prefix c" e1] by simp
  let ?m = "foldl (load_endpoint C c b (prefix c)) [] kvs"
  obtain i where "(i, ep) \<in> set ?m" using assms(2,4) 1(4) unfolding values_law_def by auto
  then have "map_of ?m i = Some ep"
    using gomap_mem_iff [OF foldl_load_ok [OF gomap_ok_Nil], of i ep] by blast
  from foldl_load_endpoint [OF this]
  show "ep = zero_endpoint \<or> (\<exists>v j. view e (endpointKey c (ep_id ep)) = Some v
      \<and> Unmarshal C v = Some j \<and> ep = loaded_endpoint c b (ep_id ep) j)"
  proof
    assume "\<exists>kv \<in> set kvs. \<exists>j. strip (prefix c) kv = i \<and> Unmarshal C (kv_Value kv) = Some j \<and> ep = loaded_endpoint c b i j"
    then obtain kv j where k: "kv \<in> set kvs" "strip (prefix c) kv = i" "Unmarshal C (kv_Value kv) = Some j"
      "ep = loaded_endpoint c b i j" by blast
    have v: "view e (kv_Key kv) = Some (kv_Value kv)" "HasPrefix (kv_Key kv) (prefix c)"
      using kv_listingD [OF GetPrefix_Ok [OF 1(2)]] k(1) 1(1) by auto
    obtain t where t: "kv_Key kv = prefix c @ CHR ''/'' # t" "t = [] \<or> hd t \<noteq> CHR ''/''"
      using assms(3) v unfolding wf_keys_def by blast
    have "i = t" using k(2) t by (simp add: strip_def TrimLeft_id)
    then have "kv_Key kv = endpointKey c i" using t by (simp add: endpointKey_def)
    then show ?thesis using v(1) k(3,4) by (auto simp: loaded_endpoint_def)
  qed blast
qed

end

section \<open>The life of an endpoint\<close>

text \<open>
  From its creation on an endpoint joins and leaves; everybody else changes the kernel and etcd, but
  not its key; and the plugin is restarted and loads it.
\<close>

inductive endpoint_life ::
  "'k kernel \<Rightarrow> 'k netlink \<Rightarrow> 'e etcd \<Rightarrow> ('e \<Rightarrow> kv_view) \<Rightarrow> endpointJson codec \<Rightarrow>
   ((string, endpoint) gomap \<Rightarrow> endpoint list) \<Rightarrow> etcdClient \<Rightarrow> string \<Rightarrow> string \<Rightarrow> endpoint \<Rightarrow> 'k \<Rightarrow> 'e \<Rightarrow> bool"
  for K N E view C f c i mac
where
  life_New: "NewEndpoint E C c i ip mac b e = (Ok ep, e') \<Longrightarrow> length (To4 ip) = 4 \<Longrightarrow>
    endpoint_life K N E view C f c i mac ep k e'"
| life_Join: "endpoint_life K N E view C f c i mac ep k e \<Longrightarrow>
    endpoint_Join K N E C u1 u2 ep sb k e = ((Ok u, ep'), k', e') \<Longrightarrow> endpoint_life K N E view C f c i mac ep' k' e'"
| life_Leave: "endpoint_life K N E view C f c i mac ep k e \<Longrightarrow>
    endpoint_Leave K N E C ep k e = ((Ok u, ep'), k', e') \<Longrightarrow> endpoint_life K N E view C f c i mac ep' k' e'"
| life_others: "endpoint_life K N E view C f c i mac ep k e \<Longrightarrow>
    view e' (endpointKey c i) = view e (endpointKey c i) \<Longrightarrow> endpoint_life K N E view C f c i mac ep k' e'"
| life_restart: "endpoint_life K N E view C f c i mac ep k e \<Longrightarrow> wf_keys (prefix c) (view e) \<Longrightarrow>
    loadEndpointsFromEtcd E C f c b e = (Ok eps, e') \<Longrightarrow> ep' \<in> set eps \<Longrightarrow> ep_id ep' = i \<Longrightarrow> i \<noteq> [] \<Longrightarrow>
    endpoint_life K N E view C f c i mac ep' k' e'"

definition life_ok :: "endpointJson codec \<Rightarrow> etcdClient \<Rightarrow> string \<Rightarrow> string \<Rightarrow> endpoint \<Rightarrow> kv_view \<Rightarrow> bool" where
  "life_ok C c i mac ep m \<longleftrightarrow> in_sync C ep m \<and> ep_id ep = i \<and> ep_etcdClient ep = Some c
     \<and> ep_macAddress ep = mac \<and> length (To4 (ep_ipAddress ep)) = 4"

lemma Join_fields: "endpoint_Join K N E C u1 u2 ep sb k e = ((r, ep'), k', e') \<Longrightarrow>
  ep_macAddress ep' = ep_macAddress ep \<and> ep_ipAddress ep' = ep_ipAddress ep"
  by (auto simp: endpoint_Join_def Let_def split: option.splits prod.splits res.splits)

lemma Leave_fields: "endpoint_Leave K N E C ep k e = ((r, ep'), k', e') \<Longrightarrow>
  ep_macAddress ep' = ep_macAddress ep \<and> ep_ipAddress ep' = ep_ipAddress ep"
  by (auto simp: endpoint_Leave_def Let_def split: option.splits prod.splits res.splits)

lemma endpoint_life_ok:
  assumes "etcd_service E view" "codec_law C" "values_law f"
  shows "endpoint_life K N E view C f c i mac ep k e \<Longrightarrow> life_ok C c i mac ep (view e)"
proof (induction rule: endpoint_life.induct)
  case (life_New ip b e ep e' k)
  then show ?case
    using etcd_service.NewEndpoint_Ok [OF assms(1) life_New(1)] by (simp add: life_ok_def)
next
  case (life_Join ep k e u1 u2 sb u ep' k' e')
  then show ?case
    using etcd_service.endpoint_Join_sync [OF assms(1) life_Join(2)] Join_fields [OF life_Join(2)]
    by (simp add: life_ok_def)
next
  case (life_Leave ep k e u ep' k' e')
  then show ?case
    using etcd_service.endpoint_Leave_sync [OF assms(1) life_Leave(2)] Leave_fields [OF life_Leave(2)]
    by (simp add: life_ok_def)
next
  case (life_others ep k e e' k')
  then show ?case by (auto simp: life_ok_def in_sync_def)
next
  case (life_restart ep k e b eps e' ep' k')
  note L = etcd_service.loadEndpointsFromEtcd_Ok [OF assms(1) life_restart(3) assms(3) life_restart(2,4)]
  have "ep' \<noteq> zero_endpoint" using life_restart by (auto simp: zero_endpoint_def)
  then obtain v j where v: "view e (endpointKey c i) = Some v" "Unmarshal C v = Some j" "ep' = loaded_endpoint c b i j"
    using L(1) life_restart(5) by blast
  have m: "endpoint_MarshalJSON C ep = Some v" using life_restart.IH v(1) by (auto simp: life_ok_def in_sync_def)
  have ip: "length (To4 (ep_ipAddress ep)) = 4" using life_restart.IH by (simp add: life_ok_def)
  have f: "ep_etcdClient ep' = Some c" "ep_id ep' = i" using v(3) by (simp_all add: loaded_endpoint_def)
  show ?case
    using loaded_in_sync(1-3) [OF assms(2) m v(2) ip, of c b i] v L(2) f life_restart.IH
    by (simp add: life_ok_def in_sync_def)
qed

section \<open>Properties\<close>

text \<open>
  C10: At every moment of its life the record of an endpoint in etcd is the endpoint, through joining
  and leaving, whatever happens to other keys, and across restarts of the plugin. Therefore an
  endpoint that is in no sandbox can always be deleted: on a reliable etcd \<open>Delete\<close> succeeds,
  touches no interface and removes exactly its key.
\<close>

theorem endpoint_always_deletable:
  assumes "etcd_reliable E view" "codec_law C" "values_law f"
    "endpoint_life K N E view C f c i mac ep k e" "ep_sandboxKey ep = []"
  shows "\<exists>e'. endpoint_Delete K N E C ep k e = ((Ok (), ep), k, e')
    \<and> view e' = (view e)(endpointKey c i := None)"
proof -
  have sv: "etcd_service E view" using assms(1) by (simp add: etcd_reliable_def)
  have ok: "life_ok C c i mac ep (view e)" using endpoint_life_ok [OF sv assms(2-4)] .
  obtain e' where d: "delete_record E C ep e = (Ok (), e')"
    using etcd_reliable.delete_record_run [OF assms(1), of C ep e] ok unfolding life_ok_def by blast
  show ?thesis
    using d etcd_service.delete_record_Ok [OF sv d] ok assms(5)
    by (simp add: endpoint_Delete_def life_ok_def)
qed

definition endpoint_codec :: "endpointJson codec" where
  "endpoint_codec = codec_of (\<lambda>j. [ej_IPAddress j, ej_MacAddress j, ej_VethInside j, ej_VethOutside j, ej_SandboxKey j])
     (\<lambda>f. \<lparr>ej_IPAddress = f ! 0, ej_MacAddress = f ! 1, ej_VethInside = f ! 2, ej_VethOutside = f ! 3, ej_SandboxKey = f ! 4\<rparr>)"

lemma endpoint_codec_law: "codec_law endpoint_codec"
  unfolding endpoint_codec_def by (rule codec_of_law) simp

lemma values_ref_law: "values_law (map snd)"
  by (simp add: values_law_def)

definition demo_endpoint :: endpoint where
  "demo_endpoint = \<lparr>ep_id = ''ep1'', ep_ipAddress = [10, 1, 2, 5], ep_macAddress = ''02:42:0a:01:02:05'', ep_vethPair = None,
     ep_sandboxKey = [], ep_etcdClient = Some (NewEtcdClient [] 5 ''/n''), ep_bridge = None\<rparr>"

lemma demo_endpoint_New:
  "\<exists>e'. NewEndpoint mem_etcd endpoint_codec (NewEtcdClient [] 5 ''/n'') ''ep1'' [10, 1, 2, 5] ''02:42:0a:01:02:05'' None [] = (Ok demo_endpoint, e')"
proof -
  obtain v where v: "endpoint_MarshalJSON endpoint_codec demo_endpoint = Some v"
    using endpoint_codec_law unfolding codec_law_def endpoint_MarshalJSON_def by blast
  then have "fst (writeToEtcd mem_etcd endpoint_codec demo_endpoint True []) = Ok ()"
    by (simp add: writeToEtcd_def with_client_def WithConnection_def NewConnection_def connection_Close_def mem_etcd_def
        Let_def) (simp add: demo_endpoint_def WithConnection_def NewConnection_def connection_Close_def)
  then obtain e' where "writeToEtcd mem_etcd endpoint_codec demo_endpoint True [] = (Ok (), e')" by (metis prod.collapse)
  then show ?thesis by (simp add: NewEndpoint_def Let_def demo_endpoint_def)
qed

lemma endpoint_always_deletable_witness:
  "\<exists>e e'. map_of e ''/n/ep1'' \<noteq> None
     \<and> endpoint_Delete mem_kernel mem_netlink mem_etcd endpoint_codec demo_endpoint kmem_empty e = ((Ok (), demo_endpoint), kmem_empty, e')
     \<and> map_of e' ''/n/ep1'' = None"
proof -
  obtain e where n: "NewEndpoint mem_etcd endpoint_codec (NewEtcdClient [] 5 ''/n'') ''ep1'' [10, 1, 2, 5] ''02:42:0a:01:02:05'' None [] = (Ok demo_endpoint, e)"
    using demo_endpoint_New by blast
  have key: "endpointKey (NewEtcdClient [] 5 ''/n'') ''ep1'' = ''/n/ep1''" by code_simp
  have "length (To4 [10, 1, 2, 5]) = 4" by (simp add: To4_def)
  from life_New [OF n this]
  have "endpoint_life mem_kernel mem_netlink mem_etcd map_of endpoint_codec (map snd) (NewEtcdClient [] 5 ''/n'') ''ep1'' ''02:42:0a:01:02:05'' demo_endpoint kmem_empty e" .
  moreover have "map_of e ''/n/ep1'' \<noteq> None"
    using mem.NewEndpoint_Ok(1-3) [OF n] key by (auto simp: in_sync_def)
  ultimately show ?thesis
    using endpoint_always_deletable [OF mem.etcd_reliable_axioms endpoint_codec_law values_ref_law, of mem_kernel mem_netlink
        "NewEtcdClient [] 5 ''/n''" "''ep1''" "''02:42:0a:01:02:05''" demo_endpoint kmem_empty e] key
    by (auto simp: demo_endpoint_def)
qed

lemma load_endpoint_dom:
  "map_of m i \<noteq> None \<Longrightarrow> map_of (load_endpoint C c b p m kv) i \<noteq> None"
  "map_of (load_endpoint C c b p m kv) (split_on CHR ''/'' (strip p kv) ! 0) \<noteq> None"
  by (simp_all add: load_endpoint_def strip_def Let_def split: option.split)

lemma foldl_load_dom:
  "(\<exists>kv \<in> set kvs. split_on CHR ''/'' (strip p kv) ! 0 = i) \<or> map_of m i \<noteq> None \<Longrightarrow>
   map_of (foldl (load_endpoint C c b p) m kvs) i \<noteq> None"
proof (induction kvs arbitrary: m)
  case (Cons kv kvs)
  have "(\<exists>kv \<in> set kvs. split_on CHR ''/'' (strip p kv) ! 0 = i) \<or> map_of (load_endpoint C c b p m kv) i \<noteq> None"
    using Cons.prems load_endpoint_dom(1) [of m i C c b p kv] load_endpoint_dom(2) [of C c b p m kv] by auto
  then show ?case using Cons.IH by simp
qed simp

text \<open>
  A record of an endpoint that cannot be read is not ignored, as the log message says: \<open>Load\<close>
  returns a zero endpoint for it, and deleting that, as the initialisation of a network does with
  endpoints that no container has, is a nil dereference.
\<close>

theorem malformed_endpoint_panics:
  assumes "etcd_reliable E view" "values_law f" "wf_keys (prefix c) (view e)" "simple_id i"
    "view e (endpointKey c i) = Some v" "Unmarshal C v = None"
  shows "\<exists>eps e'. loadEndpointsFromEtcd E C f c b e = (Ok eps, e') \<and> zero_endpoint \<in> set eps
    \<and> endpoint_Delete K N E C zero_endpoint k e' = ((Panic, zero_endpoint), k, e')"
proof -
  have sv: "etcd_service E view" using assms(1) by (simp add: etcd_reliable_def)
  let ?fn = "\<lambda>e. res_bind (GetPrefix E (prefix c) e)
    (\<lambda>kvs e. (Ok (f (foldl (load_endpoint C c b (prefix c)) [] kvs)), e))"
  have "\<exists>a e'. ?fn e = (Ok a, e')" for e
    using etcd_reliable.GetPrefix_ok [OF assms(1), of "prefix c" e] by auto
  then obtain eps e' where w: "WithConnection E ?fn e = (Ok eps, e')"
    using etcd_reliable.WithConnection_Ok_run [OF assms(1), of ?fn e] by blast
  obtain e1 e2 kvs where 1: "view e1 = view e" "GetPrefix E (prefix c) e1 = (Ok kvs, e2)"
    "eps = f (foldl (load_endpoint C c b (prefix c)) [] kvs)"
    using etcd_service.WithConnection_Ok [OF sv w] by (auto simp: res_bind_Ok_iff)
  note L = kv_listingD [OF etcd_service.GetPrefix_Ok [OF sv 1(2)]]
  let ?m = "foldl (load_endpoint C c b (prefix c)) [] kvs"
  let ?kv = "\<lparr>kv_Key = endpointKey c i, kv_Value = v\<rparr>"
  have st: "strip (prefix c) ?kv = i"
    using assms(4) by (cases i) (auto simp: strip_def endpointKey_def TrimLeft_def simple_id_def)
  have "?kv \<in> set kvs" using L [of ?kv] assms(5) 1(1) by (simp add: endpointKey_def HasPrefix_iff)
  then have dom: "map_of ?m i \<noteq> None"
    using st assms(4) by (intro foldl_load_dom disjI1 bexI [of _ ?kv]) (auto simp: split_on_free simple_id_def)
  have "\<not> (\<exists>kv \<in> set kvs. \<exists>j. strip (prefix c) kv = i \<and> Unmarshal C (kv_Value kv) = Some j)"
  proof
    assume "\<exists>kv \<in> set kvs. \<exists>j. strip (prefix c) kv = i \<and> Unmarshal C (kv_Value kv) = Some j"
    then obtain kv j where k: "kv \<in> set kvs" "strip (prefix c) kv = i" "Unmarshal C (kv_Value kv) = Some j" by blast
    have kv: "view e (kv_Key kv) = Some (kv_Value kv)" "HasPrefix (kv_Key kv) (prefix c)" using L [of kv] k(1) 1(1) by auto
    obtain t where t: "kv_Key kv = prefix c @ CHR ''/'' # t" "t = [] \<or> hd t \<noteq> CHR ''/''"
      using assms(3) kv unfolding wf_keys_def by blast
    have "t = i" using k(2) t by (simp add: strip_def TrimLeft_id)
    then have "kv_Value kv = v" using kv(1) t(1) assms(5) by (simp add: endpointKey_def)
    then show False using k(3) assms(6) by simp
  qed
  then have "map_of ?m i = Some zero_endpoint" using dom foldl_load_endpoint [of C c b "prefix c" kvs i] by blast
  then have "(i, zero_endpoint) \<in> set ?m" by (rule map_of_SomeD)
  then have "zero_endpoint \<in> set eps" using assms(2) 1(3) unfolding values_law_def by force
  moreover have "loadEndpointsFromEtcd E C f c b e = (Ok eps, e')"
    using w by (simp add: loadEndpointsFromEtcd_def Let_def)
  moreover have "endpoint_Delete K N E C zero_endpoint k e' = ((Panic, zero_endpoint), k, e')"
    by (simp add: endpoint_Delete_def zero_endpoint_def delete_record_def with_client_def)
  ultimately show ?thesis by blast
qed

definition strict_codec :: "endpointJson codec" where
  "strict_codec = endpoint_codec\<lparr>Unmarshal := \<lambda>t. if t = ''?'' then None else Unmarshal endpoint_codec t\<rparr>"

lemma malformed_endpoint_panics_witness:
  "\<exists>eps e'. loadEndpointsFromEtcd mem_etcd strict_codec (map snd) (NewEtcdClient [] 5 ''/n'') None [(''/n/ep1'', ''?'')] = (Ok eps, e')
    \<and> zero_endpoint \<in> set eps
    \<and> endpoint_Delete mem_kernel mem_netlink mem_etcd strict_codec zero_endpoint kmem_empty e' = ((Panic, zero_endpoint), kmem_empty, e')"
proof -
  have c: "prefix (NewEtcdClient [] 5 ''/n'') = ''/n''" "endpointKey (NewEtcdClient [] 5 ''/n'') ''ep1'' = ''/n/ep1''"
    by code_simp+
  have "wf_keys (prefix (NewEtcdClient [] 5 ''/n'')) (map_of [(''/n/ep1'', ''?'')])"
    unfolding wf_keys_def c by (auto split: if_splits)
  moreover have "map_of [(''/n/ep1'', ''?'')] (endpointKey (NewEtcdClient [] 5 ''/n'') ''ep1'') = Some ''?''" by (simp add: c)
  moreover have "Unmarshal strict_codec ''?'' = None" "simple_id ''ep1''"
    by (simp_all add: strict_codec_def simple_id_def)
  ultimately show ?thesis
    using malformed_endpoint_panics [OF mem.etcd_reliable_axioms values_ref_law, where C = strict_codec and K = mem_kernel and N = mem_netlink
      and k = kmem_empty and b = None and c = "NewEtcdClient [] 5 ''/n''" and e = "[(''/n/ep1'', ''?'')]" and i = "''ep1''" and v = "''?''"] by blast
qed

end
