(* ===== verification/Flannel_Config.thy ===== *)
theory Flannel_Config
  imports Flannel_Endpoint Ipam_Pool
begin

text \<open>
  The state of \<open>plugin/pkg/flannel_network/network.go\<close> and what a network keeps in etcd: its
  configuration, which the nodes agree on through a transaction, and the cleanup of networks that
  no longer exist. Revisions of keys and the distributed mutex of the etcd client
  (\<open>plugin/pkg/etcd/mutex.go\<close>) are the record \<open>etcd_ext\<close>, with the laws of \<open>etcd_revisions\<close>.
\<close>

section \<open>Further calls of the etcd client\<close>

text \<open>\<open>GetRev\<close> is \<open>Get\<close> with the revision of the last change; \<open>TxnModRev\<close> is a transaction that
  compares this revision. The calls of a session and a mutex carry the key of the lock.\<close>

record 'e etcd_ext =
  GetRev :: "string \<Rightarrow> 'e \<Rightarrow> (string \<times> int) option res \<times> 'e"
  TxnModRev :: "string \<Rightarrow> int \<Rightarrow> etcd_op list \<Rightarrow> 'e \<Rightarrow> bool res \<times> 'e"
  NewSession :: "'e \<Rightarrow> unit res \<times> 'e"
  MutexLock :: "string \<Rightarrow> int \<Rightarrow> 'e \<Rightarrow> unit res \<times> 'e"
  MutexUnlock :: "string \<Rightarrow> 'e \<Rightarrow> unit res \<times> 'e"
  SessionClose :: "string \<Rightarrow> 'e \<Rightarrow> unit res \<times> 'e"

record Mutex =
  mx_key :: string

text \<open>A session whose lock cannot be acquired is not closed.\<close>

definition LockNewMutex :: "'e etcd_ext \<Rightarrow> string \<Rightarrow> int \<Rightarrow> 'e \<Rightarrow> Mutex res \<times> 'e" where
  "LockNewMutex X lockKey lockTimeout e =
     res_bind (res_wrap ''error creating concurrency session for lock key'' (NewSession X e))
       (\<lambda>_ e. res_bind (res_wrap ''error acquiring lock'' (MutexLock X lockKey lockTimeout e))
          (\<lambda>_ e. (Ok \<lparr>mx_key = lockKey\<rparr>, e)))"

definition UnlockAndCloseSession :: "'e etcd_ext \<Rightarrow> Mutex \<Rightarrow> 'e \<Rightarrow> unit res \<times> 'e" where
  "UnlockAndCloseSession X m e =
     res_bind (res_wrap ''failed to unlock mutex'' (MutexUnlock X (mx_key m) e))
       (\<lambda>_ e. res_wrap ''failed to close session'' (SessionClose X (mx_key m) e))"

locale etcd_revisions = etcd_reliable E view for E :: "'e etcd" and view :: "'e \<Rightarrow> kv_view" +
  fixes X :: "'e etcd_ext" and modrev :: "'e \<Rightarrow> string \<Rightarrow> int"
  assumes modrev_0: "modrev e k = 0 \<longleftrightarrow> view e k = None"
    and New_modrev: "modrev (snd (New E e)) = modrev e"
    and Close_modrev: "modrev (snd (Close E e)) = modrev e"
    and Delete_modrev: "k' \<noteq> k \<Longrightarrow> modrev (snd (Delete E k e)) k' = modrev e k'"
    and GetRev_ok: "\<exists>e'. GetRev X k e = (Ok (map_option (\<lambda>v. (v, modrev e k)) (view e k)), e')
      \<and> view e' = view e \<and> modrev e' = modrev e"
    and TxnModRev_ok: "\<exists>e'. TxnModRev X k r ops e = (Ok (modrev e k = r), e')
      \<and> view e' = (if modrev e k = r then apply_ops ops (view e) else view e)"

text \<open>The mutex keeps its own keys below the key of the lock; locking succeeds.\<close>

locale etcd_mutexes = etcd_revisions +
  assumes NewSession_ok: "\<exists>e'. NewSession X e = (Ok (), e') \<and> view e' = view e"
    and MutexLock_ok: "\<exists>e'. MutexLock X key t e = (Ok (), e') \<and> (\<forall>k. \<not> HasPrefix k (key @ ''/'') \<longrightarrow> view e' k = view e k)"
    and MutexUnlock_no_panic: "fst (MutexUnlock X key e) \<noteq> Panic"
    and MutexUnlock_view: "\<not> HasPrefix k (key @ ''/'') \<Longrightarrow> view (snd (MutexUnlock X key e)) k = view e k"
    and SessionClose_no_panic: "fst (SessionClose X key e) \<noteq> Panic"
    and SessionClose_view: "\<not> HasPrefix k (key @ ''/'') \<Longrightarrow> view (snd (SessionClose X key e)) k = view e k"
begin

lemma LockNewMutex_run:
  "\<exists>e'. LockNewMutex X key t e = (Ok \<lparr>mx_key = key\<rparr>, e') \<and> (\<forall>k. \<not> HasPrefix k (key @ ''/'') \<longrightarrow> view e' k = view e k)"
proof -
  obtain e1 where 1: "NewSession X e = (Ok (), e1)" "view e1 = view e" using NewSession_ok by blast
  obtain e2 where "MutexLock X key t e1 = (Ok (), e2)" "\<forall>k. \<not> HasPrefix k (key @ ''/'') \<longrightarrow> view e2 k = view e1 k"
    using MutexLock_ok by blast
  then show ?thesis using 1 by (simp add: LockNewMutex_def)
qed

lemma UnlockAndCloseSession_run:
  assumes "UnlockAndCloseSession X m e = (r, e')"
  shows "r \<noteq> Panic" and "\<not> HasPrefix k (mx_key m @ ''/'') \<Longrightarrow> view e' k = view e k"
proof -
  obtain r1 e1 where 1: "MutexUnlock X (mx_key m) e = (r1, e1)" by force
  obtain r2 e2 where 2: "SessionClose X (mx_key m) e1 = (r2, e2)" by force
  show "r \<noteq> Panic" using assms 1 2 MutexUnlock_no_panic [of "mx_key m" e] SessionClose_no_panic [of "mx_key m" e1]
    by (cases r1; cases r2) (auto simp: UnlockAndCloseSession_def)
  assume k: "\<not> HasPrefix k (mx_key m @ ''/'')"
  show "view e' k = view e k"
    using assms 1 2 MutexUnlock_view [OF k, of e] SessionClose_view [OF k, of e1]
    by (cases r1; cases r2) (auto simp: UnlockAndCloseSession_def)
qed

end

section \<open>State\<close>

record network =
  nw_flannelID :: string
  nw_flannelDaemonProcess :: "int option"
  nw_etcdClient :: etcdClient
  nw_networkSubnet :: ipnet
  nw_hostSubnet :: ipnet
  nw_hostSubnetSize :: int
  nw_localGateway :: net_ip
  nw_mtu :: int
  nw_defaultFlannelOptions :: "string list"
  nw_pool :: "etcdPool option"
  nw_bridge :: "bridgeInterface option"
  nw_endpoints :: "(string, endpoint) gomap"
  nw_endpointsEtcdClient :: etcdClient
  nw_vni :: int

definition zero_ipnet :: ipnet where
  "zero_ipnet = \<lparr>ipnet_IP = [], ipnet_Mask = []\<rparr>"

definition NewNetwork ::
  "string \<Rightarrow> etcdClient \<Rightarrow> string \<Rightarrow> ipnet \<Rightarrow> int \<Rightarrow> string list \<Rightarrow> int \<Rightarrow> network"
where
  "NewNetwork hostname etcdClient flannelID networkSubnet hostSubnetSize defaultFlannelOptions vni =
     \<lparr>nw_flannelID = flannelID, nw_flannelDaemonProcess = None, nw_etcdClient = etcdClient,
      nw_networkSubnet = networkSubnet, nw_hostSubnet = zero_ipnet, nw_hostSubnetSize = hostSubnetSize,
      nw_localGateway = [], nw_mtu = 0, nw_defaultFlannelOptions = defaultFlannelOptions, nw_pool = None,
      nw_bridge = None, nw_endpoints = [],
      nw_endpointsEtcdClient = CreateSubClient etcdClient [flannelID, hostname, ''endpoints''],
      nw_vni = vni\<rparr>"

definition network_GetInfo :: "network \<Rightarrow> FlannelNetworkInfo" where
  "network_GetInfo n =
     \<lparr>fi_FlannelID = nw_flannelID n, fi_MTU = nw_mtu n, fi_Network = nw_networkSubnet n,
      fi_HostSubnet = nw_hostSubnet n, fi_LocalGateway = nw_localGateway n\<rparr>"

definition GetPool :: "network \<Rightarrow> etcdPool option" where
  "GetPool n = nw_pool n"

section \<open>The configuration of a network\<close>

record BackendConfig =
  bc_Type :: string
  bc_VNI :: int

record Config =
  cf_Network :: string
  cf_SubnetLen :: int
  cf_Backend :: BackendConfig

record BackendData =
  bd_VNI :: int
  bd_VtepMAC :: string

record SubnetConfig =
  sc_PublicIP :: string
  sc_BackendType :: string
  sc_BackendData :: BackendData

definition flannelConfigPrefixKey :: "network \<Rightarrow> string" where
  "flannelConfigPrefixKey n = GetKey (nw_etcdClient n) [nw_flannelID n]"

definition flannelConfigKey :: "network \<Rightarrow> string" where
  "flannelConfigKey n = flannelConfigPrefixKey n @ ''/config''"

definition flannelConfigSubnetKey :: "network \<Rightarrow> ipnet \<Rightarrow> string" where
  "flannelConfigSubnetKey n subnet = flannelConfigPrefixKey n @ ''/subnets/'' @ SubnetToKey (ipnet_String subnet)"

definition flannelLockKey :: "network \<Rightarrow> string" where
  "flannelLockKey n = flannelConfigPrefixKey n @ ''/lock''"

record ReadNetworkConfigResult =
  rc_config :: Config
  rc_revision :: int
  rc_found :: bool

definition zero_config :: Config where
  "zero_config = \<lparr>cf_Network = [], cf_SubnetLen = 0, cf_Backend = \<lparr>bc_Type = [], bc_VNI = 0\<rparr>\<rparr>"

definition readNetworkConfig ::
  "'e etcd \<Rightarrow> 'e etcd_ext \<Rightarrow> Config codec \<Rightarrow> network \<Rightarrow> 'e \<Rightarrow> ReadNetworkConfigResult res \<times> 'e"
where
  "readNetworkConfig E X C n e =
     WithConnection E (\<lambda>e.
       res_bind (res_wrap ''error reading network config'' (GetRev X (flannelConfigKey n) e))
         (\<lambda>kvs e. case kvs of
            None \<Rightarrow> (Ok \<lparr>rc_config = zero_config, rc_revision = 0, rc_found = False\<rparr>, e)
          | Some (v, revision) \<Rightarrow>
              (case Unmarshal C v of
                 None \<Rightarrow> (Err (Errorf ''error deserializing configuration''), e)
               | Some configData \<Rightarrow>
                   (Ok \<lparr>rc_config = configData, rc_revision = revision, rc_found = True\<rparr>, e)))) e"

text \<open>What both readings of an existing configuration do.\<close>

definition reuse_config ::
  "network \<Rightarrow> ReadNetworkConfigResult \<Rightarrow> 'e \<Rightarrow> ('e \<Rightarrow> unit res \<times> 'e) \<Rightarrow> unit res \<times> 'e"
where
  "reuse_config n result e otherwise =
     (if rc_found result
      then (if cf_Network (rc_config result) = ipnet_String (nw_networkSubnet n) then (Ok (), e)
            else (Err (Errorf ''there already is a flannel config for network''), e))
      else otherwise e)"

definition new_config :: "network \<Rightarrow> Config" where
  "new_config n =
     \<lparr>cf_Network = ipnet_String (nw_networkSubnet n), cf_SubnetLen = nw_hostSubnetSize n,
      cf_Backend = \<lparr>bc_Type = ''vxlan'', bc_VNI = nw_vni n\<rparr>\<rparr>"

definition ensureFlannelConfig ::
  "'e etcd \<Rightarrow> 'e etcd_ext \<Rightarrow> Config codec \<Rightarrow> network \<Rightarrow> 'e \<Rightarrow> unit res \<times> 'e"
where
  "ensureFlannelConfig E X C n e =
     WithConnection E (\<lambda>e.
       res_bind (res_wrap ''error reading existing flannel network config'' (readNetworkConfig E X C n e))
         (\<lambda>result e. reuse_config n result e (\<lambda>e.
            case Marshal C (new_config n) of
              None \<Rightarrow> (Err (Foreign ''json''), e)
            | Some configString \<Rightarrow>
                res_bind (Txn E [CreateRevisionIs0 (flannelConfigKey n)]
                            [OpPut (flannelConfigKey n) configString] [] e)
                  (\<lambda>(succeeded, _) e.
                     if \<not> succeeded
                     then res_bind (res_wrap ''error reading existing flannel network config''
                              (readNetworkConfig E X C n e))
                            (\<lambda>result e. reuse_config n result e (\<lambda>e. (Ok (), e)))
                     else (Ok (), e))))) e"

definition cleanupEtcdData ::
  "'e etcd \<Rightarrow> 'e etcd_ext \<Rightarrow> Config codec \<Rightarrow> network \<Rightarrow> 'e \<Rightarrow> unit res \<times> 'e"
where
  "cleanupEtcdData E X C n e =
     WithConnection E (\<lambda>e.
       res_bind (res_wrap ''error deleting flannel host subnet config''
                   (Delete E (flannelConfigSubnetKey n (nw_hostSubnet n)) e))
         (\<lambda>_ e. res_bind (res_wrap ''error reading existing flannel network config'' (readNetworkConfig E X C n e))
            (\<lambda>result e.
               if rc_found result \<and> cf_Network (rc_config result) \<noteq> ipnet_String (nw_networkSubnet n)
               then (Err (Errorf ''the flannel config has unexpected network''), e)
               else res_bind (res_wrap ''error deleting flannel network config''
                        (TxnModRev X (flannelConfigKey n) (rc_revision result) [OpDelete (flannelConfigKey n)] e))
                      (\<lambda>succeeded e.
                         if \<not> succeeded
                         then res_bind (res_wrap ''error deleting flannel network config, and error during check''
                                  (GetRev X (flannelConfigKey n) e))
                                (\<lambda>kvs e. case kvs of
                                   Some _ \<Rightarrow> (Err (Errorf ''error deleting flannel network config''), e)
                                 | None \<Rightarrow> (Ok (), e))
                         else (Ok (), e))))) e"

section \<open>Networks that no longer exist\<close>

datatype net_addr = AddrIPNet net_ip | AddrIPAddr net_ip | AddrOther

definition IsUnspecified :: "net_ip \<Rightarrow> bool" where
  "IsUnspecified ip \<longleftrightarrow> ip_Equal ip [0, 0, 0, 0] \<or> ip_Equal ip (replicate 16 0)"

definition add_local_ip :: "(string, unit) gomap \<Rightarrow> net_addr \<Rightarrow> (string, unit) gomap" where
  "add_local_ip localIPs addr =
     (let ip = (case addr of AddrIPNet ip \<Rightarrow> ip | AddrIPAddr ip \<Rightarrow> ip | AddrOther \<Rightarrow> [])
      in if ip = [] \<or> IsUnspecified ip then localIPs else gomap_set localIPs (ip_String ip) ())"

fun collect_local_ips :: "(string, unit) gomap \<Rightarrow> net_addr list res list \<Rightarrow> (string, unit) gomap res" where
  "collect_local_ips localIPs [] = Ok localIPs"
| "collect_local_ips localIPs (iface # interfaces) =
     (case iface of
        Ok addrs \<Rightarrow> collect_local_ips (foldl add_local_ip localIPs addrs) interfaces
      | Err er \<Rightarrow> Err (WithMessage er ''failed to get addresses for interface'')
      | Panic \<Rightarrow> Panic)"

text \<open>The answers of \<open>net.Interfaces\<close> and, for each interface, of its \<open>Addrs\<close> are the argument.\<close>

definition getLocalIPsMap :: "net_addr list res list res \<Rightarrow> (string, unit) gomap res" where
  "getLocalIPsMap interfaces =
     (case interfaces of
        Ok ifaces \<Rightarrow> collect_local_ips [] ifaces
      | Err er \<Rightarrow> Err (WithMessage er ''failed to get network interfaces'')
      | Panic \<Rightarrow> Panic)"

record stale_pkgs =
  json_config :: "Config codec"
  json_subnet :: "SubnetConfig codec"
  lo_SomeBy_net :: "NetworkInfo list \<Rightarrow> (NetworkInfo \<Rightarrow> bool) \<Rightarrow> bool"
  lo_Some_str :: "string list \<Rightarrow> string list \<Rightarrow> bool"
  lo_Map_str :: "(string \<Rightarrow> string) \<Rightarrow> string list \<Rightarrow> string list"
  lo_Map_int :: "(int \<Rightarrow> string) \<Rightarrow> int list \<Rightarrow> string list"
  maps_Keys :: "(int, string) gomap \<Rightarrow> int list"
  maps_Values :: "(int, string) gomap \<Rightarrow> string list"

definition FormatInt :: "int \<Rightarrow> string" where
  "FormatInt i = (if i < 0 then CHR ''-'' # FormatUint (nat (- i)) else FormatUint (nat i))"

definition key_parts :: "etcdClient \<Rightarrow> string \<Rightarrow> string list" where
  "key_parts c key = split_on CHR ''/'' (TrimLeft CHR ''/'' (TrimPrefix key (GetKey c [])))"

text \<open>One key of the listing: the networks to delete, and the VNIs in use with their networks.\<close>

definition scan_network_key ::
  "stale_pkgs \<Rightarrow> etcdClient \<Rightarrow> NetworkInfo list \<Rightarrow> (string, unit) gomap \<Rightarrow>
   (string, unit) gomap \<times> (int, string) gomap \<Rightarrow> KeyValue \<Rightarrow> (string, unit) gomap \<times> (int, string) gomap"
where
  "scan_network_key P c existingNetworks localIPs st kv =
     (case st of (networksToDelete, vnis) \<Rightarrow>
        let keyParts = key_parts c (kv_Key kv); flannelNetworkID = keyParts ! 0
        in if \<not> lo_SomeBy_net P existingNetworks (\<lambda>item. ni_FlannelID item = flannelNetworkID)
           then (gomap_set networksToDelete flannelNetworkID (), vnis)
           else if length keyParts = 2 \<and> keyParts ! 1 = ''config''
           then (case Unmarshal (json_config P) (kv_Value kv) of
                   None \<Rightarrow> (networksToDelete, vnis)
                 | Some configData \<Rightarrow>
                     (networksToDelete, gomap_set vnis (bc_VNI (cf_Backend configData)) flannelNetworkID))
           else if length keyParts = 3 \<and> keyParts ! 1 = ''subnets''
           then (case Unmarshal (json_subnet P) (kv_Value kv) of
                   None \<Rightarrow> (networksToDelete, vnis)
                 | Some subnetConfigData \<Rightarrow>
                     if map_of localIPs (sc_PublicIP subnetConfigData) = None then (networksToDelete, vnis)
                     else (networksToDelete, gomap_set vnis (bd_VNI (sc_BackendData subnetConfigData)) flannelNetworkID))
           else (networksToDelete, vnis))"

fun delete_networks :: "'e etcd \<Rightarrow> etcdClient \<Rightarrow> string list \<Rightarrow> 'e \<Rightarrow> unit res \<times> 'e" where
  "delete_networks E c [] e = (Ok (), e)"
| "delete_networks E c (i # ids) e =
     drop_err (DeletePrefix E (GetKey c [i]) e) (\<lambda>e. delete_networks E c ids e)"

definition cleanup_networks_etcd ::
  "'e etcd \<Rightarrow> stale_pkgs \<Rightarrow> etcdClient \<Rightarrow> NetworkInfo list \<Rightarrow> (string, unit) gomap \<Rightarrow> 'e \<Rightarrow>
   (int, string) gomap res \<times> 'e"
where
  "cleanup_networks_etcd E P c existingNetworks localIPs e =
     WithConnection E (\<lambda>e.
       res_bind (res_wrap ''error retrieving existing networks data from etcd'' (GetPrefix E (GetKey c []) e))
         (\<lambda>kvs e. case foldl (scan_network_key P c existingNetworks localIPs) ([], []) kvs of
            (networksToDelete, vnis) \<Rightarrow>
              res_bind (delete_networks E c (gomap_keys networksToDelete) e) (\<lambda>_ e. (Ok vnis, e)))) e"

fun delete_stale_links :: "'k netlink \<Rightarrow> stale_pkgs \<Rightarrow> string list \<Rightarrow> LinkEntry list \<Rightarrow> 'k \<Rightarrow> unit res \<times> 'k" where
  "delete_stale_links N P valid [] k = (Ok (), k)"
| "delete_stale_links N P valid (link # links) k =
     (if HasPrefix (le_Name link) ''flannel'' \<and> \<not> lo_Some_str P valid [le_Name link]
      then drop_err (LinkDel N (le_Name link) k) (\<lambda>k. delete_stale_links N P valid links k)
      else delete_stale_links N P valid links k)"

definition CleanupStaleNetworks ::
  "'k kernel \<Rightarrow> 'k netlink \<Rightarrow> 'e etcd \<Rightarrow> stale_pkgs \<Rightarrow> net_addr list res list res \<Rightarrow> etcdClient \<Rightarrow>
   NetworkInfo list \<Rightarrow> 'k \<Rightarrow> 'e \<Rightarrow> unit res \<times> 'k \<times> 'e"
where
  "CleanupStaleNetworks K N E P interfaces c existingNetworks k e =
     (case getLocalIPsMap interfaces of
        Err er \<Rightarrow> (Err er, k, e)
      | Panic \<Rightarrow> (Panic, k, e)
      | Ok localIPs \<Rightarrow>
          (case cleanup_networks_etcd E P c existingNetworks localIPs e of
             (Err er, e) \<Rightarrow> (Err er, k, e)
           | (Panic, e) \<Rightarrow> (Panic, k, e)
           | (Ok vnis, e) \<Rightarrow>
               (case res_bind (res_wrap ''error listing network interfaces when cleaning up stale networks'' (LinkList N k))
                       (\<lambda>links k. res_bind (delete_stale_links N P
                            (lo_Map_int P (\<lambda>vni. ''flannel.'' @ FormatInt vni) (maps_Keys P vnis)) links k)
                          (\<lambda>_ k. res_wrap ''error cleaning up stale network interfaces''
                             (CleanUpStaleInterfaces K N (lo_Some_str P) (lo_Map_str P) (maps_Values P vnis) k))) of
                  (r, k) \<Rightarrow> (r, k, e))))"

section \<open>The nodes agree on a configuration\<close>

context etcd_revisions
begin

lemma WithConnection_step:
  obtains e1 where "view e1 = view e" "modrev e1 = modrev e"
    "\<And>r e2. fn e1 = (r, e2) \<Longrightarrow>
       \<exists>e'. WithConnection E fn e = (r, e') \<and> view e' = view e2 \<and> modrev e' = modrev e2"
proof -
  obtain e1 where n: "New E e = (Ok (), e1)" using New_ok by blast
  have "\<exists>e'. WithConnection E fn e = (r, e') \<and> view e' = view e2 \<and> modrev e' = modrev e2"
    if "fn e1 = (r, e2)" for r e2
    using n that Close_view [of e2] Close_modrev [of e2] Close_no_panic [of e2]
    by (auto simp: WithConnection_def NewConnection_def connection_Close_def split: prod.splits res.splits)
  then show ?thesis using that [of e1] New_view [of e] New_modrev [of e] n by simp
qed

definition stored_config :: "Config codec \<Rightarrow> network \<Rightarrow> 'e \<Rightarrow> ReadNetworkConfigResult res" where
  "stored_config C n e =
     (case view e (flannelConfigKey n) of
        None \<Rightarrow> Ok \<lparr>rc_config = zero_config, rc_revision = 0, rc_found = False\<rparr>
      | Some v \<Rightarrow>
          (case Unmarshal C v of
             None \<Rightarrow> Err (Errorf ''error deserializing configuration'')
           | Some cfg \<Rightarrow> Ok \<lparr>rc_config = cfg, rc_revision = modrev e (flannelConfigKey n), rc_found = True\<rparr>))"

lemma readNetworkConfig_run:
  "\<exists>e'. readNetworkConfig E X C n e = (stored_config C n e, e') \<and> view e' = view e \<and> modrev e' = modrev e"
proof -
  let ?fn = "\<lambda>e. res_bind (res_wrap ''error reading network config'' (GetRev X (flannelConfigKey n) e))
    (\<lambda>kvs e. case kvs of
       None \<Rightarrow> (Ok \<lparr>rc_config = zero_config, rc_revision = 0, rc_found = False\<rparr>, e)
     | Some (v, revision) \<Rightarrow>
         (case Unmarshal C v of
            None \<Rightarrow> (Err (Errorf ''error deserializing configuration''), e)
          | Some cfg \<Rightarrow> (Ok \<lparr>rc_config = cfg, rc_revision = revision, rc_found = True\<rparr>, e)))"
  obtain e1 where 1: "view e1 = view e" "modrev e1 = modrev e"
    "\<And>r e2. ?fn e1 = (r, e2) \<Longrightarrow>
       \<exists>e'. WithConnection E ?fn e = (r, e') \<and> view e' = view e2 \<and> modrev e' = modrev e2"
    using WithConnection_step [of e ?fn] by blast
  obtain e2 where "GetRev X (flannelConfigKey n) e1 =
      (Ok (map_option (\<lambda>v. (v, modrev e1 (flannelConfigKey n))) (view e1 (flannelConfigKey n))), e2)"
    "view e2 = view e1" "modrev e2 = modrev e1"
    using GetRev_ok [of "flannelConfigKey n" e1] by blast
  then have "?fn e1 = (stored_config C n e, e2)" "view e2 = view e" "modrev e2 = modrev e"
    using 1(1,2) by (auto simp: stored_config_def split: option.splits)
  then show ?thesis using 1(3) [of "stored_config C n e" e2] by (simp add: readNetworkConfig_def)
qed

lemma ensureFlannelConfig_run:
  assumes "Marshal C (new_config n) = Some s"
  shows "\<exists>r e'. ensureFlannelConfig E X C n e = (r, e') \<and> r \<noteq> Panic \<and>
    (case view e (flannelConfigKey n) of
       None \<Rightarrow> r = Ok () \<and> view e' = (view e)(flannelConfigKey n \<mapsto> s)
     | Some v \<Rightarrow> view e' = view e \<and>
         (r = Ok () \<longleftrightarrow> map_option cf_Network (Unmarshal C v) = Some (ipnet_String (nw_networkSubnet n))))"
proof -
  let ?key = "flannelConfigKey n"
  let ?fn = "\<lambda>e. res_bind (res_wrap ''error reading existing flannel network config'' (readNetworkConfig E X C n e))
         (\<lambda>result e. reuse_config n result e (\<lambda>e.
            case Marshal C (new_config n) of
              None \<Rightarrow> (Err (Foreign ''json''), e)
            | Some configString \<Rightarrow>
                res_bind (Txn E [CreateRevisionIs0 (flannelConfigKey n)]
                            [OpPut (flannelConfigKey n) configString] [] e)
                  (\<lambda>(succeeded, _) e.
                     if \<not> succeeded
                     then res_bind (res_wrap ''error reading existing flannel network config''
                              (readNetworkConfig E X C n e))
                            (\<lambda>result e. reuse_config n result e (\<lambda>e. (Ok (), e)))
                     else (Ok (), e))))"
  obtain e1 where 1: "view e1 = view e" "modrev e1 = modrev e"
    "\<And>r e2. ?fn e1 = (r, e2) \<Longrightarrow>
       \<exists>e'. WithConnection E ?fn e = (r, e') \<and> view e' = view e2 \<and> modrev e' = modrev e2"
    using WithConnection_step [of e ?fn] by blast
  obtain e2 where 2: "readNetworkConfig E X C n e1 = (stored_config C n e1, e2)" "view e2 = view e1"
    using readNetworkConfig_run by blast
  obtain e3 where 3: "Txn E [CreateRevisionIs0 ?key] [OpPut ?key s] [] e2 =
      (Ok (list_all (cmp_holds (view e2)) [CreateRevisionIs0 ?key],
           op_responses (if list_all (cmp_holds (view e2)) [CreateRevisionIs0 ?key] then [OpPut ?key s] else []) (view e2)), e3)"
    "view e3 = apply_ops (if list_all (cmp_holds (view e2)) [CreateRevisionIs0 ?key] then [OpPut ?key s] else []) (view e2)"
    by (rule Txn_run)
  obtain r e4 where 4: "?fn e1 = (r, e4)" by force
  have "r \<noteq> Panic \<and> (case view e ?key of
       None \<Rightarrow> r = Ok () \<and> view e4 = (view e)(?key \<mapsto> s)
     | Some v \<Rightarrow> view e4 = view e \<and>
         (r = Ok () \<longleftrightarrow> map_option cf_Network (Unmarshal C v) = Some (ipnet_String (nw_networkSubnet n))))"
  proof (cases "view e ?key")
    case None
    then have "?fn e1 = (Ok (), e3)"
      using 2 3 assms 1(1) by (simp add: stored_config_def reuse_config_def)
    then show ?thesis using None 3(2) 4 2(2) 1(1) by simp
  next
    case (Some v)
    then have "?fn e1 = (case Unmarshal C v of
        None \<Rightarrow> (Err (WithMessage (Errorf ''error deserializing configuration'') ''error reading existing flannel network config''), e2)
      | Some cfg \<Rightarrow> if cf_Network cfg = ipnet_String (nw_networkSubnet n) then (Ok (), e2)
          else (Err (Errorf ''there already is a flannel config for network''), e2))"
      using 2 1(1) by (simp add: stored_config_def reuse_config_def split: option.splits)
    then show ?thesis using Some 4 2(2) 1(1) by (auto split: option.splits if_splits)
  qed
  moreover obtain e' where "WithConnection E ?fn e = (r, e')" "view e' = view e4" using 1(3) [OF 4] by blast
  ultimately show ?thesis unfolding ensureFlannelConfig_def
    by (intro exI [of _ r] exI [of _ e'] conjI) (auto split: option.splits)
qed

end

text \<open>Nodes that ensure the configuration of a network one after the other, with their answers.\<close>

fun ensure_all ::
  "'e etcd \<Rightarrow> 'e etcd_ext \<Rightarrow> Config codec \<Rightarrow> network list \<Rightarrow> 'e \<Rightarrow> (network \<times> unit res) list \<times> 'e"
where
  "ensure_all E X C [] e = ([], e)"
| "ensure_all E X C (n # ns) e =
     (case ensureFlannelConfig E X C n e of (r, e) \<Rightarrow>
        (case ensure_all E X C ns e of (rs, e) \<Rightarrow> ((n, r) # rs, e)))"

definition config_of :: "Config codec \<Rightarrow> string \<Rightarrow> kv_view \<Rightarrow> string option" where
  "config_of C key m = (case m key of None \<Rightarrow> None | Some v \<Rightarrow> map_option cf_Network (Unmarshal C v))"

context etcd_revisions
begin

lemma ensureFlannelConfig_decides:
  assumes "codec_law C" "ensureFlannelConfig E X C n e = (r, e')"
  shows "view e (flannelConfigKey n) = None \<Longrightarrow>
      r = Ok () \<and> config_of C (flannelConfigKey n) (view e') = Some (ipnet_String (nw_networkSubnet n))"
    and "view e (flannelConfigKey n) \<noteq> None \<Longrightarrow> view e' = view e
      \<and> (r = Ok () \<longleftrightarrow> config_of C (flannelConfigKey n) (view e) = Some (ipnet_String (nw_networkSubnet n)))"
    and "view e' (flannelConfigKey n) \<noteq> None"
proof -
  obtain s where s: "Marshal C (new_config n) = Some s" "Unmarshal C s = Some (new_config n)"
    using assms(1) unfolding codec_law_def by blast
  note run = ensureFlannelConfig_run [OF s(1), of e, unfolded assms(2)]
  show "view e (flannelConfigKey n) = None \<Longrightarrow>
      r = Ok () \<and> config_of C (flannelConfigKey n) (view e') = Some (ipnet_String (nw_networkSubnet n))"
    using run s(2) by (auto simp: config_of_def new_config_def)
  show "view e (flannelConfigKey n) \<noteq> None \<Longrightarrow> view e' = view e
      \<and> (r = Ok () \<longleftrightarrow> config_of C (flannelConfigKey n) (view e) = Some (ipnet_String (nw_networkSubnet n)))"
    using run by (auto simp: config_of_def)
  show "view e' (flannelConfigKey n) \<noteq> None"
    using run by (cases "view e (flannelConfigKey n)") auto
qed

lemma ensure_all_decided:
  assumes "codec_law C" "ensure_all E X C ns e = (rs, e')" "\<forall>n \<in> set ns. flannelConfigKey n = key" "view e key \<noteq> None"
  shows "view e' = view e
    \<and> (\<forall>(n, r) \<in> set rs. r = Ok () \<longleftrightarrow> config_of C key (view e) = Some (ipnet_String (nw_networkSubnet n)))"
  using assms(2-)
proof (induction ns arbitrary: e rs)
  case (Cons n ns)
  obtain r e1 rs1 where 1: "ensureFlannelConfig E X C n e = (r, e1)" "ensure_all E X C ns e1 = (rs1, e')" "rs = (n, r) # rs1"
    using Cons.prems(1) by (auto split: prod.splits)
  have k: "flannelConfigKey n = key" using Cons.prems(2) by simp
  note d = ensureFlannelConfig_decides(2) [OF assms(1) 1(1), unfolded k, OF Cons.prems(3)]
  show ?case using Cons.IH [OF 1(2)] Cons.prems(2,3) d 1(3) by auto
qed simp

lemma cleanupEtcdData_run:
  assumes "flannelConfigKey n \<noteq> flannelConfigSubnetKey n (nw_hostSubnet n)"
  shows "\<exists>r e'. cleanupEtcdData E X C n e = (r, e') \<and> r \<noteq> Panic \<and>
    (let m = (view e)(flannelConfigSubnetKey n (nw_hostSubnet n) := None)
     in if view e (flannelConfigKey n) = None
          \<or> config_of C (flannelConfigKey n) (view e) = Some (ipnet_String (nw_networkSubnet n))
        then r = Ok () \<and> view e' = m(flannelConfigKey n := None)
        else r \<noteq> Ok () \<and> view e' = m)"
proof -
  let ?key = "flannelConfigKey n" and ?sub = "flannelConfigSubnetKey n (nw_hostSubnet n)"
  let ?fn = "\<lambda>e. res_bind (res_wrap ''error deleting flannel host subnet config'' (Delete E ?sub e))
         (\<lambda>_ e. res_bind (res_wrap ''error reading existing flannel network config'' (readNetworkConfig E X C n e))
            (\<lambda>result e.
               if rc_found result \<and> cf_Network (rc_config result) \<noteq> ipnet_String (nw_networkSubnet n)
               then (Err (Errorf ''the flannel config has unexpected network''), e)
               else res_bind (res_wrap ''error deleting flannel network config''
                        (TxnModRev X ?key (rc_revision result) [OpDelete ?key] e))
                      (\<lambda>succeeded e.
                         if \<not> succeeded
                         then res_bind (res_wrap ''error deleting flannel network config, and error during check''
                                  (GetRev X ?key e))
                                (\<lambda>kvs e. case kvs of
                                   Some _ \<Rightarrow> (Err (Errorf ''error deleting flannel network config''), e)
                                 | None \<Rightarrow> (Ok (), e))
                         else (Ok (), e))))"
  let ?m = "(view e)(?sub := None)"
  let ?P = "\<lambda>r w. r \<noteq> Panic \<and> (if view e ?key = None \<or> config_of C ?key (view e) = Some (ipnet_String (nw_networkSubnet n))
        then r = Ok () \<and> w = ?m(?key := None) else r \<noteq> Ok () \<and> w = ?m)"
  obtain e1 where 1: "view e1 = view e" "modrev e1 = modrev e"
    "\<And>r e2. ?fn e1 = (r, e2) \<Longrightarrow>
       \<exists>e'. WithConnection E ?fn e = (r, e') \<and> view e' = view e2 \<and> modrev e' = modrev e2"
    using WithConnection_step [of e ?fn] by blast
  obtain u e2 where 2: "Delete E ?sub e1 = (Ok u, e2)" using Delete_ok by blast
  have v2: "view e2 = ?m" "view e2 ?key = view e ?key" "modrev e2 ?key = modrev e ?key"
    using Delete_Ok [OF 2] Delete_modrev [OF assms, of e1] 1(1,2) 2 assms by auto
  obtain e3 where 3: "readNetworkConfig E X C n e2 = (stored_config C n e2, e3)" "view e3 = view e2" "modrev e3 = modrev e2"
    using readNetworkConfig_run by blast
  obtain e4 where 4: "TxnModRev X ?key (modrev e ?key) [OpDelete ?key] e3 = (Ok True, e4)" "view e4 = ?m(?key := None)"
    using TxnModRev_ok [of ?key "modrev e ?key" "[OpDelete ?key]" e3] 3(2,3) v2 by auto
  have "\<exists>r e5. ?fn e1 = (r, e5) \<and> ?P r (view e5)"
  proof (cases "view e ?key")
    case None
    then have "modrev e ?key = 0" by (simp add: modrev_0)
    then have "?fn e1 = (Ok (), e4)" using None 2 3(1) v2 4(1) by (simp add: stored_config_def)
    then show ?thesis using None 4(2) by (intro exI [of _ "Ok ()"] exI [of _ e4]) simp
  next
    case (Some v)
    show ?thesis
    proof (cases "Unmarshal C v")
      case None
      then show ?thesis using Some 2 3 v2 by (auto simp: stored_config_def config_of_def)
    next
      case cfg: (Some cfg)
      then show ?thesis using Some 2 3 v2 4 by (simp add: stored_config_def config_of_def)
    qed
  qed
  then obtain r e5 where 5: "?fn e1 = (r, e5)" "?P r (view e5)" by blast
  obtain e' where "WithConnection E ?fn e = (r, e')" "view e' = view e5" using 1(3) [OF 5(1)] by blast
  then show ?thesis using 5(2) unfolding cleanupEtcdData_def Let_def by (intro exI [of _ r] exI [of _ e']) simp
qed

end

section \<open>Cleaning up\<close>

definition some_by_law :: "(NetworkInfo list \<Rightarrow> (NetworkInfo \<Rightarrow> bool) \<Rightarrow> bool) \<Rightarrow> bool" where
  "some_by_law f \<longleftrightarrow> (\<forall>xs p. f xs p = list_ex p xs)"

text \<open>The networks that own a key but are not among the existing ones.\<close>

definition stale_networks :: "etcdClient \<Rightarrow> NetworkInfo list \<Rightarrow> kv_view \<Rightarrow> string set" where
  "stale_networks c existing m =
     {key_parts c x ! 0 | x. m x \<noteq> None \<and> HasPrefix x (prefix c)} - ni_FlannelID ` set existing"

lemma scan_network_key_fst:
  assumes "some_by_law (lo_SomeBy_net P)"
  shows "dom (map_of (fst (scan_network_key P c existing l st kv))) =
    dom (map_of (fst st)) \<union> ({key_parts c (kv_Key kv) ! 0} - ni_FlannelID ` set existing)"
proof (cases "key_parts c (kv_Key kv) ! 0 \<in> ni_FlannelID ` set existing")
  case True
  then have "lo_SomeBy_net P existing (\<lambda>item. ni_FlannelID item = key_parts c (kv_Key kv) ! 0)"
    using assms by (auto simp: some_by_law_def list_ex_iff)
  then show ?thesis using True by (cases st) (auto simp: scan_network_key_def Let_def split: option.splits)
next
  case False
  then have "\<not> lo_SomeBy_net P existing (\<lambda>item. ni_FlannelID item = key_parts c (kv_Key kv) ! 0)"
    using assms by (auto simp: some_by_law_def list_ex_iff intro: rev_image_eqI)
  then show ?thesis using False by (cases st) (auto simp: scan_network_key_def Let_def)
qed

lemma scan_all_fst:
  assumes "some_by_law (lo_SomeBy_net P)"
  shows "dom (map_of (fst (foldl (scan_network_key P c existing l) st kvs))) =
    dom (map_of (fst st)) \<union> ((\<lambda>kv. key_parts c (kv_Key kv) ! 0) ` set kvs - ni_FlannelID ` set existing)"
  by (induction kvs arbitrary: st) (auto simp: scan_network_key_fst [OF assms])

definition without_networks :: "etcdClient \<Rightarrow> string set \<Rightarrow> kv_view \<Rightarrow> kv_view" where
  "without_networks c ids m = (\<lambda>x. if \<exists>i \<in> ids. HasPrefix x (GetKey c [i]) then None else m x)"

context etcd_reliable
begin

lemma delete_networks_run:
  "\<exists>e'. delete_networks E c ids e = (Ok (), e') \<and> view e' = without_networks c (set ids) (view e)"
proof (induction ids arbitrary: e)
  case (Cons i ids)
  obtain u e1 where 1: "DeletePrefix E (GetKey c [i]) e = (Ok u, e1)" using DeletePrefix_ok by blast
  obtain e' where "delete_networks E c ids e1 = (Ok (), e')" "view e' = without_networks c (set ids) (view e1)"
    using Cons.IH by blast
  then show ?case using 1 DeletePrefix_Ok [OF 1]
    by (auto simp: drop_err_def without_networks_def delete_prefix_def fun_eq_iff)
qed (simp add: without_networks_def)

lemma cleanup_networks_etcd_run:
  assumes "some_by_law (lo_SomeBy_net P)"
  shows "\<exists>vnis e'. cleanup_networks_etcd E P c existing l e = (Ok vnis, e')
    \<and> view e' = without_networks c (stale_networks c existing (view e)) (view e)"
proof -
  let ?fn = "\<lambda>e. res_bind (res_wrap ''error retrieving existing networks data from etcd'' (GetPrefix E (GetKey c []) e))
         (\<lambda>kvs e. case foldl (scan_network_key P c existing l) ([], []) kvs of
            (networksToDelete, vnis) \<Rightarrow>
              res_bind (delete_networks E c (gomap_keys networksToDelete) e) (\<lambda>_ e. (Ok vnis, e)))"
  have body: "\<exists>vnis e2. ?fn e1 = (Ok vnis, e2)
      \<and> view e2 = without_networks c (stale_networks c existing (view e1)) (view e1)" for e1
  proof -
    obtain kvs e2 where 2: "GetPrefix E (GetKey c []) e1 = (Ok kvs, e2)" using GetPrefix_ok by blast
    have v2: "view e2 = view e1" using GetPrefix_view [of "GetKey c []" e1] 2 by simp
    note L = kv_listingD [OF GetPrefix_Ok [OF 2]]
    obtain del vnis where f: "foldl (scan_network_key P c existing l) ([], []) kvs = (del, vnis)" by force
    have keys: "x \<in> (\<lambda>kv. key_parts c (kv_Key kv) ! 0) ` set kvs \<longleftrightarrow>
        (\<exists>k. x = key_parts c k ! 0 \<and> view e1 k \<noteq> None \<and> HasPrefix k (prefix c))" for x
    proof
      assume "x \<in> (\<lambda>kv. key_parts c (kv_Key kv) ! 0) ` set kvs"
      then obtain kv where "kv \<in> set kvs" "x = key_parts c (kv_Key kv) ! 0" by blast
      then show "\<exists>k. x = key_parts c k ! 0 \<and> view e1 k \<noteq> None \<and> HasPrefix k (prefix c)"
        using L [of kv] by (intro exI [of _ "kv_Key kv"]) simp
    next
      assume "\<exists>k. x = key_parts c k ! 0 \<and> view e1 k \<noteq> None \<and> HasPrefix k (prefix c)"
      then obtain k v where "x = key_parts c k ! 0" "view e1 k = Some v" "HasPrefix k (prefix c)" by blast
      then show "x \<in> (\<lambda>kv. key_parts c (kv_Key kv) ! 0) ` set kvs"
        using L [of "\<lparr>kv_Key = k, kv_Value = v\<rparr>"] by (intro image_eqI [of _ _ "\<lparr>kv_Key = k, kv_Value = v\<rparr>"]) simp_all
    qed
    have "dom (map_of del) = stale_networks c existing (view e1)"
      using scan_all_fst [OF assms, of c existing l "([], [])" kvs] f keys
      unfolding stale_networks_def set_eq_iff Diff_iff mem_Collect_eq by simp
    then have "set (gomap_keys del) = stale_networks c existing (view e1)" by (simp only: gomap_keys_dom)
    moreover obtain e3 where "delete_networks E c (gomap_keys del) e2 = (Ok (), e3)"
      "view e3 = without_networks c (set (gomap_keys del)) (view e2)"
      using delete_networks_run by blast
    ultimately show ?thesis using 2 f v2 by simp
  qed
  obtain r e' where w: "WithConnection E ?fn e = (r, e')" by force
  obtain e1 e2 where 1: "view e1 = view e" "?fn e1 = (r, e2)" "view e' = view e2"
    using WithConnection_run [OF w] by blast
  obtain vnis where "r = Ok vnis" "view e2 = without_networks c (stale_networks c existing (view e)) (view e)"
    using body [of e1] 1(1,2) by auto
  then show ?thesis using w 1(3) unfolding cleanup_networks_etcd_def by (intro exI [of _ vnis] exI [of _ e']) simp
qed

end

lemma key_parts_hd:
  assumes "t = [] \<or> hd t \<noteq> CHR ''/''"
  shows "HasPrefix (prefix c @ CHR ''/'' # t) (GetKey c [key_parts c (prefix c @ CHR ''/'' # t) ! 0])"
proof -
  have "key_parts c (prefix c @ CHR ''/'' # t) = split_on CHR ''/'' t"
    using assms by (simp add: key_parts_def TrimLeft_id)
  moreover have "HasPrefix t (split_on CHR ''/'' t ! 0)"
    by (induction t) (auto simp: HasPrefix_def split: list.splits)
  ultimately show ?thesis by (auto simp: HasPrefix_iff)
qed

section \<open>A concrete service\<close>

text \<open>In memory a key that exists has revision 1; a lock is a key below the key of the lock.\<close>

definition mem_rev :: "mem \<Rightarrow> string \<Rightarrow> int" where
  "mem_rev m k = (if map_of m k = None then 0 else 1)"

definition mem_etcd_ext :: "mem etcd_ext" where
  "mem_etcd_ext = \<lparr>
     GetRev = \<lambda>k m. (Ok (map_option (\<lambda>v. (v, mem_rev m k)) (map_of m k)), m),
     TxnModRev = \<lambda>k r ops m. (Ok (mem_rev m k = r), if mem_rev m k = r then fold mem_apply ops m else m),
     NewSession = \<lambda>m. (Ok (), m),
     MutexLock = \<lambda>k timeout m. (Ok (), gomap_set m (k @ ''/1'') []),
     MutexUnlock = \<lambda>k m. (Ok (), gomap_delete m (k @ ''/1'')),
     SessionClose = \<lambda>k m. (Ok (), m)\<rparr>"

interpretation mem_rev: etcd_revisions mem_etcd map_of mem_etcd_ext mem_rev
  by unfold_locales
    (auto simp: mem_etcd_ext_def mem_etcd_def mem_rev_def mem_apply_ops_view fun_eq_iff)

interpretation mem_mutex: etcd_mutexes mem_etcd map_of mem_etcd_ext mem_rev
  by unfold_locales (auto simp: mem_etcd_ext_def HasPrefix_def)

definition enc_int :: "int \<Rightarrow> string" where
  "enc_int i = FormatInt i"

definition dec_int :: "string \<Rightarrow> int" where
  "dec_int s = (if hd s = CHR ''-'' then - int (dec_value (tl s)) else int (dec_value s))"

lemma dec_enc_int [simp]: "dec_int (enc_int i) = i"
proof (cases "i < 0")
  case False
  have "hd (FormatUint (nat i)) \<noteq> CHR ''-''"
    using FormatUint_free [of "CHR ''-''" "nat i"] FormatUint_nonempty [of "nat i"] by (metis hd_in_set not_digit_sep(4))
  then show ?thesis using False by (simp add: dec_int_def enc_int_def FormatInt_def)
qed (simp add: dec_int_def enc_int_def FormatInt_def)

definition config_codec :: "Config codec" where
  "config_codec = codec_of
     (\<lambda>c. [cf_Network c, enc_int (cf_SubnetLen c), bc_Type (cf_Backend c), enc_int (bc_VNI (cf_Backend c))])
     (\<lambda>f. \<lparr>cf_Network = f ! 0, cf_SubnetLen = dec_int (f ! 1), cf_Backend = \<lparr>bc_Type = f ! 2, bc_VNI = dec_int (f ! 3)\<rparr>\<rparr>)"

lemma config_codec_law: "codec_law config_codec"
  unfolding config_codec_def by (rule codec_of_law) simp

definition subnet_codec :: "SubnetConfig codec" where
  "subnet_codec = codec_of
     (\<lambda>c. [sc_PublicIP c, sc_BackendType c, enc_int (bd_VNI (sc_BackendData c)), bd_VtepMAC (sc_BackendData c)])
     (\<lambda>f. \<lparr>sc_PublicIP = f ! 0, sc_BackendType = f ! 1,
        sc_BackendData = \<lparr>bd_VNI = dec_int (f ! 2), bd_VtepMAC = f ! 3\<rparr>\<rparr>)"

definition ref_stale_pkgs :: stale_pkgs where
  "ref_stale_pkgs = \<lparr>json_config = config_codec, json_subnet = subnet_codec,
     lo_SomeBy_net = \<lambda>xs p. list_ex p xs, lo_Some_str = \<lambda>xs ys. list_ex (\<lambda>y. y \<in> set xs) ys,
     lo_Map_str = map, lo_Map_int = map, maps_Keys = gomap_keys, maps_Values = map snd\<rparr>"

lemma ref_some_by_law: "some_by_law (lo_SomeBy_net ref_stale_pkgs)"
  by (simp add: ref_stale_pkgs_def some_by_law_def)

section \<open>Properties\<close>


definition demo_network :: "ipnet \<Rightarrow> network" where
  "demo_network subnet = NewNetwork ''host'' (NewEtcdClient [] 5 ''/flannel'') ''n1'' subnet 24 [] 7"


text \<open>
  C20: The cleanup removes from etcd exactly the keys below each network that no existing network
  names, whatever happens to the interfaces afterwards; every key that is left below the prefix
  belongs to an existing network. Below is meant as text: a network whose identifier starts with
  that of a removed network loses its keys, too.
\<close>

theorem stale_networks_removed:
  assumes "etcd_reliable E view" "some_by_law (lo_SomeBy_net P)" "wf_keys (prefix c) (view e)"
    "getLocalIPsMap interfaces = Ok l" "CleanupStaleNetworks K N E P interfaces c existing k e = (r, k', e')"
  shows "view e' = (\<lambda>x. if \<exists>i \<in> stale_networks c existing (view e). HasPrefix x (GetKey c [i]) then None else view e x)
    \<and> (\<forall>x v. view e' x = Some v \<and> HasPrefix x (prefix c) \<longrightarrow> key_parts c x ! 0 \<in> ni_FlannelID ` set existing)"
proof -
  obtain vnis e1 where 1: "cleanup_networks_etcd E P c existing l e = (Ok vnis, e1)"
    "view e1 = without_networks c (stale_networks c existing (view e)) (view e)"
    using etcd_reliable.cleanup_networks_etcd_run [OF assms(1,2)] by blast
  then have e': "view e' = without_networks c (stale_networks c existing (view e)) (view e)"
    using assms(4,5) by (auto simp: CleanupStaleNetworks_def split: prod.splits)
  have "key_parts c x ! 0 \<in> ni_FlannelID ` set existing" if x: "view e' x = Some v" "HasPrefix x (prefix c)" for x v
  proof (rule ccontr)
    assume no: "key_parts c x ! 0 \<notin> ni_FlannelID ` set existing"
    have vx: "view e x = Some v" using x(1) e' by (simp add: without_networks_def split: if_splits)
    then obtain t where t: "x = prefix c @ CHR ''/'' # t" "t = [] \<or> hd t \<noteq> CHR ''/''"
      using assms(3) x(2) unfolding wf_keys_def by blast
    have "key_parts c x ! 0 \<in> stale_networks c existing (view e)"
      using no vx x(2) by (auto simp: stale_networks_def)
    then have "view e' x = None" using key_parts_hd [OF t(2), of c] t(1) e' by (auto simp: without_networks_def)
    then show False using x(1) by simp
  qed
  then show ?thesis using e' by (auto simp: without_networks_def)
qed

definition demo_networks_etcd :: mem where
  "demo_networks_etcd = [(''/flannel/n1/config'', []), (''/flannel/n2/config'', []), (''/flannel/n22/config'', [])]"

lemma stale_networks_removed_witness:
  "\<exists>r k' e'. CleanupStaleNetworks mem_kernel mem_netlink mem_etcd ref_stale_pkgs (Ok []) (NewEtcdClient [] 5 ''/flannel'')
      [\<lparr>ni_DockerID = ''d1'', ni_FlannelID = ''n1'', ni_Subnet = [], ni_Name = []\<rparr>] kmem_empty demo_networks_etcd = (r, k', e')
    \<and> map_of e' ''/flannel/n2/config'' = None"
proof -
  let ?c = "NewEtcdClient [] 5 ''/flannel''" and ?m = "map_of demo_networks_etcd"
  let ?ex = "[\<lparr>ni_DockerID = ''d1'', ni_FlannelID = ''n1'', ni_Subnet = [], ni_Name = []\<rparr>]"
  obtain r k' e' where run: "CleanupStaleNetworks mem_kernel mem_netlink mem_etcd ref_stale_pkgs (Ok []) ?c ?ex kmem_empty
      demo_networks_etcd = (r, k', e')"
    by (metis surj_pair)
  have c: "prefix ?c = ''/flannel''" by code_simp
  have "wf_keys (prefix ?c) ?m"
    unfolding wf_keys_def c demo_networks_etcd_def by (auto split: if_splits)
  note th = stale_networks_removed [OF mem.etcd_reliable_axioms ref_some_by_law this _ run, of "[]"]
  have "?m ''/flannel/n2/config'' = Some [] \<and> HasPrefix ''/flannel/n2/config'' (prefix ?c)
      \<and> key_parts ?c ''/flannel/n2/config'' ! 0 = ''n2''" by code_simp
  moreover have "getLocalIPsMap (Ok []) = Ok []" by (simp add: getLocalIPsMap_def)
  note th = conjunct2 [OF th [OF this], rule_format, of "''/flannel/n2/config''"]
  ultimately have "map_of e' ''/flannel/n2/config'' \<noteq> Some v" for v using th [of v] by auto
  then show ?thesis using run by auto
qed

text \<open>
  Deleting the data of a network in etcd ends with the configuration and the lease of this host
  removed and success exactly when no configuration is stored, or one for the same network;
  otherwise only the lease is removed. No other key changes.
\<close>

theorem cleanupEtcdData_spec:
  assumes "etcd_revisions E view X modrev"
  shows "\<exists>r e'. cleanupEtcdData E X C n e = (r, e') \<and> r \<noteq> Panic \<and>
    (let m = (view e)(flannelConfigSubnetKey n (nw_hostSubnet n) := None)
     in if view e (flannelConfigKey n) = None
          \<or> config_of C (flannelConfigKey n) (view e) = Some (ipnet_String (nw_networkSubnet n))
        then r = Ok () \<and> view e' = m(flannelConfigKey n := None)
        else r \<noteq> Ok () \<and> view e' = m)"
  by (rule etcd_revisions.cleanupEtcdData_run [OF assms]) (simp add: flannelConfigKey_def flannelConfigSubnetKey_def)

lemma cleanupEtcdData_spec_witness:
  "\<exists>e'. cleanupEtcdData mem_etcd mem_etcd_ext config_codec (demo_network zero_ipnet) [(''/a'', ''1'')] = (Ok (), e')
    \<and> map_of e' ''/a'' = Some ''1''"
proof -
  have "flannelConfigKey (demo_network zero_ipnet) = ''/flannel/n1/config''"
    "flannelConfigSubnetKey (demo_network zero_ipnet) (nw_hostSubnet (demo_network zero_ipnet)) = ''/flannel/n1/subnets/<nil>''"
    by code_simp+
  then show ?thesis
    using cleanupEtcdData_spec [OF mem_rev.etcd_revisions_axioms, of config_codec "demo_network zero_ipnet" "[(''/a'', ''1'')]"]
    by (auto simp: Let_def)
qed

end
