(* ===== verification/Flannel_Network.thy ===== *)
theory Flannel_Network
  imports Flannel_Config Docker_Data
begin

text \<open>
  \<open>plugin/pkg/flannel_network/network.go\<close> and \<open>util.go\<close>: the flanneld process of a network, the
  environment file it writes, and the operations of a network. Processes, files and timers of the
  operating system are the record \<open>host\<close>; the answers of its calls are not part of the sources.
\<close>

section \<open>The operating system\<close>

datatype stat = StatExists | StatNotExist | StatError

datatype signal_answer = SigOk | SigFinished | SigErrno nat | SigOther

text \<open>What \<open>startFlannel\<close> selects: the process exits (without or with an error), the line is seen, or
  the time is over.\<close>

datatype bootstrap = BootstrapExited "goerr option" | BootstrapDone | BootstrapTimeout

text \<open>
  \<open>StartFlanneld\<close> stands for the two pipes and \<open>Start\<close>, with the identifier of the process;
  \<open>ReadFile\<close> for opening a file and its lines, with a mark for an error of the scanner after them;
  \<open>CtxDone\<close> says whether the time of the caller is over, \<open>PollWait\<close> waits and says which happened.
\<close>

record 'w host =
  SIGTERM :: nat
  ESRCH :: nat
  EPERM :: nat
  SignalProcess :: "int \<Rightarrow> nat \<Rightarrow> 'w \<Rightarrow> signal_answer \<times> 'w"
  StartFlanneld :: "string list \<Rightarrow> 'w \<Rightarrow> int res \<times> 'w"
  AwaitFlanneld :: "int \<Rightarrow> 'w \<Rightarrow> bootstrap \<times> 'w"
  StatPath :: "string \<Rightarrow> 'w \<Rightarrow> stat \<times> 'w"
  RemovePath :: "string \<Rightarrow> 'w \<Rightarrow> unit res \<times> 'w"
  ReadFile :: "string \<Rightarrow> 'w \<Rightarrow> (string list \<times> bool) res \<times> 'w"
  CtxDone :: "'w \<Rightarrow> bool \<times> 'w"
  PollWait :: "'w \<Rightarrow> bool \<times> 'w"

text \<open>What a network acts on: the kernel, etcd and the operating system.\<close>

record ('k, 'e, 'w) world =
  wk :: 'k
  we :: 'e
  ww :: 'w

text \<open>The packages and values that the operations of a network are given.\<close>

record ('k, 'e, 'w) env =
  env_K :: "'k kernel"
  env_N :: "'k netlink"
  env_E :: "'e etcd"
  env_X :: "'e etcd_ext"
  env_H :: "'w host"
  env_config :: "Config codec"
  env_endpoint :: "endpointJson codec"
  env_values :: "(string, endpoint) gomap \<Rightarrow> endpoint list"
  env_parse_time :: "string \<Rightarrow> gotime option"
  env_now :: gotime

definition in_etcd :: "('e \<Rightarrow> 'a res \<times> 'e) \<Rightarrow> ('k, 'e, 'w) world \<Rightarrow> 'a res \<times> ('k, 'e, 'w) world" where
  "in_etcd f s = (case f (we s) of (r, e) \<Rightarrow> (r, s\<lparr>we := e\<rparr>))"

definition in_kernel :: "('k \<Rightarrow> 'a res \<times> 'k) \<Rightarrow> ('k, 'e, 'w) world \<Rightarrow> 'a res \<times> ('k, 'e, 'w) world" where
  "in_kernel f s = (case f (wk s) of (r, k) \<Rightarrow> (r, s\<lparr>wk := k\<rparr>))"

definition in_host :: "('w \<Rightarrow> 'a \<times> 'w) \<Rightarrow> ('k, 'e, 'w) world \<Rightarrow> 'a \<times> ('k, 'e, 'w) world" where
  "in_host f s = (case f (ww s) of (r, w) \<Rightarrow> (r, s\<lparr>ww := w\<rparr>))"

text \<open>Results of operations that may run out of fuel.\<close>

fun opt_bind :: "('a res \<times> 's) option \<Rightarrow> ('a \<Rightarrow> 's \<Rightarrow> ('b res \<times> 's) option) \<Rightarrow> ('b res \<times> 's) option" where
  "opt_bind None f = None"
| "opt_bind (Some (Ok a, s)) f = f a s"
| "opt_bind (Some (Err er, s)) f = Some (Err er, s)"
| "opt_bind (Some (Panic, s)) f = Some (Panic, s)"

section \<open>Pipes and files\<close>

datatype done_chan = ChanOpen | ChanClosed

text \<open>One of the two goroutines that read the output of flanneld: the local flag keeps it from closing
  the channel twice, but both share the channel, and closing a closed channel panics.\<close>

fun readPipe :: "string list \<Rightarrow> bool \<Rightarrow> done_chan \<Rightarrow> done_chan res" where
  "readPipe [] channelClosed doneChan = Ok doneChan"
| "readPipe (line # lines) channelClosed doneChan =
     (if str_Contains line ''bootstrap done'' \<and> \<not> channelClosed
      then (case doneChan of ChanOpen \<Rightarrow> readPipe lines True ChanClosed | ChanClosed \<Rightarrow> Panic)
      else readPipe lines channelClosed doneChan)"

fun waitForFile :: "nat \<Rightarrow> 'w host \<Rightarrow> string \<Rightarrow> 'w \<Rightarrow> (unit res \<times> 'w) option" where
  "waitForFile 0 H path w = None"
| "waitForFile (Suc fuel) H path w =
     (case CtxDone H w of
        (True, w) \<Rightarrow> Some (Err (Errorf ''timed out waiting for file''), w)
      | (False, w) \<Rightarrow>
          (case StatPath H path w of
             (StatExists, w) \<Rightarrow> Some (Ok (), w)
           | (StatError, w) \<Rightarrow> Some (Err (Errorf ''error checking file''), w)
           | (StatNotExist, w) \<Rightarrow>
               (case PollWait H w of
                  (True, w) \<Rightarrow> Some (Err (Errorf ''timed out waiting for file''), w)
                | (False, w) \<Rightarrow> waitForFile fuel H path w)))"

definition deleteFileIfExists :: "'w host \<Rightarrow> string \<Rightarrow> 'w \<Rightarrow> unit res \<times> 'w" where
  "deleteFileIfExists H filename w =
     (case StatPath H filename w of
        (StatExists, w) \<Rightarrow> res_wrap ''error deleting file'' (RemovePath H filename w)
      | (StatNotExist, w) \<Rightarrow> (Ok (), w)
      | (StatError, w) \<Rightarrow> (Err (Errorf ''error checking file''), w))"

section \<open>The environment file\<close>

definition trim_space :: "string \<Rightarrow> string" where
  "trim_space s = rev (dropWhile is_space (rev (dropWhile is_space s)))"

text \<open>\<open>strconv.Atoi\<close> on 64-bit integers.\<close>

definition Atoi :: "string \<Rightarrow> int option" where
  "Atoi s =
     (let signed = s \<noteq> [] \<and> (hd s = CHR ''-'' \<or> hd s = CHR ''+''); ds = (if signed then tl s else s);
          i = (if signed \<and> hd s = CHR ''-'' then - int (dec_value ds) else int (dec_value ds))
      in if ds \<noteq> [] \<and> list_all is_digit ds \<and> - (2 ^ 63) \<le> i \<and> i < 2 ^ 63 then Some i else None)"

text \<open>A line \<open>FLANNEL_KEY=value\<close>; other lines are skipped.\<close>

definition env_entry :: "string \<Rightarrow> (string \<times> string) option" where
  "env_entry text =
     (let line = trim_space text; key = takeWhile (\<lambda>c. c \<noteq> CHR ''='') line; rest = dropWhile (\<lambda>c. c \<noteq> CHR ''='') line
      in if line = [] \<or> HasPrefix line ''#'' \<or> rest = [] \<or> \<not> HasPrefix key ''FLANNEL_'' then None
         else Some (TrimPrefix key ''FLANNEL_'', tl rest))"

definition load_entry ::
  "nat \<Rightarrow> ('k, 'e, 'w) env \<Rightarrow> string \<Rightarrow> string \<Rightarrow> network \<times> 'e \<Rightarrow> (unit res \<times> network \<times> 'e) option"
where
  "load_entry fuel V key val st =
     (case st of (n, e) \<Rightarrow>
        if key = ''NETWORK''
        then (case ParseCIDR val of
                None \<Rightarrow> Some (Err (Errorf ''invalid CIDR format for network''), n, e)
              | Some (_, ipNet) \<Rightarrow> Some (Ok (), n\<lparr>nw_networkSubnet := ipNet\<rparr>, e))
        else if key = ''SUBNET''
        then (case ParseCIDR val of
                None \<Rightarrow> Some (Err (Errorf ''invalid CIDR format for subnet''), n, e)
              | Some (ip, ipNet) \<Rightarrow>
                  (case NewEtcdBasedAddressPool fuel (env_E V) (env_parse_time V) (env_now V) (nw_flannelID n) ipNet
                          (CreateSubClient (nw_etcdClient n)
                             [nw_flannelID n, ''host-subnets'', SubnetToKey (ipnet_String ipNet)]) e of
                     None \<Rightarrow> None
                   | Some (Ok pool, e) \<Rightarrow>
                       Some (Ok (), n\<lparr>nw_hostSubnet := ipNet, nw_localGateway := ip, nw_pool := Some pool\<rparr>, e)
                   | Some (Err er, e) \<Rightarrow> Some (Err (WithMessage er ''can't create address pool for network''), n, e)
                   | Some (Panic, e) \<Rightarrow> Some (Panic, n, e)))
        else if key = ''MTU''
        then (case Atoi val of
                None \<Rightarrow> Some (Err (Errorf ''invalid MTU value''), n, e)
              | Some mtu \<Rightarrow> Some (Ok (), n\<lparr>nw_mtu := mtu\<rparr>, e))
        else Some (Ok (), n, e))"

fun load_lines ::
  "nat \<Rightarrow> ('k, 'e, 'w) env \<Rightarrow> string list \<Rightarrow> network \<times> 'e \<Rightarrow> (unit res \<times> network \<times> 'e) option"
where
  "load_lines fuel V [] st = Some (Ok (), st)"
| "load_lines fuel V (line # lines) st =
     (case env_entry line of
        None \<Rightarrow> load_lines fuel V lines st
      | Some (key, val) \<Rightarrow> opt_bind (load_entry fuel V key val st) (\<lambda>_ st. load_lines fuel V lines st))"

definition getFlannelEnvFilename :: "network \<Rightarrow> string" where
  "getFlannelEnvFilename n = ''/flannel-env/'' @ nw_flannelID n @ ''.env''"

text \<open>The bridge that is made at the end of \<open>loadFlannelConfig\<close>.\<close>

definition load_bridge ::
  "('k, 'e, 'w) env \<Rightarrow> network \<times> ('k, 'e, 'w) world \<Rightarrow> unit res \<times> network \<times> ('k, 'e, 'w) world"
where
  "load_bridge V st =
     (case st of (n, s) \<Rightarrow>
        (case bridge_Ensure (env_K V) (env_N V) (NewBridgeInterface (network_GetInfo n)) (wk s) of
           ((Ok _, b), k) \<Rightarrow> (Ok (), n\<lparr>nw_bridge := Some b\<rparr>, s\<lparr>wk := k\<rparr>)
         | ((Err er, b), k) \<Rightarrow> (Err (WithMessage er ''error creating bridge interface''), n, s\<lparr>wk := k\<rparr>)
         | ((Panic, b), k) \<Rightarrow> (Panic, n, s\<lparr>wk := k\<rparr>)))"

definition loadFlannelConfig ::
  "nat \<Rightarrow> ('k, 'e, 'w) env \<Rightarrow> string \<Rightarrow> network \<times> ('k, 'e, 'w) world \<Rightarrow>
   (unit res \<times> network \<times> ('k, 'e, 'w) world) option"
where
  "loadFlannelConfig fuel V filename st =
     (case st of (n, s) \<Rightarrow>
        (case waitForFile fuel (env_H V) filename (ww s) of
           None \<Rightarrow> None
         | Some (Err er, w) \<Rightarrow> Some (Err (WithMessage er ''flannel env missing''), n, s\<lparr>ww := w\<rparr>)
         | Some (Panic, w) \<Rightarrow> Some (Panic, n, s\<lparr>ww := w\<rparr>)
         | Some (Ok _, w) \<Rightarrow>
             (case ReadFile (env_H V) filename w of
                (Err er, w) \<Rightarrow> Some (Err (WithMessage er ''failed to open file''), n, s\<lparr>ww := w\<rparr>)
              | (Panic, w) \<Rightarrow> Some (Panic, n, s\<lparr>ww := w\<rparr>)
              | (Ok (lines, failed), w) \<Rightarrow>
                  (case load_lines fuel V lines (n, we s) of
                     None \<Rightarrow> None
                   | Some (r, n, e) \<Rightarrow>
                       opt_bind (Some (r, n, s\<lparr>ww := w, we := e\<rparr>))
                         (\<lambda>_ st. if failed then Some (Err (Errorf ''error reading file''), st)
                                 else Some (load_bridge V st))))))"

section \<open>The process\<close>

definition endFlannelDaemonProcess :: "'w host \<Rightarrow> network \<times> 'w \<Rightarrow> unit res \<times> network \<times> 'w" where
  "endFlannelDaemonProcess H st =
     (case st of (n, w) \<Rightarrow>
        (case nw_flannelDaemonProcess n of
           None \<Rightarrow> (Ok (), n, w)
         | Some pid \<Rightarrow>
             (case SignalProcess H pid (SIGTERM H) w of
                (SigOk, w) \<Rightarrow> (Ok (), n\<lparr>nw_flannelDaemonProcess := None\<rparr>, w)
              | (_, w) \<Rightarrow> (Err (Errorf ''error killing flanneld process''), n, w))))"

definition isFlannelDaemonProcessRunning :: "'w host \<Rightarrow> network \<Rightarrow> 'w \<Rightarrow> bool \<times> 'w" where
  "isFlannelDaemonProcessRunning H n w =
     (case nw_flannelDaemonProcess n of
        None \<Rightarrow> (False, w)
      | Some pid \<Rightarrow>
          (case SignalProcess H pid 0 w of
             (SigOk, w) \<Rightarrow> (True, w)
           | (SigFinished, w) \<Rightarrow> (False, w)
           | (SigOther, w) \<Rightarrow> (False, w)
           | (SigErrno errno, w) \<Rightarrow>
               if errno = ESRCH H then (False, w) else if errno = EPERM H then (True, w) else (False, w)))"

definition flannel_args :: "network \<Rightarrow> string list" where
  "flannel_args n =
     [''-subnet-file='' @ getFlannelEnvFilename n, ''-etcd-prefix='' @ flannelConfigPrefixKey n,
      ''-etcd-endpoints='' @ join_with '','' (GetEndpoints (nw_etcdClient n))] @ nw_defaultFlannelOptions n"

text \<open>
  The process under the lock. A process that exits without an error ends the function with neither
  a command nor an error; after a timeout the process that is ended is the one that the network
  had before, not the one that has just been started.
\<close>

definition run_flanneld :: "'w host \<Rightarrow> network \<times> 'w \<Rightarrow> int option res \<times> network \<times> 'w" where
  "run_flanneld H st =
     (case st of (n, w) \<Rightarrow>
        (case StartFlanneld H (flannel_args n) w of
           (Err er, w) \<Rightarrow> (Err er, n, w)
         | (Panic, w) \<Rightarrow> (Panic, n, w)
         | (Ok pid, w) \<Rightarrow>
             (case AwaitFlanneld H pid w of
                (BootstrapExited None, w) \<Rightarrow> (Ok None, n, w)
              | (BootstrapExited (Some er), w) \<Rightarrow> (Err (WithMessage er ''flanneld exited prematurely''), n, w)
              | (BootstrapDone, w) \<Rightarrow> (Ok (Some pid), n, w)
              | (BootstrapTimeout, w) \<Rightarrow>
                  (case endFlannelDaemonProcess H (n, w) of
                     (Panic, n, w) \<Rightarrow> (Panic, n, w)
                   | (_, n, w) \<Rightarrow> (Err (Errorf ''flanneld failed to bootstrap within 1.5 seconds''), n, w)))))"

text \<open>The unlocking is deferred and its error dropped.\<close>

definition locked_flanneld ::
  "('k, 'e, 'w) env \<Rightarrow> network \<times> 'w \<Rightarrow> 'e \<Rightarrow> (int option res \<times> network \<times> 'w) res \<times> 'e"
where
  "locked_flanneld V st e =
     (case res_wrap ''error acquiring lock for flannel network''
             (LockNewMutex (env_X V) (flannelLockKey (fst st)) (15 * 1000000000) e) of
        (Err er, e) \<Rightarrow> (Ok (Err er, st), e)
      | (Panic, e) \<Rightarrow> (Panic, e)
      | (Ok mutex, e) \<Rightarrow>
          (case run_flanneld (env_H V) st of
             (r, st) \<Rightarrow>
               (case UnlockAndCloseSession (env_X V) mutex e of
                  (Panic, e) \<Rightarrow> (Panic, e) | (_, e) \<Rightarrow> (Ok (r, st), e))))"

definition startFlannel ::
  "nat \<Rightarrow> ('k, 'e, 'w) env \<Rightarrow> network \<times> ('k, 'e, 'w) world \<Rightarrow>
   (unit res \<times> network \<times> ('k, 'e, 'w) world) option"
where
  "startFlannel fuel V st =
     (case st of (n, s) \<Rightarrow>
        (case WithConnection (env_E V) (locked_flanneld V (n, ww s)) (we s) of
           (Err er, e) \<Rightarrow> Some (Err er, n, s\<lparr>we := e\<rparr>)
         | (Panic, e) \<Rightarrow> Some (Panic, n, s\<lparr>we := e\<rparr>)
         | (Ok (r, n, w), e) \<Rightarrow>
             opt_bind (Some (r, n, s\<lparr>we := e, ww := w\<rparr>))
               (\<lambda>cmd st.
                  case loadFlannelConfig fuel V (getFlannelEnvFilename n) st of
                    None \<Rightarrow> None
                  | Some (Panic, st) \<Rightarrow> Some (Panic, st)
                  | Some (r, n, s) \<Rightarrow>
                      (case cmd of
                         None \<Rightarrow> Some (Panic, n, s)
                       | Some pid \<Rightarrow>
                           let n = n\<lparr>nw_flannelDaemonProcess := Some pid\<rparr>
                           in case r of
                                Err er \<Rightarrow>
                                  (case endFlannelDaemonProcess (env_H V) (n, ww s) of
                                     (Panic, n, w) \<Rightarrow> Some (Panic, n, s\<lparr>ww := w\<rparr>)
                                   | (_, n, w) \<Rightarrow> Some (Err er, n, s\<lparr>ww := w\<rparr>))
                              | _ \<Rightarrow> Some (Ok (), n, s)))))"

definition network_Ensure ::
  "nat \<Rightarrow> ('k, 'e, 'w) env \<Rightarrow> network \<times> ('k, 'e, 'w) world \<Rightarrow>
   (unit res \<times> network \<times> ('k, 'e, 'w) world) option"
where
  "network_Ensure fuel V st =
     (case st of (n, s) \<Rightarrow>
        (case in_etcd (ensureFlannelConfig (env_E V) (env_X V) (env_config V) n) s of
           (Err er, s) \<Rightarrow> Some (Err er, n, s)
         | (Panic, s) \<Rightarrow> Some (Panic, n, s)
         | (Ok _, s) \<Rightarrow>
             (case in_host (isFlannelDaemonProcessRunning (env_H V) n) s of
                (True, s) \<Rightarrow> Some (Ok (), n, s)
              | (False, s) \<Rightarrow> startFlannel fuel V (n, s))))"

section \<open>Endpoints\<close>

definition network_AddEndpoint ::
  "('k, 'e, 'w) env \<Rightarrow> string \<Rightarrow> net_ip \<Rightarrow> string \<Rightarrow> network \<times> ('k, 'e, 'w) world \<Rightarrow>
   endpoint res \<times> network \<times> ('k, 'e, 'w) world"
where
  "network_AddEndpoint V i ip mac st =
     (case st of (n, s) \<Rightarrow>
        (case in_etcd (NewEndpoint (env_E V) (env_endpoint V) (nw_endpointsEtcdClient n) i ip mac (nw_bridge n)) s of
           (Err er, s) \<Rightarrow> (Err (WithMessage er ''error creating endpoint for network''), n, s)
         | (Panic, s) \<Rightarrow> (Panic, n, s)
         | (Ok ep, s) \<Rightarrow> (Ok ep, n\<lparr>nw_endpoints := gomap_set (nw_endpoints n) i ep\<rparr>, s)))"

text \<open>\<open>Delete\<close> of an endpoint that the map points to; the endpoint keeps its changes.\<close>

definition delete_endpoint_at ::
  "('k, 'e, 'w) env \<Rightarrow> string \<Rightarrow> endpoint \<Rightarrow> network \<times> ('k, 'e, 'w) world \<Rightarrow>
   unit res \<times> network \<times> ('k, 'e, 'w) world"
where
  "delete_endpoint_at V i ep st =
     (case st of (n, s) \<Rightarrow>
        (case endpoint_Delete (env_K V) (env_N V) (env_E V) (env_endpoint V) ep (wk s) (we s) of
           ((r, ep), k, e) \<Rightarrow> (r, n\<lparr>nw_endpoints := gomap_set (nw_endpoints n) i ep\<rparr>, s\<lparr>wk := k, we := e\<rparr>)))"

definition network_DeleteEndpoint ::
  "('k, 'e, 'w) env \<Rightarrow> string \<Rightarrow> network \<times> ('k, 'e, 'w) world \<Rightarrow> unit res \<times> network \<times> ('k, 'e, 'w) world"
where
  "network_DeleteEndpoint V i st =
     (case map_of (nw_endpoints (fst st)) i of
        None \<Rightarrow> (Err (Errorf ''endpoint does not exist''), st)
      | Some ep \<Rightarrow>
          res_bind (res_wrap ''error deleting endpoint for network'' (delete_endpoint_at V i ep st))
            (\<lambda>_ (n, s). (Ok (), n\<lparr>nw_endpoints := gomap_delete (nw_endpoints n) i\<rparr>, s)))"

definition network_GetEndpoint :: "network \<Rightarrow> string \<Rightarrow> endpoint option" where
  "network_GetEndpoint n i = map_of (nw_endpoints n) i"

fun cleanupEndpoints ::
  "('k, 'e, 'w) env \<Rightarrow> (string, endpoint) gomap \<Rightarrow> network \<times> ('k, 'e, 'w) world \<Rightarrow>
   unit res \<times> network \<times> ('k, 'e, 'w) world"
where
  "cleanupEndpoints V [] st = (Ok (), st)"
| "cleanupEndpoints V ((i, ep) # rest) st =
     res_bind (res_wrap ''error deleting endpoint'' (delete_endpoint_at V i ep st))
       (\<lambda>_ st. cleanupEndpoints V rest st)"

section \<open>Init and Delete\<close>

text \<open>\<open>cleanupInterfaces\<close>; the bridge and the pool are interfaces, nil until the first \<open>Ensure\<close>.\<close>

definition release_pool :: "('k, 'e, 'w) env \<Rightarrow> network \<times> ('k, 'e, 'w) world \<Rightarrow> unit res \<times> network \<times> ('k, 'e, 'w) world"
where
  "release_pool V st =
     (case st of (n, s) \<Rightarrow>
        (case nw_pool n of
           None \<Rightarrow> (Panic, n, s)
         | Some p \<Rightarrow>
             (case ReleaseAllIPs (env_E V) (env_parse_time V) (env_now V) p (we s) of
                (r, p, e) \<Rightarrow>
                  res_wrap ''error releasing all IPs'' (r, n\<lparr>nw_pool := Some p\<rparr>, s\<lparr>we := e\<rparr>))))"

definition delete_flannel_link :: "('k, 'e, 'w) env \<Rightarrow> network \<Rightarrow> 'k \<Rightarrow> unit res \<times> 'k" where
  "delete_flannel_link V n k =
     res_bind (res_wrap ''Error getting flannel interface by name'' (LinkByName (env_K V) (''flannel.'' @ FormatInt (nw_vni n)) k))
       (\<lambda>flannelLink k. res_bind
          (res_wrap ''error removing IP from flannel network interface''
             (StopListeningOnAddress (env_K V) flannelLink (ip_String (ipnet_IP (nw_hostSubnet n))) k))
          (\<lambda>_ k. res_bind
             (res_wrap ''Error getting remaining addresses for flannel interface'' (AddrList (env_K V) flannelLink k))
             (\<lambda>addresses k. if addresses = []
                then res_wrap ''Error deleting flannel interface'' (LinkDel (env_N V) (l_Name flannelLink) k)
                else (Ok (), k))))"

definition cleanupInterfaces ::
  "('k, 'e, 'w) env \<Rightarrow> network \<times> ('k, 'e, 'w) world \<Rightarrow> unit res \<times> network \<times> ('k, 'e, 'w) world"
where
  "cleanupInterfaces V st =
     (case st of (n, s) \<Rightarrow>
        (case in_kernel (\<lambda>k. res_bind (delete_flannel_link V n k)
                 (\<lambda>_ k. case nw_bridge n of
                    None \<Rightarrow> (Panic, k)
                  | Some b \<Rightarrow> res_wrap ''error deleting bridge interface'' (bridge_Delete (env_K V) (env_N V) b k))) s of
           (r, s) \<Rightarrow> res_bind (r, n, s) (\<lambda>_ st. release_pool V st)))"

definition network_Delete ::
  "('k, 'e, 'w) env \<Rightarrow> network \<times> ('k, 'e, 'w) world \<Rightarrow> unit res \<times> network \<times> ('k, 'e, 'w) world"
where
  "network_Delete V st =
     (case st of (n, s) \<Rightarrow>
        (case endFlannelDaemonProcess (env_H V) (n, ww s) of
           (r, n, w) \<Rightarrow>
             res_bind (r, n, s\<lparr>ww := w\<rparr>)
               (\<lambda>_ (n, s). case in_host (deleteFileIfExists (env_H V) (getFlannelEnvFilename n)) s of
                  (Panic, s) \<Rightarrow> (Panic, n, s)
                | (_, s) \<Rightarrow>
                    (case in_etcd (cleanupEtcdData (env_E V) (env_X V) (env_config V) n) s of
                       (r, s) \<Rightarrow>
                         res_bind (r, n, s)
                           (\<lambda>_ st. res_bind (cleanupInterfaces V st)
                              (\<lambda>_ (n, s). res_bind (cleanupEndpoints V (nw_endpoints n) (n, s))
                                 (\<lambda>_ (n, s). (Ok (), n\<lparr>nw_endpoints := [], nw_localGateway := [],
                                    nw_hostSubnet := zero_ipnet, nw_mtu := 0\<rparr>, s))))))))"

text \<open>
  \<open>Init\<close>: endpoints in etcd of containers that are gone are deleted, errors being logged, the others
  are kept; then every allocation of the pool is released that belongs neither to a container of
  this host nor to a service.
\<close>

fun init_endpoints ::
  "('k, 'e, 'w) env \<Rightarrow> (string list \<Rightarrow> string list \<Rightarrow> bool) \<Rightarrow> string list \<Rightarrow> endpoint list \<Rightarrow>
   network \<times> ('k, 'e, 'w) world \<Rightarrow> unit res \<times> network \<times> ('k, 'e, 'w) world"
where
  "init_endpoints V lo_Some existing [] st = (Ok (), st)"
| "init_endpoints V lo_Some existing (ep # eps) st =
     (case st of (n, s) \<Rightarrow>
        let i = ei_ID (endpoint_GetInfo ep)
        in if lo_Some existing [i]
           then init_endpoints V lo_Some existing eps (n\<lparr>nw_endpoints := gomap_set (nw_endpoints n) i ep\<rparr>, s)
           else (case endpoint_Delete (env_K V) (env_N V) (env_E V) (env_endpoint V) ep (wk s) (we s) of
                   ((Panic, _), k, e) \<Rightarrow> (Panic, n, s\<lparr>wk := k, we := e\<rparr>)
                 | (_, k, e) \<Rightarrow> init_endpoints V lo_Some existing eps (n, s\<lparr>wk := k, we := e\<rparr>)))"

definition allocation_in_use ::
  "(net_ip list \<Rightarrow> (net_ip \<Rightarrow> bool) \<Rightarrow> bool) \<Rightarrow> (string list \<Rightarrow> string list \<Rightarrow> bool) \<Rightarrow> net_ip list \<Rightarrow> string list \<Rightarrow>
   Allocation \<Rightarrow> bool"
where
  "allocation_in_use lo_SomeBy lo_Some containerIPs serviceIDs a \<longleftrightarrow>
     (if allocationType a = AllocationTypeContainerIP then lo_SomeBy containerIPs (\<lambda>item. ip_Equal item (al_ip a))
      else if allocationType a = AllocationTypeServiceVIP then lo_Some serviceIDs [al_data a]
      else False)"

fun release_unused ::
  "'e etcd \<Rightarrow> (string \<Rightarrow> gotime option) \<Rightarrow> gotime \<Rightarrow> (Allocation \<Rightarrow> bool) \<Rightarrow> Allocation list \<Rightarrow> etcdPool \<Rightarrow> 'e \<Rightarrow>
   unit res \<times> etcdPool \<times> 'e"
where
  "release_unused E parse_time now used [] p e = (Ok (), p, e)"
| "release_unused E parse_time now used (a # as) p e =
     (if used a then release_unused E parse_time now used as p e
      else (case ReleaseIP E parse_time now (ip_String (al_ip a)) p e of
              (Panic, p, e) \<Rightarrow> (Panic, p, e)
            | (_, p, e) \<Rightarrow> release_unused E parse_time now used as p e))"

record init_pkgs =
  lo_SomeBy_ip :: "net_ip list \<Rightarrow> (net_ip \<Rightarrow> bool) \<Rightarrow> bool"
  lo_Some_id :: "string list \<Rightarrow> string list \<Rightarrow> bool"
  maps_Keys_services :: "(string, docker_ServiceInfo) gomap \<Rightarrow> string list"

definition local_containers :: "data \<Rightarrow> (string, docker_ContainerInfo) gomap" where
  "local_containers d =
     (case GetShard (da_containers d) (GetLocalShardKey (da_containers d)) of None \<Rightarrow> [] | Some m \<Rightarrow> m)"

definition network_Init ::
  "nat \<Rightarrow> ('k, 'e, 'w) env \<Rightarrow> init_pkgs \<Rightarrow> data \<Rightarrow> network \<times> ('k, 'e, 'w) world \<Rightarrow>
   (unit res \<times> network \<times> ('k, 'e, 'w) world) option"
where
  "network_Init fuel V P dockerData st =
     opt_bind (network_Ensure fuel V st)
       (\<lambda>_ (n, s). Some
          (case in_etcd (loadEndpointsFromEtcd (env_E V) (env_endpoint V) (env_values V) (nw_endpointsEtcdClient n) (nw_bridge n)) s of
             (Err er, s) \<Rightarrow> (Err er, n, s)
           | (Panic, s) \<Rightarrow> (Panic, n, s)
           | (Ok eps, s) \<Rightarrow>
               let containers = map snd (local_containers dockerData);
                   existingLocalEndpoints = concat (map (\<lambda>c. map snd (ci_Endpoints c)) containers);
                   containerIPs = concat (map (\<lambda>c. map snd (ci_IPs c)) containers);
                   serviceIDs = maps_Keys_services P (GetAll (base (da_services dockerData)))
               in res_bind (init_endpoints V (lo_Some_id P) existingLocalEndpoints eps (n, s))
                    (\<lambda>_ (n, s). case nw_pool n of
                       None \<Rightarrow> (Panic, n, s)
                     | Some p \<Rightarrow>
                         (case release_unused (env_E V) (env_parse_time V) (env_now V)
                                 (allocation_in_use (lo_SomeBy_ip P) (lo_Some_id P) containerIPs serviceIDs)
                                 (GetAllocations p) p (we s) of
                            (r, p, e) \<Rightarrow> (r, n\<lparr>nw_pool := Some p\<rparr>, s\<lparr>we := e\<rparr>)))))"

section \<open>What the operating system promises\<close>

text \<open>\<open>rank\<close> bounds the number of times that \<open>PollWait\<close> may end before the time is over.\<close>

locale host_service =
  fixes H :: "'w host" and alive :: "'w \<Rightarrow> int set" and rank :: "'w \<Rightarrow> nat"
  assumes StartFlanneld_Ok: "StartFlanneld H args w = (Ok pid, w') \<Longrightarrow>
      pid \<notin> alive w \<and> alive w' = insert pid (alive w)"
    and AwaitFlanneld_running: "AwaitFlanneld H pid w = (b, w') \<Longrightarrow> b = BootstrapDone \<or> b = BootstrapTimeout \<Longrightarrow>
      alive w' = alive w"
    and StatPath_running: "alive (snd (StatPath H path w)) = alive w"
    and CtxDone_running: "alive (snd (CtxDone H w)) = alive w"
    and PollWait_running: "alive (snd (PollWait H w)) = alive w"
    and ReadFile_running: "alive (snd (ReadFile H path w)) = alive w"
    and StatPath_rank: "rank (snd (StatPath H path w)) \<le> rank w"
    and CtxDone_rank: "rank (snd (CtxDone H w)) \<le> rank w"
    and PollWait_rank: "PollWait H w = (False, w') \<Longrightarrow> rank w' < rank w"
begin

lemma waitForFile_run:
  "rank w < fuel \<Longrightarrow> \<exists>r w'. waitForFile fuel H path w = Some (r, w') \<and> r \<noteq> Panic"
proof (induction fuel arbitrary: w)
  case (Suc fuel)
  obtain d w1 where 1: "CtxDone H w = (d, w1)" by force
  obtain x w2 where 2: "StatPath H path w1 = (x, w2)" by force
  obtain b w3 where 3: "PollWait H w2 = (b, w3)" by force
  have "rank w3 < fuel" if "\<not> b"
    using that 1 2 3 Suc.prems CtxDone_rank [of w] StatPath_rank [of path w1] PollWait_rank [of w2 w3] by simp
  then show ?case using 1 2 3 Suc.IH [of w3] by (cases d; cases x; cases b) auto
qed simp

lemma waitForFile_running: "waitForFile fuel H path w = Some (r, w') \<Longrightarrow> alive w' = alive w"
proof (induction fuel arbitrary: w)
  case (Suc fuel)
  obtain d w1 where 1: "CtxDone H w = (d, w1)" by force
  obtain x w2 where 2: "StatPath H path w1 = (x, w2)" by force
  obtain b w3 where 3: "PollWait H w2 = (b, w3)" by force
  have r: "alive w3 = alive w" "alive w2 = alive w" "alive w1 = alive w"
    using 1 2 3 CtxDone_running [of w] StatPath_running [of path w1] PollWait_running [of w2] by simp_all
  have "w' = w1 \<or> w' = w2 \<or> w' = w3 \<or> waitForFile fuel H path w3 = Some (r, w')"
    using 1 2 3 Suc.prems by (cases d; cases x; cases b) simp_all
  then show ?case
  proof (elim disjE)
    assume "waitForFile fuel H path w3 = Some (r, w')"
    from Suc.IH [OF this] show ?thesis by (simp only: r)
  qed (simp_all only: r)
qed simp

end

section \<open>Ensure\<close>

lemma opt_bind_Ok_iff:
  "opt_bind x f = Some (Ok b, s) \<longleftrightarrow> (\<exists>a s1. x = Some (Ok a, s1) \<and> f a s1 = Some (Ok b, s))"
  by (cases "(x, f)" rule: opt_bind.cases) auto

context etcd_service
begin

lemma connection_view: "WithConnection E (Pair (Ok ())) e = (r, e') \<Longrightarrow> view e' = view e"
  using WithConnection_rel [of "\<lambda>a b. b = a" e "Pair (Ok ())"] by simp

lemma NewEtcdBasedAddressPool_view:
  "NewEtcdBasedAddressPool fuel E parse_time now i subnet c e = Some (r, e') \<Longrightarrow> view e' = view e"
  using syncIPs_view connection_view
  by (auto simp: NewEtcdBasedAddressPool_def Let_def split: option.splits res.splits prod.splits)

lemma load_entry_keeps:
  "env_E V = E \<Longrightarrow> load_entry fuel V key val (n, e) = Some (r, n', e') \<Longrightarrow>
   view e' = view e \<and> nw_flannelID n' = nw_flannelID n"
  using NewEtcdBasedAddressPool_view
  by (auto simp: load_entry_def split: if_splits option.splits res.splits prod.splits)

lemma load_lines_keeps:
  "env_E V = E \<Longrightarrow> load_lines fuel V lines (n, e) = Some (r, n', e') \<Longrightarrow>
   view e' = view e \<and> nw_flannelID n' = nw_flannelID n"
proof (induction lines arbitrary: n e)
  case (Cons line lines)
  show ?case
  proof (cases "env_entry line")
    case None
    then show ?thesis using Cons by simp
  next
    case (Some kv)
    obtain key val where kv: "kv = (key, val)" by force
    show ?thesis
    proof (cases "load_entry fuel V key val (n, e)")
      case None
      then show ?thesis using Some kv Cons.prems by simp
    next
      case l: (Some x)
      obtain r1 n1 e1 where x: "x = (r1, n1, e1)" by (metis surj_pair)
      note k = load_entry_keeps [OF Cons.prems(1) l [unfolded x]]
      show ?thesis using Some kv l x k Cons.prems Cons.IH [OF Cons.prems(1), of n1 e1] by (cases r1) auto
    qed
  qed
qed simp

end

lemma load_bridge_Ok:
  assumes "load_bridge V (n, s) = (Ok u, n', s')"
  shows "\<exists>b k. bridge_Ensure (env_K V) (env_N V) (NewBridgeInterface (network_GetInfo n)) (wk s) = ((Ok (), b), k)
    \<and> n' = n\<lparr>nw_bridge := Some b\<rparr> \<and> s' = s\<lparr>wk := k\<rparr>"
  using assms by (auto simp: load_bridge_def split: prod.splits res.splits)

lemma loadFlannelConfig_Ok:
  assumes "etcd_service (env_E V) ev" "host_service (env_H V) alive rank"
    "loadFlannelConfig fuel V f (n, s) = Some (Ok u, n', s')"
  shows "ev (we s') = ev (we s) \<and> alive (ww s') = alive (ww s) \<and> nw_flannelID n' = nw_flannelID n
    \<and> (\<exists>b. nw_bridge n' = Some b
        \<and> bridge_Ensure (env_K V) (env_N V) (NewBridgeInterface (network_GetInfo n')) (wk s) = ((Ok (), b), wk s'))"
proof -
  obtain w1 where 1: "waitForFile fuel (env_H V) f (ww s) = Some (Ok (), w1)"
    using assms(3) by (auto simp: loadFlannelConfig_def split: option.splits prod.splits res.splits)
  obtain lines failed w2 where 2: "ReadFile (env_H V) f w1 = (Ok (lines, failed), w2)"
    using assms(3) 1 by (auto simp: loadFlannelConfig_def split: prod.splits res.splits)
  obtain r n1 e1 where 3: "load_lines fuel V lines (n, we s) = Some (r, n1, e1)"
    using assms(3) 1 2 by (auto simp: loadFlannelConfig_def split: option.splits prod.splits)
  have "opt_bind (Some (r, n1, s\<lparr>ww := w2, we := e1\<rparr>))
      (\<lambda>_ st. if failed then Some (Err (Errorf ''error reading file''), st) else Some (load_bridge V st)) = Some (Ok u, n', s')"
    using assms(3) 1 2 3 by (simp add: loadFlannelConfig_def)
  then have "load_bridge V (n1, s\<lparr>ww := w2, we := e1\<rparr>) = (Ok u, n', s')"
    by (auto simp: opt_bind_Ok_iff split: if_splits)
  from load_bridge_Ok [OF this] obtain b k where
    b: "bridge_Ensure (env_K V) (env_N V) (NewBridgeInterface (network_GetInfo n1)) (wk s) = ((Ok (), b), k)"
    and st: "n' = n1\<lparr>nw_bridge := Some b\<rparr>" "s' = s\<lparr>ww := w2, we := e1, wk := k\<rparr>" by auto
  have "network_GetInfo n' = network_GetInfo n1" by (simp add: st network_GetInfo_def)
  moreover have "alive w2 = alive (ww s)"
    using host_service.waitForFile_running [OF assms(2) 1] host_service.ReadFile_running [OF assms(2), of f w1] 2 by simp
  ultimately show ?thesis
    using etcd_service.load_lines_keeps [OF assms(1) refl 3] b st by simp
qed

lemma run_flanneld_Ok:
  assumes "host_service H alive rank" "run_flanneld H (n, w) = (Ok cmd, n', w')"
  shows "n' = n \<and> (\<forall>pid. cmd = Some pid \<longrightarrow> pid \<notin> alive w \<and> alive w' = insert pid (alive w))"
proof -
  obtain pid w1 where 1: "StartFlanneld H (flannel_args n) w = (Ok pid, w1)"
    using assms(2) by (auto simp: run_flanneld_def split: prod.splits res.splits)
  obtain b w2 where 2: "AwaitFlanneld H pid w1 = (b, w2)" by force
  note r = host_service.StartFlanneld_Ok [OF assms(1) 1] host_service.AwaitFlanneld_running [OF assms(1) 2]
  show ?thesis
  proof (cases b)
    case (BootstrapExited x)
    then show ?thesis using assms(2) 1 2 by (cases x) (auto simp: run_flanneld_def)
  next
    case BootstrapDone
    then show ?thesis using assms(2) 1 2 r by (auto simp: run_flanneld_def)
  next
    case BootstrapTimeout
    then show ?thesis using assms(2) 1 2 by (auto simp: run_flanneld_def split: prod.splits res.splits)
  qed
qed

text \<open>The process runs under the lock, whose keys are all that changes in etcd meanwhile.\<close>

lemma locked_flanneld_run:
  assumes "etcd_mutexes (env_E V) ev (env_X V) modrev" "run_flanneld (env_H V) (n, w) = (r, st)"
  shows "\<exists>e'. WithConnection (env_E V) (locked_flanneld V (n, w)) e = (Ok (r, st), e')
    \<and> (\<forall>k. \<not> HasPrefix k (flannelLockKey n @ ''/'') \<longrightarrow> ev e' k = ev e k)"
proof -
  have rev: "etcd_revisions (env_E V) ev (env_X V) modrev" using assms(1) by (simp add: etcd_mutexes_def)
  obtain e1 where 1: "ev e1 = ev e" and
    w: "\<And>r e2. locked_flanneld V (n, w) e1 = (r, e2) \<Longrightarrow>
       \<exists>e'. WithConnection (env_E V) (locked_flanneld V (n, w)) e = (r, e') \<and> ev e' = ev e2"
    using etcd_revisions.WithConnection_step [OF rev, of e "locked_flanneld V (n, w)"] by metis
  obtain e2 where 2: "LockNewMutex (env_X V) (flannelLockKey n) (15 * 1000000000) e1 = (Ok \<lparr>mx_key = flannelLockKey n\<rparr>, e2)"
    "\<forall>k. \<not> HasPrefix k (flannelLockKey n @ ''/'') \<longrightarrow> ev e2 k = ev e1 k"
    using etcd_mutexes.LockNewMutex_run [OF assms(1)] by blast
  obtain r3 e3 where 3: "UnlockAndCloseSession (env_X V) \<lparr>mx_key = flannelLockKey n\<rparr> e2 = (r3, e3)" by force
  note u = etcd_mutexes.UnlockAndCloseSession_run [OF assms(1) 3]
  have "locked_flanneld V (n, w) e1 = (Ok (r, st), e3)"
    using 2(1) 3 u(1) assms(2) by (cases r3) (simp_all add: locked_flanneld_def)
  from w [OF this] obtain e' where "WithConnection (env_E V) (locked_flanneld V (n, w)) e = (Ok (r, st), e')" "ev e' = ev e3"
    by blast
  then show ?thesis using u(2) 2(2) 1 by auto
qed

lemma startFlannel_Ok:
  assumes "etcd_mutexes (env_E V) ev (env_X V) modrev" "host_service (env_H V) alive rank"
    "startFlannel fuel V (n, s) = Some (Ok u, n', s')"
  shows "(\<forall>k. \<not> HasPrefix k (flannelLockKey n @ ''/'') \<longrightarrow> ev (we s') k = ev (we s) k)
    \<and> (\<exists>pid. nw_flannelDaemonProcess n' = Some pid \<and> pid \<notin> alive (ww s) \<and> alive (ww s') = insert pid (alive (ww s)))
    \<and> nw_flannelID n' = nw_flannelID n
    \<and> (\<exists>b. nw_bridge n' = Some b
        \<and> bridge_Ensure (env_K V) (env_N V) (NewBridgeInterface (network_GetInfo n')) (wk s) = ((Ok (), b), wk s'))"
proof -
  have sv: "etcd_service (env_E V) ev"
    using assms(1) by (simp add: etcd_mutexes_def etcd_revisions_def etcd_reliable_def)
  obtain r n1 w1 where 1: "run_flanneld (env_H V) (n, ww s) = (r, n1, w1)" by (metis surj_pair)
  obtain e1 where 2: "WithConnection (env_E V) (locked_flanneld V (n, ww s)) (we s) = (Ok (r, n1, w1), e1)"
    "\<forall>k. \<not> HasPrefix k (flannelLockKey n @ ''/'') \<longrightarrow> ev e1 k = ev (we s) k"
    using locked_flanneld_run [OF assms(1) 1] by blast
  let ?s = "s\<lparr>we := e1, ww := w1\<rparr>"
  obtain cmd where r: "r = Ok cmd" using assms(3) 1 2(1) by (cases r) (simp_all add: startFlannel_def)
  note rf = run_flanneld_Ok [OF assms(2) 1 [unfolded r]]
  obtain r2 n2 s2 where 3: "loadFlannelConfig fuel V (getFlannelEnvFilename n1) (n1, ?s) = Some (r2, n2, s2)"
    using assms(3) 2(1) r by (auto simp: startFlannel_def split: option.splits)
  obtain pid where "cmd = Some pid" "r2 = Ok ()" "n' = n2\<lparr>nw_flannelDaemonProcess := Some pid\<rparr>" "s' = s2"
    using assms(3) 2(1) r 3
    by (cases r2; cases cmd) (auto simp: startFlannel_def Let_def split: prod.splits res.splits)
  moreover have "network_GetInfo (n2\<lparr>nw_flannelDaemonProcess := x\<rparr>) = network_GetInfo n2" for x
    by (simp add: network_GetInfo_def)
  ultimately show ?thesis
    using loadFlannelConfig_Ok [OF sv assms(2) 3 [unfolded \<open>r2 = Ok ()\<close>]] rf 2(2) by auto
qed

section \<open>Endpoints of a network\<close>

context etcd_reliable
begin

lemma NewEndpoint_run:
  assumes "codec_law C" "view e (endpointKey c i) = None"
  shows "\<exists>ep v e'. NewEndpoint E C c i ip mac b e = (Ok ep, e') \<and> view e' = (view e)(endpointKey c i \<mapsto> v)"
proof -
  let ?ep = "\<lparr>ep_id = i, ep_ipAddress = ip, ep_macAddress = mac, ep_vethPair = None,
                ep_sandboxKey = [], ep_etcdClient = Some c, ep_bridge = b\<rparr>"
  let ?key = "endpointKey c i"
  obtain v where v: "endpoint_MarshalJSON C ?ep = Some v" using assms(1) unfolding codec_law_def endpoint_MarshalJSON_def by blast
  let ?fn = "\<lambda>e. res_bind (Txn E [CreateRevisionIs0 ?key] [OpPut ?key v] [] e)
    (\<lambda>(succeeded, _) e. if \<not> succeeded then (Err (Errorf ''endpoint key already exists''), e) else (Ok (), e))"
  obtain r e' where w: "WithConnection E ?fn e = (r, e')" by force
  obtain e1 e2 where 1: "view e1 = view e" "?fn e1 = (r, e2)" "view e' = view e2"
    using WithConnection_run [OF w] by blast
  obtain e3 where 3: "Txn E [CreateRevisionIs0 ?key] [OpPut ?key v] [] e1 =
      (Ok (list_all (cmp_holds (view e1)) [CreateRevisionIs0 ?key],
           op_responses (if list_all (cmp_holds (view e1)) [CreateRevisionIs0 ?key] then [OpPut ?key v] else []) (view e1)), e3)"
    "view e3 = apply_ops (if list_all (cmp_holds (view e1)) [CreateRevisionIs0 ?key] then [OpPut ?key v] else []) (view e1)"
    by (rule Txn_run)
  have "r = Ok ()" "view e2 = (view e)(?key \<mapsto> v)" using 1(1,2) 3 assms(2) by auto
  then show ?thesis using w 1(3) v
    by (auto simp: NewEndpoint_def writeToEtcd_def with_client_def Let_def)
qed

end

lemma AddEndpoint_DeleteEndpoint_run:
  assumes "etcd_reliable (env_E V) ev" "codec_law (env_endpoint V)"
    "ev (we s) (endpointKey (nw_endpointsEtcdClient n) i) = None" "i \<notin> dom (map_of (nw_endpoints n))"
  shows "\<exists>ep n1 s1 s2. network_AddEndpoint V i ip mac (n, s) = (Ok ep, n1, s1) \<and> network_GetEndpoint n1 i = Some ep
    \<and> ev (we s1) (endpointKey (nw_endpointsEtcdClient n) i) = endpoint_MarshalJSON (env_endpoint V) ep
    \<and> network_DeleteEndpoint V i (n1, s1) = (Ok (), n, s2) \<and> ev (we s2) = ev (we s) \<and> wk s2 = wk s \<and> ww s2 = ww s"
proof -
  have sv: "etcd_service (env_E V) ev" using assms(1) by (simp add: etcd_reliable_def)
  let ?key = "endpointKey (nw_endpointsEtcdClient n) i"
  obtain ep v e1 where 1: "NewEndpoint (env_E V) (env_endpoint V) (nw_endpointsEtcdClient n) i ip mac (nw_bridge n) (we s) = (Ok ep, e1)"
    "ev e1 = (ev (we s))(?key \<mapsto> v)"
    using etcd_reliable.NewEndpoint_run [OF assms(1,2,3)] by blast
  note N = etcd_service.NewEndpoint_Ok [OF sv 1(1)]
  let ?n = "n\<lparr>nw_endpoints := gomap_set (nw_endpoints n) i ep\<rparr>" and ?s = "s\<lparr>we := e1\<rparr>"
  have add: "network_AddEndpoint V i ip mac (n, s) = (Ok ep, ?n, ?s)"
    using 1(1) by (simp add: network_AddEndpoint_def in_etcd_def)
  obtain e2 where 2: "delete_record (env_E V) (env_endpoint V) ep e1 = (Ok (), e2)"
    using etcd_reliable.delete_record_run [OF assms(1) N(1)] by blast
  have "ev e2 = ev (we s)"
    using etcd_service.delete_record_Ok [OF sv 2 N(3)] 1(2) assms(3) N(2) by (auto simp: fun_eq_iff)
  moreover have "network_DeleteEndpoint V i (?n, ?s) = (Ok (), n, s\<lparr>we := e2\<rparr>)"
    using 2 N(4) assms(4)
    by (simp add: network_DeleteEndpoint_def delete_endpoint_at_def endpoint_Delete_def delete_update_same delete_idem
        dom_map_of_conv_image_fst)
  moreover have "ev (we ?s) ?key = endpoint_MarshalJSON (env_endpoint V) ep"
    using N(1-3) by (auto simp: in_sync_def)
  moreover have "network_GetEndpoint ?n i = Some ep" by (simp add: network_GetEndpoint_def)
  ultimately show ?thesis using add by (intro exI [of _ ep] exI [of _ ?n] exI [of _ ?s] exI [of _ "s\<lparr>we := e2\<rparr>"]) simp
qed

section \<open>Reading what flanneld writes\<close>

lemma trim_space_id: "list_all (\<lambda>c. \<not> is_space c) s \<Longrightarrow> trim_space s = s"
proof -
  assume s: "list_all (\<lambda>c. \<not> is_space c) s"
  then have "dropWhile is_space s = s" by (cases s) simp_all
  moreover have "dropWhile is_space (rev s) = rev s" using s by (cases s rule: rev_cases) simp_all
  ultimately show ?thesis by (simp add: trim_space_def)
qed

lemma env_entry_line:
  assumes "list_all (\<lambda>c. \<not> is_space c) k" "list_all (\<lambda>c. \<not> is_space c) v" "CHR ''='' \<notin> set k"
  shows "env_entry (''FLANNEL_'' @ k @ CHR ''='' # v) = Some (k, v)"
proof -
  let ?l = "''FLANNEL_'' @ k @ CHR ''='' # v"
  have t: "trim_space ?l = ?l" using assms(1,2) by (intro trim_space_id) (simp add: is_space_def)
  have "takeWhile (\<lambda>c. c \<noteq> CHR ''='') ((''FLANNEL_'' @ k) @ CHR ''='' # v) = ''FLANNEL_'' @ k"
    "dropWhile (\<lambda>c. c \<noteq> CHR ''='') ((''FLANNEL_'' @ k) @ CHR ''='' # v) = CHR ''='' # v"
    by (rule trans [OF takeWhile_append2], use assms(3) in auto) (rule trans [OF dropWhile_append2], use assms(3) in auto)
  then show ?thesis using t by (simp add: env_entry_def HasPrefix_def TrimPrefix_def)
qed

lemma digits_no_space: "is_digit c \<Longrightarrow> \<not> is_space c"
  by (auto simp: is_digit_def is_space_def)

lemma no_space_FormatUint: "list_all (\<lambda>c. \<not> is_space c) (FormatUint n)"
  by (auto simp: list_all_iff dest: FormatUint_is_digit digits_no_space)

lemma no_space_ip4: "list_all (\<lambda>c. \<not> is_space c) (ip4_String bs @ CHR ''/'' # FormatUint p)"
proof -
  have "\<not> is_space c" if "c \<in> set (ip4_String bs)" for c
    using that ip4_String_free [of c bs] digits_no_space [of c] by (cases "c = CHR ''.''") (auto simp: is_space_def)
  moreover have "\<not> is_space CHR ''/''" by (simp add: is_space_def)
  ultimately show ?thesis using no_space_FormatUint [of p] by (auto simp: list_all_iff)
qed

lemma Atoi_FormatUint: "int n < 2 ^ 63 \<Longrightarrow> Atoi (FormatUint n) = Some (int n)"
proof -
  assume n: "int n < 2 ^ 63"
  have "is_digit (hd (FormatUint n))" using FormatUint_digits [of n] FormatUint_nonempty [of n] by (cases "FormatUint n") auto
  moreover have "\<not> is_digit CHR ''-''" "\<not> is_digit CHR ''+''" by (simp_all add: is_digit_def)
  ultimately have "hd (FormatUint n) \<noteq> CHR ''-''" "hd (FormatUint n) \<noteq> CHR ''+''" by metis+
  then show ?thesis using n FormatUint_digits [of n] by (simp add: Atoi_def Let_def)
qed

text \<open>The file as flanneld writes it.\<close>

definition flannel_env_file :: "ipnet \<Rightarrow> byte list \<Rightarrow> nat \<Rightarrow> nat \<Rightarrow> bool \<Rightarrow> string list" where
  "flannel_env_file net gw q mtu masq =
     [''FLANNEL_'' @ ''NETWORK'' @ CHR ''='' # ipnet_String net,
      ''FLANNEL_'' @ ''SUBNET'' @ CHR ''='' # ip4_String gw @ CHR ''/'' # FormatUint q,
      ''FLANNEL_'' @ ''MTU'' @ CHR ''='' # FormatUint mtu,
      ''FLANNEL_'' @ ''IPMASQ'' @ CHR ''='' # (if masq then ''true'' else ''false'')]"

definition subnet_of :: "byte list \<Rightarrow> nat \<Rightarrow> ipnet" where
  "subnet_of gw q = \<lparr>ipnet_IP = map2 (AND) gw (CIDRMask q 32), ipnet_Mask = CIDRMask q 32\<rparr>"

definition host_subnet_client :: "network \<Rightarrow> ipnet \<Rightarrow> etcdClient" where
  "host_subnet_client n sub =
     CreateSubClient (nw_etcdClient n) [nw_flannelID n, ''host-subnets'', SubnetToKey (ipnet_String sub)]"

lemma load_env_file_run:
  assumes "etcd_reliable (env_E V) ev" "ip4_net net p" "length gw = 4" "1 \<le> q" "q \<le> 32" "2 ^ (32 - q) \<le> fuel"
    "int mtu < 2 ^ 63" "wf_keys (allocatedIPsKey (host_subnet_client n (subnet_of gw q))) (ev e)"
  shows "\<exists>pool e'. load_lines fuel V (flannel_env_file net gw q mtu masq) (n, e) =
      Some (Ok (), n\<lparr>nw_networkSubnet := net, nw_hostSubnet := subnet_of gw q,
        nw_localGateway := v4InV6Prefix @ gw, nw_pool := Some pool, nw_mtu := int mtu\<rparr>, e')
    \<and> poolSubnet pool = subnet_of gw q \<and> ev e' = ev e"
proof -
  have keys: "list_all (\<lambda>c. \<not> is_space c) ''NETWORK''" "list_all (\<lambda>c. \<not> is_space c) ''SUBNET''"
    "list_all (\<lambda>c. \<not> is_space c) ''MTU''" "list_all (\<lambda>c. \<not> is_space c) ''IPMASQ''"
    "CHR ''='' \<notin> set ''NETWORK''" "CHR ''='' \<notin> set ''SUBNET''" "CHR ''='' \<notin> set ''MTU''" "CHR ''='' \<notin> set ''IPMASQ''"
    "list_all (\<lambda>c. \<not> is_space c) (if masq then ''true'' else ''false'')"
    by (simp_all add: is_space_def)
  have net: "list_all (\<lambda>c. \<not> is_space c) (ipnet_String net)" using no_space_ip4 by (simp only: ipnet_String_ip4 [OF assms(2)])
  note entries = env_entry_line [OF keys(1) net keys(5)] env_entry_line [OF keys(2) no_space_ip4 keys(6), of gw q]
    env_entry_line [OF keys(3) no_space_FormatUint keys(7), of mtu] env_entry_line [OF keys(4,9,8)]
  have sub: "ip4_net (subnet_of gw q) q" using assms(3,5) by (simp add: ip4_net_def subnet_of_def map2_and_idem)
  obtain pool e' where pool: "NewEtcdBasedAddressPool fuel (env_E V) (env_parse_time V) (env_now V) (nw_flannelID n) (subnet_of gw q)
      (host_subnet_client n (subnet_of gw q)) e = Some (Ok pool, e')" "poolSubnet pool = subnet_of gw q" "ev e' = ev e"
    using NewEtcdBasedAddressPool_spec [OF assms(1) sub assms(4,6,8)] by blast
  have l1: "load_entry fuel V ''NETWORK'' (ipnet_String net) (n, e) = Some (Ok (), n\<lparr>nw_networkSubnet := net\<rparr>, e)" for n e
    using ParseCIDR_ipnet_String [OF assms(2)] by (simp add: load_entry_def)
  let ?n1 = "n\<lparr>nw_networkSubnet := net\<rparr>"
  have "ParseCIDR (ip4_String gw @ CHR ''/'' # FormatUint q) = Some (v4InV6Prefix @ gw, subnet_of gw q)"
    using ParseCIDR_ip4 [OF assms(3,5)] by (simp add: subnet_of_def)
  then have l2: "load_entry fuel V ''SUBNET'' (ip4_String gw @ CHR ''/'' # FormatUint q) (?n1, e) =
      Some (Ok (), ?n1\<lparr>nw_hostSubnet := subnet_of gw q, nw_localGateway := v4InV6Prefix @ gw, nw_pool := Some pool\<rparr>, e')"
    using pool(1) by (simp add: load_entry_def host_subnet_client_def)
  have l3: "load_entry fuel V ''MTU'' (FormatUint mtu) (n, e) = Some (Ok (), n\<lparr>nw_mtu := int mtu\<rparr>, e)" for n e
    using Atoi_FormatUint [OF assms(7)] by (simp add: load_entry_def)
  have l4: "load_entry fuel V ''IPMASQ'' x (n, e) = Some (Ok (), n, e)" for n e x by (simp add: load_entry_def)
  have "load_lines fuel V (flannel_env_file net gw q mtu masq) (n, e) =
      Some (Ok (), ?n1\<lparr>nw_hostSubnet := subnet_of gw q, nw_localGateway := v4InV6Prefix @ gw, nw_pool := Some pool, nw_mtu := int mtu\<rparr>, e')"
    unfolding flannel_env_file_def load_lines.simps entries option.case prod.case l1 opt_bind.simps l2 l3 l4 by simp
  then show ?thesis using pool(2,3) by (intro exI [of _ pool] exI [of _ e'] conjI)
qed

section \<open>A concrete host\<close>

text \<open>Files with their lines, the identifiers of the processes, what happens to a new one, and how
  many times waiting may still end early.\<close>

record hmem =
  hm_files :: "(string, string list) gomap"
  hm_procs :: "int list"
  hm_boot :: bootstrap
  hm_polls :: nat

definition mem_host :: "hmem host" where
  "mem_host = \<lparr>SIGTERM = 15, ESRCH = 3, EPERM = 1,
     SignalProcess = \<lambda>pid sig w.
       if pid \<in> set (hm_procs w)
       then (SigOk, if sig = 15 then w\<lparr>hm_procs := filter (\<lambda>p. p \<noteq> pid) (hm_procs w)\<rparr> else w) else (SigFinished, w),
     StartFlanneld = \<lambda>args w. let pid = 1 + foldr max (hm_procs w) 0 in (Ok pid, w\<lparr>hm_procs := pid # hm_procs w\<rparr>),
     AwaitFlanneld = \<lambda>pid w. (hm_boot w,
       case hm_boot w of BootstrapExited _ \<Rightarrow> w\<lparr>hm_procs := filter (\<lambda>p. p \<noteq> pid) (hm_procs w)\<rparr> | _ \<Rightarrow> w),
     StatPath = \<lambda>p w. (if map_of (hm_files w) p = None then StatNotExist else StatExists, w),
     RemovePath = \<lambda>p w. (Ok (), w\<lparr>hm_files := gomap_delete (hm_files w) p\<rparr>),
     ReadFile = \<lambda>p w. (case map_of (hm_files w) p of
       None \<Rightarrow> Err (Foreign ''no such file'') | Some ls \<Rightarrow> Ok (ls, False), w),
     CtxDone = \<lambda>w. (hm_polls w = 0, w),
     PollWait = \<lambda>w. if hm_polls w = 0 then (True, w) else (False, w\<lparr>hm_polls := hm_polls w - 1\<rparr>)\<rparr>"

lemma foldr_max_upper: "p \<in> set ps \<Longrightarrow> p \<le> foldr max ps (0 :: int)"
  by (induction ps) auto

lemma foldr_max_fresh: "1 + foldr max ps (0 :: int) \<notin> set ps"
  using foldr_max_upper by fastforce

interpretation mem_host: host_service mem_host "\<lambda>w. set (hm_procs w)" hm_polls
  by unfold_locales
    (auto simp: mem_host_def Let_def foldr_max_fresh split: if_splits bootstrap.splits)

definition demo_env :: "(kmem, mem, hmem) env" where
  "demo_env = \<lparr>env_K = mem_kernel, env_N = mem_netlink, env_E = mem_etcd, env_X = mem_etcd_ext, env_H = mem_host,
     env_config = config_codec, env_endpoint = endpoint_codec, env_values = map snd,
     env_parse_time = parse_seconds, env_now = zero_time\<rparr>"

definition demo_ipnet :: ipnet where
  "demo_ipnet = \<lparr>ipnet_IP = [10, 0, 0, 0], ipnet_Mask = CIDRMask 16 32\<rparr>"

definition demo_lines :: "string list" where
  "demo_lines = flannel_env_file demo_ipnet [10, 0, 1, 249] 29 1450 True"

definition demo_world :: "bootstrap \<Rightarrow> (kmem, mem, hmem) world" where
  "demo_world b = \<lparr>wk = kmem_empty, we = [],
     ww = \<lparr>hm_files = [(''/flannel-env/n1.env'', demo_lines)], hm_procs = [], hm_boot = b, hm_polls = 3\<rparr>\<rparr>"

definition demo_net :: network where
  "demo_net = demo_network demo_ipnet"

lemma demo_env_simps [simp]:
  "env_K demo_env = mem_kernel" "env_N demo_env = mem_netlink" "env_E demo_env = mem_etcd" "env_X demo_env = mem_etcd_ext"
  "env_H demo_env = mem_host" "env_config demo_env = config_codec" "env_endpoint demo_env = endpoint_codec"
  by (simp_all add: demo_env_def)

section \<open>Properties\<close>

text \<open>
  C12: When \<open>Ensure\<close> of a network without a process succeeds, etcd holds the configuration of
  exactly this network, one process more runs and is the one the network has noted, and the bridge
  of the network is up with the MTU and, as its only address, the gateway that flanneld has
  reported, and with all its rules.
\<close>

theorem network_Ensure_ok:
  assumes "etcd_mutexes (env_E V) ev (env_X V) modrev" "netlink_service (env_K V) kv (env_N V)"
    "host_service (env_H V) alive rank" "codec_law (env_config V)" "nw_flannelDaemonProcess n = None"
    "network_Ensure fuel V (n, s) = Some (Ok (), n', s')"
  shows "config_of (env_config V) (flannelConfigKey n) (ev (we s')) = Some (ipnet_String (nw_networkSubnet n))
    \<and> (\<exists>pid. nw_flannelDaemonProcess n' = Some pid \<and> pid \<notin> alive (ww s) \<and> alive (ww s') = insert pid (alive (ww s)))
    \<and> (\<exists>b l a. nw_bridge n' = Some b \<and> bi_interfaceName b = getBridgeInterfaceName (nw_flannelID n)
        \<and> kv_links (kv (wk s')) (bi_interfaceName b) = Some l \<and> l_MTU l = nw_mtu n' \<and> l_Up l
        \<and> ParseAddr (env_K V) (ip_String (nw_localGateway n') @ ''/''
             @ FormatUint (fst (mask_Size (ipnet_Mask (nw_hostSubnet n'))))) = Ok a
        \<and> kv_addrs (kv (wk s')) (bi_interfaceName b) = {addr_text a}
        \<and> set (getIptablesRules (bi_interfaceName b) (nw_hostSubnet n')) \<subseteq> kv_rules (kv (wk s')))"
proof -
  have rev: "etcd_revisions (env_E V) ev (env_X V) modrev" using assms(1) by (simp add: etcd_mutexes_def)
  obtain r e1 where 1: "ensureFlannelConfig (env_E V) (env_X V) (env_config V) n (we s) = (r, e1)" by force
  then have "r = Ok ()" and st: "startFlannel fuel V (n, s\<lparr>we := e1\<rparr>) = Some (Ok (), n', s')"
    using assms(5,6)
    by (cases r; simp add: network_Ensure_def in_etcd_def in_host_def isFlannelDaemonProcessRunning_def)+
  note d = etcd_revisions.ensureFlannelConfig_decides [OF rev assms(4) 1]
  have cfg: "config_of (env_config V) (flannelConfigKey n) (ev e1) = Some (ipnet_String (nw_networkSubnet n))"
    using d(1,2) \<open>r = Ok ()\<close> by (cases "ev (we s) (flannelConfigKey n) = None") auto
  note S = startFlannel_Ok [OF assms(1,3) st]
  have "\<not> HasPrefix (flannelConfigKey n) (flannelLockKey n @ ''/'')"
    by (simp add: flannelConfigKey_def flannelLockKey_def HasPrefix_iff)
  then have "ev (we s') (flannelConfigKey n) = ev e1 (flannelConfigKey n)" using S by simp
  then have "config_of (env_config V) (flannelConfigKey n) (ev (we s')) = Some (ipnet_String (nw_networkSubnet n))"
    using cfg by (simp add: config_of_def)
  moreover obtain b where b: "nw_bridge n' = Some b"
    "bridge_Ensure (env_K V) (env_N V) (NewBridgeInterface (network_GetInfo n')) (wk s) = ((Ok (), b), wk s')"
    using S by auto
  note B = netlink_service.bridge_Ensure_Ok [OF assms(2) b(2)]
  have "bi_interfaceName b = getBridgeInterfaceName (nw_flannelID n)"
    using B(3) S by (auto simp: NewBridgeInterface_def Let_def network_GetInfo_def)
  ultimately show ?thesis
    using S b(1) B by (auto simp: NewBridgeInterface_def Let_def network_GetInfo_def)
qed

text \<open>
  A process that does not get ready in time is never ended: \<open>Ensure\<close> fails, but the process it
  has started goes on running, and the network does not know it, so that every further attempt
  starts another one.
\<close>

theorem bootstrap_timeout_leaks_process:
  assumes "etcd_mutexes (env_E V) ev (env_X V) modrev" "host_service (env_H V) alive rank"
    "fst (ensureFlannelConfig (env_E V) (env_X V) (env_config V) n (we s)) = Ok ()" "nw_flannelDaemonProcess n = None"
    "StartFlanneld (env_H V) (flannel_args n) (ww s) = (Ok pid, w1)"
    "AwaitFlanneld (env_H V) pid w1 = (BootstrapTimeout, w2)"
  shows "\<exists>er s'. network_Ensure fuel V (n, s) = Some (Err er, n, s') \<and> pid \<notin> alive (ww s) \<and> pid \<in> alive (ww s')"
proof -
  obtain e1 where 1: "ensureFlannelConfig (env_E V) (env_X V) (env_config V) n (we s) = (Ok (), e1)"
    using assms(3) by (metis prod.collapse)
  let ?er = "Errorf ''flanneld failed to bootstrap within 1.5 seconds''"
  have "run_flanneld (env_H V) (n, ww s) = (Err ?er, n, w2)"
    using assms(4-6) by (simp add: run_flanneld_def endFlannelDaemonProcess_def)
  from locked_flanneld_run [OF assms(1) this, of e1] obtain e2 where
    "WithConnection (env_E V) (locked_flanneld V (n, ww s)) e1 = (Ok (Err ?er, n, w2), e2)" by blast
  then have "network_Ensure fuel V (n, s) = Some (Err ?er, n, s\<lparr>we := e2, ww := w2\<rparr>)"
    using 1 assms(4)
    by (simp add: network_Ensure_def in_etcd_def in_host_def isFlannelDaemonProcessRunning_def startFlannel_def)
  moreover have "pid \<notin> alive (ww s)" "pid \<in> alive w2"
    using host_service.StartFlanneld_Ok [OF assms(2,5)] host_service.AwaitFlanneld_running [OF assms(2,6)] by auto
  ultimately show ?thesis by (intro exI [of _ ?er] exI [of _ "s\<lparr>we := e2, ww := w2\<rparr>"]) simp
qed

lemma bootstrap_timeout_leaks_process_witness:
  "\<exists>er s'. network_Ensure 8 demo_env (demo_net, demo_world BootstrapTimeout) = Some (Err er, demo_net, s') \<and> hm_procs (ww s') \<noteq> []"
proof -
  have c: "fst (ensureFlannelConfig (env_E demo_env) (env_X demo_env) (env_config demo_env) demo_net (we (demo_world BootstrapTimeout))) = Ok ()"
    by code_simp
  have p: "nw_flannelDaemonProcess demo_net = None" by code_simp
  let ?w = "ww (demo_world BootstrapTimeout)\<lparr>hm_procs := [1]\<rparr>"
  have s: "StartFlanneld (env_H demo_env) (flannel_args demo_net) (ww (demo_world BootstrapTimeout)) = (Ok 1, ?w)"
    "AwaitFlanneld (env_H demo_env) 1 ?w = (BootstrapTimeout, ?w)"
    by (simp_all add: mem_host_def demo_world_def)
  have h: "host_service (env_H demo_env) (\<lambda>w. set (hm_procs w)) hm_polls" by (simp add: mem_host.host_service_axioms)
  have m: "etcd_mutexes (env_E demo_env) map_of (env_X demo_env) mem_rev" by (simp add: mem_mutex.etcd_mutexes_axioms)
  from bootstrap_timeout_leaks_process [OF m h c p s, of 8] show ?thesis by (metis empty_iff list.set(1))
qed

lemma demo_load:
  assumes "\<And>k. HasPrefix k (allocatedIPsKey (host_subnet_client demo_net (subnet_of [10, 0, 1, 249] 29))) \<Longrightarrow> map_of e k = None"
  shows "\<exists>pool e'. load_lines 8 demo_env demo_lines (demo_net, e) =
      Some (Ok (), demo_net\<lparr>nw_networkSubnet := demo_ipnet, nw_hostSubnet := subnet_of [10, 0, 1, 249] 29,
        nw_localGateway := v4InV6Prefix @ [10, 0, 1, 249], nw_pool := Some pool, nw_mtu := 1450\<rparr>, e')"
proof -
  have wf: "wf_keys (allocatedIPsKey (host_subnet_client demo_net (subnet_of [10, 0, 1, 249] 29))) (map_of e)"
    using assms by (auto simp: wf_keys_def)
  have net: "ip4_net demo_ipnet 16" unfolding ip4_net_def by code_simp
  have rel: "etcd_reliable (env_E demo_env) map_of" by (simp add: mem.etcd_reliable_axioms)
  show ?thesis
    using load_env_file_run [OF rel net, of "[10, 0, 1, 249]" 29 8 1450 demo_net e True] wf
    by (auto simp: demo_lines_def)
qed

lemma demo_Ensure:
  "\<exists>n' s'. network_Ensure 8 demo_env (demo_net, demo_world BootstrapDone) = Some (Ok (), n', s')"
proof -
  let ?s = "demo_world BootstrapDone" and ?key = "flannelConfigKey demo_net"
  let ?w = "ww ?s\<lparr>hm_procs := [1]\<rparr>"
  have keys: "?key = ''/flannel/n1/config''" "flannelLockKey demo_net = ''/flannel/n1/lock''"
    "getFlannelEnvFilename demo_net = ''/flannel-env/n1.env''"
    "allocatedIPsKey (host_subnet_client demo_net (subnet_of [10, 0, 1, 249] 29)) = ''/flannel/n1/host-subnets/10.0.1.248-29/allocated-ips''"
    by code_simp+
  obtain x where x: "Marshal config_codec (new_config demo_net) = Some x" using config_codec_law unfolding codec_law_def by blast
  obtain e1 where 1: "ensureFlannelConfig mem_etcd mem_etcd_ext config_codec demo_net [] = (Ok (), e1)"
    "map_of e1 = [?key \<mapsto> x]"
    using mem_rev.ensureFlannelConfig_run [OF x, of "[]"] by auto
  have r: "run_flanneld (env_H demo_env) (demo_net, ww ?s) = (Ok (Some 1), demo_net, ?w)"
    by (simp add: run_flanneld_def demo_world_def) (simp add: mem_host_def)
  have m: "etcd_mutexes (env_E demo_env) map_of (env_X demo_env) mem_rev" by (simp add: mem_mutex.etcd_mutexes_axioms)
  obtain e2 where 2: "WithConnection (env_E demo_env) (locked_flanneld demo_env (demo_net, ww ?s)) e1 = (Ok (Ok (Some 1), demo_net, ?w), e2)"
    "\<forall>k. \<not> HasPrefix k ''/flannel/n1/lock/'' \<longrightarrow> map_of e2 k = map_of e1 k"
    using locked_flanneld_run [OF m r, of e1] keys(2) by auto
  have "map_of e2 k = None" if "HasPrefix k ''/flannel/n1/host-subnets/10.0.1.248-29/allocated-ips''" for k
  proof -
    have "\<not> HasPrefix k ''/flannel/n1/lock/''" "k \<noteq> ?key" using that unfolding keys(1) by (auto simp: HasPrefix_iff)
    then show ?thesis using 2(2) 1(2) by simp
  qed
  then obtain pool e3 where 3: "load_lines 8 demo_env demo_lines (demo_net, e2) =
      Some (Ok (), demo_net\<lparr>nw_networkSubnet := demo_ipnet, nw_hostSubnet := subnet_of [10, 0, 1, 249] 29,
        nw_localGateway := v4InV6Prefix @ [10, 0, 1, 249], nw_pool := Some pool, nw_mtu := 1450\<rparr>, e3)"
    using demo_load [of e2] unfolding keys(4) by blast
  let ?n = "demo_net\<lparr>nw_networkSubnet := demo_ipnet, nw_hostSubnet := subnet_of [10, 0, 1, 249] 29,
        nw_localGateway := v4InV6Prefix @ [10, 0, 1, 249], nw_pool := Some pool, nw_mtu := 1450\<rparr>"
  let ?I = "\<lparr>fi_FlannelID = ''n1'', fi_MTU = 1450, fi_Network = demo_ipnet, fi_HostSubnet = subnet_of [10, 0, 1, 249] 29,
    fi_LocalGateway = v4InV6Prefix @ [10, 0, 1, 249]\<rparr>"
  have "nw_flannelID demo_net = ''n1''" by code_simp
  then have I: "network_GetInfo ?n = ?I" by (simp add: network_GetInfo_def)
  have "fst (res_bind (EnsureInterface mem_kernel (getBridgeInterfaceName (fi_FlannelID ?I)) ''bridge'' 1450 True kmem_empty)
      (\<lambda>bridge. ReplaceIPsOfInterface mem_kernel bridge
        [ip_String (fi_LocalGateway ?I) @ ''/'' @ FormatUint (fst (mask_Size (ipnet_Mask (fi_HostSubnet ?I))))])) = Ok ()"
    by code_simp
  then have "fst (fst (bridge_Ensure mem_kernel mem_netlink (NewBridgeInterface ?I) kmem_empty)) = Ok ()"
    by (intro mem_bridge_Ensure_run) (simp add: NewBridgeInterface_def Let_def)
  then obtain b k where b: "bridge_Ensure mem_kernel mem_netlink (NewBridgeInterface ?I) kmem_empty = ((Ok (), b), k)"
    by (metis prod.collapse)
  let ?s2 = "?s\<lparr>we := e2, ww := ?w\<rparr>"
  have f: "waitForFile 8 mem_host ''/flannel-env/n1.env'' ?w = Some (Ok (), ?w)"
    "ReadFile mem_host ''/flannel-env/n1.env'' ?w = (Ok (demo_lines, False), ?w)"
    by (simp_all add: mem_host_def demo_world_def numeral_eq_Suc)
  have "load_bridge demo_env (?n, ?s2\<lparr>ww := ?w, we := e3\<rparr>)
      = (Ok (), ?n\<lparr>nw_bridge := Some b\<rparr>, ?s2\<lparr>ww := ?w, we := e3, wk := k\<rparr>)"
    using b unfolding load_bridge_def prod.case I by (simp add: demo_world_def)
  then have "loadFlannelConfig 8 demo_env ''/flannel-env/n1.env'' (demo_net, ?s2)
      = Some (Ok (), ?n\<lparr>nw_bridge := Some b\<rparr>, ?s2\<lparr>ww := ?w, we := e3, wk := k\<rparr>)"
    using f 3 by (simp add: loadFlannelConfig_def)
  then have "startFlannel 8 demo_env (demo_net, ?s\<lparr>we := e1\<rparr>)
      = Some (Ok (), ?n\<lparr>nw_bridge := Some b, nw_flannelDaemonProcess := Some 1\<rparr>, ?s2\<lparr>ww := ?w, we := e3, wk := k\<rparr>)"
    using 2(1) keys(3) by (simp add: startFlannel_def)
  moreover have "nw_flannelDaemonProcess demo_net = None" "we ?s = []" by code_simp+
  ultimately show ?thesis
    using 1(1) by (simp add: network_Ensure_def in_etcd_def in_host_def isFlannelDaemonProcessRunning_def)
qed

lemma network_Ensure_ok_witness:
  "\<exists>n' s'. network_Ensure 8 demo_env (demo_net, demo_world BootstrapDone) = Some (Ok (), n', s')
    \<and> (\<exists>pid. nw_flannelDaemonProcess n' = Some pid \<and> pid \<in> set (hm_procs (ww s')))"
proof -
  obtain n' s' where r: "network_Ensure 8 demo_env (demo_net, demo_world BootstrapDone) = Some (Ok (), n', s')"
    using demo_Ensure by blast
  have m: "etcd_mutexes (env_E demo_env) map_of (env_X demo_env) mem_rev" by (simp add: mem_mutex.etcd_mutexes_axioms)
  have k: "netlink_service (env_K demo_env) mem_kview (env_N demo_env)" by (simp add: mem_netlink.netlink_service_axioms)
  have h: "host_service (env_H demo_env) (\<lambda>w. set (hm_procs w)) hm_polls" by (simp add: mem_host.host_service_axioms)
  have c: "codec_law (env_config demo_env)" by (simp add: config_codec_law)
  have p: "nw_flannelDaemonProcess demo_net = None" by code_simp
  from network_Ensure_ok [OF m k h c p r] r show ?thesis by auto
qed

text \<open>
  C21: A network gets back what flanneld has written: loading the environment file made of a network,
  a gateway with its prefix length and an MTU sets exactly these, with the subnet of the gateway as
  the host's subnet and a pool over it; etcd is only read.
\<close>

theorem load_env_file:
  assumes "etcd_reliable (env_E V) ev" "ip4_net net p" "length gw = 4" "1 \<le> q" "q \<le> 32" "2 ^ (32 - q) \<le> fuel"
    "int mtu < 2 ^ 63" "wf_keys (allocatedIPsKey (host_subnet_client n (subnet_of gw q))) (ev e)"
  shows "\<exists>pool e'. load_lines fuel V (flannel_env_file net gw q mtu masq) (n, e) =
      Some (Ok (), n\<lparr>nw_networkSubnet := net, nw_hostSubnet := subnet_of gw q,
        nw_localGateway := v4InV6Prefix @ gw, nw_pool := Some pool, nw_mtu := int mtu\<rparr>, e')
    \<and> poolSubnet pool = subnet_of gw q \<and> ev e' = ev e"
  using assms by (rule load_env_file_run)

lemma load_env_file_witness:
  "\<exists>n' e'. load_lines 8 demo_env demo_lines (demo_net, []) = Some (Ok (), n', e') \<and> nw_mtu n' = 1450
    \<and> nw_localGateway n' = v4InV6Prefix @ [10, 0, 1, 249]"
proof -
  have rel: "etcd_reliable (env_E demo_env) map_of" by (simp add: mem.etcd_reliable_axioms)
  have net: "ip4_net demo_ipnet 16" unfolding ip4_net_def by code_simp
  show ?thesis
    using load_env_file [OF rel net, of "[10, 0, 1, 249]" 29 8 1450 demo_net "[]" True]
    by (auto simp: demo_lines_def wf_keys_def)
qed



text \<open>
  C22: An endpoint that is added to a network is found in the network and stored in etcd as it is;
  deleting it again succeeds and leaves the network, etcd, the kernel and the host as they were.
\<close>

theorem AddEndpoint_DeleteEndpoint:
  assumes "etcd_reliable (env_E V) ev" "codec_law (env_endpoint V)"
    "ev (we s) (endpointKey (nw_endpointsEtcdClient n) i) = None" "i \<notin> dom (map_of (nw_endpoints n))"
  shows "\<exists>ep n1 s1 s2. network_AddEndpoint V i ip mac (n, s) = (Ok ep, n1, s1) \<and> network_GetEndpoint n1 i = Some ep
    \<and> ev (we s1) (endpointKey (nw_endpointsEtcdClient n) i) = endpoint_MarshalJSON (env_endpoint V) ep
    \<and> network_DeleteEndpoint V i (n1, s1) = (Ok (), n, s2) \<and> ev (we s2) = ev (we s) \<and> wk s2 = wk s \<and> ww s2 = ww s"
  using assms by (rule AddEndpoint_DeleteEndpoint_run)

lemma AddEndpoint_DeleteEndpoint_witness:
  "\<exists>ep n1 s1 s2. network_AddEndpoint demo_env ''ep1'' [10, 0, 1, 250] ''02:42:0a:00:01:fa'' (demo_net, demo_world BootstrapDone) = (Ok ep, n1, s1)
    \<and> network_DeleteEndpoint demo_env ''ep1'' (n1, s1) = (Ok (), demo_net, s2)"
proof -
  have rel: "etcd_reliable (env_E demo_env) map_of" by (simp add: mem.etcd_reliable_axioms)
  have c: "codec_law (env_endpoint demo_env)" by (simp add: endpoint_codec_law)
  have "we (demo_world BootstrapDone) = []" "nw_endpoints demo_net = []" by code_simp+
  then show ?thesis
    using AddEndpoint_DeleteEndpoint [OF rel c, of "demo_world BootstrapDone" demo_net "''ep1''" "[10, 0, 1, 250]" "''02:42:0a:00:01:fa''"]
    by auto
qed

text \<open>
  Both pipes of flanneld share the channel: when the line is seen on both of them, the second
  reader closes a closed channel, which ends the plugin.
\<close>

lemma readPipe_closes:
  "list_ex (\<lambda>l. str_Contains l ''bootstrap done'') ls \<Longrightarrow> readPipe ls False ChanOpen = Ok ChanClosed
    \<and> readPipe ls False ChanClosed = Panic"
proof -
  have "readPipe ls True d = Ok d" for ls d by (induction ls) simp_all
  then show "list_ex (\<lambda>l. str_Contains l ''bootstrap done'') ls \<Longrightarrow> readPipe ls False ChanOpen = Ok ChanClosed
    \<and> readPipe ls False ChanClosed = Panic" by (induction ls) auto
qed

end
