(* ===== verification/Service_Lbs.thy ===== *)
theory Service_Lbs
  imports Flannel_Network Service_Lb Service_Fwmarks
begin

text \<open>
  \<open>plugin/pkg/service_lb/service_lbs_management.go\<close>: the load balancers of all services in all flannel
  networks of this host. Services and networks are shared objects: the manager holds references
  (natural numbers) into heaps of them. The body of \<open>createOrUpdateLoadBalancer\<close>, which runs under the
  mutex, is one function; the wait for missing networks before it is the step relation
  \<open>waiter_step\<close>, where the condition variable is modelled with its list of sleepers.
\<close>

section \<open>State\<close>

record loadBalancerData =
  FrontendIPs :: "(string, net_ip) gomap option"

definition loadBalancerData_Equals :: "loadBalancerData \<Rightarrow> loadBalancerData \<Rightarrow> bool" where
  "loadBalancerData_Equals d o1 = CompareIPMaps (FrontendIPs d) (FrontendIPs o1)"

type_synonym ref = nat

text \<open>
  The calls of the manager that its event handlers make. A handler only adds its call to a list: \<open>Raise\<close>
  runs the handlers one after the other, and no handler changes the handlers of the event it runs in.
\<close>

datatype lbs_call =
  NetworksChanged ref | ContainerAdded ref ContainerInfo | ContainerRemoved ref ContainerInfo
| EndpointModeChanged ref

record service_subs =
  on_networks :: "(ref, lbs_call list) event"
  on_added :: "(ref \<times> ContainerInfo, lbs_call list) event"
  on_removed :: "(ref \<times> ContainerInfo, lbs_call list) event"
  on_mode :: "(ref, lbs_call list) event"

text \<open>An unsubscriber is a closure over the service and the ids of three subscriptions.\<close>

record unsubscriber =
  us_service :: ref
  us_networks :: int
  us_added :: int
  us_removed :: int

record serviceLbManagement =
  lm_services :: "(string, ref) ConcurrentMap"
  lm_unsubscribers :: "(string, unsubscriber) ConcurrentMap"
  lm_loadBalancers :: "(string, (string, serviceLb) ConcurrentMap) ConcurrentMap"
  lm_data :: "loadBalancerData storeBase"
  lm_fwmarks :: etcdClient
  lm_flannelNetworks :: "(string, ref) ConcurrentMap"
  lm_otherNetworks :: "(string, unit) ConcurrentMap"
  lm_hostname :: string

text \<open>\<open>ls_raised\<close> collects the events that services raise when the manager calls them.\<close>

record ('k, 'e, 'w) lbs =
  ls_m :: serviceLbManagement
  ls_networks :: "ref \<Rightarrow> network"
  ls_services :: "ref \<Rightarrow> service"
  ls_subs :: "ref \<Rightarrow> service_subs"
  ls_raised :: "service_event list"
  ls_world :: "('k, 'e, 'w) world"

text \<open>Packages, codecs and functions of libraries.\<close>

record ('k, 'e, 'w) lbs_env =
  le_env :: "('k, 'e, 'w) env"
  le_GetServices :: "'k \<Rightarrow> ipvs_Service list res \<times> 'k"
  le_data :: "loadBalancerData codec"
  le_fmt_time :: "gotime \<Rightarrow> string"
  le_rnd :: "nat \<Rightarrow> nat \<Rightarrow> nat"
  le_rand_Read :: "nat \<Rightarrow> byte list option"
  le_Filter :: ip_filter
  le_Difference :: "string list \<Rightarrow> string list \<Rightarrow> string list \<times> string list"
  le_Some :: "string list \<Rightarrow> string list \<Rightarrow> bool"
  le_Hostname :: "string res"

definition lbs_kernel :: "('k \<Rightarrow> 'a res \<times> 'k) \<Rightarrow> ('k, 'e, 'w) lbs \<Rightarrow> 'a res \<times> ('k, 'e, 'w) lbs" where
  "lbs_kernel f st = (case in_kernel f (ls_world st) of (r, w) \<Rightarrow> (r, st\<lparr>ls_world := w\<rparr>))"

definition lbs_etcd :: "('e \<Rightarrow> 'a res \<times> 'e) \<Rightarrow> ('k, 'e, 'w) lbs \<Rightarrow> 'a res \<times> ('k, 'e, 'w) lbs" where
  "lbs_etcd f st = (case in_etcd f (ls_world st) of (r, w) \<Rightarrow> (r, st\<lparr>ls_world := w\<rparr>))"

abbreviation upd_m :: "(serviceLbManagement \<Rightarrow> serviceLbManagement) \<Rightarrow> ('k, 'e, 'w) lbs \<Rightarrow> ('k, 'e, 'w) lbs" where
  "upd_m f st \<equiv> st\<lparr>ls_m := f (ls_m st)\<rparr>"

definition lbs_of :: "('k, 'e, 'w) lbs \<Rightarrow> string \<Rightarrow> (string, serviceLb) ConcurrentMap option" where
  "lbs_of st serviceID = cm_Get (lm_loadBalancers (ls_m st)) serviceID"

definition lb_at :: "('k, 'e, 'w) lbs \<Rightarrow> string \<Rightarrow> string \<Rightarrow> serviceLb option" where
  "lb_at st serviceID networkID =
     (case lbs_of st serviceID of None \<Rightarrow> None | Some lbs \<Rightarrow> cm_Get lbs networkID)"

text \<open>The map of a service is shared: a change through a reference to it is a change of the entry.\<close>

definition set_lbs :: "string \<Rightarrow> (string, serviceLb) ConcurrentMap \<Rightarrow> ('k, 'e, 'w) lbs \<Rightarrow> ('k, 'e, 'w) lbs" where
  "set_lbs serviceID lbs st =
     upd_m (\<lambda>m. m\<lparr>lm_loadBalancers := cm_Set (lm_loadBalancers m) serviceID lbs\<rparr>) st"

definition put_lb :: "string \<Rightarrow> string \<Rightarrow> serviceLb \<Rightarrow> ('k, 'e, 'w) lbs \<Rightarrow> ('k, 'e, 'w) lbs" where
  "put_lb serviceID networkID lb st =
     (case lbs_of st serviceID of
        None \<Rightarrow> st
      | Some lbs \<Rightarrow> set_lbs serviceID (cm_Set lbs networkID lb) st)"

text \<open>A call of a load balancer, which keeps its changes also when it fails.\<close>

definition run_lb ::
  "string \<Rightarrow> string \<Rightarrow> ('k \<Rightarrow> 'k slb_result) \<Rightarrow> ('k, 'e, 'w) lbs \<Rightarrow> unit res \<times> ('k, 'e, 'w) lbs"
where
  "run_lb serviceID networkID f st =
     (case f (wk (ls_world st)) of
        ((r, lb), k) \<Rightarrow> (r, put_lb serviceID networkID lb (st\<lparr>ls_world := (ls_world st)\<lparr>wk := k\<rparr>\<rparr>)))"

section \<open>Networks\<close>

definition NewServiceLbManagement ::
  "('k, 'e, 'w) lbs_env \<Rightarrow> etcdClient \<Rightarrow> 'e \<Rightarrow> serviceLbManagement res \<times> 'e"
where
  "NewServiceLbManagement V etcdClient e =
     (case le_Hostname V of
        Err er \<Rightarrow> (Err (WithMessage er ''error getting hostname''), e)
      | Panic \<Rightarrow> (Panic, e)
      | Ok hostname \<Rightarrow>
          (case wo_InitFromEtcd (env_E (le_env V)) (le_data V)
                  (NewStore (CreateSubClient etcdClient [hostname, ''data''])
                     \<lparr>has_OnChanged = False, has_OnAdded = False, has_OnRemoved = False\<rparr>) e of
             ((Err er, _), _, e) \<Rightarrow> (Err (WithMessage er ''error initializing load balancer data store''), e)
           | ((Panic, _), _, e) \<Rightarrow> (Panic, e)
           | ((Ok _, _), s, e) \<Rightarrow>
               (Ok \<lparr>lm_services = NewConcurrentMap, lm_unsubscribers = NewConcurrentMap,
                    lm_loadBalancers = NewConcurrentMap, lm_data = s,
                    lm_fwmarks = CreateSubClient etcdClient [hostname, ''fwmarks''],
                    lm_flannelNetworks = NewConcurrentMap, lm_otherNetworks = NewConcurrentMap,
                    lm_hostname = hostname\<rparr>, e)))"

text \<open>The broadcast that ends each of the next three operations is part of \<open>waiter_step\<close>.\<close>

definition SetFlannelNetwork :: "string \<Rightarrow> ref \<Rightarrow> serviceLbManagement \<Rightarrow> unit res \<times> serviceLbManagement" where
  "SetFlannelNetwork dockerNetworkID network m =
     (if dockerNetworkID = [] then (Err (Errorf ''error adding network: docker network id is empty''), m)
      else (Ok (), m\<lparr>lm_flannelNetworks := cm_Set (lm_flannelNetworks m) dockerNetworkID network\<rparr>))"

definition RegisterOtherNetwork :: "string \<Rightarrow> serviceLbManagement \<Rightarrow> serviceLbManagement" where
  "RegisterOtherNetwork dockerNetworkID m =
     m\<lparr>lm_otherNetworks := cm_Set (lm_otherNetworks m) dockerNetworkID ()\<rparr>"

definition lbs_DeleteNetwork :: "string \<Rightarrow> serviceLbManagement \<Rightarrow> unit res \<times> serviceLbManagement" where
  "lbs_DeleteNetwork dockerNetworkID m =
     (if dockerNetworkID = [] then (Err (Errorf ''error removing network: docker network id is empty''), m)
      else (Ok (), m\<lparr>lm_flannelNetworks := cm_Remove (lm_flannelNetworks m) dockerNetworkID,
                     lm_otherNetworks := cm_Remove (lm_otherNetworks m) dockerNetworkID\<rparr>))"

definition is_flannel :: "serviceLbManagement \<Rightarrow> string \<Rightarrow> bool" where
  "is_flannel m networkID \<longleftrightarrow> cm_Get (lm_flannelNetworks m) networkID \<noteq> None"

definition is_other :: "serviceLbManagement \<Rightarrow> string \<Rightarrow> bool" where
  "is_other m networkID \<longleftrightarrow> cm_Get (lm_otherNetworks m) networkID \<noteq> None"

definition hasMissingNetworks :: "serviceLbManagement \<Rightarrow> service \<Rightarrow> bool" where
  "hasMissingNetworks m s \<longleftrightarrow>
     list_ex (\<lambda>n. \<not> is_flannel m n \<and> \<not> is_other m n) (svi_Networks (service_GetInfo s))"

section \<open>Backends\<close>

fun add_backend_ips ::
  "('k, 'e, 'w) lbs_env \<Rightarrow> string \<Rightarrow> (string \<times> net_ip) list \<Rightarrow> ('k, 'e, 'w) lbs \<Rightarrow> unit res \<times> ('k, 'e, 'w) lbs"
where
  "add_backend_ips V serviceID [] st = (Ok (), st)"
| "add_backend_ips V serviceID ((networkID, ip) # ips) st =
     (case lb_at st serviceID networkID of
        None \<Rightarrow> (Err (Errorf ''no load balancer for network for service found. This is a bug''), st)
      | Some lb \<Rightarrow>
          res_bind (res_wrap ''error adding backend ip to load balancer''
             (run_lb serviceID networkID (AddBackend (env_K (le_env V)) lb ip) st))
            (\<lambda>_ st. add_backend_ips V serviceID ips st))"

definition addBackendIPsToLoadBalancer ::
  "('k, 'e, 'w) lbs_env \<Rightarrow> string \<Rightarrow> (string, net_ip) gomap \<Rightarrow> ('k, 'e, 'w) lbs \<Rightarrow> unit res \<times> ('k, 'e, 'w) lbs"
where
  "addBackendIPsToLoadBalancer V serviceID ips st =
     (case lbs_of st serviceID of
        None \<Rightarrow> (Err (Errorf ''no load balancer for service found. This is a bug''), st)
      | Some _ \<Rightarrow> add_backend_ips V serviceID ips st)"

fun remove_backend_ips ::
  "('k, 'e, 'w) lbs_env \<Rightarrow> string \<Rightarrow> (string \<times> net_ip) list \<Rightarrow> ('k, 'e, 'w) lbs \<Rightarrow> unit res \<times> ('k, 'e, 'w) lbs"
where
  "remove_backend_ips V serviceID [] st = (Ok (), st)"
| "remove_backend_ips V serviceID ((networkID, ip) # ips) st =
     (case lb_at st serviceID networkID of
        None \<Rightarrow>
          if is_other (ls_m st) networkID then remove_backend_ips V serviceID ips st
          else (Err (Errorf ''no load balancer for network for service found. This is a bug''), st)
      | Some lb \<Rightarrow>
          res_bind (res_wrap ''error removing backend ip to load balancer''
             (run_lb serviceID networkID (RemoveBackend (env_K (le_env V)) (le_Filter V) lb ip) st))
            (\<lambda>_ st. remove_backend_ips V serviceID ips st))"

definition removeBackendIPsFromLoadBalancer ::
  "('k, 'e, 'w) lbs_env \<Rightarrow> string \<Rightarrow> (string, net_ip) gomap \<Rightarrow> ('k, 'e, 'w) lbs \<Rightarrow> unit res \<times> ('k, 'e, 'w) lbs"
where
  "removeBackendIPsFromLoadBalancer V serviceID ips st =
     (case lbs_of st serviceID of
        None \<Rightarrow> (Err (Errorf ''no load balancer for service found. This is a bug''), st)
      | Some _ \<Rightarrow> remove_backend_ips V serviceID ips st)"

section \<open>Creating and updating\<close>

definition lb_getInterfaceName :: "string \<Rightarrow> string" where
  "lb_getInterfaceName networkID = GetInterfaceName ''lbf'' ''_'' networkID"

text \<open>The address of a network in a map that may be nil or lack it: then nil.\<close>

definition ip_of :: "(string, net_ip) gomap option \<Rightarrow> string \<Rightarrow> net_ip" where
  "ip_of m networkID =
     (case m of None \<Rightarrow> [] | Some m \<Rightarrow> (case map_of m networkID of None \<Rightarrow> [] | Some ip \<Rightarrow> ip))"

definition release_vip ::
  "('k, 'e, 'w) lbs_env \<Rightarrow> string \<Rightarrow> net_ip \<Rightarrow> ('k, 'e, 'w) lbs \<Rightarrow> unit res \<times> ('k, 'e, 'w) lbs"
where
  "release_vip V dockerNetworkID ip st =
     (case cm_Get (lm_flannelNetworks (ls_m st)) dockerNetworkID of
        None \<Rightarrow> (Err (Errorf ''no network found for docker network ID''), st)
      | Some network \<Rightarrow>
          (case GetPool (ls_networks st network) of
             None \<Rightarrow> (Panic, st)
           | Some p \<Rightarrow>
               (case ReleaseIP (env_E (le_env V)) (env_parse_time (le_env V)) (env_now (le_env V))
                       (ip_String ip) p (we (ls_world st)) of
                  (r, p, e) \<Rightarrow>
                    res_wrap ''failed to release IP for service and network''
                      (r, st\<lparr>ls_networks := (ls_networks st)(network := (ls_networks st network)\<lparr>nw_pool := Some p\<rparr>),
                             ls_world := (ls_world st)\<lparr>we := e\<rparr>\<rparr>))))"

text \<open>The address is released only when the manager allocated it: when it is not the one of Docker's IPAM.\<close>

definition deleteForNetwork ::
  "('k, 'e, 'w) lbs_env \<Rightarrow> ServiceInfo \<Rightarrow> serviceLb \<Rightarrow> string \<Rightarrow> ('k, 'e, 'w) lbs \<Rightarrow> unit res \<times> ('k, 'e, 'w) lbs"
where
  "deleteForNetwork V serviceInfo lb dockerNetworkID st =
     res_bind (res_wrap ''failed to delete load balancer for service and network''
        (lbs_kernel (slb_Delete (env_K (le_env V)) lb) st))
       (\<lambda>_ st. res_bind
          (if GetFrontendIP lb \<noteq> []
              \<and> \<not> ip_Equal (ip_of (svi_IpamVIPs serviceInfo) dockerNetworkID) (ip_of (svi_VIPs serviceInfo) dockerNetworkID)
           then release_vip V dockerNetworkID (GetFrontendIP lb) st else (Ok (), st))
          (\<lambda>_ st. res_wrap ''failed to release fwmark for service and network''
             (lbs_etcd (fwmarks_Release (env_E (le_env V)) (lm_fwmarks (ls_m st)) (svi_ID serviceInfo)
                dockerNetworkID (GetFwmark lb)) st)))"

text \<open>The load balancer of a network, made with a new mark when there is none (\<open>TryAdd\<close>).\<close>

definition try_add_lb ::
  "nat \<Rightarrow> ('k, 'e, 'w) lbs_env \<Rightarrow> string \<Rightarrow> string \<Rightarrow> Link \<Rightarrow> ('k, 'e, 'w) lbs \<Rightarrow>
   (unit res \<times> ('k, 'e, 'w) lbs) option"
where
  "try_add_lb fuel V serviceID dockerNetworkID link st =
     (case lb_at st serviceID dockerNetworkID of
        Some _ \<Rightarrow> Some (Ok (), st)
      | None \<Rightarrow>
          (case fwmarks_Get fuel (env_E (le_env V)) (le_rand_Read V) (lm_fwmarks (ls_m st)) serviceID
                  dockerNetworkID (we (ls_world st)) of
             None \<Rightarrow> None
           | Some (r, e) \<Rightarrow>
               Some (res_bind (res_wrap ''failed to get fwmark for service and network''
                       (r, st\<lparr>ls_world := (ls_world st)\<lparr>we := e\<rparr>\<rparr>))
                 (\<lambda>fwmark st. (Ok (), put_lb serviceID dockerNetworkID
                    (NewNetworkSpecificServiceLb link dockerNetworkID serviceID fwmark) st)))))"

fun ensure_lbs ::
  "nat \<Rightarrow> ('k, 'e, 'w) lbs_env \<Rightarrow> string \<Rightarrow> string list \<Rightarrow> ('k, 'e, 'w) lbs \<Rightarrow>
   (unit res \<times> ('k, 'e, 'w) lbs) option"
where
  "ensure_lbs fuel V serviceID [] st = Some (Ok (), st)"
| "ensure_lbs fuel V serviceID (dockerNetworkID # ns) st =
     (case cm_Get (lm_flannelNetworks (ls_m st)) dockerNetworkID of
        None \<Rightarrow>
          if is_other (ls_m st) dockerNetworkID then ensure_lbs fuel V serviceID ns st
          else Some (Err (Errorf ''network missing in internal state of service load balancer management. This is a bug''), st)
      | Some network \<Rightarrow>
          opt_bind (Some (res_wrap ''failed to create interface for network''
              (lbs_kernel (EnsureInterface (env_K (le_env V)) (lb_getInterfaceName dockerNetworkID) ''dummy''
                 (fi_MTU (network_GetInfo (ls_networks st network))) True) st)))
            (\<lambda>link st. opt_bind (try_add_lb fuel V serviceID dockerNetworkID link st)
               (\<lambda>_ st. ensure_lbs fuel V serviceID ns st)))"

fun delete_lbs ::
  "('k, 'e, 'w) lbs_env \<Rightarrow> ServiceInfo \<Rightarrow> string list \<Rightarrow> ('k, 'e, 'w) lbs \<Rightarrow> unit res \<times> ('k, 'e, 'w) lbs"
where
  "delete_lbs V serviceInfo [] st = (Ok (), st)"
| "delete_lbs V serviceInfo (networkID # ns) st =
     (case lbs_of st (svi_ID serviceInfo) of
        None \<Rightarrow> delete_lbs V serviceInfo ns st
      | Some lbs \<Rightarrow>
          (case cm_TryRemove lbs networkID of
             (None, _) \<Rightarrow> delete_lbs V serviceInfo ns st
           | (Some lb, lbs) \<Rightarrow>
               res_bind (res_wrap ''failed to delete load balancer for service and network''
                  (deleteForNetwork V serviceInfo lb networkID (set_lbs (svi_ID serviceInfo) lbs st)))
                 (\<lambda>_ st. delete_lbs V serviceInfo ns st)))"

text \<open>The virtual address of a network: the one stored before, or one newly allocated.\<close>

definition frontend_of ::
  "nat \<Rightarrow> ('k, 'e, 'w) lbs_env \<Rightarrow> string \<Rightarrow> loadBalancerData option \<Rightarrow> string \<Rightarrow> net_ip \<Rightarrow> ('k, 'e, 'w) lbs \<Rightarrow>
   (net_ip res \<times> ('k, 'e, 'w) lbs) option"
where
  "frontend_of fuel V serviceID existingData dockerNetworkID ipamVip st =
     (case (case existingData of None \<Rightarrow> None | Some d \<Rightarrow>
              (case FrontendIPs d of None \<Rightarrow> None | Some m \<Rightarrow> map_of m dockerNetworkID)) of
        Some ip \<Rightarrow> Some (Ok ip, st)
      | None \<Rightarrow>
          (case cm_Get (lm_flannelNetworks (ls_m st)) dockerNetworkID of
             None \<Rightarrow> Some (Err (Errorf ''network missing in internal state of service load balancer management''), st)
           | Some network \<Rightarrow>
               (case GetPool (ls_networks st network) of
                  None \<Rightarrow> Some (Panic, st)
                | Some p \<Rightarrow>
                    (case AllocateServiceVIP fuel (env_E (le_env V)) (le_fmt_time V) (env_parse_time (le_env V))
                            (env_now (le_env V)) (le_rnd V) (ip_String ipamVip) serviceID True p (we (ls_world st)) of
                       None \<Rightarrow> None
                     | Some (r, p, e) \<Rightarrow>
                         Some (res_wrap ''error allocating ip for service and network''
                           (r, st\<lparr>ls_networks := (ls_networks st)(network := (ls_networks st network)\<lparr>nw_pool := Some p\<rparr>),
                                  ls_world := (ls_world st)\<lparr>we := e\<rparr>\<rparr>))))))"

fun update_frontends ::
  "nat \<Rightarrow> ('k, 'e, 'w) lbs_env \<Rightarrow> string \<Rightarrow> loadBalancerData option \<Rightarrow> (string \<times> net_ip) list \<Rightarrow>
   (string, net_ip) gomap \<Rightarrow> ('k, 'e, 'w) lbs \<Rightarrow> ((string, net_ip) gomap res \<times> ('k, 'e, 'w) lbs) option"
where
  "update_frontends fuel V serviceID existingData [] frontendIPs st = Some (Ok frontendIPs, st)"
| "update_frontends fuel V serviceID existingData ((dockerNetworkID, ipamVip) # rest) frontendIPs st =
     (if is_other (ls_m st) dockerNetworkID
      then update_frontends fuel V serviceID existingData rest (gomap_set frontendIPs dockerNetworkID ipamVip) st
      else opt_bind (frontend_of fuel V serviceID existingData dockerNetworkID ipamVip st)
        (\<lambda>ip st. case lb_at st serviceID dockerNetworkID of
             None \<Rightarrow> Some (Err (Errorf ''load balancer for network does not exist in internal state. This is a bug''), st)
           | Some lb \<Rightarrow>
               opt_bind (Some (res_wrap ''error updating frontend IP for load balancer for service and network''
                   (run_lb serviceID dockerNetworkID (UpdateFrontendIP (env_K (le_env V)) lb ip) st)))
                 (\<lambda>_ st. update_frontends fuel V serviceID existingData rest
                    (gomap_set frontendIPs dockerNetworkID ip) st)))"

definition store_frontends ::
  "('k, 'e, 'w) lbs_env \<Rightarrow> string \<Rightarrow> ref \<Rightarrow> (string, net_ip) gomap \<Rightarrow> ('k, 'e, 'w) lbs \<Rightarrow>
   unit res \<times> ('k, 'e, 'w) lbs"
where
  "store_frontends V serviceID service frontendIPs st =
     (case wo_AddOrUpdateItem (env_E (le_env V)) (le_data V) loadBalancerData_Equals (lm_data (ls_m st)) serviceID
             \<lparr>FrontendIPs = Some frontendIPs\<rparr> (we (ls_world st)) of
        ((r, _), s, e) \<Rightarrow>
          res_bind (res_wrap ''error adding load balancer data for service''
             (r, st\<lparr>ls_m := (ls_m st)\<lparr>lm_data := s\<rparr>, ls_world := (ls_world st)\<lparr>we := e\<rparr>\<rparr>))
            (\<lambda>_ st. case SetVIPs (ls_services st service) (Some frontendIPs) of
                (x, evs) \<Rightarrow>
                  (Ok (), st\<lparr>ls_services := (ls_services st)(service := x), ls_raised := ls_raised st @ evs\<rparr>)))"

text \<open>\<open>serviceInfo\<close> was read before the wait for the networks, \<open>service\<close> is the service itself.\<close>

definition createOrUpdateLoadBalancer ::
  "nat \<Rightarrow> ('k, 'e, 'w) lbs_env \<Rightarrow> ServiceInfo \<Rightarrow> ref \<Rightarrow> ('k, 'e, 'w) lbs \<Rightarrow>
   (unit res \<times> ('k, 'e, 'w) lbs) option"
where
  "createOrUpdateLoadBalancer fuel V serviceInfo service st =
     (let serviceID = svi_ID serviceInfo;
          st = upd_m (\<lambda>m. m\<lparr>lm_services := cm_Set (lm_services m) serviceID service\<rparr>) st;
          lbs = (case lbs_of st serviceID of None \<Rightarrow> NewConcurrentMap | Some lbs \<Rightarrow> lbs);
          st = set_lbs serviceID lbs st;
          deleted = fst (le_Difference V (cm_Keys lbs) (svi_Networks serviceInfo))
      in opt_bind (ensure_lbs fuel V serviceID (svi_Networks serviceInfo) st)
           (\<lambda>_ st. opt_bind (Some (delete_lbs V serviceInfo deleted st))
              (\<lambda>_ st. opt_bind
                 (update_frontends fuel V serviceID (GetItem (lm_data (ls_m st)) serviceID)
                    (case svi_IpamVIPs serviceInfo of None \<Rightarrow> [] | Some m \<Rightarrow> m) [] st)
                 (\<lambda>frontendIPs st. Some (store_frontends V serviceID service frontendIPs st)))))"

section \<open>Deleting\<close>

fun delete_all_lbs ::
  "('k, 'e, 'w) lbs_env \<Rightarrow> ServiceInfo \<Rightarrow> (string, serviceLb) ConcurrentMap \<Rightarrow> string list \<Rightarrow> ('k, 'e, 'w) lbs \<Rightarrow>
   unit res \<times> ('k, 'e, 'w) lbs"
where
  "delete_all_lbs V serviceInfo lbs [] st = (Ok (), st)"
| "delete_all_lbs V serviceInfo lbs (networkID # ns) st =
     (case cm_Get lbs networkID of
        None \<Rightarrow> delete_all_lbs V serviceInfo lbs ns st
      | Some lb \<Rightarrow> res_bind (deleteForNetwork V serviceInfo lb networkID st)
          (\<lambda>_ st. delete_all_lbs V serviceInfo lbs ns st))"

definition call_unsubscriber :: "unsubscriber \<Rightarrow> ('k, 'e, 'w) lbs \<Rightarrow> ('k, 'e, 'w) lbs" where
  "call_unsubscriber u st =
     (let s = ls_subs st (us_service u)
      in st\<lparr>ls_subs := (ls_subs st)(us_service u :=
           s\<lparr>on_networks := unsubscribe (on_networks s) (us_networks u),
             on_added := unsubscribe (on_added s) (us_added u),
             on_removed := unsubscribe (on_removed s) (us_removed u)\<rparr>)\<rparr>)"

definition unsubscribe_service :: "string \<Rightarrow> ('k, 'e, 'w) lbs \<Rightarrow> ('k, 'e, 'w) lbs" where
  "unsubscribe_service serviceID st =
     (case cm_TryRemove (lm_unsubscribers (ls_m st)) serviceID of
        (None, _) \<Rightarrow> st
      | (Some u, us) \<Rightarrow> call_unsubscriber u (upd_m (\<lambda>m. m\<lparr>lm_unsubscribers := us\<rparr>) st))"

definition DeleteLoadBalancer ::
  "('k, 'e, 'w) lbs_env \<Rightarrow> string \<Rightarrow> ('k, 'e, 'w) lbs \<Rightarrow> unit res \<times> ('k, 'e, 'w) lbs"
where
  "DeleteLoadBalancer V serviceID st =
     (case cm_TryRemove (lm_loadBalancers (ls_m st)) serviceID of
        (None, _) \<Rightarrow> (Err (Errorf ''no load balancer found for service''), st)
      | (Some lbs, all) \<Rightarrow>
          let st = unsubscribe_service serviceID (upd_m (\<lambda>m. m\<lparr>lm_loadBalancers := all\<rparr>) st)
          in (case cm_TryRemove (lm_services (ls_m st)) serviceID of
                (None, _) \<Rightarrow> (Err (Errorf ''no service found for ID''), st)
              | (Some service, services) \<Rightarrow>
                  let serviceInfo = service_GetInfo (ls_services st service)
                  in res_bind (delete_all_lbs V serviceInfo lbs (cm_Keys lbs)
                         (upd_m (\<lambda>m. m\<lparr>lm_services := services\<rparr>) st))
                       (\<lambda>_ st. case wo_DeleteItem (env_E (le_env V)) (lm_data (ls_m st)) serviceID (we (ls_world st)) of
                          ((r, _), s, e) \<Rightarrow>
                            res_wrap ''failed to delete load balancer data for service''
                              (r, st\<lparr>ls_m := (ls_m st)\<lparr>lm_data := s\<rparr>, ls_world := (ls_world st)\<lparr>we := e\<rparr>\<rparr>))))"

section \<open>Event handlers\<close>

text \<open>
  What \<open>CreateLoadBalancer\<close> does once the load balancer is there. The subscription to changes of the
  endpoint mode is not part of the unsubscriber.
\<close>

definition subscribe_lb :: "ref \<Rightarrow> ('k, 'e, 'w) lbs \<Rightarrow> ('k, 'e, 'w) lbs" where
  "subscribe_lb service st =
     (let s = ls_subs st service;
          (hn, en) = Subscribe (on_networks s) (\<lambda>x calls. calls @ [NetworksChanged x]);
          (ha, ea) = Subscribe (on_added s) (\<lambda>(_, c) calls. calls @ [ContainerAdded service c]);
          (hr, er) = Subscribe (on_removed s) (\<lambda>(_, c) calls. calls @ [ContainerRemoved service c]);
          (_, em) = Subscribe (on_mode s) (\<lambda>x calls. calls @ [EndpointModeChanged x]);
          u = \<lparr>us_service = service, us_networks = hn, us_added = ha, us_removed = hr\<rparr>;
          serviceID = svc_id (ls_services st service)
      in upd_m (\<lambda>m. m\<lparr>lm_unsubscribers := cm_Set (lm_unsubscribers m) serviceID u\<rparr>)
           (st\<lparr>ls_subs := (ls_subs st)(service :=
              \<lparr>on_networks = en, on_added = ea, on_removed = er, on_mode = em\<rparr>)\<rparr>))"

definition CreateLoadBalancer ::
  "nat \<Rightarrow> ('k, 'e, 'w) lbs_env \<Rightarrow> ref \<Rightarrow> ('k, 'e, 'w) lbs \<Rightarrow> (unit res \<times> ('k, 'e, 'w) lbs) option"
where
  "CreateLoadBalancer fuel V service st =
     (case createOrUpdateLoadBalancer fuel V (service_GetInfo (ls_services st service)) service st of
        None \<Rightarrow> None
      | Some r \<Rightarrow> Some (res_bind (res_wrap ''error ensuring load balancer for service'' r)
          (\<lambda>_ st. (Ok (), subscribe_lb service st))))"

text \<open>The calls that an event of a service leads to, and what they do; errors are logged.\<close>

definition lbs_calls :: "('k, 'e, 'w) lbs \<Rightarrow> ref \<Rightarrow> service_event \<Rightarrow> lbs_call list" where
  "lbs_calls st service ev =
     (let s = ls_subs st service
      in case ev of
           OnNetworksChanged _ \<Rightarrow> Raise (on_networks s) service []
         | OnContainerAdded _ c \<Rightarrow> Raise (on_added s) (service, c) []
         | OnContainerRemoved _ c \<Rightarrow> Raise (on_removed s) (service, c) []
         | OnEndpointModeChanged _ \<Rightarrow> Raise (on_mode s) service []
         | _ \<Rightarrow> [])"

definition mode_handler ::
  "nat \<Rightarrow> ('k, 'e, 'w) lbs_env \<Rightarrow> ref \<Rightarrow> ('k, 'e, 'w) lbs \<Rightarrow> (unit res \<times> ('k, 'e, 'w) lbs) option"
where
  "mode_handler fuel V service st =
     (let info = service_GetInfo (ls_services st service)
      in if svi_EndpointMode info = ServiceEndpointModeDnsrr then Some (DeleteLoadBalancer V (svi_ID info) st)
         else if svi_EndpointMode info = ServiceEndpointModeVip then CreateLoadBalancer fuel V service st
         else Some (Ok (), st))"

fun run_lbs_call ::
  "nat \<Rightarrow> ('k, 'e, 'w) lbs_env \<Rightarrow> lbs_call \<Rightarrow> ('k, 'e, 'w) lbs \<Rightarrow> (unit res \<times> ('k, 'e, 'w) lbs) option"
where
  "run_lbs_call fuel V (NetworksChanged s) st =
     createOrUpdateLoadBalancer fuel V (service_GetInfo (ls_services st s)) s st"
| "run_lbs_call fuel V (ContainerAdded s c) st =
     Some (addBackendIPsToLoadBalancer V (svi_ID (service_GetInfo (ls_services st s))) (ci_IPs c) st)"
| "run_lbs_call fuel V (ContainerRemoved s c) st =
     Some (removeBackendIPsFromLoadBalancer V (svi_ID (service_GetInfo (ls_services st s))) (ci_IPs c) st)"
| "run_lbs_call fuel V (EndpointModeChanged s) st = mode_handler fuel V s st"

text \<open>A panic ends the plugin.\<close>

fun run_lbs_calls ::
  "nat \<Rightarrow> ('k, 'e, 'w) lbs_env \<Rightarrow> lbs_call list \<Rightarrow> ('k, 'e, 'w) lbs \<Rightarrow> (unit res \<times> ('k, 'e, 'w) lbs) option"
where
  "run_lbs_calls fuel V [] st = Some (Ok (), st)"
| "run_lbs_calls fuel V (c # cs) st =
     (case run_lbs_call fuel V c st of
        None \<Rightarrow> None
      | Some (Panic, st) \<Rightarrow> Some (Panic, st)
      | Some (_, st) \<Rightarrow> run_lbs_calls fuel V cs st)"

section \<open>Waiting for networks\<close>

text \<open>
  A goroutine of \<open>createOrUpdateLoadBalancer\<close> takes the lock of the condition variable, tests
  \<open>hasMissingNetworks\<close>, and either leaves the loop or calls \<open>Wait\<close>, which joins the list of sleepers
  and releases the lock; a sleeper that a broadcast wakes takes the lock again. The operations that
  change the networks store the change and then broadcast, without that lock.
\<close>

datatype waiter = Ready | Decided bool | Asleep | Proceeds

datatype changer = Idle | Changed

record waiting =
  wa_m :: serviceLbManagement
  wa_waiter :: waiter
  wa_changer :: changer

inductive waiter_step :: "service \<Rightarrow> waiting \<Rightarrow> waiting \<Rightarrow> bool" for s where
  test: "wa_waiter w = Ready \<Longrightarrow>
    waiter_step s w (w\<lparr>wa_waiter := Decided (hasMissingNetworks (wa_m w) s)\<rparr>)"
| leave: "wa_waiter w = Decided False \<Longrightarrow> waiter_step s w (w\<lparr>wa_waiter := Proceeds\<rparr>)"
| sleep: "wa_waiter w = Decided True \<Longrightarrow> waiter_step s w (w\<lparr>wa_waiter := Asleep\<rparr>)"
| store_flannel: "wa_changer w = Idle \<Longrightarrow> SetFlannelNetwork i n (wa_m w) = (Ok (), m) \<Longrightarrow>
    waiter_step s w (w\<lparr>wa_m := m, wa_changer := Changed\<rparr>)"
| store_other: "wa_changer w = Idle \<Longrightarrow>
    waiter_step s w (w\<lparr>wa_m := RegisterOtherNetwork i (wa_m w), wa_changer := Changed\<rparr>)"
| remove: "wa_changer w = Idle \<Longrightarrow> lbs_DeleteNetwork i (wa_m w) = (Ok (), m) \<Longrightarrow>
    waiter_step s w (w\<lparr>wa_m := m, wa_changer := Changed\<rparr>)"
| broadcast: "wa_changer w = Changed \<Longrightarrow>
    waiter_step s w (w\<lparr>wa_changer := Idle, wa_waiter := (if wa_waiter w = Asleep then Ready else wa_waiter w)\<rparr>)"

section \<open>Stale load balancers\<close>

definition hex8 :: "32 word \<Rightarrow> string" where
  "hex8 w = ''0x'' @ map (\<lambda>i. hex_digit (unat w div 16 ^ i mod 16)) [7, 6, 5, 4, 3, 2, 1, 0]"

fun delete_raw_rules :: "'k kernel \<Rightarrow> string \<Rightarrow> string \<Rightarrow> string list \<Rightarrow> 'k \<Rightarrow> unit res \<times> 'k" where
  "delete_raw_rules K table chain [] k = (Ok (), k)"
| "delete_raw_rules K table chain (rawRule # rules) k =
     (case raw_rule_spec rawRule of
        Panic \<Rightarrow> (Panic, k)
      | Err er \<Rightarrow> (Err er, k)
      | Ok rule \<Rightarrow>
          if rule = [] then delete_raw_rules K table chain rules k
          else (case ipt_Delete K table chain rule k of
                  (Panic, k) \<Rightarrow> (Panic, k)
                | (_, k) \<Rightarrow> delete_raw_rules K table chain rules k))"

fun delete_services :: "'k kernel \<Rightarrow> ipvs_Service list \<Rightarrow> 'k \<Rightarrow> unit res \<times> 'k" where
  "delete_services K [] k = (Ok (), k)"
| "delete_services K (s # ss) k =
     (case DelService K s k of
        (Panic, k) \<Rightarrow> (Panic, k)
      | (_, k) \<Rightarrow> delete_services K ss k)"

fun cleanup_marks ::
  "'k kernel \<Rightarrow> ipvs_Service list \<Rightarrow> string list \<Rightarrow> 32 word list \<Rightarrow> 'k \<Rightarrow> unit res \<times> 'k"
where
  "cleanup_marks K services rules [] k = (Ok (), k)"
| "cleanup_marks K services rules (w # ws) k =
     res_bind (delete_services K (filter (\<lambda>s. FWMark s = w) services) k)
       (\<lambda>_ k. res_bind (delete_raw_rules K ''mangle'' ''PREROUTING'' (filter (\<lambda>r. str_Contains r (hex8 w)) rules) k)
          (\<lambda>_ k. cleanup_marks K services rules ws k))"

definition cleanup_kernel ::
  "('k, 'e, 'w) lbs_env \<Rightarrow> 32 word list \<Rightarrow> 'k \<Rightarrow> unit res \<times> 'k"
where
  "cleanup_kernel V staleFwmarks k =
     res_bind (res_wrap ''Error getting IPVS services'' (le_GetServices V k))
       (\<lambda>services k. res_bind (res_wrap ''Error getting iptables rules for table mangle'' (ipt_List (env_N (le_env V)) ''mangle'' ''PREROUTING'' k))
          (\<lambda>mangle k. res_bind (res_wrap ''Error getting iptables rules for table nat'' (ipt_List (env_N (le_env V)) ''nat'' ''POSTROUTING'' k))
             (\<lambda>nat k. cleanup_marks (env_K (le_env V)) services (mangle @ nat) staleFwmarks k)))"

fun delete_stale_data ::
  "'e etcd \<Rightarrow> (string list \<Rightarrow> string list \<Rightarrow> bool) \<Rightarrow> string \<Rightarrow> string list \<Rightarrow> KeyValue list \<Rightarrow> 'e \<Rightarrow> unit res \<times> 'e"
where
  "delete_stale_data E lo_Some p existingServices [] e = (Ok (), e)"
| "delete_stale_data E lo_Some p existingServices (kv # kvs) e =
     (if \<not> lo_Some existingServices [TrimLeft CHR ''/'' (TrimPrefix (kv_Key kv) p)]
      then (case Delete E (kv_Key kv) e of
              (Panic, e) \<Rightarrow> (Panic, e)
            | (_, e) \<Rightarrow> delete_stale_data E lo_Some p existingServices kvs e)
      else delete_stale_data E lo_Some p existingServices kvs e)"

definition cleanup_data ::
  "'e etcd \<Rightarrow> (string list \<Rightarrow> string list \<Rightarrow> bool) \<Rightarrow> string \<Rightarrow> string list \<Rightarrow> 'e \<Rightarrow> unit res \<times> 'e"
where
  "cleanup_data E lo_Some p existingServices e =
     WithConnection E (\<lambda>e.
       res_bind (res_wrap ''error retrieving existing networks data from etcd'' (GetPrefix E p e))
         (\<lambda>kvs e. delete_stale_data E lo_Some p existingServices kvs e)) e"

text \<open>The IPVS handle is closed on every return after it was opened.\<close>

definition CleanUpStaleLoadBalancers ::
  "('k, 'e, 'w) lbs_env \<Rightarrow> etcdClient \<Rightarrow> string list \<Rightarrow> ('k, 'e, 'w) world \<Rightarrow> unit res \<times> ('k, 'e, 'w) world"
where
  "CleanUpStaleLoadBalancers V etcdClient existingServices s =
     (let E = env_E (le_env V); K = env_K (le_env V)
      in case le_Hostname V of
           Err er \<Rightarrow> (Err (WithMessage er ''error getting hostname''), s)
         | Panic \<Rightarrow> (Panic, s)
         | Ok hostname \<Rightarrow>
             res_bind (res_wrap ''error cleaning up stale fwmarks''
                (in_etcd (cleanUpStaleFwmarks E (le_Some V) (CreateSubClient etcdClient [hostname, ''fwmarks'']) existingServices) s))
               (\<lambda>staleFwmarks s. res_bind (res_wrap ''Error creating iptables handle'' (in_kernel (iptables_New K) s))
                  (\<lambda>_ s. res_bind (res_wrap ''Error creating IPVS handle'' (in_kernel (ipvs_New K) s))
                     (\<lambda>_ s. case res_bind (in_kernel (cleanup_kernel V staleFwmarks) s)
                                 (\<lambda>_ s. in_etcd (cleanup_data E (le_Some V) (GetKey etcdClient [hostname, ''data'']) existingServices) s) of
                               (r, s) \<Rightarrow> (r, s\<lparr>wk := ipvs_Close K (wk s)\<rparr>)))))"

end
