(* ===== verification/Service_Lbs_Correct.thy ===== *)
theory Service_Lbs_Correct
  imports Service_Lbs
begin

text \<open>
  The correctness of the load balancer management: what its operations leave alone, which load balancers
  there are after each of them, and the properties. The kernel, etcd and the library functions are
  arguments; a property that depends on their behaviour has it as a hypothesis.
\<close>

section \<open>What the operations leave alone\<close>

text \<open>Two states that differ at most in the load balancers of one service, in networks and in the world.\<close>

definition only_lbs :: "string \<Rightarrow> ('k, 'e, 'w) lbs \<Rightarrow> ('k, 'e, 'w) lbs \<Rightarrow> bool" where
  "only_lbs serviceID st st' \<longleftrightarrow>
     (\<exists>x. ls_m st' = (ls_m st)\<lparr>lm_loadBalancers := x\<rparr>) \<and> ls_services st' = ls_services st
     \<and> ls_subs st' = ls_subs st \<and> ls_raised st' = ls_raised st
     \<and> (\<forall>s. s \<noteq> serviceID \<longrightarrow> lbs_of st' s = lbs_of st s)"

definition no_lbs :: "('k, 'e, 'w) lbs \<Rightarrow> ('k, 'e, 'w) lbs \<Rightarrow> bool" where
  "no_lbs st st' \<longleftrightarrow> ls_m st' = ls_m st \<and> ls_services st' = ls_services st \<and> ls_subs st' = ls_subs st
     \<and> ls_raised st' = ls_raised st"

lemma only_lbs_refl [simp]: "only_lbs s st st"
  by (cases st; cases "ls_m st") (auto simp: only_lbs_def)

lemma only_lbs_trans: "only_lbs s a b \<Longrightarrow> only_lbs s b c \<Longrightarrow> only_lbs s a c"
  by (auto simp: only_lbs_def)

lemma no_lbs_only: "no_lbs a b \<Longrightarrow> only_lbs s a b"
  by (cases "ls_m a") (auto simp: no_lbs_def only_lbs_def lbs_of_def)

lemma no_lbs_lookup: "no_lbs a b \<Longrightarrow> lbs_of b = lbs_of a" "no_lbs a b \<Longrightarrow> lb_at b = lb_at a"
  by (auto simp: no_lbs_def lbs_of_def lb_at_def fun_eq_iff)

lemma no_lbs_refl [simp]: "no_lbs a a"
  by (simp add: no_lbs_def)

lemma no_lbs_trans: "no_lbs a b \<Longrightarrow> no_lbs b c \<Longrightarrow> no_lbs a c"
  by (simp add: no_lbs_def)

lemma only_lbs_tables:
  "only_lbs s a b \<Longrightarrow> is_other (ls_m b) = is_other (ls_m a) \<and> is_flannel (ls_m b) = is_flannel (ls_m a)
     \<and> lm_data (ls_m b) = lm_data (ls_m a) \<and> lm_flannelNetworks (ls_m b) = lm_flannelNetworks (ls_m a)
     \<and> lm_services (ls_m b) = lm_services (ls_m a)"
  by (auto simp: only_lbs_def is_other_def is_flannel_def fun_eq_iff)

lemma lbs_of_set_lbs [simp]: "lbs_of (set_lbs s lbs st) s' = (if s' = s then Some lbs else lbs_of st s')"
  by (simp add: lbs_of_def set_lbs_def cm_Get_def cm_Set_def)

lemma only_lbs_set_lbs [simp]: "only_lbs s st (set_lbs s lbs st)"
  unfolding only_lbs_def by (auto simp: set_lbs_def lbs_of_def cm_Get_def cm_Set_def)

lemma lb_at_put_lb:
  "lb_at (put_lb s n lb st) s' n' =
     (if s' = s \<and> n' = n \<and> lbs_of st s \<noteq> None then Some lb else lb_at st s' n')"
  by (auto simp: put_lb_def lb_at_def cm_Get_def cm_Set_def split: option.splits)

lemma lbs_of_put_lb: "lbs_of (put_lb s n lb st) s' = None \<longleftrightarrow> lbs_of st s' = None"
  by (auto simp: put_lb_def split: option.splits)

lemma only_lbs_put_lb [simp]: "only_lbs s st (put_lb s n lb st)"
  by (simp add: put_lb_def split: option.splits)

lemma lbs_kernel_no_lbs [simp]: "no_lbs st (snd (lbs_kernel f st))"
  by (simp add: lbs_kernel_def in_kernel_def no_lbs_def split_def)

lemma lbs_kernel_pair: "lbs_kernel f st = (r, st') \<Longrightarrow> no_lbs st st'"
  by (metis lbs_kernel_no_lbs snd_conv)

lemma lbs_etcd_no_lbs [simp]: "no_lbs st (snd (lbs_etcd f st))"
  by (simp add: lbs_etcd_def in_etcd_def no_lbs_def split_def)

text \<open>A relation that is reflexive and transitive holds between the ends of a sequence of operations.\<close>

lemma res_wrap_state [simp]: "snd (res_wrap m rs) = snd rs"
  by (cases "(m, rs)" rule: res_wrap.cases) auto

lemma res_bind_rel:
  assumes "R s (snd rs)" "\<And>x y z. R x y \<Longrightarrow> R y z \<Longrightarrow> R x z" "\<And>a s1. rs = (Ok a, s1) \<Longrightarrow> R s1 (snd (f a s1))"
  shows "R s (snd (res_bind rs f))"
  using assms by (cases "(rs, f)" rule: res_bind.cases) auto

lemma opt_bind_rel:
  assumes "opt_bind rs f = Some (r, s')" "\<And>r1 s1. rs = Some (r1, s1) \<Longrightarrow> R s s1"
    "\<And>x y z. R x y \<Longrightarrow> R y z \<Longrightarrow> R x z" "\<And>a s1 r2 s2. rs = Some (Ok a, s1) \<Longrightarrow> f a s1 = Some (r2, s2) \<Longrightarrow> R s1 s2"
  shows "R s s'"
proof (cases "(rs, f)" rule: opt_bind.cases)
  case (2 a s1 g)
  then show ?thesis using assms(1) assms(2) [of "Ok a" s1] assms(3) [of s s1 s'] assms(4) [of a s1 r s'] by simp
qed (use assms(1,2) in auto)

lemma release_vip_no_lbs [simp]: "no_lbs st (snd (release_vip V n ip st))"
  by (simp add: release_vip_def no_lbs_def split_def split: option.splits)

lemma no_lbs_bind:
  "no_lbs s (snd rs) \<Longrightarrow> (\<And>a s1. rs = (Ok a, s1) \<Longrightarrow> no_lbs s1 (snd (f a s1))) \<Longrightarrow>
   no_lbs s (snd (res_bind rs f))"
  by (rule res_bind_rel [where R = no_lbs]) (auto intro: no_lbs_trans)

lemma only_lbs_bind:
  "only_lbs i s (snd rs) \<Longrightarrow> (\<And>a s1. rs = (Ok a, s1) \<Longrightarrow> only_lbs i s1 (snd (f a s1))) \<Longrightarrow>
   only_lbs i s (snd (res_bind rs f))"
  by (rule res_bind_rel [where R = "only_lbs i"]) (auto intro: only_lbs_trans)

lemma only_lbs_opt_bind:
  "opt_bind rs f = Some (r, s') \<Longrightarrow> (\<And>r1 s1. rs = Some (r1, s1) \<Longrightarrow> only_lbs i s s1) \<Longrightarrow>
   (\<And>a s1 r2 s2. rs = Some (Ok a, s1) \<Longrightarrow> f a s1 = Some (r2, s2) \<Longrightarrow> only_lbs i s1 s2) \<Longrightarrow> only_lbs i s s'"
  by (rule opt_bind_rel [where R = "only_lbs i"]) (auto intro: only_lbs_trans)

lemma deleteForNetwork_no_lbs [simp]: "no_lbs st (snd (deleteForNetwork V info lb n st))"
  unfolding deleteForNetwork_def
  apply (rule no_lbs_bind)
   apply simp
  apply (rule no_lbs_bind)
   apply simp
  apply simp
  done

lemma run_lb_only [simp]: "only_lbs s st (snd (run_lb s n f st))"
proof -
  obtain r1 lb k where f: "f (wk (ls_world st)) = ((r1, lb), k)" by (metis surj_pair)
  have "only_lbs s st (st\<lparr>ls_world := (ls_world st)\<lparr>wk := k\<rparr>\<rparr>)"
    by (rule no_lbs_only) (simp add: no_lbs_def)
  then show ?thesis using f by (simp add: run_lb_def) (rule only_lbs_trans, assumption, simp)
qed

lemma run_lb_at:
  assumes "run_lb s n f st = (r, st')" "lb_at st s n = Some lb0"
  shows "\<exists>lb k k'. f k = ((r, lb), k')
    \<and> (\<forall>s' n'. lb_at st' s' n' = (if s' = s \<and> n' = n then Some lb else lb_at st s' n'))"
proof -
  obtain r1 lb k where f: "f (wk (ls_world st)) = ((r1, lb), k)" by (metis surj_pair)
  let ?st = "st\<lparr>ls_world := (ls_world st)\<lparr>wk := k\<rparr>\<rparr>"
  have l: "lb_at ?st = lb_at st" "lbs_of ?st = lbs_of st" using no_lbs_lookup [of st ?st] by (simp_all add: no_lbs_def)
  have "lbs_of st s \<noteq> None" using assms(2) by (auto simp: lb_at_def split: option.splits)
  moreover have "st' = put_lb s n lb ?st" using assms(1) f by (simp add: run_lb_def)
  ultimately have "\<forall>s' n'. lb_at st' s' n' = (if s' = s \<and> n' = n then Some lb else lb_at st s' n')"
    using l by (simp add: lb_at_put_lb)
  moreover have "f (wk (ls_world st)) = ((r, lb), k)" using assms(1) f by (simp add: run_lb_def)
  ultimately show ?thesis by blast
qed

section \<open>Which load balancers there are\<close>

definition has_lb :: "('k, 'e, 'w) lbs \<Rightarrow> string \<Rightarrow> string \<Rightarrow> bool" where
  "has_lb st s n \<longleftrightarrow> lb_at st s n \<noteq> None"

text \<open>Every load balancer is stored under its service and its network, and acts on the interface of the
  network.\<close>

definition lb_wf :: "('k, 'e, 'w) lbs \<Rightarrow> bool" where
  "lb_wf st \<longleftrightarrow> (\<forall>s n lb. lb_at st s n = Some lb \<longrightarrow> slb_serviceID lb = s \<and> slb_dockerNetworkID lb = n
     \<and> l_Name (slb_link lb) = lb_getInterfaceName n)"

definition same_ids :: "serviceLb \<Rightarrow> serviceLb \<Rightarrow> bool" where
  "same_ids a b \<longleftrightarrow> slb_serviceID a = slb_serviceID b \<and> slb_dockerNetworkID a = slb_dockerNetworkID b
     \<and> slb_link a = slb_link b \<and> slb_fwmark a = slb_fwmark b"

lemma same_ids_refl [simp]: "same_ids a a"
  by (simp add: same_ids_def)

lemma finish_slb_ids: "(\<And>a. same_ids slb (f a)) \<Longrightarrow> same_ids slb (snd (fst (finish_slb r slb f)))"
  by (auto simp: finish_slb_def split: prod.splits res.splits)

lemma finish_slb_same [simp]: "snd (fst (finish_slb r slb (\<lambda>_. slb))) = slb"
  by (auto simp: finish_slb_def split: prod.splits res.splits)

lemma AddBackend_ids: "same_ids slb (snd (fst (AddBackend K slb ip k)))"
  unfolding AddBackend_def by (rule finish_slb_ids) (simp add: same_ids_def)

lemma RemoveBackend_ids: "same_ids slb (snd (fst (RemoveBackend K F slb ip k)))"
  unfolding RemoveBackend_def by (rule finish_slb_ids) (simp add: same_ids_def)

lemma ensureFrontend_keeps:
  "frontendIP (snd (fst (ensureServiceLoadBalancerFrontend K slb k))) = frontendIP slb
   \<and> same_ids slb (snd (fst (ensureServiceLoadBalancerFrontend K slb k)))"
  by (auto simp: ensureServiceLoadBalancerFrontend_def Let_def finish_slb_def same_ids_def
      split: prod.splits res.splits)

lemma UpdateFrontendIP_ids: "same_ids slb (snd (fst (UpdateFrontendIP K slb ip k)))"
proof -
  obtain r k1 where r: "res_wrap ''Failed to ensure load balancer interface listening''
      (EnsureInterfaceListensOnAddress K (slb_link slb) (ip_String ip) k) = (r, k1)" by force
  obtain r2 slb2 k2 where e: "ensureServiceLoadBalancerFrontend K (slb\<lparr>frontendIP := ip\<rparr>) k1 = ((r2, slb2), k2)"
    by (metis surj_pair)
  have "same_ids (slb\<lparr>frontendIP := ip\<rparr>) slb2" using ensureFrontend_keeps [of K "slb\<lparr>frontendIP := ip\<rparr>" k1] e by simp
  then have ids: "same_ids slb slb2" by (simp add: same_ids_def)
  show ?thesis
    using ids by (cases r; cases r2) (simp_all add: UpdateFrontendIP_def r e Let_def)
qed

lemma UpdateFrontendIP_ip:
  assumes "UpdateFrontendIP K slb ip k = ((Ok u, slb'), k')"
  shows "frontendIP slb' = ip"
proof -
  obtain r k1 where r: "res_wrap ''Failed to ensure load balancer interface listening''
      (EnsureInterfaceListensOnAddress K (slb_link slb) (ip_String ip) k) = (r, k1)" by force
  obtain r2 slb2 k2 where e: "ensureServiceLoadBalancerFrontend K (slb\<lparr>frontendIP := ip\<rparr>) k1 = ((r2, slb2), k2)"
    by (metis surj_pair)
  have "frontendIP slb2 = ip" using ensureFrontend_keeps [of K "slb\<lparr>frontendIP := ip\<rparr>" k1] e by simp
  then show ?thesis using assms
    by (cases r; cases r2) (auto simp: UpdateFrontendIP_def r e finish_slb_Ok Let_def split: if_splits)
qed

lemma no_lbs_networks [simp]:
  "no_lbs st (st\<lparr>ls_networks := ns, ls_world := w\<rparr>)" "no_lbs st (st\<lparr>ls_world := w\<rparr>)"
  by (simp_all add: no_lbs_def)

lemma lb_at_world [simp]: "lb_at (st\<lparr>ls_world := w\<rparr>) = lb_at st" "lbs_of (st\<lparr>ls_world := w\<rparr>) = lbs_of st"
  using no_lbs_lookup [of st "st\<lparr>ls_world := w\<rparr>"] by simp_all

lemma try_add_lb_Some:
  assumes "try_add_lb fuel V s n link st = Some (r, st')"
  shows "only_lbs s st st'"
    and "\<And>s' n'. lb_at st' s' n' = lb_at st s' n'
      \<or> (s' = s \<and> n' = n \<and> lb_at st s n = None \<and> (\<exists>w. lb_at st' s n = Some (NewNetworkSpecificServiceLb link n s w)))"
    and "lbs_of st s \<noteq> None \<Longrightarrow> lbs_of st' s \<noteq> None \<and> (\<forall>u. r = Ok u \<longrightarrow> has_lb st' s n)"
proof -
  consider lb where "lb_at st s n = Some lb" "r = Ok ()" "st' = st"
    | w e where "lb_at st s n = None" "r = Ok ()"
        "st' = put_lb s n (NewNetworkSpecificServiceLb link n s w) (st\<lparr>ls_world := (ls_world st)\<lparr>we := e\<rparr>\<rparr>)"
    | e where "lb_at st s n = None" "\<forall>u. r \<noteq> Ok u" "st' = st\<lparr>ls_world := (ls_world st)\<lparr>we := e\<rparr>\<rparr>"
  proof (cases "lb_at st s n")
    case None
    obtain r1 e where g: "fwmarks_Get fuel (env_E (le_env V)) (le_rand_Read V) (lm_fwmarks (ls_m st)) s n
        (we (ls_world st)) = Some (r1, e)"
      using assms None by (auto simp: try_add_lb_def split: option.splits)
    show ?thesis using that(2,3) None assms g by (cases r1) (auto simp: try_add_lb_def)
  qed (use that(1) assms in \<open>auto simp: try_add_lb_def\<close>)
  note c = this
  have w: "only_lbs s st (st\<lparr>ls_world := (ls_world st)\<lparr>we := e\<rparr>\<rparr>)" for e by (rule no_lbs_only) simp
  show "only_lbs s st st'" using c by cases (simp, metis w only_lbs_trans only_lbs_put_lb, simp add: w)
  show "\<And>s' n'. lb_at st' s' n' = lb_at st s' n'
      \<or> (s' = s \<and> n' = n \<and> lb_at st s n = None \<and> (\<exists>w. lb_at st' s n = Some (NewNetworkSpecificServiceLb link n s w)))"
    using c by cases (auto simp: lb_at_put_lb)
  show "lbs_of st s \<noteq> None \<Longrightarrow> lbs_of st' s \<noteq> None \<and> (\<forall>u. r = Ok u \<longrightarrow> has_lb st' s n)"
    using c by cases (auto simp: lb_at_put_lb lbs_of_put_lb has_lb_def)
qed


lemma lb_wfI_step:
  assumes "lb_wf st" "\<And>s n lb'. lb_at st' s n = Some lb' \<Longrightarrow> (\<exists>lb. lb_at st s n = Some lb \<and> same_ids lb lb')
      \<or> (slb_serviceID lb' = s \<and> slb_dockerNetworkID lb' = n \<and> l_Name (slb_link lb') = lb_getInterfaceName n)"
  shows "lb_wf st'"
  unfolding lb_wf_def
proof (intro allI impI)
  fix s n lb' assume "lb_at st' s n = Some lb'"
  from assms(2) [OF this] show "slb_serviceID lb' = s \<and> slb_dockerNetworkID lb' = n \<and> l_Name (slb_link lb') = lb_getInterfaceName n"
    using assms(1) unfolding lb_wf_def same_ids_def by metis
qed

text \<open>A state with more load balancers of a service, in given networks, the old ones unchanged.\<close>

definition grown ::
  "'k kernel \<Rightarrow> string \<Rightarrow> string set \<Rightarrow> ('k, 'e, 'w) lbs \<Rightarrow> ('k, 'e, 'w) lbs \<Rightarrow> bool"
where
  "grown K s N st st' \<longleftrightarrow> only_lbs s st st' \<and> (lbs_of st s \<noteq> None \<longrightarrow> lbs_of st' s \<noteq> None)
     \<and> (\<forall>n. lb_at st' s n = lb_at st s n
        \<or> (lb_at st s n = None \<and> n \<in> N
           \<and> (\<exists>link w. lb_at st' s n = Some (NewNetworkSpecificServiceLb link n s w)
                \<and> ((\<exists>view. kernel_service K view) \<longrightarrow> l_Name link = lb_getInterfaceName n))))"

lemma grown_refl [simp]: "grown K s N st st"
  by (simp add: grown_def)

lemma grown_no_lbs: "no_lbs st st' \<Longrightarrow> grown K s N st st'"
  using no_lbs_lookup [of st st'] by (simp add: grown_def no_lbs_only)

lemma grown_trans:
  assumes a: "grown K s N st1 st2" and b: "grown K s N st2 st3"
  shows "grown K s N st1 st3"
  unfolding grown_def
proof (intro conjI allI)
  show "only_lbs s st1 st3" using a b unfolding grown_def by (blast intro: only_lbs_trans)
  show "lbs_of st1 s \<noteq> None \<longrightarrow> lbs_of st3 s \<noteq> None" using a b unfolding grown_def by blast
next
  fix n
  show "lb_at st3 s n = lb_at st1 s n \<or> (lb_at st1 s n = None \<and> n \<in> N
    \<and> (\<exists>link w. lb_at st3 s n = Some (NewNetworkSpecificServiceLb link n s w)
          \<and> ((\<exists>view. kernel_service K view) \<longrightarrow> l_Name link = lb_getInterfaceName n)))"
    using a b unfolding grown_def by (metis option.distinct(1))
qed

lemma grown_mono: "grown K s N st st' \<Longrightarrow> N \<subseteq> N' \<Longrightarrow> grown K s N' st st'"
  unfolding grown_def by blast

lemma opt_bind_SomeE:
  assumes "opt_bind rs f = Some (r, s')"
  obtains a s1 where "rs = Some (Ok a, s1)" "f a s1 = Some (r, s')"
  | r1 where "rs = Some (r1, s')" "\<forall>a. r1 \<noteq> Ok a" "\<forall>a. r \<noteq> Ok a"
  using assms by (cases "(rs, f)" rule: opt_bind.cases) auto

lemma ensure_lbs_stepE:
  assumes "ensure_lbs fuel V s (m # ns) st = Some (r, st')"
  obtains "\<not> is_flannel (ls_m st) m" "is_other (ls_m st) m" "ensure_lbs fuel V s ns st = Some (r, st')"
  | "\<forall>u. r \<noteq> Ok u" "no_lbs st st'"
  | st2 where "is_flannel (ls_m st) m" "grown (env_K (le_env V)) s {m} st st2"
      "lbs_of st s \<noteq> None \<Longrightarrow> has_lb st2 s m \<or> (\<forall>u. r \<noteq> Ok u)"
      "st' = st2 \<and> (\<forall>u. r \<noteq> Ok u) \<or> ensure_lbs fuel V s ns st2 = Some (r, st')"
proof (cases "cm_Get (lm_flannelNetworks (ls_m st)) m")
  case None
  then show ?thesis using assms that(1,2)
    by (cases "is_other (ls_m st) m") (auto simp: is_flannel_def)
next
  case (Some net)
  let ?K = "env_K (le_env V)"
  let ?e = "res_wrap ''failed to create interface for network''
      (lbs_kernel (EnsureInterface ?K (lb_getInterfaceName m) ''dummy''
         (fi_MTU (network_GetInfo (ls_networks st net))) True) st)"
  have fl: "is_flannel (ls_m st) m" using Some by (simp add: is_flannel_def)
  have nl: "no_lbs st (snd ?e)" by simp
  from assms Some have "opt_bind (Some ?e) (\<lambda>link st. opt_bind (try_add_lb fuel V s m link st)
      (\<lambda>_ st. ensure_lbs fuel V s ns st)) = Some (r, st')" by simp
  then show ?thesis
  proof (cases rule: opt_bind_SomeE)
    case (2 r1)
    then show ?thesis using nl that(2) by simp
  next
    case (1 link st1)
    have n1: "no_lbs st st1" using 1(1) by (auto intro: lbs_kernel_pair)
    have name: "l_Name link = lb_getInterfaceName m" if k: "kernel_service ?K view" for view
    proof -
      obtain k' where "EnsureInterface ?K (lb_getInterfaceName m) ''dummy''
          (fi_MTU (network_GetInfo (ls_networks st net))) True (wk (ls_world st)) = (Ok link, k')"
        using 1(1) by (auto simp: lbs_kernel_def in_kernel_def split: prod.splits)
      then show ?thesis using kernel_service.EnsureInterface_Ok(2) [OF k] by blast
    qed
    have lookups: "lb_at st1 = lb_at st" "lbs_of st1 = lbs_of st" using no_lbs_lookup [OF n1] by simp_all
    have gr: "grown ?K s {m} st st2" if t: "try_add_lb fuel V s m link st1 = Some (r2, st2)" for r2 st2
      unfolding grown_def
    proof (intro conjI allI)
      show "only_lbs s st st2" using no_lbs_only [OF n1] try_add_lb_Some(1) [OF t] by (rule only_lbs_trans)
      show "lbs_of st s \<noteq> None \<longrightarrow> lbs_of st2 s \<noteq> None" using try_add_lb_Some(3) [OF t] lookups by simp
      show "lb_at st2 s n = lb_at st s n \<or> (lb_at st s n = None \<and> n \<in> {m}
         \<and> (\<exists>link w. lb_at st2 s n = Some (NewNetworkSpecificServiceLb link n s w)
              \<and> ((\<exists>view. kernel_service ?K view) \<longrightarrow> l_Name link = lb_getInterfaceName n)))" for n
        using try_add_lb_Some(2) [OF t, of s n] lookups name by auto
    qed
    from 1(2) show ?thesis
    proof (cases rule: opt_bind_SomeE)
      case (1 a st2)
      then show ?thesis
        using that(3) [OF fl gr [OF 1(1)]] try_add_lb_Some(3) [OF 1(1)] lookups by simp
    next
      case (2 r1)
      then show ?thesis using that(3) [OF fl gr [OF 2(1)]] by simp
    qed
  qed
qed

lemma ensure_lbs_Some:
  assumes "ensure_lbs fuel V s ns st = Some (r, st')"
  shows "grown (env_K (le_env V)) s {n \<in> set ns. is_flannel (ls_m st) n} st st'
    \<and> (lbs_of st s \<noteq> None \<longrightarrow> (\<forall>u. r = Ok u \<longrightarrow> (\<forall>n \<in> set ns. is_flannel (ls_m st) n \<longrightarrow> has_lb st' s n)))"
  using assms
proof (induction ns arbitrary: st)
  case (Cons m ns)
  let ?K = "env_K (le_env V)"
  from Cons.prems show ?case
  proof (cases rule: ensure_lbs_stepE)
    case 1
    then show ?thesis using Cons.IH [OF 1(3)] by (auto elim: grown_mono)
  next
    case 2
    then show ?thesis by (simp add: grown_no_lbs)
  next
    case (3 st2)
    have fl: "is_flannel (ls_m st2) = is_flannel (ls_m st)"
      using 3(2) only_lbs_tables unfolding grown_def by blast
    have g: "grown ?K s {n \<in> set (m # ns). is_flannel (ls_m st) n} st st2"
      using 3(2) by (rule grown_mono) (simp add: 3(1))
    from 3(4) show ?thesis
    proof
      assume "st' = st2 \<and> (\<forall>u. r \<noteq> Ok u)"
      then show ?thesis using g by simp
    next
      assume e: "ensure_lbs fuel V s ns st2 = Some (r, st')"
      note IH = Cons.IH [OF e, unfolded fl]
      have "grown ?K s {n \<in> set (m # ns). is_flannel (ls_m st) n} st2 st'"
        using IH by (auto elim: grown_mono)
      moreover have "has_lb st' s m" if "has_lb st2 s m"
        using that IH unfolding grown_def has_lb_def by metis
      ultimately show ?thesis using grown_trans [OF g] IH 3(2,3) unfolding grown_def [of _ _ "{m}"] by auto
    qed
  qed
qed simp

lemma cm_TryRemove_cases:
  "cm_TryRemove cm k = (Some v, cm') \<longleftrightarrow> cm_Get cm k = Some v \<and> cm' = cm_Remove cm k"
  "cm_TryRemove cm k = (None, cm') \<longleftrightarrow> cm_Get cm k = None \<and> cm' = cm"
  by (auto simp: cm_TryRemove_def cm_Remove_def split: option.splits)

lemma delete_lbs_Some:
  assumes "delete_lbs V info ns st = (r, st')"
  shows "only_lbs (svi_ID info) st st' \<and> (lbs_of st (svi_ID info) \<noteq> None \<longrightarrow> lbs_of st' (svi_ID info) \<noteq> None)
    \<and> (\<forall>n. lb_at st' (svi_ID info) n = lb_at st (svi_ID info) n \<or> (n \<in> set ns \<and> lb_at st' (svi_ID info) n = None))
    \<and> (\<forall>u. r = Ok u \<longrightarrow> (\<forall>n \<in> set ns. lb_at st' (svi_ID info) n = None))"
  using assms
proof (induction ns arbitrary: st)
  case (Cons m ns)
  let ?s = "svi_ID info"
  show ?case
  proof (cases "lb_at st ?s m")
    case None
    then have "delete_lbs V info ns st = (r, st')"
      using Cons.prems by (auto simp: lb_at_def cm_TryRemove_def split: option.splits)
    note IH = Cons.IH [OF this]
    then have "lb_at st' ?s m = None" using None by metis
    then show ?thesis using IH by auto
  next
    case (Some lb)
    then obtain lbs where l: "lbs_of st ?s = Some lbs" "cm_Get lbs m = Some lb"
      by (auto simp: lb_at_def split: option.splits)
    let ?st1 = "set_lbs ?s (cm_Remove lbs m) st"
    let ?d = "deleteForNetwork V info lb m ?st1"
    obtain r2 st2 where d: "?d = (r2, st2)" by force
    have nl: "no_lbs ?st1 st2" using deleteForNetwork_no_lbs [of ?st1 V info lb m] d by simp
    have eq: "res_bind (res_wrap ''failed to delete load balancer for service and network'' ?d)
        (\<lambda>_ st. delete_lbs V info ns st) = (r, st')"
      using Cons.prems l by (auto simp: cm_TryRemove_def cm_Remove_def split: option.splits)
    have o2: "only_lbs ?s st st2" using only_lbs_trans [OF only_lbs_set_lbs no_lbs_only [OF nl]] .
    have look: "lbs_of st2 ?s \<noteq> None" "lb_at st2 ?s n = (if n = m then None else lb_at st ?s n)" for n
      using no_lbs_lookup [OF nl] l by (simp_all add: lb_at_def cm_Get_def cm_Remove_def)
    show ?thesis
    proof (cases r2)
      case (Ok a)
      then have "delete_lbs V info ns st2 = (r, st')" using eq d by simp
      note IH = Cons.IH [OF this]
      show ?thesis
      proof (intro conjI allI impI)
        show "only_lbs ?s st st'" using IH o2 by (blast intro: only_lbs_trans)
        show "lbs_of st' ?s \<noteq> None" using IH look(1) by blast
        have at: "lb_at st' ?s n = lb_at st2 ?s n \<or> n \<in> set ns \<and> lb_at st' ?s n = None" for n
          using IH by blast
        show "lb_at st' ?s n = lb_at st ?s n \<or> n \<in> set (m # ns) \<and> lb_at st' ?s n = None" for n
          using at [of n] look(2) [of n] by (cases "n = m") auto
        show "\<forall>n\<in>set (m # ns). lb_at st' ?s n = None" if "r = Ok u" for u
          using IH at [of m] look(2) [of m] that by auto
      qed
    qed (use eq d o2 look in auto)
  qed
qed simp

lemma frontend_of_no_lbs:
  assumes "frontend_of fuel V s ex n ip st = Some (r, st')"
  shows "no_lbs st st'"
proof -
  have "no_lbs st (snd (res_wrap m (r1, st\<lparr>ls_networks := ns, ls_world := w\<rparr>)))" for m r1 ns w by simp
  then show ?thesis using assms
    by (auto simp: frontend_of_def split: option.splits prod.splits dest!: arg_cong [where f = snd])
qed

text \<open>The state of a service's load balancers after a pass over virtual addresses.\<close>

lemma update_frontends_any:
  assumes "update_frontends fuel V s ex rest acc st = Some (r, st')"
  shows "only_lbs s st st' \<and> (\<forall>n. rel_option same_ids (lb_at st s n) (lb_at st' s n))"
  using assms
proof (induction rest arbitrary: acc st)
  case (Cons x rest)
  obtain m v where x: "x = (m, v)" by force
  have refl: "rel_option same_ids z z" for z by (cases z) auto
  show ?case
  proof (cases "is_other (ls_m st) m")
    case True
    then show ?thesis using Cons x by auto
  next
    case False
    from Cons.prems False x have "opt_bind (frontend_of fuel V s ex m v st)
        (\<lambda>ip st. case lb_at st s m of
             None \<Rightarrow> Some (Err (Errorf ''load balancer for network does not exist in internal state. This is a bug''), st)
           | Some lb \<Rightarrow>
               opt_bind (Some (res_wrap ''error updating frontend IP for load balancer for service and network''
                   (run_lb s m (UpdateFrontendIP (env_K (le_env V)) lb ip) st)))
                 (\<lambda>_ st. update_frontends fuel V s ex rest (gomap_set acc m ip) st)) = Some (r, st')" by simp
    then show ?thesis
    proof (cases rule: opt_bind_SomeE)
      case (2 r1)
      have "no_lbs st st'" using frontend_of_no_lbs [OF 2(1)] .
      then show ?thesis using no_lbs_lookup [of st st'] by (simp add: no_lbs_only refl)
    next
      case (1 ip st1)
      have n1: "no_lbs st st1" using frontend_of_no_lbs [OF 1(1)] .
      note look = no_lbs_lookup [OF n1]
      show ?thesis
      proof (cases "lb_at st1 s m")
        case None
        then show ?thesis using 1 n1 look by (simp add: no_lbs_only refl)
      next
        case (Some lb)
        obtain r2 st2 where u: "run_lb s m (UpdateFrontendIP (env_K (le_env V)) lb ip) st1 = (r2, st2)" by force
        obtain lb' k k' where lb': "UpdateFrontendIP (env_K (le_env V)) lb ip k = ((r2, lb'), k')"
          "\<And>s' n'. lb_at st2 s' n' = (if s' = s \<and> n' = m then Some lb' else lb_at st1 s' n')"
          using run_lb_at [OF u Some] by blast
        have ids: "same_ids lb lb'" using UpdateFrontendIP_ids [of lb "env_K (le_env V)" ip k] lb'(1) by simp
        have o2: "only_lbs s st st2" using run_lb_only [of s st1 m "UpdateFrontendIP (env_K (le_env V)) lb ip"] u
            only_lbs_trans [OF no_lbs_only [OF n1]] by simp
        have rel: "rel_option same_ids (lb_at st s n) (lb_at st2 s n)" for n
          using lb'(2) [of s n] ids Some look refl by auto
        show ?thesis
        proof (cases r2)
          case (Ok a)
          then have "update_frontends fuel V s ex rest (gomap_set acc m ip) st2 = Some (r, st')"
            using 1(2) Some u by simp
          note IH = Cons.IH [OF this]
          have "rel_option same_ids (lb_at st s n) (lb_at st' s n)" for n
          proof -
            have "rel_option same_ids (lb_at st2 s n) (lb_at st' s n)" using IH by blast
            then show ?thesis using rel [of n]
              by (cases "lb_at st s n"; cases "lb_at st2 s n"; cases "lb_at st' s n") (auto simp: same_ids_def)
          qed
          then show ?thesis using IH o2 by (blast intro: only_lbs_trans)
        qed (use 1(2) Some u o2 rel in auto)
      qed
    qed
  qed
qed (simp add: option.rel_refl)

lemma update_frontends_Ok:
  assumes "update_frontends fuel V s ex rest acc st = Some (Ok fips, st')" "distinct (map fst rest)"
  shows "(\<forall>n. n \<notin> fst ` set rest \<longrightarrow> map_of fips n = map_of acc n \<and> lb_at st' s n = lb_at st s n)
    \<and> (\<forall>(n, v) \<in> set rest. \<exists>ip. map_of fips n = Some ip
        \<and> (if is_other (ls_m st) n then ip = v else \<exists>lb. lb_at st' s n = Some lb \<and> frontendIP lb = ip))"
  using assms
proof (induction rest arbitrary: acc st)
  case (Cons x rest)
  obtain m v where x: "x = (m, v)" by force
  have m: "m \<notin> fst ` set rest" and d: "distinct (map fst rest)" using Cons.prems(2) x by auto
  show ?case
  proof (cases "is_other (ls_m st) m")
    case True
    then have "update_frontends fuel V s ex rest (gomap_set acc m v) st = Some (Ok fips, st')"
      using Cons.prems(1) x by simp
    from Cons.IH [OF this d] show ?thesis using True m x by auto
  next
    case False
    from Cons.prems False x have "opt_bind (frontend_of fuel V s ex m v st)
        (\<lambda>ip st. case lb_at st s m of
             None \<Rightarrow> Some (Err (Errorf ''load balancer for network does not exist in internal state. This is a bug''), st)
           | Some lb \<Rightarrow>
               opt_bind (Some (res_wrap ''error updating frontend IP for load balancer for service and network''
                   (run_lb s m (UpdateFrontendIP (env_K (le_env V)) lb ip) st)))
                 (\<lambda>_ st. update_frontends fuel V s ex rest (gomap_set acc m ip) st)) = Some (Ok fips, st')" by simp
    then obtain ip st1 lb where 1: "frontend_of fuel V s ex m v st = Some (Ok ip, st1)" "lb_at st1 s m = Some lb"
      "opt_bind (Some (res_wrap ''error updating frontend IP for load balancer for service and network''
           (run_lb s m (UpdateFrontendIP (env_K (le_env V)) lb ip) st1)))
         (\<lambda>_ st. update_frontends fuel V s ex rest (gomap_set acc m ip) st) = Some (Ok fips, st')"
      by (cases rule: opt_bind_SomeE) (auto split: option.splits)
    from 1(3) obtain u st2 where 2: "run_lb s m (UpdateFrontendIP (env_K (le_env V)) lb ip) st1 = (Ok u, st2)"
      "update_frontends fuel V s ex rest (gomap_set acc m ip) st2 = Some (Ok fips, st')"
      by (cases rule: opt_bind_SomeE) auto
    have n1: "no_lbs st st1" using frontend_of_no_lbs [OF 1(1)] .
    obtain lb' k k' where lb': "UpdateFrontendIP (env_K (le_env V)) lb ip k = ((Ok u, lb'), k')"
      "\<And>s' n'. lb_at st2 s' n' = (if s' = s \<and> n' = m then Some lb' else lb_at st1 s' n')"
      using run_lb_at [OF 2(1) 1(2)] by blast
    have fip: "frontendIP lb' = ip" using UpdateFrontendIP_ip [OF lb'(1)] .
    have o: "is_other (ls_m st2) = is_other (ls_m st)"
      using run_lb_only [of s st1 m "UpdateFrontendIP (env_K (le_env V)) lb ip"] 2(1) n1
        only_lbs_tables [of s st1 st2] by (simp add: no_lbs_def)
    note IH = Cons.IH [OF 2(2) d, unfolded o]
    have "map_of fips m = Some ip" "lb_at st' s m = Some lb'" using IH m lb'(2) [of s m] by auto
    moreover have "lb_at st2 s n = lb_at st s n" if "n \<noteq> m" for n
      using that lb'(2) no_lbs_lookup(2) [OF n1] by simp
    ultimately show ?thesis using IH False x fip by auto
  qed
qed simp

lemma store_frontends_Ok:
  assumes "store_frontends V s svc fips st = (Ok u, st')"
  shows "GetItem (lm_data (ls_m st')) s = Some \<lparr>FrontendIPs = Some fips\<rparr>"
    and "vips (ls_services st' svc) = Some fips"
    and "lb_at st' = lb_at st"
    and "is_other (ls_m st') = is_other (ls_m st)"
proof -
  obtain r calls s1 e where w: "wo_AddOrUpdateItem (env_E (le_env V)) (le_data V) loadBalancerData_Equals
      (lm_data (ls_m st)) s \<lparr>FrontendIPs = Some fips\<rparr> (we (ls_world st)) = ((r, calls), s1, e)" by (metis surj_pair)
  have d: "sb_data s1 = gomap_set (sb_data (lm_data (ls_m st))) s \<lparr>FrontendIPs = Some fips\<rparr>"
    using wo_AddOrUpdateItem_data [of "env_E (le_env V)" "le_data V" loadBalancerData_Equals "lm_data (ls_m st)" s
        "\<lparr>FrontendIPs = Some fips\<rparr>" "we (ls_world st)"] w by simp
  obtain x evs where v: "SetVIPs (ls_services st svc) (Some fips) = (x, evs)" by force
  have x: "vips x = Some fips" using v by (auto simp: SetVIPs_def Let_def)
  have st': "st' = st\<lparr>ls_m := (ls_m st)\<lparr>lm_data := s1\<rparr>, ls_world := (ls_world st)\<lparr>we := e\<rparr>,
      ls_services := (ls_services st)(svc := x), ls_raised := ls_raised st @ evs\<rparr>"
    using assms w v by (cases r) (auto simp: store_frontends_def)
  show "GetItem (lm_data (ls_m st')) s = Some \<lparr>FrontendIPs = Some fips\<rparr>" using d st' by (simp add: GetItem_def)
  show "vips (ls_services st' svc) = Some fips" using x st' by simp
  show "lb_at st' = lb_at st" using st' by (auto simp: lb_at_def lbs_of_def fun_eq_iff)
  show "is_other (ls_m st') = is_other (ls_m st)" using st' by (auto simp: is_other_def fun_eq_iff)
qed

text \<open>The four phases of \<open>createOrUpdateLoadBalancer\<close> and the states between them.\<close>

definition lbs_entered :: "ServiceInfo \<Rightarrow> ref \<Rightarrow> ('k, 'e, 'w) lbs \<Rightarrow> ('k, 'e, 'w) lbs" where
  "lbs_entered info svc st =
     (let st1 = upd_m (\<lambda>m. m\<lparr>lm_services := cm_Set (lm_services m) (svi_ID info) svc\<rparr>) st
      in set_lbs (svi_ID info) (case lbs_of st1 (svi_ID info) of None \<Rightarrow> NewConcurrentMap | Some lbs \<Rightarrow> lbs) st1)"

lemma lbs_entered_simps:
  "lb_at (lbs_entered info svc st) = lb_at st"
  "lbs_of (lbs_entered info svc st) (svi_ID info) \<noteq> None"
  "is_other (ls_m (lbs_entered info svc st)) = is_other (ls_m st)"
  "is_flannel (ls_m (lbs_entered info svc st)) = is_flannel (ls_m st)"
  "lm_data (ls_m (lbs_entered info svc st)) = lm_data (ls_m st)"
  by (auto simp: lbs_entered_def Let_def set_lbs_def lb_at_def lbs_of_def cm_Get_def cm_Set_def NewConcurrentMap_def
      is_other_def is_flannel_def fun_eq_iff split: option.splits)

lemma createOrUpdate_eq:
  assumes "lo_Difference_law (le_Difference V)"
  shows "createOrUpdateLoadBalancer fuel V info svc st =
      opt_bind (ensure_lbs fuel V (svi_ID info) (svi_Networks info) (lbs_entered info svc st))
           (\<lambda>_ st1. opt_bind (Some (delete_lbs V info (filter (\<lambda>n. n \<notin> set (svi_Networks info))
                (cm_Keys (the (lbs_of (lbs_entered info svc st) (svi_ID info))))) st1))
              (\<lambda>_ st. opt_bind
                 (update_frontends fuel V (svi_ID info) (GetItem (lm_data (ls_m st)) (svi_ID info))
                    (case svi_IpamVIPs info of None \<Rightarrow> [] | Some m \<Rightarrow> m) [] st)
                 (\<lambda>frontendIPs st. Some (store_frontends V (svi_ID info) svc frontendIPs st))))"
  using assms by (simp add: createOrUpdateLoadBalancer_def lbs_entered_def Let_def lo_Difference_law_def)

lemma createOrUpdate_phases:
  assumes "createOrUpdateLoadBalancer fuel V info svc st = Some (r, st')" "lo_Difference_law (le_Difference V)"
  defines "dels \<equiv> filter (\<lambda>n. n \<notin> set (svi_Networks info))
      (cm_Keys (the (lbs_of (lbs_entered info svc st) (svi_ID info))))"
    and "ipam \<equiv> (case svi_IpamVIPs info of None \<Rightarrow> [] | Some m \<Rightarrow> m)"
  obtains r1 where "ensure_lbs fuel V (svi_ID info) (svi_Networks info) (lbs_entered info svc st) = Some (r1, st')"
      "\<forall>u. r \<noteq> Ok u"
  | u st1 r2 where "ensure_lbs fuel V (svi_ID info) (svi_Networks info) (lbs_entered info svc st) = Some (Ok u, st1)"
      "delete_lbs V info dels st1 = (r2, st')" "\<forall>u. r \<noteq> Ok u"
  | u st1 v st2 r3 where "ensure_lbs fuel V (svi_ID info) (svi_Networks info) (lbs_entered info svc st) = Some (Ok u, st1)"
      "delete_lbs V info dels st1 = (Ok v, st2)"
      "update_frontends fuel V (svi_ID info) (GetItem (lm_data (ls_m st2)) (svi_ID info)) ipam [] st2 = Some (r3, st')"
      "\<forall>u. r \<noteq> Ok u"
  | u st1 v st2 fips st3 where "ensure_lbs fuel V (svi_ID info) (svi_Networks info) (lbs_entered info svc st) = Some (Ok u, st1)"
      "delete_lbs V info dels st1 = (Ok v, st2)"
      "update_frontends fuel V (svi_ID info) (GetItem (lm_data (ls_m st2)) (svi_ID info)) ipam [] st2 = Some (Ok fips, st3)"
      "store_frontends V (svi_ID info) svc fips st3 = (r, st')"
proof -
  let ?s = "svi_ID info"
  have eq: "createOrUpdateLoadBalancer fuel V info svc st =
      opt_bind (ensure_lbs fuel V ?s (svi_Networks info) (lbs_entered info svc st))
           (\<lambda>_ st. opt_bind (Some (delete_lbs V info dels st))
              (\<lambda>_ st. opt_bind
                 (update_frontends fuel V ?s (GetItem (lm_data (ls_m st)) ?s) ipam [] st)
                 (\<lambda>frontendIPs st. Some (store_frontends V ?s svc frontendIPs st))))"
    unfolding dels_def ipam_def by (rule createOrUpdate_eq [OF assms(2)])
  from assms(1) [unfolded eq] show ?thesis
  proof (cases rule: opt_bind_SomeE)
    case (2 r1)
    then show ?thesis using that(1) by simp
  next
    case (1 u st1)
    note e = 1(1)
    from 1(2) show ?thesis
    proof (cases rule: opt_bind_SomeE)
      case (2 r2)
      then show ?thesis using that(2) [OF e, of r2] by simp
    next
      case (1 v st2)
      have d: "delete_lbs V info dels st1 = (Ok v, st2)" using 1(1) by simp
      from 1(2) show ?thesis
      proof (cases rule: opt_bind_SomeE)
        case (2 r3)
        then show ?thesis using that(3) [OF e d, of r3] by simp
      next
        case (1 fips st3)
        then show ?thesis using that(4) [OF e d, of fips st3] by simp
      qed
    qed
  qed
qed

lemma has_lb_key: "lbs_of st s = Some lbs \<Longrightarrow> has_lb st s n \<longleftrightarrow> n \<in> set (cm_Keys lbs)"
  by (auto simp: has_lb_def lb_at_def cm_Get_def cm_Keys_def map_of_eq_None_iff dom_map_of_conv_image_fst)

lemma createOrUpdate_lbs:
  assumes "ensure_lbs fuel V (svi_ID info) (svi_Networks info) (lbs_entered info svc st) = Some (Ok u, st1)"
    "delete_lbs V info (filter (\<lambda>n. n \<notin> set (svi_Networks info))
      (cm_Keys (the (lbs_of (lbs_entered info svc st) (svi_ID info))))) st1 = (Ok v, st2)"
  shows "has_lb st2 (svi_ID info) n \<longleftrightarrow>
    n \<in> set (svi_Networks info) \<and> (is_flannel (ls_m st) n \<or> has_lb st (svi_ID info) n)"
proof -
  let ?s = "svi_ID info" and ?st0 = "lbs_entered info svc st"
  note e0 = lbs_entered_simps [of info svc st]
  obtain lbs where lbs: "lbs_of ?st0 ?s = Some lbs" using e0(2) by blast
  have h0: "has_lb ?st0 = has_lb st" using e0(1) by (simp add: has_lb_def fun_eq_iff)
  have keys: "m \<in> set (cm_Keys lbs) \<longleftrightarrow> has_lb st ?s m" for m using has_lb_key [OF lbs] h0 by simp
  note E = ensure_lbs_Some [OF assms(1)]
  have 1: "has_lb st1 ?s n \<longleftrightarrow> has_lb st ?s n \<or> (n \<in> set (svi_Networks info) \<and> is_flannel (ls_m st) n)"
  proof
    assume "has_lb st1 ?s n"
    then show "has_lb st ?s n \<or> (n \<in> set (svi_Networks info) \<and> is_flannel (ls_m st) n)"
      using E unfolding grown_def e0 has_lb_def by (metis (no_types, lifting) mem_Collect_eq)
  next
    assume r: "has_lb st ?s n \<or> (n \<in> set (svi_Networks info) \<and> is_flannel (ls_m st) n)"
    show "has_lb st1 ?s n"
    proof (cases "has_lb st ?s n")
      case True
      then show ?thesis using E unfolding grown_def e0 has_lb_def by metis
    next
      case False
      then show ?thesis using E r lbs unfolding e0 by simp
    qed
  qed
  show ?thesis
  proof (cases "n \<in> set (svi_Networks info)")
    case True
    then have "lb_at st2 ?s n = lb_at st1 ?s n" using delete_lbs_Some [OF assms(2)] by fastforce
    then show ?thesis using 1 True by (auto simp: has_lb_def)
  next
    case False
    show ?thesis
    proof (cases "has_lb st ?s n")
      case True
      then have "n \<in> set (filter (\<lambda>n. n \<notin> set (svi_Networks info)) (cm_Keys (the (lbs_of ?st0 ?s))))"
        using False keys lbs by simp
      then show ?thesis using delete_lbs_Some [OF assms(2)] False by (auto simp: has_lb_def)
    next
      case h: False
      then have "lb_at st1 ?s n = None" using 1 False by (simp add: has_lb_def)
      then show ?thesis using delete_lbs_Some [OF assms(2)] False by (metis has_lb_def)
    qed
  qed
qed

lemma rel_ids_wf:
  "lb_wf st \<Longrightarrow> \<forall>s n. lb_at st' s n = None \<or> rel_option same_ids (lb_at st s n) (lb_at st' s n) \<Longrightarrow> lb_wf st'"
proof (rule lb_wfI_step)
  fix s n lb' assume "\<forall>s n. lb_at st' s n = None \<or> rel_option same_ids (lb_at st s n) (lb_at st' s n)"
    "lb_at st' s n = Some lb'"
  then show "(\<exists>lb. lb_at st s n = Some lb \<and> same_ids lb lb')
      \<or> (slb_serviceID lb' = s \<and> slb_dockerNetworkID lb' = n \<and> l_Name (slb_link lb') = lb_getInterfaceName n)"
    by (metis option.distinct(1) option.rel_cases option.inject)
qed

lemma same_lbs_wf: "lb_at st' = lb_at st \<Longrightarrow> lb_wf st' = lb_wf st"
  by (simp add: lb_wf_def)

lemma only_lbs_at: "only_lbs s st st' \<Longrightarrow> s' \<noteq> s \<Longrightarrow> lb_at st' s' n = lb_at st s' n"
  by (simp add: only_lbs_def lb_at_def)

lemma grown_wf:
  assumes "kernel_service K view" "lb_wf st" "grown K s N st st'"
  shows "lb_wf st'"
  using assms(2)
proof (rule lb_wfI_step)
  fix s' n lb' assume a: "lb_at st' s' n = Some lb'"
  show "(\<exists>lb. lb_at st s' n = Some lb \<and> same_ids lb lb')
      \<or> (slb_serviceID lb' = s' \<and> slb_dockerNetworkID lb' = n \<and> l_Name (slb_link lb') = lb_getInterfaceName n)"
  proof (cases "lb_at st' s' n = lb_at st s' n")
    case False
    then have "s' = s" using assms(3) only_lbs_at unfolding grown_def by metis
    then obtain link w where "lb' = NewNetworkSpecificServiceLb link n s w" "l_Name link = lb_getInterfaceName n"
      using False a assms(1,3) unfolding grown_def by (metis option.inject)
    then show ?thesis using \<open>s' = s\<close> by (simp add: NewNetworkSpecificServiceLb_def)
  qed (use a same_ids_refl in metis)
qed

lemma store_frontends_at: "lb_at (snd (store_frontends V s svc fips st)) = lb_at st"
proof -
  have c: "lb_at (snd (res_bind (res_wrap m (r, st\<lparr>ls_m := (ls_m st)\<lparr>lm_data := s1\<rparr>, ls_world := w\<rparr>))
      (\<lambda>_ st. case g st of (x, evs) \<Rightarrow>
         (Ok (), st\<lparr>ls_services := (ls_services st)(svc := x), ls_raised := ls_raised st @ evs\<rparr>)))) = lb_at st"
    for m s1 w g and r :: "unit res"
    by (cases r) (auto simp: lb_at_def lbs_of_def fun_eq_iff split: prod.splits)
  show ?thesis by (auto simp: store_frontends_def c split: prod.splits)
qed

lemma createOrUpdate_wf:
  assumes "kernel_service (env_K (le_env V)) view" "lo_Difference_law (le_Difference V)" "lb_wf st"
    "createOrUpdateLoadBalancer fuel V info svc st = Some (r, st')"
  shows "lb_wf st'"
proof -
  have w0: "lb_wf (lbs_entered info svc st)"
    using assms(3) same_lbs_wf lbs_entered_simps(1) by metis
  have e: "lb_wf st1" if "ensure_lbs fuel V (svi_ID info) (svi_Networks info) (lbs_entered info svc st) = Some (r1, st1)" for r1 st1
    using ensure_lbs_Some [OF that] grown_wf [OF assms(1) w0] by blast
  have refl: "rel_option same_ids x x" for x by (simp add: option.rel_refl)
  have d: "lb_wf st2" if "lb_wf st1" "delete_lbs V info ds st1 = (r2, st2)" for ds st1 r2 st2
    using that(1)
  proof (rule rel_ids_wf)
    show "\<forall>s n. lb_at st2 s n = None \<or> rel_option same_ids (lb_at st1 s n) (lb_at st2 s n)"
      using delete_lbs_Some [OF that(2)] only_lbs_at refl by metis
  qed
  have u: "lb_wf st3" if "lb_wf st2" "update_frontends fuel V (svi_ID info) ex ipam acc st2 = Some (r3, st3)"
    for ex ipam acc st2 r3 st3
    using that(1)
  proof (rule rel_ids_wf)
    show "\<forall>s n. lb_at st3 s n = None \<or> rel_option same_ids (lb_at st2 s n) (lb_at st3 s n)"
      using update_frontends_any [OF that(2)] only_lbs_at refl by metis
  qed
  from assms(4,2) show ?thesis
  proof (cases rule: createOrUpdate_phases)
    case (1 r1)
    then show ?thesis using e by blast
  next
    case (2 u st1 r2)
    then show ?thesis using e d by blast
  next
    case (3 u st1 v st2 r3)
    then show ?thesis using e d u by blast
  next
    case (4 v1 st1 v st2 fips st3)
    then have "lb_wf st3" using e d u by blast
    then show ?thesis using store_frontends_at [of V "svi_ID info" svc fips st3] 4(4) same_lbs_wf [of st' st3] by simp
  qed
qed

section \<open>Properties\<close>


text \<open>What \<open>deleteForNetwork\<close> does to the kernel.\<close>

lemma lbs_wk_simps:
  "wk (ls_world (snd (lbs_etcd f st))) = wk (ls_world st)"
  "wk (ls_world (snd (release_vip V n ip st))) = wk (ls_world st)"
  by (simp_all add: lbs_etcd_def in_etcd_def release_vip_def split_def split: option.splits)

lemma deleteForNetwork_Ok:
  assumes "deleteForNetwork V info lb n st = (Ok u, st')"
  shows "\<exists>v. slb_Delete (env_K (le_env V)) lb (wk (ls_world st)) = (Ok v, wk (ls_world st'))"
proof -
  obtain v st1 w st2 where 1: "lbs_kernel (slb_Delete (env_K (le_env V)) lb) st = (Ok v, st1)"
    "(if GetFrontendIP lb \<noteq> [] \<and> \<not> ip_Equal (ip_of (svi_IpamVIPs info) n) (ip_of (svi_VIPs info) n)
      then release_vip V n (GetFrontendIP lb) st1 else (Ok (), st1)) = (Ok w, st2)"
    "lbs_etcd (fwmarks_Release (env_E (le_env V)) (lm_fwmarks (ls_m st2)) (svi_ID info) n (GetFwmark lb)) st2 = (Ok u, st')"
    using assms unfolding deleteForNetwork_def res_bind_Ok_iff res_wrap_Ok_iff by blast
  have "wk (ls_world st') = wk (ls_world st2)" using lbs_wk_simps(1) 1(3) by (metis snd_conv)
  moreover have "wk (ls_world st2) = wk (ls_world st1)"
    using lbs_wk_simps(2) [of V n "GetFrontendIP lb" st1] 1(2)
    by (cases "GetFrontendIP lb \<noteq> [] \<and> \<not> ip_Equal (ip_of (svi_IpamVIPs info) n) (ip_of (svi_VIPs info) n)") simp_all
  moreover have "slb_Delete (env_K (le_env V)) lb (wk (ls_world st)) = (Ok v, wk (ls_world st1))"
    using 1(1) by (auto simp: lbs_kernel_def in_kernel_def split: prod.splits)
  ultimately show ?thesis by simp
qed

lemma delete_all_lbs_no_lbs [simp]: "no_lbs st (snd (delete_all_lbs V info lbs ns st))"
proof (induction ns arbitrary: st)
  case (Cons n ns)
  show ?case
    by (cases "cm_Get lbs n") (simp_all add: Cons.IH no_lbs_bind)
qed simp

lemma delete_all_lbs_Ok:
  assumes k: "kernel_service (env_K (le_env V)) view" and r: "delete_all_lbs V info lbs ns st = (Ok u, st')"
  shows "kv_rules (view (wk (ls_world st'))) \<subseteq> kv_rules (view (wk (ls_world st)))
    \<and> (\<forall>w. kv_services (view (wk (ls_world st))) w = None \<longrightarrow> kv_services (view (wk (ls_world st'))) w = None)
    \<and> (\<forall>n \<in> set ns. \<forall>lb. cm_Get lbs n = Some lb \<longrightarrow>
         kv_services (view (wk (ls_world st'))) (slb_fwmark lb) = None
         \<and> kv_rules (view (wk (ls_world st'))) \<inter> set (iptablesRules lb) = {})"
  using r
proof (induction ns arbitrary: st)
  case (Cons n ns)
  show ?case
  proof (cases "cm_Get lbs n")
    case None
    then show ?thesis using Cons by auto
  next
    case (Some lb)
    then obtain v st1 where 1: "deleteForNetwork V info lb n st = (Ok v, st1)"
      "delete_all_lbs V info lbs ns st1 = (Ok u, st')"
      using Cons.prems by (auto simp: res_bind_Ok_iff)
    obtain x where x: "slb_Delete (env_K (le_env V)) lb (wk (ls_world st)) = (Ok x, wk (ls_world st1))"
      using deleteForNetwork_Ok [OF 1(1)] by blast
    note D = kernel_service.slb_Delete_Ok [OF k x]
    show ?thesis using Cons.IH [OF 1(2)] Some unfolding D by fastforce
  qed
qed simp

lemma unsubscribe_service_keeps:
  "lbs_of (unsubscribe_service s st) = lbs_of st" "ls_world (unsubscribe_service s st) = ls_world st"
  "lm_services (ls_m (unsubscribe_service s st)) = lm_services (ls_m st)"
  "on_mode (ls_subs (unsubscribe_service s st) i) = on_mode (ls_subs st i)"
  by (auto simp: unsubscribe_service_def call_unsubscriber_def Let_def lbs_of_def fun_eq_iff split: prod.splits option.splits)

text \<open>The result of a deletion, step by step.\<close>

lemma DeleteLoadBalancer_cases:
  assumes "DeleteLoadBalancer V s st = (r, st')"
  obtains "lbs_of st s = None" "st' = st" "r = Err (Errorf ''no load balancer found for service'')"
  | lbs st1 where "lbs_of st s = Some lbs" "lbs_of st1 = (lbs_of st)(s := None)" "ls_world st1 = ls_world st"
      "on_mode \<circ> ls_subs st1 = on_mode \<circ> ls_subs st" "st' = st1" "\<forall>u. r \<noteq> Ok u"
  | lbs st1 info r2 st2 where "lbs_of st s = Some lbs" "lbs_of st1 = (lbs_of st)(s := None)" "ls_world st1 = ls_world st"
      "on_mode \<circ> ls_subs st1 = on_mode \<circ> ls_subs st"
      "delete_all_lbs V info lbs (cm_Keys lbs) st1 = (r2, st2)" "lbs_of st' = lbs_of st2"
      "wk (ls_world st') = wk (ls_world st2)" "ls_subs st' = ls_subs st2" "\<forall>u. r = Ok u \<longrightarrow> r2 = Ok ()"
proof (cases "lbs_of st s")
  case None
  then have "r = Err (Errorf ''no load balancer found for service'')" "st' = st"
    using assms by (simp_all add: DeleteLoadBalancer_def lbs_of_def cm_TryRemove_def)
  then show ?thesis using that(1) [OF None] by blast
next
  case (Some lbs)
  let ?st0 = "unsubscribe_service s (upd_m (\<lambda>m. m\<lparr>lm_loadBalancers := cm_Remove (lm_loadBalancers m) s\<rparr>) st)"
  have t: "cm_TryRemove (lm_loadBalancers (ls_m st)) s = (Some lbs, cm_Remove (lm_loadBalancers (ls_m st)) s)"
    using Some by (simp add: cm_TryRemove_cases lbs_of_def)
  have l0: "lbs_of ?st0 = (lbs_of st)(s := None)"
    by (simp add: unsubscribe_service_keeps(1) fun_eq_iff) (simp add: lbs_of_def cm_Get_def cm_Remove_def)
  have w0: "ls_world ?st0 = ls_world st" by (simp add: unsubscribe_service_keeps(2))
  have m0: "on_mode \<circ> ls_subs ?st0 = on_mode \<circ> ls_subs st" by (simp add: fun_eq_iff unsubscribe_service_keeps(4))
  show ?thesis
  proof (cases "cm_Get (lm_services (ls_m ?st0)) s")
    case None
    then have "r = Err (Errorf ''no service found for ID'')" "st' = ?st0"
      using assms t by (simp_all add: DeleteLoadBalancer_def cm_TryRemove_def Let_def)
    then show ?thesis using that(2) [OF Some l0 w0 m0] by blast
  next
    case svc: (Some svc)
    let ?info = "service_GetInfo (ls_services ?st0 svc)"
    let ?st1 = "upd_m (\<lambda>m. m\<lparr>lm_services := cm_Remove (lm_services m) s\<rparr>) ?st0"
    have eq: "DeleteLoadBalancer V s st = res_bind (delete_all_lbs V ?info lbs (cm_Keys lbs) ?st1)
         (\<lambda>_ st. case wo_DeleteItem (env_E (le_env V)) (lm_data (ls_m st)) s (we (ls_world st)) of
            ((r, _), s1, e) \<Rightarrow> res_wrap ''failed to delete load balancer data for service''
                (r, st\<lparr>ls_m := (ls_m st)\<lparr>lm_data := s1\<rparr>, ls_world := (ls_world st)\<lparr>we := e\<rparr>\<rparr>))"
      using t svc by (simp add: DeleteLoadBalancer_def Let_def cm_TryRemove_def [of "lm_services _"] cm_Remove_def [of "lm_services _"])
    have l1: "lbs_of ?st1 = (lbs_of st)(s := None)" unfolding l0 [symmetric] by (simp add: lbs_of_def fun_eq_iff)
    obtain r2 st2 where d: "delete_all_lbs V ?info lbs (cm_Keys lbs) ?st1 = (r2, st2)" by force
    note th = that(3) [OF Some l1 _ _ d]
    show ?thesis
    proof (cases r2)
      case (Ok a)
      obtain r3 cs s1 e where i: "wo_DeleteItem (env_E (le_env V)) (lm_data (ls_m st2)) s (we (ls_world st2)) = ((r3, cs), s1, e)"
        by (metis surj_pair)
      have "st' = st2\<lparr>ls_m := (ls_m st2)\<lparr>lm_data := s1\<rparr>, ls_world := (ls_world st2)\<lparr>we := e\<rparr>\<rparr>"
        using assms eq d Ok i by (cases r3) auto
      then show ?thesis using th w0 m0 Ok by (simp add: lbs_of_def fun_eq_iff)
    qed (use assms eq d th w0 m0 in auto)
  qed
qed

lemma no_lbs_of: "no_lbs a b \<Longrightarrow> lbs_of b = lbs_of a \<and> ls_subs b = ls_subs a"
  using no_lbs_lookup(1) [of a b] by (simp add: no_lbs_def)

lemma DeleteLoadBalancer_lbs:
  assumes "DeleteLoadBalancer V s st = (r, st')"
  shows "lbs_of st' = (lbs_of st)(s := None)"
  using assms
proof (cases rule: DeleteLoadBalancer_cases)
  case (3 lbs st1 info r2 st2)
  have "no_lbs st1 st2" using delete_all_lbs_no_lbs [of st1 V info lbs "cm_Keys lbs"] 3(5) by simp
  then show ?thesis using no_lbs_of 3(2,6) by metis
qed auto

lemma DeleteLoadBalancer_kernel:
  assumes "kernel_service (env_K (le_env V)) view" "DeleteLoadBalancer V s st = (Ok u, st')" "lb_at st s n = Some lb"
  shows "kv_services (view (wk (ls_world st'))) (slb_fwmark lb) = None
    \<and> kv_rules (view (wk (ls_world st'))) \<inter> set (iptablesRules lb) = {}"
  using assms(2)
proof (cases rule: DeleteLoadBalancer_cases)
  case 1
  then show ?thesis by auto
next
  case (2 lbs st1)
  then show ?thesis by auto
next
  case (3 lbs st1 info r2 st2)
  have d: "delete_all_lbs V info lbs (cm_Keys lbs) st1 = (Ok (), st2)" using 3(5,9) by simp
  have g: "cm_Get lbs n = Some lb" using assms(3) 3(1) by (simp add: lb_at_def)
  then have "n \<in> set (cm_Keys lbs)" by (auto simp: cm_Get_def cm_Keys_def dest: map_of_SomeD intro: rev_image_eqI)
  then show ?thesis using delete_all_lbs_Ok [OF assms(1) d] g 3(7) by simp
qed


text \<open>
  A container in a flannel network and in a network of another driver: when its addresses are
  visited with the other network first, adding it fails and leaves the load balancers of its flannel
  networks without the new backend; removing it skips such a network.
\<close>

theorem other_network_stops_add:
  assumes "is_other (ls_m st) n" "lb_at st s n = None" "lbs_of st s = Some lbs"
  shows "addBackendIPsToLoadBalancer V s ((n, ip) # ips) st =
      (Err (Errorf ''no load balancer for network for service found. This is a bug''), st)
    \<and> removeBackendIPsFromLoadBalancer V s ((n, ip) # ips) st = removeBackendIPsFromLoadBalancer V s ips st"
  using assms by (simp add: addBackendIPsToLoadBalancer_def removeBackendIPsFromLoadBalancer_def)

text \<open>The subscriptions to changes of the endpoint mode: \<open>n\<close> handlers, each with one call.\<close>

definition mode_subs :: "('k, 'e, 'w) lbs \<Rightarrow> ref \<Rightarrow> nat \<Rightarrow> bool" where
  "mode_subs st service n \<longleftrightarrow> event_ok (on_mode (ls_subs st service)) \<and>
     map snd (handlers (on_mode (ls_subs st service))) = replicate n (\<lambda>x calls. calls @ [EndpointModeChanged x])"

lemma mode_subs_calls:
  assumes "mode_subs st service n"
  shows "lbs_calls st service (OnEndpointModeChanged x) = replicate n (EndpointModeChanged service)"
proof -
  have "map snd hs = replicate n (\<lambda>x calls. calls @ [EndpointModeChanged x]) \<Longrightarrow>
      foldl (\<lambda>s (_, handler). handler service s) acc hs = acc @ replicate n (EndpointModeChanged service)"
    for hs :: "(int \<times> (nat \<Rightarrow> lbs_call list \<Rightarrow> lbs_call list)) list" and acc
  proof (induction hs arbitrary: n acc)
    case (Cons h hs)
    then obtain m where m: "n = Suc m" by (cases n) auto
    have "foldl (\<lambda>s (_, handler). handler service s) (acc @ [EndpointModeChanged service]) hs =
        (acc @ [EndpointModeChanged service]) @ replicate m (EndpointModeChanged service)"
      by (rule Cons.IH) (use Cons.prems m in simp)
    moreover have "snd h = (\<lambda>x calls. calls @ [EndpointModeChanged x])" using Cons.prems m by simp
    ultimately show ?case using m by (simp add: split_def)
  qed simp
  from this [of "handlers (on_mode (ls_subs st service))" "[]"] assms show ?thesis
    by (simp add: lbs_calls_def Raise_def mode_subs_def)
qed

lemma subscribe_mode:
  assumes "mode_subs st service n"
  shows "mode_subs (subscribe_lb service st) service (Suc n)"
proof -
  let ?e = "on_mode (ls_subs st service)" and ?h = "\<lambda>x calls. calls @ [EndpointModeChanged x]"
  have "on_mode (ls_subs (subscribe_lb service st) service) = snd (Subscribe ?e ?h)"
    by (simp add: subscribe_lb_def Let_def split_def)
  moreover have "map snd (handlers (snd (Subscribe ?e ?h))) = replicate (Suc n) ?h"
    using assms Subscribe_handlers [of ?e ?h] by (simp add: mode_subs_def replicate_append_same [symmetric])
  ultimately show ?thesis using assms event_ok_Subscribe unfolding mode_subs_def by metis
qed

lemma createOrUpdate_subs:
  assumes "createOrUpdateLoadBalancer fuel V info svc st = Some (r, st')" "lo_Difference_law (le_Difference V)"
  shows "ls_subs st' = ls_subs st"
proof -
  have e: "ls_subs st1 = ls_subs st" if "ensure_lbs fuel V (svi_ID info) (svi_Networks info) (lbs_entered info svc st) = Some (r1, st1)" for r1 st1
    using ensure_lbs_Some [OF that] by (simp add: grown_def only_lbs_def lbs_entered_def Let_def set_lbs_def)
  have d: "ls_subs st2 = ls_subs st1" if "delete_lbs V info ds st1 = (r2, st2)" for ds st1 r2 st2
    using delete_lbs_Some [OF that] by (simp add: only_lbs_def)
  have u: "ls_subs st3 = ls_subs st2" if "update_frontends fuel V (svi_ID info) ex ipam acc st2 = Some (r3, st3)"
    for ex ipam acc st2 r3 st3
    using update_frontends_any [OF that] by (simp add: only_lbs_def)
  have c: "ls_subs (snd (store_frontends V s svc fips st)) = ls_subs st" for s fips and st :: "('a, 'b, 'c) lbs"
  proof -
    have "ls_subs (snd (res_bind (res_wrap m (r, st\<lparr>ls_m := (ls_m st)\<lparr>lm_data := s1\<rparr>, ls_world := w\<rparr>))
        (\<lambda>_ st. case g st of (x, evs) \<Rightarrow>
           (Ok (), st\<lparr>ls_services := (ls_services st)(svc := x), ls_raised := ls_raised st @ evs\<rparr>)))) = ls_subs st"
      for m s1 w g and r :: "unit res"
      by (cases r) (auto split: prod.splits)
    then show ?thesis by (auto simp: store_frontends_def split: prod.splits)
  qed
  from assms show ?thesis
  proof (cases rule: createOrUpdate_phases)
    case (1 r1)
    then show ?thesis using e by blast
  next
    case (2 u st1 r2)
    then show ?thesis using e d by metis
  next
    case (3 u1 st1 v st2 r3)
    then show ?thesis using e d u by metis
  next
    case (4 v1 st1 v st2 fips st3)
    have "ls_subs st3 = ls_subs st" using 4(1-3) e d u by metis
    then show ?thesis using c [of "svi_ID info" fips st3] 4(4) by simp
  qed
qed

text \<open>
  C40: Subscriptions to changes of the endpoint mode are never removed: raising the event makes one call
  per subscription, a deletion keeps all of them and each creation adds one. With every switch of a
  service to \<open>vip\<close>, where each call is a creation, their number doubles.
\<close>

theorem mode_subscriptions_grow:
  assumes "lo_Difference_law (le_Difference V)" "mode_subs st service n"
  shows "lbs_calls st service (OnEndpointModeChanged x) = replicate n (EndpointModeChanged service)
    \<and> (\<forall>s r st'. DeleteLoadBalancer V s st = (r, st') \<longrightarrow> mode_subs st' service n)
    \<and> (\<forall>u st'. CreateLoadBalancer fuel V service st = Some (Ok u, st') \<longrightarrow> mode_subs st' service (Suc n))"
proof (intro conjI allI impI)
  show "lbs_calls st service (OnEndpointModeChanged x) = replicate n (EndpointModeChanged service)"
    using mode_subs_calls [OF assms(2)] .
next
  fix s r st' assume "DeleteLoadBalancer V s st = (r, st')"
  then have "(on_mode \<circ> ls_subs st') service = (on_mode \<circ> ls_subs st) service"
  proof (cases rule: DeleteLoadBalancer_cases)
    case (3 lbs st1 info r2 st2)
    have "no_lbs st1 st2" using delete_all_lbs_no_lbs [of st1 V info lbs "cm_Keys lbs"] 3(5) by simp
    then show ?thesis using no_lbs_of 3(4,8) by (metis comp_apply)
  qed simp_all
  then show "mode_subs st' service n" using assms(2) by (simp add: mode_subs_def)
next
  fix u st' assume "CreateLoadBalancer fuel V service st = Some (Ok u, st')"
  then obtain v st1 where 1: "createOrUpdateLoadBalancer fuel V (service_GetInfo (ls_services st service)) service st = Some (Ok v, st1)"
    "st' = subscribe_lb service st1"
    by (auto simp: CreateLoadBalancer_def res_bind_Ok_iff split: option.splits)
  have "mode_subs st1 service n" using createOrUpdate_subs [OF 1(1) assms(1)] assms(2) by (simp add: mode_subs_def)
  then show "mode_subs st' service (Suc n)" unfolding 1(2) by (rule subscribe_mode)
qed

section \<open>Waiting\<close>

lemma hasMissingNetworks_iff:
  "hasMissingNetworks m s \<longleftrightarrow> (\<exists>n \<in> set (svc_networks s). \<not> is_flannel m n \<and> \<not> is_other m n)"
  by (auto simp: hasMissingNetworks_def service_GetInfo_def list_ex_iff)

inductive_cases waiter_stepE: "waiter_step s w w'"

text \<open>
  C38: A wake-up can be lost: a service waits for its last missing network; when the network is stored and
  announced between the waiter's test and its going to sleep, the waiter sleeps although no network is
  missing any more and no announcement is pending, and only a later change of some network can wake it.
\<close>

theorem wakeup_can_be_lost:
  assumes "hasMissingNetworks m s" "SetFlannelNetwork i n m = (Ok (), m')" "\<not> hasMissingNetworks m' s"
  shows "\<exists>w. (waiter_step s)\<^sup>*\<^sup>* \<lparr>wa_m = m, wa_waiter = Ready, wa_changer = Idle\<rparr> w
    \<and> wa_waiter w = Asleep \<and> wa_changer w = Idle \<and> \<not> hasMissingNetworks (wa_m w) s
    \<and> (\<forall>w'. waiter_step s w w' \<longrightarrow> wa_waiter w' = Asleep \<and> wa_changer w' = Changed)"
proof -
  define w0 where "w0 = \<lparr>wa_m = m, wa_waiter = Ready, wa_changer = Idle\<rparr>"
  define w1 where "w1 = w0\<lparr>wa_waiter := Decided True\<rparr>"
  define w2 where "w2 = w1\<lparr>wa_m := m', wa_changer := Changed\<rparr>"
  define w3 where "w3 = w2\<lparr>wa_changer := Idle\<rparr>"
  define w4 where "w4 = w3\<lparr>wa_waiter := Asleep\<rparr>"
  have "waiter_step s w0 w1" using waiter_step.test [of w0 s] assms(1) by (simp add: w0_def w1_def)
  moreover have "waiter_step s w1 w2"
    using waiter_step.store_flannel [of w1 i n m' s] assms(2) by (simp add: w0_def w1_def w2_def)
  moreover have "waiter_step s w2 w3"
    using waiter_step.broadcast [of w2 s] by (simp add: w0_def w1_def w2_def w3_def)
  moreover have "waiter_step s w3 w4"
    using waiter_step.sleep [of w3 s] by (simp add: w0_def w1_def w2_def w3_def w4_def)
  ultimately have "(waiter_step s)\<^sup>*\<^sup>* w0 w4" by (meson rtranclp.rtrancl_into_rtrancl rtranclp.rtrancl_refl)
  moreover have w4: "wa_waiter w4 = Asleep" "wa_changer w4 = Idle" "wa_m w4 = m'"
    by (simp_all add: w0_def w1_def w2_def w3_def w4_def)
  moreover have "wa_waiter w' = Asleep \<and> wa_changer w' = Changed" if "waiter_step s w4 w'" for w'
    using that w4(1,2) by (cases rule: waiter_stepE) auto
  ultimately show ?thesis using assms(3) unfolding w0_def by metis
qed

text \<open>A waiter that goes on has seen a state of the networks in which none was missing.\<close>

lemma waiter_Proceeds:
  assumes "(waiter_step s)\<^sup>*\<^sup>* w w'" "wa_waiter w = Ready" "wa_waiter w' = Proceeds \<or> wa_waiter w' = Decided False"
  shows "\<exists>w1. (waiter_step s)\<^sup>*\<^sup>* w w1 \<and> (waiter_step s)\<^sup>*\<^sup>* w1 w' \<and> \<not> hasMissingNetworks (wa_m w1) s"
  using assms(1,3)
proof (induction rule: rtranclp_induct)
  case base
  then show ?case using assms(2) by auto
next
  case (step y z)
  have "(wa_waiter y = Proceeds \<or> wa_waiter y = Decided False) \<or> \<not> hasMissingNetworks (wa_m y) s"
    using step.hyps(2) step.prems by (cases rule: waiter_step.cases) (auto split: if_splits)
  then show ?case using step by (meson rtranclp.rtrancl_into_rtrancl r_into_rtranclp)
qed

section \<open>All operations\<close>

text \<open>
  The steps of the manager: its own operations with whatever result, and changes that others make to
  services, networks, etcd, the kernel and the subscriptions. An update may use an older snapshot of the service.
\<close>

inductive lbs_step :: "('k, 'e, 'w) lbs_env \<Rightarrow> ('k, 'e, 'w) lbs \<Rightarrow> ('k, 'e, 'w) lbs \<Rightarrow> bool" for V where
  set_network: "SetFlannelNetwork i n (ls_m st) = (r, m) \<Longrightarrow> lbs_step V st (st\<lparr>ls_m := m\<rparr>)"
| register: "lbs_step V st (upd_m (RegisterOtherNetwork i) st)"
| delete_network: "lbs_DeleteNetwork i (ls_m st) = (r, m) \<Longrightarrow> lbs_step V st (st\<lparr>ls_m := m\<rparr>)"
| update: "createOrUpdateLoadBalancer fuel V info svc st = Some (r, st') \<Longrightarrow> lbs_step V st st'"
| create: "CreateLoadBalancer fuel V svc st = Some (r, st') \<Longrightarrow> lbs_step V st st'"
| add_backends: "addBackendIPsToLoadBalancer V s ips st = (r, st') \<Longrightarrow> lbs_step V st st'"
| remove_backends: "removeBackendIPsFromLoadBalancer V s ips st = (r, st') \<Longrightarrow> lbs_step V st st'"
| delete: "DeleteLoadBalancer V s st = (r, st') \<Longrightarrow> lbs_step V st st'"
| others: "lbs_step V st (st\<lparr>ls_networks := ns, ls_services := ss, ls_subs := us, ls_raised := evs, ls_world := w\<rparr>)"

lemma run_lb_ids:
  assumes "run_lb s n f st = (r, st')" "lb_at st s n = Some lb0" "\<And>k. same_ids lb0 (snd (fst (f k)))"
  shows "rel_option same_ids (lb_at st s' n') (lb_at st' s' n')"
proof -
  obtain lb k k' where 1: "f k = ((r, lb), k')"
    "\<And>s' n'. lb_at st' s' n' = (if s' = s \<and> n' = n then Some lb else lb_at st s' n')"
    using run_lb_at [OF assms(1,2)] by blast
  have "same_ids lb0 lb" using assms(3) [of k] 1(1) by simp
  then show ?thesis using 1(2) assms(2) by (auto simp: option.rel_refl)
qed

lemma rel_ids_trans:
  "rel_option same_ids a b \<Longrightarrow> rel_option same_ids b c \<Longrightarrow> rel_option same_ids a c"
  by (cases a; cases b; cases c) (auto simp: same_ids_def)

text \<open>One address of a container: the call for one network, if it has a load balancer, then the rest.\<close>

lemma backend_ids:
  assumes "res_bind (res_wrap m (run_lb s n f st)) (\<lambda>_. g) = (r, st')" "lb_at st s n = Some lb0"
    "\<And>k. same_ids lb0 (snd (fst (f k)))"
    "\<And>st r st'. g st = (r, st') \<Longrightarrow> \<forall>s n. rel_option same_ids (lb_at st s n) (lb_at st' s n)"
  shows "\<forall>s n. rel_option same_ids (lb_at st s n) (lb_at st' s n)"
proof -
  obtain r1 st1 where u: "run_lb s n f st = (r1, st1)" by force
  note 1 = run_lb_ids [OF u assms(2,3)]
  show ?thesis
  proof (cases r1)
    case (Ok a)
    then have "g st1 = (r, st')" using assms(1) u by simp
    from assms(4) [OF this] show ?thesis using 1 rel_ids_trans by blast
  qed (use assms(1) u 1 in auto)
qed

lemma add_backend_ips_ids:
  "add_backend_ips V s ips st = (r, st') \<Longrightarrow> \<forall>s n. rel_option same_ids (lb_at st s n) (lb_at st' s n)"
proof (induction ips arbitrary: st r st')
  case (Cons x ips)
  obtain n ip where x: "x = (n, ip)" by force
  show ?case
  proof (cases "lb_at st s n")
    case (Some lb)
    show ?thesis
      by (rule backend_ids [OF _ Some AddBackend_ids Cons.IH])
        (use Cons.prems Some x in auto)
  qed (use Cons.prems x in \<open>auto simp: option.rel_refl\<close>)
qed (simp add: option.rel_refl)

lemma remove_backend_ips_ids:
  "remove_backend_ips V s ips st = (r, st') \<Longrightarrow> \<forall>s n. rel_option same_ids (lb_at st s n) (lb_at st' s n)"
proof (induction ips arbitrary: st r st')
  case (Cons x ips)
  obtain n ip where x: "x = (n, ip)" by force
  show ?case
  proof (cases "lb_at st s n")
    case (Some lb)
    show ?thesis
      by (rule backend_ids [OF _ Some RemoveBackend_ids Cons.IH])
        (use Cons.prems Some x in auto)
  next
    case None
    show ?thesis
    proof (cases "is_other (ls_m st) n")
      case True
      then show ?thesis using Cons x None by auto
    qed (use Cons.prems x None in \<open>auto simp: option.rel_refl\<close>)
  qed
qed (simp add: option.rel_refl)

lemma lbs_step_wf:
  assumes "lbs_step V st st'" "kernel_service (env_K (le_env V)) view" "lo_Difference_law (le_Difference V)" "lb_wf st"
  shows "lb_wf st'"
  using assms(1)
proof cases
  case (update fuel info svc r)
  then show ?thesis using createOrUpdate_wf [OF assms(2,3,4)] by blast
next
  case (create fuel svc r)
  then obtain r1 st1 where 1: "createOrUpdateLoadBalancer fuel V (service_GetInfo (ls_services st svc)) svc st = Some (r1, st1)"
    by (auto simp: CreateLoadBalancer_def split: option.splits)
  have at: "lb_at (subscribe_lb svc st1) = lb_at st1"
    by (simp add: subscribe_lb_def Let_def split_def lb_at_def lbs_of_def fun_eq_iff)
  have "st' = st1 \<or> st' = subscribe_lb svc st1"
    using create 1 by (cases r1) (auto simp: CreateLoadBalancer_def)
  then show ?thesis using createOrUpdate_wf [OF assms(2,3,4) 1] same_lbs_wf [OF at] by auto
next
  case (add_backends s ips r)
  then have "\<forall>s n. rel_option same_ids (lb_at st s n) (lb_at st' s n)"
    using add_backend_ips_ids [of V s ips st r st']
    by (auto simp: addBackendIPsToLoadBalancer_def option.rel_refl split: option.splits)
  then show ?thesis using rel_ids_wf [OF assms(4)] by blast
next
  case (remove_backends s ips r)
  then have "\<forall>s n. rel_option same_ids (lb_at st s n) (lb_at st' s n)"
    using remove_backend_ips_ids [of V s ips st r st']
    by (auto simp: removeBackendIPsFromLoadBalancer_def option.rel_refl split: option.splits)
  then show ?thesis using rel_ids_wf [OF assms(4)] by blast
next
  case (delete s r)
  have "lbs_of st' = (lbs_of st)(s := None)" using DeleteLoadBalancer_lbs [OF delete] .
  then show ?thesis using assms(4) by (auto simp: lb_wf_def lb_at_def)
qed (use assms(4) in \<open>auto simp: lb_wf_def lb_at_def lbs_of_def SetFlannelNetwork_def lbs_DeleteNetwork_def
    RegisterOtherNetwork_def split: if_splits\<close>)

lemma NewServiceLbManagement_empty:
  "NewServiceLbManagement V c e = (Ok m, e') \<Longrightarrow> lm_loadBalancers m = NewConcurrentMap"
  by (auto simp: NewServiceLbManagement_def split: res.splits prod.splits)

text \<open>
  C14: Whatever happens to a new manager, with whatever errors, a load balancer is stored only under the
  service and the network it was made for, and it acts on the interface of this network.
\<close>

theorem load_balancers_in_place:
  assumes "kernel_service (env_K (le_env V)) view" "lo_Difference_law (le_Difference V)"
    "NewServiceLbManagement V c e = (Ok (ls_m st), e')" "(lbs_step V)\<^sup>*\<^sup>* st st'" "lb_at st' s n = Some lb"
  shows "slb_serviceID lb = s \<and> slb_dockerNetworkID lb = n \<and> l_Name (slb_link lb) = lb_getInterfaceName n"
proof -
  have "lb_wf st" using NewServiceLbManagement_empty [OF assms(3)]
    by (simp add: lb_wf_def lb_at_def lbs_of_def NewConcurrentMap_def cm_Get_def)
  with assms(4) have "lb_wf st'"
    by (induction rule: rtranclp_induct) (auto intro: lbs_step_wf [OF _ assms(1,2)])
  then show ?thesis using assms(5) unfolding lb_wf_def by blast
qed

section \<open>Stale data\<close>

definition lo_Some_law :: "(string list \<Rightarrow> string list \<Rightarrow> bool) \<Rightarrow> bool" where
  "lo_Some_law f \<longleftrightarrow> (\<forall>xs ys. f xs ys = list_ex (\<lambda>y. y \<in> set xs) ys)"

definition service_of_key :: "string \<Rightarrow> string \<Rightarrow> string" where
  "service_of_key p k = TrimLeft CHR ''/'' (TrimPrefix k p)"

context etcd_reliable
begin

lemma delete_stale_data_run:
  assumes "lo_Some_law S"
  shows "\<exists>e'. delete_stale_data E S p ex kvs e = (Ok (), e')
    \<and> view e' = (\<lambda>x. if x \<in> kv_Key ` set kvs \<and> service_of_key p x \<notin> set ex then None else view e x)"
proof (induction kvs arbitrary: e)
  case (Cons kv kvs)
  show ?case
  proof (cases "service_of_key p (kv_Key kv) \<in> set ex")
    case True
    then have "(\<lambda>x. if x \<in> kv_Key ` set (kv # kvs) \<and> service_of_key p x \<notin> set ex then None else view e x) =
        (\<lambda>x. if x \<in> kv_Key ` set kvs \<and> service_of_key p x \<notin> set ex then None else view e x)" by auto
    moreover have "delete_stale_data E S p ex (kv # kvs) e = delete_stale_data E S p ex kvs e"
      using True assms by (simp add: lo_Some_law_def service_of_key_def)
    ultimately show ?thesis using Cons.IH [of e] by simp
  next
    case False
    obtain u e1 where d: "Delete E (kv_Key kv) e = (Ok u, e1)" using Delete_ok by blast
    have v: "view e1 = (view e)(kv_Key kv := None)" using Delete_Ok [OF d] .
    obtain e' where e': "delete_stale_data E S p ex kvs e1 = (Ok (), e')"
      "view e' = (\<lambda>x. if x \<in> kv_Key ` set kvs \<and> service_of_key p x \<notin> set ex then None else view e1 x)"
      using Cons.IH by blast
    have "delete_stale_data E S p ex (kv # kvs) e = (Ok (), e')"
      using False d e'(1) assms by (simp add: lo_Some_law_def service_of_key_def)
    moreover have "view e' = (\<lambda>x. if x \<in> kv_Key ` set (kv # kvs) \<and> service_of_key p x \<notin> set ex then None else view e x)"
      using e'(2) v False by (auto simp: fun_eq_iff)
    ultimately show ?thesis by blast
  qed
qed simp

lemma cleanup_data_run:
  assumes "lo_Some_law S" "cleanup_data E S p ex e = (r, e')"
  shows "r = Ok () \<and> view e' = (\<lambda>x. if HasPrefix x p \<and> service_of_key p x \<notin> set ex then None else view e x)"
proof -
  let ?fn = "\<lambda>e. res_bind (res_wrap ''error retrieving existing networks data from etcd'' (GetPrefix E p e))
         (\<lambda>kvs e. delete_stale_data E S p ex kvs e)"
  obtain e1 e2 r1 where w: "view e1 = view e" "?fn e1 = (r1, e2)" "view e' = view e2" "r1 = r"
    using WithConnection_run [OF assms(2) [unfolded cleanup_data_def]] by metis
  obtain kvs e3 where g: "GetPrefix E p e1 = (Ok kvs, e3)" using GetPrefix_ok by blast
  have v3: "view e3 = view e" using GetPrefix_view [of p e1] g w(1) by simp
  have l: "kv_listing (view e) p kvs" using GetPrefix_Ok [OF g] w(1) by simp
  obtain e4 where d: "delete_stale_data E S p ex kvs e3 = (Ok (), e4)"
    "view e4 = (\<lambda>x. if x \<in> kv_Key ` set kvs \<and> service_of_key p x \<notin> set ex then None else view e3 x)"
    using delete_stale_data_run [OF assms(1)] by blast
  have e2: "r1 = Ok ()" "e2 = e4" using w(2) g d(1) by auto
  have key: "x \<in> kv_Key ` set kvs \<longleftrightarrow> view e x \<noteq> None \<and> HasPrefix x p" for x
  proof
    assume "x \<in> kv_Key ` set kvs"
    then obtain kv where kv: "kv \<in> set kvs" "x = kv_Key kv" by blast
    then have "\<lparr>kv_Key = x, kv_Value = kv_Value kv\<rparr> \<in> set kvs" by (metis (full_types) KeyValue.surjective unit.exhaust)
    then show "view e x \<noteq> None \<and> HasPrefix x p" using l unfolding kv_listing_def by blast
  next
    assume "view e x \<noteq> None \<and> HasPrefix x p"
    then obtain v where "\<lparr>kv_Key = x, kv_Value = v\<rparr> \<in> set kvs" using l unfolding kv_listing_def by blast
    then show "x \<in> kv_Key ` set kvs" by force
  qed
  show ?thesis using w(3,4) e2 d(2) v3 by (auto simp: fun_eq_iff key)
qed

end

text \<open>
  The start-up removes from etcd the data of this host's load balancers for exactly the services that
  do not exist; what it does to the kernel does not depend on it.
\<close>

theorem cleanup_data_exact:
  assumes "etcd_reliable E view" "lo_Some_law S" "cleanup_data E S p existing e = (r, e')"
  shows "r = Ok () \<and> view e' = (\<lambda>x. if HasPrefix x p \<and> service_of_key p x \<notin> set existing then None else view e x)"
  by (rule etcd_reliable.cleanup_data_run [OF assms])

section \<open>Examples\<close>

definition data_codec :: "loadBalancerData codec" where
  "data_codec = codec_of
     (\<lambda>d. case FrontendIPs d of None \<Rightarrow> [] | Some m \<Rightarrow> [enc_map enc_ip m])
     (\<lambda>f. \<lparr>FrontendIPs = (if f = [] then None else Some (dec_map dec_ip (f ! 0)))\<rparr>)"

definition demo_lbs_env :: "(kmem, mem, hmem) lbs_env" where
  "demo_lbs_env = \<lparr>le_env = demo_env, le_GetServices = \<lambda>k. (Ok (map snd (km_services k)), k), le_data = data_codec,
     le_fmt_time = \<lambda>_. [], le_rnd = \<lambda>_ _. 0, le_rand_Read = \<lambda>_. None, le_Filter = filter,
     le_Difference = lo_Difference_ref, le_Some = \<lambda>xs ys. list_ex (\<lambda>y. y \<in> set xs) ys, le_Hostname = Ok ''h''\<rparr>"

definition demo_lb_client :: etcdClient where
  "demo_lb_client = NewEtcdClient [] 5 ''/lb''"

definition demo_lbs_etcd :: mem where
  "demo_lbs_etcd = [(''/lb/h/data/s'', the (Marshal data_codec \<lparr>FrontendIPs = Some [(''n'', [10, 0, 0, 9])]\<rparr>))]"

definition demo_manager :: serviceLbManagement where
  "demo_manager = the_ok (fst (NewServiceLbManagement demo_lbs_env demo_lb_client demo_lbs_etcd))"

definition demo_vip_service :: service where
  "demo_vip_service = \<lparr>svc_id = ''s'', svc_name = ''web'', endpointMode = ''vip'', svc_networks = [''n'', ''o''],
     vips = Some [], ipamVIPs = Some [(''n'', [10, 0, 0, 5]), (''o'', [10, 1, 0, 5])], svc_containers = []\<rparr>"

definition demo_subs :: service_subs where
  "demo_subs = \<lparr>on_networks = NewEvent, on_added = NewEvent, on_removed = NewEvent, on_mode = NewEvent\<rparr>"

definition demo_lbs :: "(kmem, mem, hmem) lbs" where
  "demo_lbs = \<lparr>ls_m = (RegisterOtherNetwork ''o'' (snd (SetFlannelNetwork ''n'' 0 demo_manager)))
       \<lparr>lm_loadBalancers := cm_Set NewConcurrentMap ''s'' (cm_Set NewConcurrentMap ''n'' demo_slb)\<rparr>,
     ls_networks = (\<lambda>_. demo_net), ls_services = (\<lambda>_. demo_vip_service), ls_subs = (\<lambda>_. demo_subs), ls_raised = [],
     ls_world = (demo_world BootstrapDone)\<lparr>we := demo_lbs_etcd\<rparr>\<rparr>"

lemma demo_lbs_env_simps [simp]:
  "le_env demo_lbs_env = demo_env" "le_Difference demo_lbs_env = lo_Difference_ref" "le_data demo_lbs_env = data_codec"
  "le_rand_Read demo_lbs_env = (\<lambda>_. None)"
  by (simp_all add: demo_lbs_env_def)



lemma other_network_stops_add_witness:
  "addBackendIPsToLoadBalancer demo_lbs_env ''s'' [(''o'', [10, 1, 0, 7]), (''n'', [10, 0, 0, 7])] demo_lbs =
     (Err (Errorf ''no load balancer for network for service found. This is a bug''), demo_lbs)"
proof -
  have o: "is_other (ls_m demo_lbs) ''o''" by code_simp
  have l: "lb_at demo_lbs ''s'' ''o'' = None" by (simp add: lb_at_def lbs_of_def demo_lbs_def cm_Get_def cm_Set_def NewConcurrentMap_def)
  have s: "lbs_of demo_lbs ''s'' = Some (cm_Set NewConcurrentMap ''n'' demo_slb)"
    by (simp add: lbs_of_def demo_lbs_def cm_Get_def cm_Set_def NewConcurrentMap_def)
  show ?thesis using other_network_stops_add [OF o l s, of demo_lbs_env "[10, 1, 0, 7]" "[(''n'', [10, 0, 0, 7])]"] by blast
qed

lemma mode_subscriptions_grow_witness:
  "\<exists>st :: (kmem, mem, hmem) lbs. lbs_calls st 0 (OnEndpointModeChanged demo_vip_service) = [EndpointModeChanged 0, EndpointModeChanged 0]"
proof -
  have "mode_subs demo_lbs 0 0" by (simp add: mode_subs_def demo_lbs_def demo_subs_def event_ok_NewEvent) (simp add: NewEvent_def)
  then have m: "mode_subs (subscribe_lb 0 (subscribe_lb 0 demo_lbs)) 0 2"
    using subscribe_mode [of demo_lbs 0 0] subscribe_mode [of "subscribe_lb 0 demo_lbs" 0 1] by (simp add: numeral_2_eq_2)
  have law: "lo_Difference_law (le_Difference demo_lbs_env)" by (simp add: lo_Difference_ref_law)
  show ?thesis using mode_subscriptions_grow [OF law m, of demo_vip_service 1] by (auto simp: numeral_2_eq_2)
qed

lemma wakeup_can_be_lost_witness:
  "\<exists>w :: waiting. wa_waiter w = Asleep \<and> wa_changer w = Idle \<and> \<not> hasMissingNetworks (wa_m w) (demo_vip_service\<lparr>svc_networks := [''n'']\<rparr>)"
proof -
  let ?s = "demo_vip_service\<lparr>svc_networks := [''n'']\<rparr>"
  have m: "hasMissingNetworks demo_manager ?s" by code_simp
  have n: "\<not> hasMissingNetworks (snd (SetFlannelNetwork ''n'' 0 demo_manager)) ?s" by code_simp
  have s: "SetFlannelNetwork ''n'' 0 demo_manager = (Ok (), snd (SetFlannelNetwork ''n'' 0 demo_manager))"
    by (simp add: SetFlannelNetwork_def)
  show ?thesis using wakeup_can_be_lost [OF m s n] by blast
qed

text \<open>A new manager that gets to know a network and then creates the load balancer of a service in it.\<close>

lemma demo_ensure:
  assumes "lm_flannelNetworks (ls_m st) = cm_Set (lm_flannelNetworks demo_manager) ''n'' 0"
    "lm_fwmarks (ls_m st) = lm_fwmarks demo_manager" "ls_networks st = (\<lambda>_. demo_net)"
    "wk (ls_world st) = kmem_empty" "stored_mark (lm_fwmarks demo_manager) (map_of (we (ls_world st))) ''s'' ''n'' = Some 7"
  shows "\<exists>st'. ensure_lbs 1 demo_lbs_env ''s'' [''n''] (set_lbs ''s'' NewConcurrentMap st) = Some (Ok (), st')"
proof -
  let ?st = "set_lbs ''s'' NewConcurrentMap st"
  have st: "ls_networks ?st = (\<lambda>_. demo_net)" "wk (ls_world ?st) = kmem_empty" "ls_world ?st = ls_world st"
    "lm_flannelNetworks (ls_m ?st) = cm_Set (lm_flannelNetworks demo_manager) ''n'' 0"
    "lm_fwmarks (ls_m ?st) = lm_fwmarks demo_manager"
    using assms by (simp_all add: set_lbs_def)
  have "case EnsureInterface mem_kernel (lb_getInterfaceName ''n'') ''dummy'' (fi_MTU (network_GetInfo demo_net)) True kmem_empty
      of (Ok _, _) \<Rightarrow> True | _ \<Rightarrow> False" by code_simp
  then obtain link k where l: "EnsureInterface mem_kernel (lb_getInterfaceName ''n'') ''dummy''
      (fi_MTU (network_GetInfo demo_net)) True kmem_empty = (Ok link, k)" by (auto split: prod.splits res.splits)
  let ?st1 = "?st\<lparr>ls_world := (ls_world ?st)\<lparr>wk := k\<rparr>\<rparr>"
  have k: "lbs_kernel (EnsureInterface (env_K (le_env demo_lbs_env)) (lb_getInterfaceName ''n'') ''dummy''
      (fi_MTU (network_GetInfo (ls_networks ?st 0))) True) ?st = (Ok link, ?st1)"
    using l st by (simp add: lbs_kernel_def in_kernel_def)
  obtain e' where g: "fwmarks_Get 1 mem_etcd (\<lambda>_. None) (lm_fwmarks demo_manager) ''s'' ''n'' (we (ls_world st)) = Some (Ok 7, e')"
    using mem.fwmarks_Get_run [of 0 "\<lambda>_. None" "lm_fwmarks demo_manager" "''s''" "''n''" "we (ls_world st)"] assms(5) by auto
  have n: "lb_at ?st ''s'' ''n'' = None" by (simp add: lb_at_def NewConcurrentMap_def cm_Get_def)
  have "\<exists>st'. try_add_lb 1 demo_lbs_env ''s'' ''n'' link ?st1 = Some (Ok (), st')"
    using n g st by (simp add: try_add_lb_def)
  then show ?thesis using k st by (auto simp: cm_Get_def cm_Set_def)
qed

lemma load_balancers_in_place_witness:
  "\<exists>st st' lb. NewServiceLbManagement demo_lbs_env demo_lb_client demo_lbs_etcd = (Ok (ls_m st), demo_lbs_etcd)
    \<and> (lbs_step demo_lbs_env)\<^sup>*\<^sup>* st st' \<and> lb_at st' ''s'' ''n'' = Some lb \<and> l_Name (slb_link lb) = ''lbf_n''"
proof -
  let ?V = demo_lbs_env and ?c = "lm_fwmarks demo_manager"
  let ?info = "(service_GetInfo demo_vip_service)\<lparr>svi_Networks := [''n''], svi_IpamVIPs := None\<rparr>"
  let ?etcd = "[(fwmarkServiceKey ?c ''n'' ''s'', format_mark 7)]"
  define st where "st = demo_lbs\<lparr>ls_m := demo_manager, ls_world := (demo_world BootstrapDone)\<lparr>we := ?etcd\<rparr>\<rparr>"
  define st1 where "st1 = st\<lparr>ls_m := snd (SetFlannelNetwork ''n'' 0 demo_manager)\<rparr>"
  have "NewServiceLbManagement ?V demo_lb_client demo_lbs_etcd = (Ok demo_manager, demo_lbs_etcd)" by code_simp
  then have new: "NewServiceLbManagement ?V demo_lb_client demo_lbs_etcd = (Ok (ls_m st), demo_lbs_etcd)"
    by (simp add: st_def)
  have step1: "lbs_step ?V st st1"
    unfolding st1_def by (rule lbs_step.set_network [of "''n''" 0 _ "Ok ()"]) (simp add: SetFlannelNetwork_def st_def)
  have law: "lo_Difference_law (le_Difference ?V)" by (simp add: lo_Difference_ref_law)
  have id: "svi_ID ?info = ''s''" by (simp add: service_GetInfo_def demo_vip_service_def)
  let ?st2 = "upd_m (\<lambda>m. m\<lparr>lm_services := cm_Set (lm_services m) ''s'' 0\<rparr>) st1"
  have empty: "lm_loadBalancers demo_manager = NewConcurrentMap" by code_simp
  have none: "lbs_of ?st2 ''s'' = None"
    by (simp add: lbs_of_def st1_def SetFlannelNetwork_def empty NewConcurrentMap_def cm_Get_def)
  then have entered: "lbs_entered ?info 0 st1 = set_lbs ''s'' NewConcurrentMap ?st2"
    unfolding lbs_entered_def id Let_def by simp
  have "\<exists>st3. ensure_lbs 1 ?V ''s'' [''n''] (set_lbs ''s'' NewConcurrentMap ?st2) = Some (Ok (), st3)"
    by (rule demo_ensure) (simp_all add: st1_def st_def SetFlannelNetwork_def demo_world_def demo_lbs_def stored_mark_def)
  then obtain st3 where e: "ensure_lbs 1 ?V ''s'' [''n''] (lbs_entered ?info 0 st1) = Some (Ok (), st3)"
    unfolding entered by blast
  have keys: "cm_Keys (the (lbs_of (lbs_entered ?info 0 st1) (svi_ID ?info))) = []"
    unfolding entered id by (simp add: NewConcurrentMap_def cm_Keys_def)
  have up: "createOrUpdateLoadBalancer 1 ?V ?info 0 st1 = Some (store_frontends ?V ''s'' 0 [] st3)"
    unfolding createOrUpdate_eq [OF law] keys using e id by simp
  obtain r st' where r: "store_frontends ?V ''s'' 0 [] st3 = (r, st')" by force
  have "has_lb st3 ''s'' ''n''"
  proof -
    have "is_flannel (ls_m (lbs_entered ?info 0 st1)) ''n''"
      unfolding lbs_entered_simps by (simp add: st1_def SetFlannelNetwork_def is_flannel_def cm_Get_def cm_Set_def)
    then show ?thesis using ensure_lbs_Some [OF e] lbs_entered_simps(2) [of ?info 0 st1] unfolding id by simp
  qed
  then obtain lb where lb: "lb_at st' ''s'' ''n'' = Some lb"
    using store_frontends_at [of ?V "''s''" 0 "[]" st3] r by (auto simp: has_lb_def)
  have "lbs_step ?V st1 st'" by (rule lbs_step.update [OF up [unfolded r]])
  then have run: "(lbs_step ?V)\<^sup>*\<^sup>* st st'" using step1 by (meson rtranclp.rtrancl_into_rtrancl rtranclp.rtrancl_refl)
  have k: "kernel_service (env_K (le_env ?V)) mem_kview" using mem_kernel.kernel_service_axioms by simp
  have "l_Name (slb_link lb) = lb_getInterfaceName ''n''"
    using load_balancers_in_place [OF k law new run lb] by blast
  moreover have "lb_getInterfaceName ''n'' = ''lbf_n''" by code_simp
  ultimately show ?thesis using new run lb by metis
qed

end
