(* ===== verification/Dns_Server.thy ===== *)
theory Dns_Server
  imports Dns_Resolver Flannel_Network
begin

text \<open>
  \<open>plugin/pkg/dns/server.go\<close>: the name server that the plugin runs inside the network namespace of a
  container. Sockets, namespaces, files, timers and the iptables of the namespace are the record
  \<open>sandbox\<close>; the messages and the client of the package \<open>dns\<close> are the record \<open>dns_lib\<close>. Loops that
  wait have fuel. Times are in nanoseconds.
\<close>

section \<open>The environment\<close>

text \<open>
  \<open>CtxErr\<close> is the error of a context that is done; a listener is a number, and comes with the port it got.
\<close>

record 'w sandbox =
  sb_NewIptables :: "'w \<Rightarrow> unit res \<times> 'w"
  sb_ChainExists :: "string \<Rightarrow> string \<Rightarrow> 'w \<Rightarrow> bool res \<times> 'w"
  sb_NewChain :: "string \<Rightarrow> string \<Rightarrow> 'w \<Rightarrow> unit res \<times> 'w"
  sb_Insert :: "string \<Rightarrow> string \<Rightarrow> int \<Rightarrow> string list \<Rightarrow> 'w \<Rightarrow> unit res \<times> 'w"
  sb_List :: "string \<Rightarrow> string \<Rightarrow> 'w \<Rightarrow> string list res \<times> 'w"
  sb_Delete :: "string \<Rightarrow> string \<Rightarrow> string list \<Rightarrow> 'w \<Rightarrow> unit res \<times> 'w"
  CtxErr :: "'w \<Rightarrow> goerr option \<times> 'w"
  Now :: "'w \<Rightarrow> int \<times> 'w"
  Sleep :: "int \<Rightarrow> 'w \<Rightarrow> 'w"
  netns_GetFromPath :: "string \<Rightarrow> 'w \<Rightarrow> int res \<times> 'w"
  netns_Set :: "int \<Rightarrow> 'w \<Rightarrow> unit res \<times> 'w"
  netns_Close :: "int \<Rightarrow> 'w \<Rightarrow> 'w"
  ListenPacket :: "string \<Rightarrow> string \<Rightarrow> 'w \<Rightarrow> (int \<times> int) res \<times> 'w"
  Listen :: "string \<Rightarrow> string \<Rightarrow> 'w \<Rightarrow> (int \<times> int) res \<times> 'w"
  CloseListener :: "int \<Rightarrow> 'w \<Rightarrow> 'w"
  ActivateAndServe :: "int \<Rightarrow> 'w \<Rightarrow> 'w"
  ShutdownContext :: "int \<Rightarrow> 'w \<Rightarrow> unit res \<times> 'w"
  sb_LinkList :: "'w \<Rightarrow> string list res \<times> 'w"
  sb_AddrList :: "string \<Rightarrow> 'w \<Rightarrow> net_ip list res \<times> 'w"
  WriteFile :: "string \<Rightarrow> 'w \<Rightarrow> unit res \<times> 'w"

definition millis :: "int \<Rightarrow> int" where
  "millis n = n * 1000000"

section \<open>State\<close>

record nameserver =
  ns_networkNamespace :: string
  ns_portTCP :: int
  ns_portUDP :: int
  ns_listenIP :: string
  ns_tcpServer :: "int option"
  ns_udpServer :: "int option"
  ns_validNetworkIDs :: "(string, unit) ConcurrentMap"
  ns_isHookAvailable :: bool
  ns_readyFile :: string
  ns_initManager :: InitManager

definition SandboxesPath :: string where
  "SandboxesPath = ''/hostfs/var/run/flannel-np/sandboxes''"

definition ReadyPath :: string where
  "ReadyPath = ''/hostfs/var/run/flannel-np/ready''"

definition adjustNamespacePath :: "string \<Rightarrow> string" where
  "adjustNamespacePath namespacePath =
     (if HasPrefix namespacePath ''/hostfs'' then namespacePath else ''/hostfs'' @ namespacePath)"

text \<open>\<open>filepath.Join\<close> of a clean absolute directory and an element without a slash.\<close>

definition path_Join :: "string \<Rightarrow> string \<Rightarrow> string" where
  "path_Join dir e =
     (if e = [] \<or> e = ''.'' then dir
      else if e = ''..'' then TrimRight CHR ''/'' (rev (dropWhile (\<lambda>c. c \<noteq> CHR ''/'') (rev dir)))
      else dir @ ''/'' @ e)"

definition NewNameserver :: "'w sandbox \<Rightarrow> string \<Rightarrow> bool \<Rightarrow> 'w \<Rightarrow> nameserver res \<times> 'w" where
  "NewNameserver H networkNamespace isHookAvailable w =
     (let n = \<lparr>ns_networkNamespace = adjustNamespacePath networkNamespace, ns_portTCP = 0, ns_portUDP = 0,
               ns_listenIP = ''127.0.0.33'', ns_tcpServer = None, ns_udpServer = None,
               ns_validNetworkIDs = NewConcurrentMap, ns_isHookAvailable = isHookAvailable, ns_readyFile = [],
               ns_initManager = NewInitManager\<rparr>
      in if isHookAvailable
         then let namespaceKey = last (split_on CHR ''/'' networkNamespace)
              in res_bind (res_wrap ''Error creating sandbox file'' (WriteFile H (path_Join SandboxesPath namespaceKey) w))
                   (\<lambda>_ w. (Ok (n\<lparr>ns_readyFile := path_Join ReadyPath namespaceKey\<rparr>), w))
         else (Ok n, w))"

definition AddValidNetworkID :: "string \<Rightarrow> nameserver \<Rightarrow> nameserver" where
  "AddValidNetworkID validNetworkID n = n\<lparr>ns_validNetworkIDs := cm_Set (ns_validNetworkIDs n) validNetworkID ()\<rparr>"

definition RemoveValidNetworkID :: "string \<Rightarrow> nameserver \<Rightarrow> nameserver" where
  "RemoveValidNetworkID validNetworkID n = n\<lparr>ns_validNetworkIDs := cm_Remove (ns_validNetworkIDs n) validNetworkID\<rparr>"

section \<open>Answering queries\<close>

record dns_question =
  q_Name :: string
  q_Qtype :: nat

text \<open>A message of the package \<open>dns\<close>; \<open>'r\<close> are resource records, \<open>'h\<close> the rest of a message.\<close>

record ('r, 'h) dns_msg =
  m_Question :: "dns_question list"
  m_Answer :: "'r list"
  m_Ns :: "'r list"
  m_Extra :: "'r list"
  m_Authoritative :: bool
  m_RecursionAvailable :: bool
  m_rest :: 'h

record ('r, 'h, 'w) dns_lib =
  TypeA :: nat
  TypePTR :: nat
  MinMsgSize :: int
  MaxMsgSize :: int
  RcodeServerFailure :: nat
  zero_msg :: "('r, 'h) dns_msg"
  rr_of :: "dns_A \<Rightarrow> 'r"
  SetReply :: "('r, 'h) dns_msg \<Rightarrow> ('r, 'h) dns_msg \<Rightarrow> ('r, 'h) dns_msg"
  SetRcode :: "('r, 'h) dns_msg \<Rightarrow> ('r, 'h) dns_msg \<Rightarrow> nat \<Rightarrow> ('r, 'h) dns_msg"
  Truncate :: "int \<Rightarrow> ('r, 'h) dns_msg \<Rightarrow> ('r, 'h) dns_msg"
  IsEdns0 :: "('r, 'h) dns_msg \<Rightarrow> int option"
  Exchange :: "string \<Rightarrow> ('r, 'h) dns_msg \<Rightarrow> string \<Rightarrow> 'w \<Rightarrow> ('r, 'h) dns_msg res \<times> 'w"
  WriteMsg :: "('r, 'h) dns_msg \<Rightarrow> 'w \<Rightarrow> unit res \<times> 'w"

text \<open>The size to which an answer is truncated; \<open>IsEdns0\<close> gives the size that the client announces.\<close>

definition max_size :: "('r, 'h, 'w) dns_lib \<Rightarrow> string \<Rightarrow> ('r, 'h) dns_msg \<Rightarrow> int" where
  "max_size D network r =
     (if network = ''tcp'' then MaxMsgSize D
      else case IsEdns0 D r of
             Some udpsize \<Rightarrow> if udpsize > MinMsgSize D then udpsize else MinMsgSize D
           | None \<Rightarrow> MinMsgSize D)"

definition forward_query :: "('r, 'h, 'w) dns_lib \<Rightarrow> ('r, 'h) dns_msg \<Rightarrow> 'w \<Rightarrow> ('r, 'h) dns_msg res \<times> 'w" where
  "forward_query D r w =
     (case Exchange D ''udp'' r ''8.8.4.4:53'' w of
        (Ok answer, w) \<Rightarrow> (Ok answer, w)
      | (Err _, w) \<Rightarrow> Exchange D ''tcp'' r ''8.8.4.4:53'' w
      | (Panic, w) \<Rightarrow> (Panic, w))"

text \<open>The answers to a question that the resolver knows.\<close>

definition local_answers ::
  "('r, 'h, 'w) dns_lib \<Rightarrow> dns_pkgs \<Rightarrow> slice_sort \<Rightarrow> service_heap \<Rightarrow> resolver \<Rightarrow> string list \<Rightarrow> dns_question \<Rightarrow> 'r list"
where
  "local_answers D L pdq h rs valid q =
     (if q_Qtype q = TypeA D then map (rr_of D) (ResolveName L pdq h rs (q_Name q) valid)
      else if q_Qtype q = TypePTR D then map (rr_of D) (ResolveIP rs (q_Name q) valid)
      else [])"

fun serve_questions ::
  "('r, 'h, 'w) dns_lib \<Rightarrow> (dns_question \<Rightarrow> 'r list) \<Rightarrow> string \<Rightarrow> ('r, 'h) dns_msg \<Rightarrow> dns_question list \<Rightarrow>
   ('r, 'h) dns_msg \<Rightarrow> 'w \<Rightarrow> ('r, 'h) dns_msg res \<times> 'w"
where
  "serve_questions D answers network r [] msg w = (Ok msg, w)"
| "serve_questions D answers network r (q # qs) msg w =
     (let msg = msg\<lparr>m_Answer := m_Answer msg @ answers q\<rparr>
      in if m_Answer msg = []
         then (case forward_query D r w of
                 (Ok answer, w) \<Rightarrow>
                   serve_questions D answers network r qs
                     (msg\<lparr>m_Answer := m_Answer msg @ m_Answer answer, m_Ns := m_Ns msg @ m_Ns answer,
                          m_Extra := m_Extra msg @ m_Extra answer\<rparr>) w
               | (Err _, w) \<Rightarrow> (Ok (SetRcode D msg r (RcodeServerFailure D)), w)
               | (Panic, w) \<Rightarrow> (Panic, w))
         else serve_questions D answers network r qs (Truncate D (max_size D network r) msg) w)"

text \<open>A failed write is logged.\<close>

definition send_reply :: "('r, 'h, 'w) dns_lib \<Rightarrow> ('r, 'h) dns_msg \<Rightarrow> 'w \<Rightarrow> unit res \<times> 'w" where
  "send_reply D msg w = (case WriteMsg D msg w of (Panic, w) \<Rightarrow> (Panic, w) | (_, w) \<Rightarrow> (Ok (), w))"

definition ServeDNS ::
  "('r, 'h, 'w) dns_lib \<Rightarrow> dns_pkgs \<Rightarrow> slice_sort \<Rightarrow> service_heap \<Rightarrow> resolver \<Rightarrow> nameserver \<Rightarrow> string \<Rightarrow>
   ('r, 'h) dns_msg \<Rightarrow> 'w \<Rightarrow> unit res \<times> 'w"
where
  "ServeDNS D L pdq h rs n network r w =
     (let msg = (SetReply D (zero_msg D) r)\<lparr>m_Authoritative := False, m_RecursionAvailable := True\<rparr>
      in res_bind (serve_questions D (local_answers D L pdq h rs (cm_Keys (ns_validNetworkIDs n))) network r
             (m_Question r) msg w)
           (\<lambda>msg w. send_reply D msg w))"

section \<open>The namespace\<close>

fun setNamespace_loop ::
  "nat \<Rightarrow> 'w sandbox \<Rightarrow> string \<Rightarrow> int \<Rightarrow> int \<Rightarrow> 'w \<Rightarrow> (unit res \<times> 'w) option"
where
  "setNamespace_loop 0 H path deadline delay w = None"
| "setNamespace_loop (Suc fuel) H path deadline delay w =
     (case (case netns_GetFromPath H path w of
              (Ok targetNS, w) \<Rightarrow> (case netns_Set H targetNS w of (r, w) \<Rightarrow> (r, netns_Close H targetNS w))
            | (Err er, w) \<Rightarrow> (Err er, w)
            | (Panic, w) \<Rightarrow> (Panic, w)) of
        (Ok _, w) \<Rightarrow> Some (Ok (), w)
      | (Panic, w) \<Rightarrow> Some (Panic, w)
      | (Err lastErr, w) \<Rightarrow>
          (case CtxErr H (Sleep H delay w) of
             (Some er, w) \<Rightarrow> Some (Err er, w)
           | (None, w) \<Rightarrow>
               (case Now H w of (t, w) \<Rightarrow>
                  if t > deadline then Some (Err (WithMessage lastErr ''failed to set namespace''), w)
                  else setNamespace_loop fuel H path deadline delay w)))"

definition setNamespace :: "nat \<Rightarrow> 'w sandbox \<Rightarrow> nameserver \<Rightarrow> 'w \<Rightarrow> (unit res \<times> 'w) option" where
  "setNamespace fuel H n w =
     (case Now H w of (start, w) \<Rightarrow>
        setNamespace_loop fuel H (ns_networkNamespace n) (start + millis 10000)
          (if ns_isHookAvailable n then millis 10 else millis 1) w)"

section \<open>The servers\<close>

definition startDNSServer ::
  "'w sandbox \<Rightarrow> string \<Rightarrow> nameserver \<times> 'w \<Rightarrow> int res \<times> nameserver \<times> 'w"
where
  "startDNSServer H connType st =
     (case st of (n, w) \<Rightarrow>
        let listenAddr = ns_listenIP n @ '':0''
        in if connType = ''udp''
           then (case ListenPacket H ''udp'' listenAddr w of
                   (Err er, w) \<Rightarrow> (Err (WithMessage er ''Failed to create UDP listener''), n, w)
                 | (Panic, w) \<Rightarrow> (Panic, n, w)
                 | (Ok (l, port), w) \<Rightarrow>
                     (case CtxErr H w of
                        (Some er, w) \<Rightarrow> (Err er, n, CloseListener H l w)
                      | (None, w) \<Rightarrow> (Ok port, n\<lparr>ns_udpServer := Some l, ns_portUDP := port\<rparr>, ActivateAndServe H l w)))
           else if connType = ''tcp''
           then (case Listen H ''tcp'' listenAddr w of
                   (Err er, w) \<Rightarrow> (Err (WithMessage er ''Failed to create TCP listener''), n, w)
                 | (Panic, w) \<Rightarrow> (Panic, n, w)
                 | (Ok (l, port), w) \<Rightarrow>
                     (case CtxErr H w of
                        (Some er, w) \<Rightarrow> (Err er, n, CloseListener H l w)
                      | (None, w) \<Rightarrow> (Ok port, n\<lparr>ns_tcpServer := Some l, ns_portTCP := port\<rparr>, ActivateAndServe H l w)))
           else (Err (Errorf ''unsupported connection type''), n, w))"

section \<open>Redirecting the queries\<close>

definition createChainIfNecessary :: "'w sandbox \<Rightarrow> string \<Rightarrow> string \<Rightarrow> 'w \<Rightarrow> unit res \<times> 'w" where
  "createChainIfNecessary H table chain w =
     res_bind (res_wrap ''Error checking if chain exists'' (sb_ChainExists H table chain w))
       (\<lambda>exists w. if \<not> exists then res_wrap ''Error creating chain'' (sb_NewChain H table chain w) else (Ok (), w))"

fun chains_ready :: "'w sandbox \<Rightarrow> string \<Rightarrow> string list \<Rightarrow> 'w \<Rightarrow> bool res \<times> 'w" where
  "chains_ready H table [] w = (Ok True, w)"
| "chains_ready H table (chain # rest_chains) w =
     (case CtxErr H w of
        (Some er, w) \<Rightarrow> (Err er, w)
      | (None, w) \<Rightarrow>
          res_bind (res_wrap ''error checking if chain exists'' (sb_ChainExists H table chain w))
            (\<lambda>exists w. if \<not> exists then (Ok False, w)
               else res_bind (res_wrap ''error listing rules for chain'' (sb_List H table chain w))
                 (\<lambda>rules w. if length rules \<le> 1 then (Ok False, w) else chains_ready H table rest_chains w)))"

text \<open>One round over the groups of chains: whether a group is ready, or the error that ends the wait.\<close>

fun groups_round :: "'w sandbox \<Rightarrow> string \<Rightarrow> int \<Rightarrow> string list list \<Rightarrow> 'w \<Rightarrow> bool res \<times> 'w" where
  "groups_round H table deadline [] w = (Ok False, w)"
| "groups_round H table deadline (g # gs) w =
     res_bind (chains_ready H table g w)
       (\<lambda>ready w. if ready then (Ok True, w)
          else (case Now H w of (t, w) \<Rightarrow>
                  if t > deadline then (Err (Errorf ''timeout waiting for chains with rules''), w)
                  else groups_round H table deadline gs w))"

fun waitForChains_loop ::
  "nat \<Rightarrow> 'w sandbox \<Rightarrow> string \<Rightarrow> int \<Rightarrow> string list list \<Rightarrow> 'w \<Rightarrow> (unit res \<times> 'w) option"
where
  "waitForChains_loop 0 H table deadline groups w = None"
| "waitForChains_loop (Suc fuel) H table deadline groups w =
     (case groups_round H table deadline groups w of
        (Ok True, w) \<Rightarrow> Some (Ok (), w)
      | (Ok False, w) \<Rightarrow> waitForChains_loop fuel H table deadline groups (Sleep H (millis 5) w)
      | (Err er, w) \<Rightarrow> Some (Err er, w)
      | (Panic, w) \<Rightarrow> Some (Panic, w))"

definition waitForChainsWithRules ::
  "nat \<Rightarrow> 'w sandbox \<Rightarrow> string \<Rightarrow> string list list \<Rightarrow> int \<Rightarrow> 'w \<Rightarrow> (unit res \<times> 'w) option"
where
  "waitForChainsWithRules fuel H table chainsGroups timeout w =
     (case Now H w of (start, w) \<Rightarrow> waitForChains_loop fuel H table (start + timeout) chainsGroups w)"

definition dnat_rule :: "string \<Rightarrow> string \<Rightarrow> int \<Rightarrow> string list" where
  "dnat_rule listenIP proto port =
     [''-d'', ''127.0.0.11/32'', ''-p'', proto, ''-m'', proto, ''--dport'', ''53'', ''-j'', ''DNAT'',
      ''--to-destination'', listenIP @ '':'' @ FormatInt port]"

definition snat_rule :: "string \<Rightarrow> string \<Rightarrow> int \<Rightarrow> string list" where
  "snat_rule listenIP proto port =
     [''-s'', listenIP @ ''/32'', ''-p'', proto, ''-m'', proto, ''--sport'', FormatInt port, ''-j'', ''SNAT'',
      ''--to-source'', '':53'']"

definition jump_rule :: "string \<Rightarrow> string list" where
  "jump_rule chain = [''-d'', ''127.0.0.11'', ''-j'', chain]"

definition dns_rules :: "nameserver \<Rightarrow> (string \<times> string list) list" where
  "dns_rules n =
     [(''FLANNEL_DNS_OUTPUT'', dnat_rule (ns_listenIP n) ''tcp'' (ns_portTCP n)),
      (''FLANNEL_DNS_OUTPUT'', dnat_rule (ns_listenIP n) ''udp'' (ns_portUDP n)),
      (''FLANNEL_DNS_POSTROUTING'', snat_rule (ns_listenIP n) ''tcp'' (ns_portTCP n)),
      (''FLANNEL_DNS_POSTROUTING'', snat_rule (ns_listenIP n) ''udp'' (ns_portUDP n)),
      (''OUTPUT'', jump_rule ''FLANNEL_DNS_OUTPUT''),
      (''POSTROUTING'', jump_rule ''FLANNEL_DNS_POSTROUTING'')]"

fun insert_rules :: "'w sandbox \<Rightarrow> string \<Rightarrow> (string \<times> string list) list \<Rightarrow> 'w \<Rightarrow> unit res \<times> 'w" where
  "insert_rules H table [] w = (Ok (), w)"
| "insert_rules H table ((chain, spec) # rules) w =
     res_bind (res_wrap ''Error in namespace'' (createChainIfNecessary H table chain w))
       (\<lambda>_ w. res_bind (res_wrap ''Error applying iptables rule in namespace'' (sb_Insert H table chain 1 spec w))
          (\<lambda>_ w. case CtxErr H w of
             (Some er, w) \<Rightarrow> (Err er, w)
           | (None, w) \<Rightarrow> insert_rules H table rules w))"

text \<open>The rules of chains as they are listed; a failed listing is logged and gives no rules.\<close>

fun list_rules ::
  "'w sandbox \<Rightarrow> string list \<Rightarrow> (string, string list) gomap \<Rightarrow> 'w \<Rightarrow> (string, string list) gomap res \<times> 'w"
where
  "list_rules H [] rulesToDelete w = (Ok rulesToDelete, w)"
| "list_rules H (chain # rest_chains) rulesToDelete w =
     (case sb_List H ''nat'' chain w of
        (Ok rules, w) \<Rightarrow> list_rules H rest_chains (gomap_set rulesToDelete chain rules) w
      | (Err _, w) \<Rightarrow> list_rules H rest_chains (gomap_set rulesToDelete chain []) w
      | (Panic, w) \<Rightarrow> (Panic, w))"

fun delete_listed :: "'w sandbox \<Rightarrow> string \<Rightarrow> string \<Rightarrow> string list \<Rightarrow> 'w \<Rightarrow> unit res \<times> 'w" where
  "delete_listed H table chain [] w = (Ok (), w)"
| "delete_listed H table chain (rawRule # rules) w =
     (case CtxErr H w of
        (Some er, w) \<Rightarrow> (Err er, w)
      | (None, w) \<Rightarrow>
          (case raw_rule_spec rawRule of
             Panic \<Rightarrow> (Panic, w)
           | Err er \<Rightarrow> (Err er, w)
           | Ok rule \<Rightarrow>
               if rule = [] then delete_listed H table chain rules w
               else (case sb_Delete H table chain rule w of
                       (Panic, w) \<Rightarrow> (Panic, w)
                     | (_, w) \<Rightarrow> delete_listed H table chain rules w)))"

fun delete_all_listed :: "'w sandbox \<Rightarrow> string \<Rightarrow> (string \<times> string list) list \<Rightarrow> 'w \<Rightarrow> unit res \<times> 'w" where
  "delete_all_listed H table [] w = (Ok (), w)"
| "delete_all_listed H table ((chain, rules) # rest) w =
     res_bind (delete_listed H table chain rules w) (\<lambda>_ w. delete_all_listed H table rest w)"

definition dockerChains :: "string list" where
  "dockerChains = [''DOCKER_OUTPUT'', ''DOCKER_POSTROUTING'']"

text \<open>The first start in a namespace replaces the rules of Docker, a later one the plugin's own.\<close>

definition replaceDNATSNATRules :: "nat \<Rightarrow> 'w sandbox \<Rightarrow> nameserver \<Rightarrow> 'w \<Rightarrow> (unit res \<times> 'w) option" where
  "replaceDNATSNATRules fuel H n w =
     opt_bind (Some (res_wrap ''Error initializing iptables'' (sb_NewIptables H w)))
       (\<lambda>_ w. opt_bind (Some (res_wrap ''Error checking if chain FLANNEL_DNS_OUTPUT exists''
              (sb_ChainExists H ''nat'' ''FLANNEL_DNS_OUTPUT'' w)))
          (\<lambda>flannelDnsOutputExists w. opt_bind
             (Some (if flannelDnsOutputExists
                    then (case sb_List H ''nat'' ''FLANNEL_DNS_OUTPUT'' w of
                            (Ok rules, w) \<Rightarrow> (Ok [(''FLANNEL_DNS_OUTPUT'', rules)], w)
                          | (Err _, w) \<Rightarrow> (Ok [], w)
                          | (Panic, w) \<Rightarrow> (Panic, w))
                    else (Ok [], w)))
             (\<lambda>rulesToDelete w. opt_bind (Some (insert_rules H ''nat'' (dns_rules n) w))
                (\<lambda>_ w. opt_bind
                   (if \<not> flannelDnsOutputExists
                    then opt_bind (waitForChainsWithRules fuel H ''nat'' [dockerChains] (millis 30000) w)
                           (\<lambda>_ w. Some (list_rules H dockerChains rulesToDelete w))
                    else Some (Ok rulesToDelete, w))
                   (\<lambda>rulesToDelete w. Some (delete_all_listed H ''nat'' rulesToDelete w))))))"

section \<open>Valid networks\<close>

text \<open>\<open>lo.Map\<close> over the links, where the errors of \<open>AddrList\<close> are dropped.\<close>

fun link_addresses :: "'w sandbox \<Rightarrow> string list \<Rightarrow> 'w \<Rightarrow> net_ip list list res \<times> 'w" where
  "link_addresses H [] w = (Ok [], w)"
| "link_addresses H (l # ls) w =
     (case sb_AddrList H l w of
        (Panic, w) \<Rightarrow> (Panic, w)
      | (r, w) \<Rightarrow> res_bind (link_addresses H ls w)
          (\<lambda>rest w. (Ok ((case r of Ok addrs \<Rightarrow> addrs | _ \<Rightarrow> []) # rest), w)))"

definition network_present :: "net_ip list list \<Rightarrow> NetworkInfo \<Rightarrow> bool" where
  "network_present linkAddresses network \<longleftrightarrow>
     ni_Subnet network \<noteq> [] \<and>
     (case ParseCIDR (ni_Subnet network) of
        None \<Rightarrow> False
      | Some (_, subnet) \<Rightarrow> list_ex (list_ex (ipnet_Contains subnet)) linkAddresses)"

text \<open>A network is added once for every address that its subnet contains: adding is idempotent.\<close>

definition setAllNetworksAsValid ::
  "'w sandbox \<Rightarrow> (string, NetworkInfo) gomap \<Rightarrow> nameserver \<times> 'w \<Rightarrow> unit res \<times> nameserver \<times> 'w"
where
  "setAllNetworksAsValid H networks st =
     (case st of (n, w) \<Rightarrow>
        (case res_bind (res_wrap ''error listing network interfaces when setting valid networks'' (sb_LinkList H w))
                (\<lambda>links w. link_addresses H links w) of
           (Err er, w) \<Rightarrow> (Err er, n, w)
         | (Panic, w) \<Rightarrow> (Panic, n, w)
         | (Ok linkAddresses, w) \<Rightarrow>
             (Ok (), fold (\<lambda>(_, network) n. if network_present linkAddresses network
                              then AddValidNetworkID (ni_DockerID network) n else n) networks n, w)))"

section \<open>Start and stop\<close>

definition on_world :: "nameserver \<Rightarrow> ('a res \<times> 'w) option \<Rightarrow> ('a res \<times> nameserver \<times> 'w) option" where
  "on_world n r = (case r of None \<Rightarrow> None | Some (a, w) \<Rightarrow> Some (a, n, w))"

definition startDnsServersInNamespace ::
  "nat \<Rightarrow> 'w sandbox \<Rightarrow> (string, NetworkInfo) gomap \<Rightarrow> nameserver \<times> 'w \<Rightarrow> (unit res \<times> nameserver \<times> 'w) option"
where
  "startDnsServersInNamespace fuel H networks st =
     (case st of (n, w) \<Rightarrow>
        opt_bind (case on_world n (setNamespace fuel H n w) of
              None \<Rightarrow> None | Some r \<Rightarrow> Some (res_wrap ''Error setting namespace'' r))
          (\<lambda>_ st. opt_bind (Some (res_wrap ''Failed to start DNS server TCP in namespace'' (startDNSServer H ''tcp'' st)))
             (\<lambda>portTCP st. opt_bind (Some (res_wrap ''Failed to start DNS server UDP in namespace'' (startDNSServer H ''udp'' st)))
                (\<lambda>portUDP (n, w). opt_bind (case on_world n (replaceDNATSNATRules fuel H n w) of
                      None \<Rightarrow> None | Some r \<Rightarrow> Some (res_wrap ''Failed to replace DNAT SNAT rules in namespace'' r))
                   (\<lambda>_ st. Some (res_wrap ''Error setting all networks as valid'' (setAllNetworksAsValid H networks st)))))))"

text \<open>
  The goroutine of \<open>Activate\<close> when nothing else changes the name server meanwhile: the initialisation
  runs in the first call only; its error goes to the channel (\<open>Some er\<close>), the ready file is written in
  any case.
\<close>

definition nameserver_Activate ::
  "nat \<Rightarrow> 'w sandbox \<Rightarrow> (string, NetworkInfo) gomap \<Rightarrow> nameserver \<times> 'w \<Rightarrow>
   (goerr option res \<times> nameserver \<times> 'w) option"
where
  "nameserver_Activate fuel H networks st =
     (case st of (n, w) \<Rightarrow>
        opt_bind
          (if once_done (ns_initManager n) then Some (Ok (), n, w)
           else (case startDnsServersInNamespace fuel H networks (n\<lparr>ns_initManager := im_Init (ns_initManager n)\<rparr>, w) of
                   None \<Rightarrow> None
                 | Some (Panic, st) \<Rightarrow> Some (Panic, st)
                 | Some (Ok _, n, w) \<Rightarrow> Some (Ok (), n\<lparr>ns_initManager := im_finish None (ns_initManager n)\<rparr>, w)
                 | Some (Err er, n, w) \<Rightarrow> Some (Ok (), n\<lparr>ns_initManager := im_finish (Some er) (ns_initManager n)\<rparr>, w)))
          (\<lambda>_ (n, w). case im_Wait (ns_initManager n) of
             None \<Rightarrow> None
           | Some waited \<Rightarrow>
               let result = (case waited of Err er \<Rightarrow> Some (WithMessage er ''Error listening in namespace'') | _ \<Rightarrow> None)
               in if ns_isHookAvailable n
                  then (case WriteFile H (ns_readyFile n) w of
                          (Panic, w) \<Rightarrow> Some (Panic, n, w)
                        | (_, w) \<Rightarrow> Some (Ok result, n, w))
                  else Some (Ok result, n, w)))"

definition shutdown_server :: "'w sandbox \<Rightarrow> string \<Rightarrow> int option \<Rightarrow> 'w \<Rightarrow> unit res \<times> 'w" where
  "shutdown_server H message server w =
     (case server of None \<Rightarrow> (Ok (), w) | Some l \<Rightarrow> res_wrap message (ShutdownContext H l w))"

text \<open>Once the initialisation is over; what happens before is \<open>lock_step\<close> below.\<close>

definition DeactivateAndCleanup :: "'w sandbox \<Rightarrow> nameserver \<Rightarrow> 'w \<Rightarrow> unit res \<times> 'w" where
  "DeactivateAndCleanup H n w =
     res_bind (shutdown_server H ''Error shutting down UDP DNS server'' (ns_udpServer n) w)
       (\<lambda>_ w. shutdown_server H ''Error shutting down TCP DNS server'' (ns_tcpServer n) w)"

text \<open>
  \<open>DeactivateAndCleanup\<close> against the goroutine of the initialisation. The initialisation tests its context
  \<open>c\<close> more times, then adds the valid networks, for each of which it takes the mutex of the name
  server. \<open>DeactivateAndCleanup\<close> takes the mutex, and when the initialisation is not done it cancels the
  context and waits for the end of the initialisation before it releases the mutex.
\<close>

datatype init_pc = Checking nat | Adding nat | InitEnded

datatype stop_pc = StopIdle | StopWaiting | StopEnded

record stopping =
  sp_init :: init_pc
  sp_stop :: stop_pc
  sp_locked :: bool
  sp_cancelled :: bool

inductive lock_step :: "nat \<Rightarrow> stopping \<Rightarrow> stopping \<Rightarrow> bool" for k where
  check: "sp_init s = Checking (Suc c) \<Longrightarrow>
    lock_step k s (s\<lparr>sp_init := (if sp_cancelled s then InitEnded else Checking c)\<rparr>)"
| begin_adding: "sp_init s = Checking 0 \<Longrightarrow> lock_step k s (s\<lparr>sp_init := Adding k\<rparr>)"
| add: "sp_init s = Adding (Suc j) \<Longrightarrow> \<not> sp_locked s \<Longrightarrow> lock_step k s (s\<lparr>sp_init := Adding j\<rparr>)"
| end_adding: "sp_init s = Adding 0 \<Longrightarrow> lock_step k s (s\<lparr>sp_init := InitEnded\<rparr>)"
| stop_waits: "sp_stop s = StopIdle \<Longrightarrow> \<not> sp_locked s \<Longrightarrow> sp_init s \<noteq> InitEnded \<Longrightarrow>
    lock_step k s (s\<lparr>sp_stop := StopWaiting, sp_locked := True, sp_cancelled := True\<rparr>)"
| stop_at_once: "sp_stop s = StopIdle \<Longrightarrow> \<not> sp_locked s \<Longrightarrow> sp_init s = InitEnded \<Longrightarrow>
    lock_step k s (s\<lparr>sp_stop := StopEnded\<rparr>)"
| stop_returns: "sp_stop s = StopWaiting \<Longrightarrow> sp_init s = InitEnded \<Longrightarrow>
    lock_step k s (s\<lparr>sp_stop := StopEnded, sp_locked := False\<rparr>)"

end
