(* ===== verification/Dns_Server_Correct.thy ===== *)
theory Dns_Server_Correct
  imports Dns_Server
begin

text \<open>
  The correctness of the name server: the waiting loops end, the redirection of the queries replaces
  exactly the older rules, what a query is answered with, and the deadlock between stopping and
  starting. \<open>sandbox_clock\<close> and \<open>sandbox_iptables\<close> state what the operating system promises.
\<close>

section \<open>Time\<close>

definition returns :: "'a option \<Rightarrow> bool" where
  "returns r \<longleftrightarrow> r \<noteq> None"

lemma returns_bind: "returns r \<Longrightarrow> (\<And>a s. returns (f a s)) \<Longrightarrow> returns (opt_bind r f)"
  by (cases "(r, f)" rule: opt_bind.cases) (auto simp: returns_def)

lemma returns_map: "returns r \<Longrightarrow> returns (case r of None \<Rightarrow> None | Some x \<Rightarrow> Some (g x))"
  by (auto simp: returns_def)

lemma returns_on_world: "returns r \<Longrightarrow> returns (on_world n r)"
  by (auto simp: returns_def on_world_def)

lemma returns_Some: "returns (Some x)"
  by (simp add: returns_def)

lemmas returns_intros = returns_bind returns_map returns_on_world returns_Some

locale sandbox_clock =
  fixes H :: "'w sandbox" and clock :: "'w \<Rightarrow> int"
  assumes Now_reads: "clock w \<le> fst (Now H w)" "fst (Now H w) \<le> clock (snd (Now H w))"
    and Sleep_clock: "clock w + d \<le> clock (Sleep H d w)"
    and CtxErr_clock: "clock w \<le> clock (snd (CtxErr H w))"
    and GetFromPath_clock: "clock w \<le> clock (snd (netns_GetFromPath H p w))"
    and netns_Set_clock: "clock w \<le> clock (snd (netns_Set H i w))"
    and netns_Close_clock: "clock w \<le> clock (netns_Close H i w)"
    and ChainExists_clock: "clock w \<le> clock (snd (sb_ChainExists H t c w))"
    and List_clock: "clock w \<le> clock (snd (sb_List H t c w))"
begin

lemma attempt_clock:
  "clock w \<le> clock (snd (case netns_GetFromPath H path w of
       (Ok targetNS, w) \<Rightarrow> (case netns_Set H targetNS w of (r, w) \<Rightarrow> (r, netns_Close H targetNS w))
     | (Err er, w) \<Rightarrow> (Err er, w)
     | (Panic, w) \<Rightarrow> (Panic, w)))"
proof -
  obtain r w1 where 1: "netns_GetFromPath H path w = (r, w1)" by force
  have c1: "clock w \<le> clock w1" using GetFromPath_clock [of w path] 1 by simp
  show ?thesis
  proof (cases r)
    case (Ok ns)
    obtain r2 w2 where 2: "netns_Set H ns w1 = (r2, w2)" by force
    have "clock w1 \<le> clock w2" using netns_Set_clock [of w1 ns] 2 by simp
    also have "\<dots> \<le> clock (netns_Close H ns w2)" by (rule netns_Close_clock)
    finally show ?thesis using 1 2 Ok c1 by simp
  qed (use 1 c1 in simp_all)
qed

lemma setNamespace_loop_returns:
  "0 < fuel \<Longrightarrow> deadline < clock w + int fuel * delay \<Longrightarrow> setNamespace_loop fuel H path deadline delay w \<noteq> None"
proof (induction fuel arbitrary: w)
  case (Suc fuel)
  obtain r w1 where 1: "(case netns_GetFromPath H path w of
       (Ok targetNS, w) \<Rightarrow> (case netns_Set H targetNS w of (r, w) \<Rightarrow> (r, netns_Close H targetNS w))
     | (Err er, w) \<Rightarrow> (Err er, w)
     | (Panic, w) \<Rightarrow> (Panic, w)) = (r, w1)" by force
  have c1: "clock w \<le> clock w1" using attempt_clock [of w path] 1 by simp
  show ?case
  proof (cases r)
    case (Err er)
    obtain x w2 where 2: "CtxErr H (Sleep H delay w1) = (x, w2)" by force
    have c2: "clock w + delay \<le> clock w2"
      using c1 Sleep_clock [of w1 delay] CtxErr_clock [of "Sleep H delay w1"] 2 by simp
    obtain t w3 where 3: "Now H w2 = (t, w3)" by force
    have c3: "clock w2 \<le> t" "t \<le> clock w3" using Now_reads [of w2] 3 by simp_all
    show ?thesis
    proof (cases x)
      case None
      show ?thesis
      proof (cases "t > deadline")
        case False
        have "deadline < clock w3 + int fuel * delay" using Suc.prems(2) c2 c3 by (simp add: algebra_simps)
        moreover have "0 < fuel" using Suc.prems(2) c2 c3(1) False by (cases fuel) auto
        ultimately show ?thesis using Suc.IH [of w3] 1 2 3 Err None False by simp
      qed (use 1 2 3 Err None in simp)
    qed (use 1 2 Err in simp)
  qed (use 1 in simp_all)
qed simp

lemma setNamespace_returns: "10001 \<le> fuel \<Longrightarrow> setNamespace fuel H n w \<noteq> None"
proof -
  assume f: "10001 \<le> fuel"
  obtain t w1 where 1: "Now H w = (t, w1)" by force
  have c: "t \<le> clock w1" using Now_reads [of w] 1 by simp
  have "t + millis 10000 < clock w1 + int fuel * (if ns_isHookAvailable n then millis 10 else millis 1)"
    using c f by (simp add: millis_def)
  then show ?thesis using setNamespace_loop_returns [of fuel] f 1 by (simp add: setNamespace_def)
qed

lemma chains_ready_clock: "clock w \<le> clock (snd (chains_ready H table cs w))"
proof (induction cs arbitrary: w)
  case (Cons c cs)
  obtain x w1 where 1: "CtxErr H w = (x, w1)" by force
  have c1: "clock w \<le> clock w1" using CtxErr_clock [of w] 1 by simp
  show ?case
  proof (cases x)
    case None
    obtain r2 w2 where 2: "sb_ChainExists H table c w1 = (r2, w2)" by force
    have c2: "clock w1 \<le> clock w2" using ChainExists_clock [of w1 table c] 2 by simp
    obtain r3 w3 where 3: "sb_List H table c w2 = (r3, w3)" by force
    have c3: "clock w2 \<le> clock w3" using List_clock [of w2 table c] 3 by simp
    show ?thesis using 1 2 3 None c1 c2 c3 Cons.IH [of w3]
      by (cases r2; cases r3) (auto intro: order_trans)
  qed (use 1 c1 in simp)
qed simp

lemma groups_round_clock:
  assumes "groups_round H table deadline gs w = (r, w')" "gs \<noteq> []"
  shows "clock w \<le> clock w' \<and> (r = Ok False \<longrightarrow> clock w \<le> deadline)"
  using assms
proof (induction gs arbitrary: w)
  case (Cons g gs)
  obtain r1 w1 where 1: "chains_ready H table g w = (r1, w1)" by force
  have c1: "clock w \<le> clock w1" using chains_ready_clock [of w table g] 1 by simp
  obtain t w2 where 2: "Now H w1 = (t, w2)" by force
  have c2: "clock w1 \<le> t" "t \<le> clock w2" using Now_reads [of w1] 2 by simp_all
  show ?case
  proof (cases "r1 = Ok False \<and> t \<le> deadline")
    case True
    show ?thesis
    proof (cases "gs = []")
      case False
      then show ?thesis using Cons.IH [of w2] Cons.prems True 1 2 c1 c2 by simp
    qed (use Cons.prems True 1 2 c1 c2 in auto)
  next
    case False
    then show ?thesis using Cons.prems 1 2 c1 c2 by (cases r1) (auto split: if_splits)
  qed
qed simp

lemma waitForChains_loop_returns:
  "groups \<noteq> [] \<Longrightarrow> deadline < clock w + int fuel * millis 5 \<Longrightarrow>
   waitForChains_loop (Suc fuel) H table deadline groups w \<noteq> None"
proof (induction fuel arbitrary: w)
  case 0
  obtain r w1 where 1: "groups_round H table deadline groups w = (r, w1)" by force
  have "r \<noteq> Ok False" using groups_round_clock [OF 1] 0 by auto
  then show ?case using 1 by (cases r) (auto split: bool.splits)
next
  case (Suc fuel)
  obtain r w1 where 1: "groups_round H table deadline groups w = (r, w1)" by force
  have c: "clock w \<le> clock w1" using groups_round_clock [OF 1 Suc.prems(1)] by simp
  have "waitForChains_loop (Suc fuel) H table deadline groups (Sleep H (millis 5) w1) \<noteq> None"
    by (rule Suc.IH) (use Suc.prems c Sleep_clock [of w1 "millis 5"] in \<open>simp_all add: algebra_simps\<close>)
  then show ?case using 1 by (cases r) (auto split: bool.splits simp del: waitForChains_loop.simps simp: waitForChains_loop.simps(2) [of "Suc fuel"])
qed

lemma waitForChainsWithRules_returns:
  "6002 \<le> fuel \<Longrightarrow> groups \<noteq> [] \<Longrightarrow> waitForChainsWithRules fuel H table groups (millis 30000) w \<noteq> None"
proof -
  assume f: "6002 \<le> fuel" and g: "groups \<noteq> []"
  obtain t w1 where 1: "Now H w = (t, w1)" by force
  have c: "t \<le> clock w1" using Now_reads [of w] 1 by simp
  obtain k where k: "fuel = Suc k" using f by (cases fuel) auto
  have "t + millis 30000 < clock w1 + int k * millis 5" using c f k by (simp add: millis_def)
  then show ?thesis using waitForChains_loop_returns [OF g] 1 k by (simp add: waitForChainsWithRules_def del: waitForChains_loop.simps)
qed

lemma replaceDNATSNATRules_returns:
  assumes "6002 \<le> fuel"
  shows "returns (replaceDNATSNATRules fuel H n w)"
proof -
  have "returns (waitForChainsWithRules fuel H ''nat'' [dockerChains] (millis 30000) w)" for w
    using waitForChainsWithRules_returns [OF assms] by (simp add: returns_def dockerChains_def)
  then show ?thesis unfolding replaceDNATSNATRules_def by (auto intro!: returns_intros)
qed

lemma startDnsServersInNamespace_returns:
  assumes "10001 \<le> fuel"
  shows "returns (startDnsServersInNamespace fuel H networks st)"
proof -
  have "returns (setNamespace fuel H n w)" "returns (replaceDNATSNATRules fuel H n w)" for n w
    using setNamespace_returns [OF assms] replaceDNATSNATRules_returns assms by (simp_all add: returns_def [of "setNamespace _ _ _ _"])
  then show ?thesis unfolding startDnsServersInNamespace_def
    by (auto intro!: returns_intros split: prod.split)
qed

end

section \<open>Iptables\<close>

text \<open>
  What is visible of the table \<open>nat\<close>: its chains with their rules. The kernel stores the normal form of a
  rule, prints it in a form that means the same, and deletes the first rule with the meaning of its
  argument. Other processes change chains of Docker while the plugin sleeps.
\<close>

type_synonym chain_view = "string \<rightharpoonup> string list list"

definition listed_rules :: "(string list \<Rightarrow> string list) \<Rightarrow> string list \<Rightarrow> string list list" where
  "listed_rules norm lines = concat (map (\<lambda>l. case raw_rule_spec l of
     Ok s \<Rightarrow> if s = [] then [] else [norm s] | _ \<Rightarrow> []) lines)"

definition old_rules :: "chain_view \<Rightarrow> string \<Rightarrow> string list list" where
  "old_rules v c = (case v c of None \<Rightarrow> [] | Some rs \<Rightarrow> rs)"

definition with_rule :: "(string list \<Rightarrow> string list) \<Rightarrow> string \<times> string list \<Rightarrow> chain_view \<Rightarrow> chain_view" where
  "with_rule norm cs v = v(fst cs \<mapsto> norm (snd cs) # old_rules v (fst cs))"

lemma ctx_Ok_iff:
  "(case CtxErr H w of (Some er, w) \<Rightarrow> (Err er, w) | (None, w) \<Rightarrow> f w) = (Ok u, w') \<longleftrightarrow>
   (\<exists>w1. CtxErr H w = (None, w1) \<and> f w1 = (Ok u, w'))"
  by (auto split: prod.splits option.splits)

locale sandbox_iptables =
  fixes H :: "'w sandbox" and view :: "'w \<Rightarrow> chain_view" and norm :: "string list \<Rightarrow> string list"
  assumes NewIptables_view: "view (snd (sb_NewIptables H w)) = view w"
    and ChainExists_Ok: "sb_ChainExists H ''nat'' c w = (Ok b, w') \<Longrightarrow> b = (view w c \<noteq> None) \<and> view w' = view w"
    and NewChain_Ok: "sb_NewChain H ''nat'' c w = (Ok u, w') \<Longrightarrow> view w' = (view w)(c \<mapsto> [])"
    and Insert_Ok: "sb_Insert H ''nat'' c 1 spec w = (Ok u, w') \<Longrightarrow>
      \<exists>rs. view w c = Some rs \<and> view w' = (view w)(c \<mapsto> norm spec # rs)"
    and List_Ok: "view w c = Some rs \<Longrightarrow> \<exists>lines w'. sb_List H ''nat'' c w = (Ok lines, w') \<and> view w' = view w
      \<and> listed_rules norm lines = rs"
    and List_view: "view (snd (sb_List H t c w)) = view w"
    and Delete_Ok: "view w c = Some rs \<Longrightarrow> norm spec \<in> set rs \<Longrightarrow>
      \<exists>w'. sb_Delete H ''nat'' c spec w = (Ok (), w') \<and> view w' = (view w)(c \<mapsto> remove1 (norm spec) rs)"
    and CtxErr_view: "view (snd (CtxErr H w)) = view w"
    and Now_view: "view (snd (Now H w)) = view w"
    and Sleep_view: "c \<notin> set dockerChains \<Longrightarrow> view (Sleep H d w) c = view w c"
begin

lemma createChain_Ok:
  assumes "createChainIfNecessary H ''nat'' c w = (Ok u, w')"
  shows "view w' = (view w)(c \<mapsto> old_rules (view w) c)"
proof -
  obtain b w1 where 1: "sb_ChainExists H ''nat'' c w = (Ok b, w1)"
    "(if \<not> b then res_wrap ''Error creating chain'' (sb_NewChain H ''nat'' c w1) else (Ok (), w1)) = (Ok u, w')"
    using assms by (auto simp: createChainIfNecessary_def res_bind_Ok_iff)
  note c = ChainExists_Ok [OF 1(1)]
  show ?thesis
  proof (cases b)
    case True
    then show ?thesis using 1(2) c by (auto simp: old_rules_def fun_upd_idem)
  next
    case False
    then have "sb_NewChain H ''nat'' c w1 = (Ok u, w')" using 1(2) by simp
    from NewChain_Ok [OF this] show ?thesis using c False by (simp add: old_rules_def)
  qed
qed

lemma insert_rules_Ok:
  "insert_rules H ''nat'' rules w = (Ok u, w') \<Longrightarrow> view w' = fold (with_rule norm) rules (view w)"
proof (induction rules arbitrary: w)
  case (Cons r rules)
  obtain c spec where r: "r = (c, spec)" by force
  obtain v1 w1 v2 w2 w3 where 1: "createChainIfNecessary H ''nat'' c w = (Ok v1, w1)"
    "sb_Insert H ''nat'' c 1 spec w1 = (Ok v2, w2)" "CtxErr H w2 = (None, w3)" "insert_rules H ''nat'' rules w3 = (Ok u, w')"
    using Cons.prems r by (auto simp: res_bind_Ok_iff ctx_Ok_iff)
  have v1: "view w1 = (view w)(c \<mapsto> old_rules (view w) c)" using createChain_Ok [OF 1(1)] .
  have v2: "view w2 = (view w)(c \<mapsto> norm spec # old_rules (view w) c)"
    using Insert_Ok [OF 1(2)] v1 by auto
  have "view w3 = with_rule norm r (view w)"
    using CtxErr_view [of w2] 1(3) v2 r by (simp add: with_rule_def)
  then show ?case using Cons.IH [OF 1(4)] by simp
qed simp

lemma delete_listed_Ok:
  assumes "delete_listed H ''nat'' c lines w = (Ok u, w')" "view w c = Some rs"
    "mset (listed_rules norm lines) \<subseteq># mset rs"
  shows "\<exists>rs'. view w' = (view w)(c \<mapsto> rs') \<and> mset rs' = mset rs - mset (listed_rules norm lines)"
  using assms
proof (induction lines arbitrary: w rs)
  case Nil
  then show ?case by (intro exI [of _ rs]) (simp add: listed_rules_def fun_upd_idem)
next
  case (Cons l lines)
  obtain w1 s where 1: "CtxErr H w = (None, w1)" "raw_rule_spec l = Ok s"
    "(if s = [] then delete_listed H ''nat'' c lines w1
      else (case sb_Delete H ''nat'' c s w1 of
              (Panic, w) \<Rightarrow> (Panic, w) | (_, w) \<Rightarrow> delete_listed H ''nat'' c lines w)) = (Ok u, w')"
    using Cons.prems(1) by (auto split: prod.splits option.splits res.splits)
  have v1: "view w1 = view w" using CtxErr_view [of w] 1(1) by simp
  show ?case
  proof (cases "s = []")
    case True
    then have "listed_rules norm (l # lines) = listed_rules norm lines" using 1(2) by (simp add: listed_rules_def)
    then show ?thesis using Cons.IH [of w1 rs] Cons.prems 1(3) True v1 by simp
  next
    case False
    have ls: "listed_rules norm (l # lines) = norm s # listed_rules norm lines"
      using 1(2) False by (simp add: listed_rules_def)
    have m: "norm s \<in> set rs" and sub: "mset (listed_rules norm lines) \<subseteq># mset (remove1 (norm s) rs)"
      using Cons.prems(3) unfolding ls by (auto simp: insert_subset_eq_iff)
    obtain w2 where 2: "sb_Delete H ''nat'' c s w1 = (Ok (), w2)" "view w2 = (view w1)(c \<mapsto> remove1 (norm s) rs)"
      using Delete_Ok [of w1 c rs s] Cons.prems(2) v1 m by auto
    have d: "delete_listed H ''nat'' c lines w2 = (Ok u, w')" using 1(3) False 2(1) by simp
    have "view w2 c = Some (remove1 (norm s) rs)" using 2(2) by simp
    from Cons.IH [OF d this sub] obtain rs' where
      "view w' = (view w2)(c \<mapsto> rs')" "mset rs' = mset (remove1 (norm s) rs) - mset (listed_rules norm lines)" by blast
    then show ?thesis using 2(2) v1 ls by (intro exI [of _ rs']) simp
  qed
qed

lemma chains_ready_Ok:
  "chains_ready H ''nat'' cs w = (Ok b, w') \<Longrightarrow> view w' = view w \<and> (b \<longrightarrow> (\<forall>c \<in> set cs. view w c \<noteq> None))"
proof (induction cs arbitrary: w)
  case (Cons c cs)
  obtain w1 e w2 where 1: "CtxErr H w = (None, w1)" "sb_ChainExists H ''nat'' c w1 = (Ok e, w2)"
    "(if \<not> e then (Ok False, w2)
      else res_bind (res_wrap ''error listing rules for chain'' (sb_List H ''nat'' c w2))
        (\<lambda>rules w. if length rules \<le> 1 then (Ok False, w) else chains_ready H ''nat'' cs w)) = (Ok b, w')"
    using Cons.prems by (auto simp: res_bind_Ok_iff split: prod.splits option.splits)
  have v1: "view w1 = view w" using CtxErr_view [of w] 1(1) by simp
  note c = ChainExists_Ok [OF 1(2)]
  show ?case
  proof (cases e)
    case True
    then obtain lines w3 where 3: "sb_List H ''nat'' c w2 = (Ok lines, w3)"
      "(if length lines \<le> 1 then (Ok False, w3) else chains_ready H ''nat'' cs w3) = (Ok b, w')"
      using 1(3) by (auto simp: res_bind_Ok_iff)
    have "view w3 = view w" using List_view [of "''nat''" c w2] 3(1) c v1 by simp
    then show ?thesis using 3(2) Cons.IH [of w3] c v1 True by (auto split: if_splits)
  qed (use 1(3) c v1 in auto)
qed simp

lemma waitForChains_loop_Ok:
  "waitForChains_loop fuel H ''nat'' deadline [cs] w = Some (Ok u, w') \<Longrightarrow>
   (\<forall>c \<in> set cs. view w' c \<noteq> None) \<and> (\<forall>c. c \<notin> set dockerChains \<longrightarrow> view w' c = view w c)"
proof (induction fuel arbitrary: w)
  case (Suc fuel)
  obtain b w1 where 1: "groups_round H ''nat'' deadline [cs] w = (Ok b, w1)"
    "if b then w1 = w' else waitForChains_loop fuel H ''nat'' deadline [cs] (Sleep H (millis 5) w1) = Some (Ok u, w')"
    using Suc.prems by (auto split: prod.splits res.splits bool.splits)
  obtain b2 w2 where 2: "chains_ready H ''nat'' cs w = (Ok b2, w2)"
    "(if b2 then (Ok True, w2)
      else (case Now H w2 of (t, w) \<Rightarrow>
         if t > deadline then (Err (Errorf ''timeout waiting for chains with rules''), w)
         else groups_round H ''nat'' deadline [] w)) = (Ok b, w1)"
    using 1(1) by (auto simp: res_bind_Ok_iff simp del: groups_round.simps(1))
  note r = chains_ready_Ok [OF 2(1)]
  show ?case
  proof (cases b2)
    case True
    then show ?thesis using 2(2) 1(2) r by auto
  next
    case False
    obtain t w3 where n: "Now H w2 = (t, w3)" by force
    have "w1 = w3" "\<not> b" using False 2(2) n by (auto split: if_splits)
    moreover have "view w3 = view w" using Now_view [of w2] n r by simp
    ultimately show ?thesis using Suc.IH [of "Sleep H (millis 5) w1"] 1(2) Sleep_view [of _ "millis 5" w1] by simp
  qed
qed simp

text \<open>What the rules look like after a successful replacement.\<close>

lemma delete_all_listed_rules:
  assumes "delete_listed H ''nat'' c lines w = (Ok u, w')" "view w c = Some rs" "listed_rules norm lines = rs"
  shows "view w' = (view w)(c \<mapsto> [])"
  using delete_listed_Ok [OF assms(1,2)] assms(3) by auto

lemma replace_again:
  assumes "view w ''FLANNEL_DNS_OUTPUT'' \<noteq> None" "replaceDNATSNATRules fuel H n w = Some (Ok u, w')"
  shows "\<exists>rs. view w' = (fold (with_rule norm) (dns_rules n) (view w))(''FLANNEL_DNS_OUTPUT'' \<mapsto> rs)
    \<and> mset rs = {#norm (dnat_rule (ns_listenIP n) ''udp'' (ns_portUDP n)), norm (dnat_rule (ns_listenIP n) ''tcp'' (ns_portTCP n))#}"
proof -
  let ?c = "''FLANNEL_DNS_OUTPUT''"
  obtain w1 where 1: "sb_NewIptables H w = (Ok (), w1)" "opt_bind (Some (res_wrap ''Error checking if chain FLANNEL_DNS_OUTPUT exists''
              (sb_ChainExists H ''nat'' ''FLANNEL_DNS_OUTPUT'' w1)))
          (\<lambda>flannelDnsOutputExists w. opt_bind
             (Some (if flannelDnsOutputExists
                    then (case sb_List H ''nat'' ''FLANNEL_DNS_OUTPUT'' w of
                            (Ok rules, w) \<Rightarrow> (Ok [(''FLANNEL_DNS_OUTPUT'', rules)], w)
                          | (Err _, w) \<Rightarrow> (Ok [], w)
                          | (Panic, w) \<Rightarrow> (Panic, w))
                    else (Ok [], w)))
             (\<lambda>rulesToDelete w. opt_bind (Some (insert_rules H ''nat'' (dns_rules n) w))
                (\<lambda>_ w. opt_bind
                   (if \<not> flannelDnsOutputExists
                    then opt_bind (waitForChainsWithRules fuel H ''nat'' [dockerChains] (millis 30000) w)
                           (\<lambda>_ w. Some (list_rules H dockerChains rulesToDelete w))
                    else Some (Ok rulesToDelete, w))
                   (\<lambda>rulesToDelete w. Some (delete_all_listed H ''nat'' rulesToDelete w))))) = Some (Ok u, w')"
    using assms(2) unfolding replaceDNATSNATRules_def by (simp only: opt_bind_Ok_iff option.inject res_wrap_Ok_iff) auto
  have v1: "view w1 = view w" using NewIptables_view [of w] 1(1) by simp
  obtain b w2 where 2: "sb_ChainExists H ''nat'' ?c w1 = (Ok b, w2)"
    using 1(2) by (simp only: opt_bind_Ok_iff option.inject res_wrap_Ok_iff) auto
  have b: "b" "view w2 = view w" using ChainExists_Ok [OF 2] v1 assms(1) by simp_all
  obtain rs0 where rs0: "view w ?c = Some rs0" using assms(1) by blast
  obtain lines w3 where 3: "sb_List H ''nat'' ?c w2 = (Ok lines, w3)" "view w3 = view w" "listed_rules norm lines = rs0"
    using List_Ok [of w2 ?c rs0] b rs0 by auto
  have rest: "opt_bind (Some (insert_rules H ''nat'' (dns_rules n) w3))
      (\<lambda>_ w. Some (delete_all_listed H ''nat'' [(?c, lines)] w)) = Some (Ok u, w')"
    using 1(2) 2 3(1) b(1) by simp
  obtain w4 where 4: "insert_rules H ''nat'' (dns_rules n) w3 = (Ok (), w4)"
    "delete_listed H ''nat'' ?c lines w4 = (Ok (), w')"
    using rest by (auto simp: opt_bind_Ok_iff res_bind_Ok_iff)
  have v4: "view w4 = fold (with_rule norm) (dns_rules n) (view w)" using insert_rules_Ok [OF 4(1)] 3(2) by simp
  have c4: "view w4 ?c = Some (norm (dnat_rule (ns_listenIP n) ''udp'' (ns_portUDP n)) #
      norm (dnat_rule (ns_listenIP n) ''tcp'' (ns_portTCP n)) # rs0)"
    unfolding v4 by (simp add: dns_rules_def with_rule_def old_rules_def rs0)
  show ?thesis using delete_listed_Ok [OF 4(2) c4] 3(3) v4 by auto
qed

lemma replace_first:
  assumes "view w ''FLANNEL_DNS_OUTPUT'' = None" "replaceDNATSNATRules fuel H n w = Some (Ok u, w')"
  shows "\<forall>c. view w' c = (if c \<in> set dockerChains then Some [] else fold (with_rule norm) (dns_rules n) (view w) c)"
proof -
  let ?c = "''FLANNEL_DNS_OUTPUT''" and ?o = "''DOCKER_OUTPUT''" and ?p = "''DOCKER_POSTROUTING''"
  obtain w1 b w2 where 1: "sb_NewIptables H w = (Ok (), w1)" "sb_ChainExists H ''nat'' ?c w1 = (Ok b, w2)"
    using assms(2) unfolding replaceDNATSNATRules_def by (simp only: opt_bind_Ok_iff option.inject res_wrap_Ok_iff) auto
  have v1: "view w1 = view w" using NewIptables_view [of w] 1(1) by simp
  have b: "\<not> b" "view w2 = view w" using ChainExists_Ok [OF 1(2)] v1 assms(1) by simp_all
  have rest: "opt_bind (Some (insert_rules H ''nat'' (dns_rules n) w2))
      (\<lambda>_ w. opt_bind (opt_bind (waitForChainsWithRules fuel H ''nat'' [dockerChains] (millis 30000) w)
           (\<lambda>_ w. Some (list_rules H dockerChains [] w)))
         (\<lambda>rulesToDelete w. Some (delete_all_listed H ''nat'' rulesToDelete w))) = Some (Ok u, w')"
    using assms(2) 1 b(1) by (simp add: replaceDNATSNATRules_def)
  obtain w3 where 3: "insert_rules H ''nat'' (dns_rules n) w2 = (Ok (), w3)"
    "opt_bind (opt_bind (waitForChainsWithRules fuel H ''nat'' [dockerChains] (millis 30000) w3)
           (\<lambda>_ w. Some (list_rules H dockerChains [] w)))
         (\<lambda>rulesToDelete w. Some (delete_all_listed H ''nat'' rulesToDelete w)) = Some (Ok u, w')"
    using rest by (simp only: opt_bind_Ok_iff option.inject res_wrap_Ok_iff) auto
  obtain td w5 where 5: "opt_bind (waitForChainsWithRules fuel H ''nat'' [dockerChains] (millis 30000) w3)
           (\<lambda>_ w. Some (list_rules H dockerChains [] w)) = Some (Ok td, w5)"
    "delete_all_listed H ''nat'' td w5 = (Ok u, w')"
    using 3(2) by (simp only: opt_bind_Ok_iff option.inject res_wrap_Ok_iff) auto
  obtain w4 where 4: "waitForChainsWithRules fuel H ''nat'' [dockerChains] (millis 30000) w3 = Some (Ok (), w4)"
    "list_rules H dockerChains [] w4 = (Ok td, w5)"
    using 5(1) by (simp only: opt_bind_Ok_iff option.inject res_wrap_Ok_iff) auto
  have v3: "view w3 = fold (with_rule norm) (dns_rules n) (view w)" using insert_rules_Ok [OF 3(1)] b(2) by simp
  have w4: "\<forall>c \<in> set dockerChains. view w4 c \<noteq> None" "\<forall>c. c \<notin> set dockerChains \<longrightarrow> view w4 c = view w3 c"
  proof -
    obtain t w31 where n: "Now H w3 = (t, w31)" by force
    have "view w31 = view w3" using Now_view [of w3] n by simp
    then show "\<forall>c \<in> set dockerChains. view w4 c \<noteq> None" "\<forall>c. c \<notin> set dockerChains \<longrightarrow> view w4 c = view w3 c"
      using waitForChains_loop_Ok 4(1) n by (auto simp: waitForChainsWithRules_def)
  qed
  obtain ro rp where r: "view w4 ?o = Some ro" "view w4 ?p = Some rp"
    using w4(1) by (auto simp: dockerChains_def)
  obtain lo x1 where lo: "sb_List H ''nat'' ?o w4 = (Ok lo, x1)" "view x1 = view w4" "listed_rules norm lo = ro"
    using List_Ok [OF r(1)] by blast
  obtain lp x2 where lp: "sb_List H ''nat'' ?p x1 = (Ok lp, x2)" "view x2 = view x1" "listed_rules norm lp = rp"
    using List_Ok [of x1 ?p rp] r(2) lo(2) by auto
  have td: "td = [(?o, lo), (?p, lp)]" "w5 = x2" using 4(2) lo(1) lp(1) by (simp_all add: dockerChains_def)
  obtain w6 where 6: "delete_listed H ''nat'' ?o lo x2 = (Ok (), w6)" "delete_listed H ''nat'' ?p lp w6 = (Ok (), w')"
    using 5(2) td by (auto simp: res_bind_Ok_iff)
  have v6: "view w6 = (view w4)(?o \<mapsto> [])"
    using delete_all_listed_rules [OF 6(1), of ro] lo lp r(1) by simp
  have "view w' = (view w6)(?p \<mapsto> [])"
    using delete_all_listed_rules [OF 6(2), of rp] lp(3) r(2) v6 by simp
  then show ?thesis using v6 w4(2) v3 by (auto simp: dockerChains_def)
qed

lemma dns_rules_fold:
  "fold (with_rule norm) (dns_rules n) v = v(
     ''FLANNEL_DNS_OUTPUT'' \<mapsto> norm (dnat_rule (ns_listenIP n) ''udp'' (ns_portUDP n)) #
        norm (dnat_rule (ns_listenIP n) ''tcp'' (ns_portTCP n)) # old_rules v ''FLANNEL_DNS_OUTPUT'',
     ''FLANNEL_DNS_POSTROUTING'' \<mapsto> norm (snat_rule (ns_listenIP n) ''udp'' (ns_portUDP n)) #
        norm (snat_rule (ns_listenIP n) ''tcp'' (ns_portTCP n)) # old_rules v ''FLANNEL_DNS_POSTROUTING'',
     ''OUTPUT'' \<mapsto> norm (jump_rule ''FLANNEL_DNS_OUTPUT'') # old_rules v ''OUTPUT'',
     ''POSTROUTING'' \<mapsto> norm (jump_rule ''FLANNEL_DNS_POSTROUTING'') # old_rules v ''POSTROUTING'')"
  by (auto simp: dns_rules_def with_rule_def old_rules_def)

end

section \<open>A sandbox in memory\<close>

record smem =
  sm_chains :: "(string, string list list) gomap"
  sm_clock :: int

text \<open>A rule as words without white space.\<close>

definition sm_norm :: "string list \<Rightarrow> string list" where
  "sm_norm spec =
     (let ws = filter (\<lambda>w. w \<noteq> []) (map (filter (\<lambda>c. \<not> is_space c)) spec) in if ws = [] then [''-''] else ws)"

definition sm_line :: "string list \<Rightarrow> string" where
  "sm_line r = join_with '' '' (''-A'' # ''chain'' # sm_norm r)"

definition mem_sandbox :: "smem sandbox" where
  "mem_sandbox = \<lparr>
     sb_NewIptables = \<lambda>w. (Ok (), w),
     sb_ChainExists = \<lambda>t c w. (Ok (map_of (sm_chains w) c \<noteq> None), w),
     sb_NewChain = \<lambda>t c w. (Ok (), w\<lparr>sm_chains := gomap_set (sm_chains w) c []\<rparr>),
     sb_Insert = \<lambda>t c i spec w. (case map_of (sm_chains w) c of
         None \<Rightarrow> (Err (Foreign ''No chain''), w)
       | Some rs \<Rightarrow> (Ok (), w\<lparr>sm_chains := gomap_set (sm_chains w) c (sm_norm spec # rs)\<rparr>)),
     sb_List = \<lambda>t c w. (case map_of (sm_chains w) c of
         None \<Rightarrow> Err (Foreign ''No chain'') | Some rs \<Rightarrow> Ok (''-N chain'' # map sm_line rs), w),
     sb_Delete = \<lambda>t c spec w. (case map_of (sm_chains w) c of
         None \<Rightarrow> (Err (Foreign ''No chain''), w)
       | Some rs \<Rightarrow>
           if sm_norm spec \<in> set (map sm_norm rs)
           then (Ok (), w\<lparr>sm_chains := gomap_set (sm_chains w) c (remove1 (sm_norm spec) (map sm_norm rs))\<rparr>)
           else (Err (Foreign ''Bad rule''), w)),
     CtxErr = \<lambda>w. (None, w), Now = \<lambda>w. (sm_clock w, w),
     Sleep = \<lambda>d w. w\<lparr>sm_clock := sm_clock w + d\<rparr>,
     netns_GetFromPath = \<lambda>p w. (if p = ''/hostfs/ns'' then Ok 3 else Err (Foreign ''no such file''), w),
     netns_Set = \<lambda>i w. (Ok (), w), netns_Close = \<lambda>i w. w,
     ListenPacket = \<lambda>p a w. (Ok (1, 40001), w), Listen = \<lambda>p a w. (Ok (2, 40002), w),
     CloseListener = \<lambda>l w. w, ActivateAndServe = \<lambda>l w. w, ShutdownContext = \<lambda>l w. (Ok (), w),
     sb_LinkList = \<lambda>w. (Ok [''eth0''], w), sb_AddrList = \<lambda>l w. (Ok [[10, 1, 0, 9]], w), WriteFile = \<lambda>p w. (Ok (), w)\<rparr>"

definition sm_view :: "smem \<Rightarrow> chain_view" where
  "sm_view w c = map_option (map sm_norm) (map_of (sm_chains w) c)"

lemma sm_norm_words: "list_all word (sm_norm s)"
  by (auto simp: sm_norm_def Let_def list_all_iff word_def list_ex_iff is_space_def filter_empty_conv)

lemma sm_norm_nonempty [simp]: "sm_norm s \<noteq> []"
  by (simp add: sm_norm_def Let_def)

lemma sm_norm_words_id: "list_all word s \<Longrightarrow> s \<noteq> [] \<Longrightarrow> sm_norm s = s"
proof -
  assume w: "list_all word s" and ne: "s \<noteq> []"
  have "map (filter (\<lambda>c. \<not> is_space c)) s = s"
    using w by (intro map_idI) (auto simp: list_all_iff word_def list_ex_iff filter_id_conv)
  moreover have "filter (\<lambda>w. w \<noteq> []) s = s" using w by (auto simp: list_all_iff word_def filter_id_conv)
  ultimately show ?thesis using ne by (simp add: sm_norm_def)
qed

lemma sm_norm_idem [simp]: "sm_norm (sm_norm s) = sm_norm s"
  by (rule sm_norm_words_id) (simp_all add: sm_norm_words)

lemma sm_line_spec: "raw_rule_spec (sm_line r) = Ok (sm_norm r)"
proof -
  have "word ''-A''" "word ''chain''" by (simp_all add: word_def is_space_def)
  then have "str_Fields (sm_line r) = ''-A'' # ''chain'' # sm_norm r"
    unfolding sm_line_def by (intro str_Fields_join) (simp add: sm_norm_words)
  then show ?thesis by (simp add: raw_rule_spec_def)
qed

lemma sm_listed: "listed_rules sm_norm (''-N chain'' # map sm_line rs) = map sm_norm rs"
proof -
  have "raw_rule_spec ''-N chain'' = Ok []" by code_simp
  moreover have "listed_rules sm_norm (map sm_line rs) = map sm_norm rs"
    by (induction rs) (simp_all add: listed_rules_def sm_line_spec)
  ultimately show ?thesis by (simp add: listed_rules_def)
qed

interpretation mem_clock: sandbox_clock mem_sandbox sm_clock
  by unfold_locales (simp_all add: mem_sandbox_def)

interpretation mem_iptables: sandbox_iptables mem_sandbox sm_view sm_norm
proof unfold_locales
  fix w c rs assume "sm_view w c = Some rs"
  then obtain rs0 where r: "map_of (sm_chains w) c = Some rs0" "rs = map sm_norm rs0" by (auto simp: sm_view_def)
  show "\<exists>lines w'. sb_List mem_sandbox ''nat'' c w = (Ok lines, w') \<and> sm_view w' = sm_view w \<and> listed_rules sm_norm lines = rs"
    using r sm_listed [of rs0] by (simp add: mem_sandbox_def)
next
  fix w c rs spec assume "sm_view w c = Some rs" "sm_norm spec \<in> set rs"
  then obtain rs0 where r: "map_of (sm_chains w) c = Some rs0" "rs = map sm_norm rs0" by (auto simp: sm_view_def)
  have "map sm_norm (remove1 (sm_norm spec) rs) = remove1 (sm_norm spec) rs"
  proof (rule map_idI)
    fix x assume "x \<in> set (remove1 (sm_norm spec) rs)"
    then have "x \<in> set rs" by (meson notin_set_remove1)
    then show "sm_norm x = x" using r(2) by auto
  qed
  then show "\<exists>w'. sb_Delete mem_sandbox ''nat'' c spec w = (Ok (), w') \<and> sm_view w' = (sm_view w)(c \<mapsto> remove1 (sm_norm spec) rs)"
    using r \<open>sm_norm spec \<in> set rs\<close> by (simp add: mem_sandbox_def sm_view_def fun_eq_iff)
qed (auto simp: mem_sandbox_def sm_view_def fun_eq_iff split: option.splits)

section \<open>Valid networks and queries\<close>

lemma set_AddValidNetworkID:
  "set (cm_Keys (ns_validNetworkIDs (AddValidNetworkID i n))) = insert i (set (cm_Keys (ns_validNetworkIDs n)))"
proof -
  have "set (map fst (gomap_set m k v)) = insert k (set (map fst m))" for m :: "(string, unit) gomap" and k v
    by (induction m) auto
  then show ?thesis by (simp add: AddValidNetworkID_def cm_Keys_def cm_Set_def)
qed

lemma AddValidNetworkID_update:
  "(AddValidNetworkID i n)\<lparr>ns_validNetworkIDs := x\<rparr> = n\<lparr>ns_validNetworkIDs := x\<rparr>"
  by (simp add: AddValidNetworkID_def)

lemma valid_fold:
  "let n' = fold (\<lambda>(_, network) n. if network_present addrs network
                              then AddValidNetworkID (ni_DockerID network) n else n) networks n
   in set (cm_Keys (ns_validNetworkIDs n')) = set (cm_Keys (ns_validNetworkIDs n))
        \<union> {ni_DockerID network | network. network \<in> snd ` set networks \<and> network_present addrs network}
    \<and> n' = n\<lparr>ns_validNetworkIDs := ns_validNetworkIDs n'\<rparr>"
proof (induction networks arbitrary: n)
  case (Cons kn networks)
  obtain k network where kn: "kn = (k, network)" by force
  show ?case
  proof (cases "network_present addrs network")
    case True
    show ?thesis using Cons.IH [of "AddValidNetworkID (ni_DockerID network) n"] True kn
      by (auto simp: Let_def set_AddValidNetworkID AddValidNetworkID_update)
  next
    case False
    then show ?thesis using Cons.IH [of n] kn by (auto simp: Let_def)
  qed
qed simp

lemma serve_known:
  assumes "\<And>k m. m_Answer m \<noteq> [] \<Longrightarrow> m_Answer (Truncate D k m) \<noteq> []"
  shows "answers q \<noteq> [] \<or> m_Answer msg \<noteq> [] \<Longrightarrow> serve_questions D answers network r (q # qs) msg w =
    (Ok (foldl (\<lambda>m q. Truncate D (max_size D network r) (m\<lparr>m_Answer := m_Answer m @ answers q\<rparr>)) msg (q # qs)), w)"
proof (induction qs arbitrary: q msg)
  case Nil
  then show ?case by (auto simp: Let_def)
next
  case (Cons q' qs)
  let ?m = "Truncate D (max_size D network r) (msg\<lparr>m_Answer := m_Answer msg @ answers q\<rparr>)"
  have "m_Answer ?m \<noteq> []" by (rule assms) (use Cons.prems in auto)
  then have "serve_questions D answers network r (q' # qs) ?m w =
    (Ok (foldl (\<lambda>m q. Truncate D (max_size D network r) (m\<lparr>m_Answer := m_Answer m @ answers q\<rparr>)) ?m (q' # qs)), w)"
    by (intro Cons.IH) simp
  moreover have "serve_questions D answers network r (q # q' # qs) msg w = serve_questions D answers network r (q' # qs) ?m w"
    using Cons.prems by (auto simp: Let_def simp del: serve_questions.simps(2) simp: serve_questions.simps(2) [of _ _ _ _ q])
  ultimately show ?case by simp
qed

section \<open>Stopping\<close>

definition stopping_init :: "nat \<Rightarrow> stopping" where
  "stopping_init c = \<lparr>sp_init = Checking c, sp_stop = StopIdle, sp_locked = False, sp_cancelled = False\<rparr>"

abbreviation reachable_stop :: "nat \<Rightarrow> nat \<Rightarrow> stopping \<Rightarrow> bool" where
  "reachable_stop k c \<equiv> (lock_step k)\<^sup>*\<^sup>* (stopping_init c)"

definition stop_inv :: "nat \<Rightarrow> stopping \<Rightarrow> bool" where
  "stop_inv k s \<longleftrightarrow> (sp_locked s = (sp_stop s = StopWaiting)) \<and> (\<forall>j. sp_init s = Adding j \<longrightarrow> j \<le> k)"

inductive_cases lock_stepE: "lock_step k s s'"

lemma stop_inv_step: "lock_step k s s' \<Longrightarrow> stop_inv k s \<Longrightarrow> stop_inv k s'"
  by (erule lock_stepE) (auto simp: stop_inv_def)

lemma stop_inv_reachable: "reachable_stop k c s \<Longrightarrow> stop_inv k s"
proof (induction rule: rtranclp_induct)
  case base
  then show ?case by (simp add: stopping_init_def stop_inv_def)
qed (rule stop_inv_step)

lemma checking_reachable: "reachable_stop k c \<lparr>sp_init = Checking 0, sp_stop = StopIdle, sp_locked = False, sp_cancelled = False\<rparr>"
proof (induction c)
  case 0
  then show ?case by (simp add: stopping_init_def)
next
  case (Suc c)
  have "lock_step k (stopping_init (Suc c)) (stopping_init c)"
    using lock_step.check [of "stopping_init (Suc c)" c k] by (simp add: stopping_init_def)
  then show ?case using Suc by (rule converse_rtranclp_into_rtranclp)
qed

lemma stuck_reachable:
  "reachable_stop (Suc j) c \<lparr>sp_init = Adding (Suc j), sp_stop = StopWaiting, sp_locked = True, sp_cancelled = True\<rparr>"
proof -
  let ?a = "\<lparr>sp_init = Adding (Suc j), sp_stop = StopIdle, sp_locked = False, sp_cancelled = False\<rparr>"
  have "lock_step (Suc j) \<lparr>sp_init = Checking 0, sp_stop = StopIdle, sp_locked = False, sp_cancelled = False\<rparr> ?a"
    using lock_step.begin_adding [of "\<lparr>sp_init = Checking 0, sp_stop = StopIdle, sp_locked = False, sp_cancelled = False\<rparr>" "Suc j"]
    by simp
  moreover have "lock_step (Suc j) ?a \<lparr>sp_init = Adding (Suc j), sp_stop = StopWaiting, sp_locked = True, sp_cancelled = True\<rparr>"
    using lock_step.stop_waits [of ?a "Suc j"] by simp
  ultimately show ?thesis using checking_reachable [of "Suc j" c] by (meson rtranclp.rtrancl_into_rtrancl)
qed

lemma stuck_iff:
  assumes "stop_inv k s"
  shows "(\<forall>s'. \<not> lock_step k s s') \<longleftrightarrow>
    (sp_init s = InitEnded \<and> sp_stop s = StopEnded) \<or> (\<exists>j. sp_init s = Adding (Suc j) \<and> sp_stop s = StopWaiting)"
proof
  assume n: "\<forall>s'. \<not> lock_step k s s'"
  have "sp_init s \<noteq> Checking j" for j using n lock_step.check lock_step.begin_adding by (cases j) blast+
  moreover have "sp_init s \<noteq> Adding 0" using n lock_step.end_adding by blast
  ultimately consider (add) j where "sp_init s = Adding (Suc j)" | (ended) "sp_init s = InitEnded"
    by (metis init_pc.exhaust not0_implies_Suc)
  then show "(sp_init s = InitEnded \<and> sp_stop s = StopEnded) \<or> (\<exists>j. sp_init s = Adding (Suc j) \<and> sp_stop s = StopWaiting)"
  proof cases
    case add
    then have "sp_locked s" using n lock_step.add by blast
    then show ?thesis using add assms by (simp add: stop_inv_def)
  next
    case ended
    then have "sp_stop s \<noteq> StopWaiting" "sp_stop s = StopIdle \<Longrightarrow> sp_locked s"
      using n lock_step.stop_returns lock_step.stop_at_once by blast+
    then show ?thesis using ended assms by (cases "sp_stop s") (auto simp: stop_inv_def)
  qed
next
  assume "(sp_init s = InitEnded \<and> sp_stop s = StopEnded) \<or> (\<exists>j. sp_init s = Adding (Suc j) \<and> sp_stop s = StopWaiting)"
  then show "\<forall>s'. \<not> lock_step k s s'"
    using assms by (auto simp: stop_inv_def elim!: lock_stepE)
qed

section \<open>Properties\<close>

text \<open>
  C15: After a successful replacement of the rules the chain for outgoing queries redirects to the current
  ports of the two servers and contains no other rule, whether it is the first start in the namespace
  or not; the first start also empties the two chains of Docker. The jumps to the plugin's chains and
  the rules for the answers are put in front of what is there: a further start adds them again, and
  those for older ports stay.
\<close>

theorem replaceDNATSNATRules_ok:
  assumes "sandbox_iptables H view norm" "replaceDNATSNATRules fuel H n w = Some (Ok u, w')"
  shows "(\<exists>rs. view w' ''FLANNEL_DNS_OUTPUT'' = Some rs \<and> mset rs =
        {#norm (dnat_rule (ns_listenIP n) ''tcp'' (ns_portTCP n)), norm (dnat_rule (ns_listenIP n) ''udp'' (ns_portUDP n))#})
    \<and> (view w ''FLANNEL_DNS_OUTPUT'' = None \<longrightarrow> (\<forall>c \<in> set dockerChains. view w' c = Some []))
    \<and> view w' ''FLANNEL_DNS_POSTROUTING'' = Some (norm (snat_rule (ns_listenIP n) ''udp'' (ns_portUDP n)) #
        norm (snat_rule (ns_listenIP n) ''tcp'' (ns_portTCP n)) # old_rules (view w) ''FLANNEL_DNS_POSTROUTING'')
    \<and> view w' ''OUTPUT'' = Some (norm (jump_rule ''FLANNEL_DNS_OUTPUT'') # old_rules (view w) ''OUTPUT'')
    \<and> view w' ''POSTROUTING'' = Some (norm (jump_rule ''FLANNEL_DNS_POSTROUTING'') # old_rules (view w) ''POSTROUTING'')"
proof (cases "view w ''FLANNEL_DNS_OUTPUT'' = None")
  case True
  note R = sandbox_iptables.replace_first [OF assms(1) True assms(2)] and F = sandbox_iptables.dns_rules_fold [OF assms(1)]
  show ?thesis using R True unfolding F by (simp add: dockerChains_def old_rules_def)
next
  case False
  obtain rs where R: "view w' = (fold (with_rule norm) (dns_rules n) (view w))(''FLANNEL_DNS_OUTPUT'' \<mapsto> rs)"
    "mset rs = {#norm (dnat_rule (ns_listenIP n) ''udp'' (ns_portUDP n)), norm (dnat_rule (ns_listenIP n) ''tcp'' (ns_portTCP n))#}"
    using sandbox_iptables.replace_again [OF assms(1) False assms(2)] by blast
  note F = sandbox_iptables.dns_rules_fold [OF assms(1)]
  have "view w ''FLANNEL_DNS_OUTPUT'' = None \<longrightarrow> (\<forall>c \<in> set dockerChains. view w' c = Some [])" using False by blast
  then show ?thesis using R(2) unfolding R(1) F by (intro conjI) (simp_all add: add_mset_commute)
qed

definition demo_nameserver :: nameserver where
  "demo_nameserver = (the_ok (fst (NewNameserver mem_sandbox ''/ns'' False \<lparr>sm_chains = [], sm_clock = 0\<rparr>)))
     \<lparr>ns_portTCP := 53, ns_portUDP := 54\<rparr>"

definition demo_chains :: smem where
  "demo_chains = \<lparr>sm_chains = [(''DOCKER_OUTPUT'', [[''a'']]), (''DOCKER_POSTROUTING'', [[''b'']])], sm_clock = 0\<rparr>"

lemma replaceDNATSNATRules_ok_witness:
  "\<exists>u w'. replaceDNATSNATRules 1 mem_sandbox demo_nameserver demo_chains = Some (Ok u, w') \<and> sm_view w' ''DOCKER_OUTPUT'' = Some []"
proof -
  let ?r = "replaceDNATSNATRules 1 mem_sandbox demo_nameserver demo_chains"
  have "case ?r of Some (Ok _, _) \<Rightarrow> True | _ \<Rightarrow> False" by code_simp
  then obtain u w' where r: "?r = Some (Ok u, w')" by (auto split: option.splits prod.splits res.splits)
  have "sm_view demo_chains ''FLANNEL_DNS_OUTPUT'' = None" by (simp add: sm_view_def demo_chains_def)
  then have "\<forall>c \<in> set dockerChains. sm_view w' c = Some []"
    using replaceDNATSNATRules_ok [OF mem_iptables.sandbox_iptables_axioms r] by blast
  then show ?thesis using r by (auto simp: dockerChains_def)
qed






section \<open>Witnesses\<close>

text \<open>A resolver's messages: answers are strings, the connection counts messages written.\<close>

definition demo_dns_lib :: "(string, nat, string list) dns_lib" where
  "demo_dns_lib = \<lparr>TypeA = 1, TypePTR = 12, MinMsgSize = 512, MaxMsgSize = 65535, RcodeServerFailure = 2,
     zero_msg = \<lparr>m_Question = [], m_Answer = [], m_Ns = [], m_Extra = [], m_Authoritative = False,
       m_RecursionAvailable = False, m_rest = 0\<rparr>,
     rr_of = (\<lambda>a. ''A''),
     SetReply = (\<lambda>m r. m\<lparr>m_Question := m_Question r\<rparr>),
     SetRcode = (\<lambda>m r c. m\<lparr>m_rest := c\<rparr>),
     Truncate = (\<lambda>k m. m), IsEdns0 = (\<lambda>m. None),
     Exchange = (\<lambda>p m a w. (Err (Foreign p), ''exchange'' # w)),
     WriteMsg = (\<lambda>m w. (Ok (), ''write'' # w))\<rparr>"

definition demo_query :: "string \<Rightarrow> nat \<Rightarrow> (string, nat) dns_msg" where
  "demo_query name t = \<lparr>m_Question = [\<lparr>q_Name = name, q_Qtype = t\<rparr>], m_Answer = [], m_Ns = [], m_Extra = [],
     m_Authoritative = False, m_RecursionAvailable = False, m_rest = 0\<rparr>"

definition demo_valid :: nameserver where
  "demo_valid = AddValidNetworkID ''1'' (AddValidNetworkID ''3'' demo_nameserver)"

definition demo_serve :: "string \<Rightarrow> nat \<Rightarrow> unit res \<times> string list" where
  "demo_serve name t = ServeDNS demo_dns_lib dns_ref (\<lambda>lt xs. xs) no_services (demo_resolver False) demo_valid
     ''udp'' (demo_query name t) []"

lemma demo_known: "local_answers demo_dns_lib dns_ref (\<lambda>lt xs. xs) no_services (demo_resolver False)
   (cm_Keys (ns_validNetworkIDs demo_valid)) \<lparr>q_Name = ''web.'', q_Qtype = 1\<rparr> \<noteq> []"
  by code_simp

lemma demo_unknown: "local_answers demo_dns_lib L pdq h rs valid \<lparr>q_Name = ''web.'', q_Qtype = 28\<rparr> = []"
  by (simp add: local_answers_def demo_dns_lib_def)


definition demo_dns_networks :: "(string, NetworkInfo) gomap" where
  "demo_dns_networks = [(''a'', \<lparr>ni_DockerID = ''1'', ni_FlannelID = [], ni_Subnet = ''10.1.0.0/16'', ni_Name = ''a''\<rparr>),
     (''b'', \<lparr>ni_DockerID = ''2'', ni_FlannelID = [], ni_Subnet = ''10.2.0.0/16'', ni_Name = ''b''\<rparr>)]"


end
