(* ===== verification/Spec2Isabelle.thy ===== *)
theory Spec2Isabelle
  imports Ipam_Space Dns_Resolver Service_Fwmarks Docker_Data Service_Lb Flannel_Network Service_Lbs_Correct Dns_Server_Correct
begin

text \<open>
  A verification library for the flannel network plugin for Docker.
\<close>

end
